(* ===== verification/Ledger_Prelude.thy ===== *)
theory Ledger_Prelude
  imports Complex_Main "HOL-Library.Word" "HOL-Library.AList" "HOL-Library.Multiset"
    "HOL-Library.List_Lexorder"
    "HOL-Library.Char_ord"
begin

text \<open>
  What every component shares: the types that stand for Python's and PostgreSQL's basic values, the
  string routines the source uses on them (decimal rendering, hexadecimal, the
  \<^verbatim>\<open>^[0-9a-f]{64}$\<close> test), and the generic lemmas on delimited texts, sorted lists and
  association lists.

  A Python \<open>str\<close> is represented by its UTF-8 encoding, a list of bytes (\<open>char\<close> is an 8-bit
  character), so \<open>s.encode("utf-8")\<close> is the identity and bytewise order is code point order. A
  Python \<open>bytes\<close> value is a list of the same characters. A Python \<open>int\<close> is an \<open>int\<close>.
  A Python \<open>dict\<close> whose iteration order matters is an association list: \<open>AList.update\<close>
  overwrites in place or appends, which is what a \<open>dict\<close> does.
\<close>

section \<open>Types and collections of facts\<close>

type_synonym bytes = "char list"

named_theorems text_inj
  \<open>injectivity and shape of rendered texts\<close>

named_theorems ledger_simps
  \<open>unfolding rules of the components' small operations\<close>

section \<open>Results\<close>

definition res_bind :: "'e + 'a \<Rightarrow> ('a \<Rightarrow> 'e + 'b) \<Rightarrow> 'e + 'b" where
  "res_bind r f = (case r of Inl e \<Rightarrow> Inl e | Inr a \<Rightarrow> f a)"

lemma res_bind_simps [simp]:
  "res_bind (Inl e) f = Inl e" "res_bind (Inr a) f = f a"
  by (simp_all add: res_bind_def)

lemma res_bind_Inr_iff: "res_bind r f = Inr b \<longleftrightarrow> (\<exists>a. r = Inr a \<and> f a = Inr b)"
  by (cases r) auto

fun res_map_list :: "('a \<Rightarrow> 'e + 'b) \<Rightarrow> 'a list \<Rightarrow> 'e + 'b list" where
  "res_map_list f [] = Inr []"
| "res_map_list f (x # xs) =
     (case f x of Inl e \<Rightarrow> Inl e
      | Inr y \<Rightarrow> (case res_map_list f xs of Inl e \<Rightarrow> Inl e | Inr ys \<Rightarrow> Inr (y # ys)))"

lemma res_map_list_Inr:
  "(\<And>x. x \<in> set xs \<Longrightarrow> f x = Inr (g x)) \<Longrightarrow> res_map_list f xs = Inr (map g xs)"
  by (induction xs) auto

lemma res_map_list_InrD: "res_map_list f xs = Inr ys \<Longrightarrow> list_all2 (\<lambda>x y. f x = Inr y) xs ys"
  by (induction xs arbitrary: ys) (auto split: sum.splits)

section \<open>Decimal rendering of integers\<close>

definition digit_char :: "nat \<Rightarrow> char" where
  "digit_char n = char_of (48 + n)"

fun dec_nat :: "nat \<Rightarrow> string" where
  "dec_nat n = (if n < 10 then [digit_char n] else dec_nat (n div 10) @ [digit_char (n mod 10)])"

declare dec_nat.simps [simp del]

definition str_int :: "int \<Rightarrow> string" where
  "str_int i = (if i < 0 then CHR ''-'' # dec_nat (nat (- i)) else dec_nat (nat i))"

definition is_digit :: "char \<Rightarrow> bool" where
  "is_digit c \<longleftrightarrow> 48 \<le> (of_char c :: nat) \<and> (of_char c :: nat) \<le> 57"

lemma of_char_digit: "n < 10 \<Longrightarrow> (of_char (digit_char n) :: nat) = 48 + n"
  by (simp add: digit_char_def)

lemma is_digit_digit_char: "n < 10 \<Longrightarrow> is_digit (digit_char n)"
  by (simp add: is_digit_def of_char_digit)

lemma digit_char_inj: "m < 10 \<Longrightarrow> n < 10 \<Longrightarrow> digit_char m = digit_char n \<longleftrightarrow> m = n"
  by (metis add_left_cancel of_char_digit)

lemma dec_nat_digits: "c \<in> set (dec_nat n) \<Longrightarrow> is_digit c"
proof (induction n rule: dec_nat.induct)
  case (1 n)
  then show ?case
    by (subst (asm) dec_nat.simps [of n]) (auto split: if_splits simp: is_digit_digit_char)
qed

lemma dec_nat_nonempty [simp]: "dec_nat n \<noteq> []"
  by (subst dec_nat.simps) simp

lemma dec_nat_inj [text_inj]: "dec_nat m = dec_nat n \<longleftrightarrow> m = n"
proof
  show "dec_nat m = dec_nat n \<Longrightarrow> m = n"
  proof (induction m arbitrary: n rule: dec_nat.induct)
    case (1 m)
    have len: "\<And>k. k < 10 \<longleftrightarrow> length (dec_nat k) = 1"
      by (subst dec_nat.simps) simp
    show ?case
    proof (cases "m < 10")
      case True
      with "1.prems" len have n: "n < 10" by metis
      with True "1.prems" have "digit_char m = digit_char n"
        by (simp add: dec_nat.simps [of m] dec_nat.simps [of n])
      with True n show ?thesis by (simp add: digit_char_inj)
    next
      case False
      with "1.prems" len have n: "\<not> n < 10" by metis
      with False "1.prems" have eq: "dec_nat (m div 10) = dec_nat (n div 10)"
        and d: "digit_char (m mod 10) = digit_char (n mod 10)"
        by (simp_all add: dec_nat.simps [of m] dec_nat.simps [of n])
      from "1.IH" [OF False eq] have "m div 10 = n div 10" .
      moreover from d have "m mod 10 = n mod 10" by (simp add: digit_char_inj)
      ultimately show ?thesis by (metis div_mult_mod_eq)
    qed
  qed
qed simp

lemma minus_not_digit: "\<not> is_digit (CHR ''-'')"
  by (simp add: is_digit_def)

lemma str_int_chars: "c \<in> set (str_int i) \<Longrightarrow> is_digit c \<or> c = CHR ''-''"
  by (auto simp: str_int_def split: if_splits dest: dec_nat_digits)

lemma str_int_nonempty [simp]: "str_int i \<noteq> []"
  by (simp add: str_int_def)

lemma str_int_inj [text_inj]: "str_int i = str_int j \<longleftrightarrow> i = j"
proof
  assume eq: "str_int i = str_int j"
  have hd_neg: "\<And>k. k < 0 \<longleftrightarrow> hd (str_int k) = CHR ''-''"
    by (metis dec_nat_digits dec_nat_nonempty hd_in_set list.sel(1) minus_not_digit str_int_def)
  show "i = j"
  proof (cases "i < 0")
    case True
    with eq hd_neg have "j < 0" by metis
    with True eq show ?thesis by (simp add: str_int_def dec_nat_inj)
  next
    case False
    with eq hd_neg have "\<not> j < 0" by metis
    with False eq show ?thesis by (simp add: str_int_def dec_nat_inj)
  qed
qed simp

lemma sep_not_in_str_int [simp]:
  "CHR ''|'' \<notin> set (str_int i)" "CHR '':'' \<notin> set (str_int i)"
  "CHR ''|'' \<notin> set (dec_nat n)" "CHR '':'' \<notin> set (dec_nat n)"
  by (auto dest!: str_int_chars dec_nat_digits simp: is_digit_def)

text \<open>\<open>int(text)\<close> on a text of ASCII digits.\<close>

definition digit_val :: "char \<Rightarrow> nat" where
  "digit_val c = (of_char c :: nat) - 48"

definition dec_value :: "string \<Rightarrow> nat" where
  "dec_value s = foldl (\<lambda>n c. 10 * n + digit_val c) 0 s"

definition all_digits :: "string \<Rightarrow> bool" where
  "all_digits s \<longleftrightarrow> s \<noteq> [] \<and> list_all is_digit s"

lemma dec_value_dec_nat [simp]: "dec_value (dec_nat n) = n"
proof (induction n rule: dec_nat.induct)
  case (1 n)
  show ?case
  proof (cases "n < 10")
    case True
    then show ?thesis by (simp add: dec_nat.simps [of n] dec_value_def digit_val_def of_char_digit)
  next
    case False
    then have "dec_value (dec_nat n) = 10 * dec_value (dec_nat (n div 10)) + n mod 10"
      by (simp add: dec_nat.simps [of n] dec_value_def digit_val_def of_char_digit)
    with 1 False show ?thesis by simp
  qed
qed

lemma all_digits_dec_nat [simp]: "all_digits (dec_nat n)"
  by (auto simp: all_digits_def list_all_iff dec_nat_digits)

section \<open>Delimited texts\<close>

lemma delim_split [text_inj]:
  "c \<notin> set a \<Longrightarrow> c \<notin> set b \<Longrightarrow> a @ c # x = b @ c # y \<longleftrightarrow> a = b \<and> x = y"
proof (induction a arbitrary: b)
  case Nil
  then show ?case by (cases b) auto
next
  case (Cons z a)
  then show ?case by (cases b) auto
qed

text \<open>Two lists rendered with a separator that occurs in none of their items are equal.\<close>

lemma append_eq_length: "length a = length b \<Longrightarrow> a @ x = b @ y \<longleftrightarrow> a = b \<and> x = y"
  by simp

section \<open>Hexadecimal\<close>

definition hex_digit :: "nat \<Rightarrow> char" where
  "hex_digit n = (if n < 10 then char_of (48 + n) else char_of (87 + n))"

definition is_hex :: "char \<Rightarrow> bool" where
  "is_hex c \<longleftrightarrow> (let k = (of_char c :: nat) in (48 \<le> k \<and> k \<le> 57) \<or> (97 \<le> k \<and> k \<le> 102))"

definition hex_val :: "char \<Rightarrow> nat" where
  "hex_val c = (let k = (of_char c :: nat) in if k \<le> 57 then k - 48 else k - 87)"

definition hex_byte :: "char \<Rightarrow> string" where
  "hex_byte c = [hex_digit ((of_char c :: nat) div 16), hex_digit ((of_char c :: nat) mod 16)]"

text \<open>\<open>bytes.hex()\<close> and \<open>hexdigest()\<close>: two lower-case digits per byte.\<close>

definition hex :: "bytes \<Rightarrow> string" where
  "hex bs = concat (map hex_byte bs)"

text \<open>\<open>bytes.fromhex\<close> on lower-case digits without white space.\<close>

fun fromhex :: "string \<Rightarrow> bytes" where
  "fromhex (a # b # r) = char_of (16 * hex_val a + hex_val b) # fromhex r"
| "fromhex _ = []"

text \<open>The strict reading of 64 lower-case hexadecimal characters (PostgreSQL's \<open>$\<close>).\<close>

definition hex64 :: "string \<Rightarrow> bool" where
  "hex64 s \<longleftrightarrow> length s = 64 \<and> list_all is_hex s"

text \<open>
  What Python's \<^verbatim>\<open>re.match("^[0-9a-f]{64}$", s)\<close> accepts: \<open>$\<close> also matches just before a
  final line feed, so one trailing line feed is let through.
\<close>

definition match_hex64 :: "string \<Rightarrow> bool" where
  "match_hex64 s \<longleftrightarrow> hex64 s \<or> (length s = 65 \<and> hex64 (take 64 s) \<and> s ! 64 = CHR 0x0A)"

lemma hex64_match [simp]: "hex64 s \<Longrightarrow> match_hex64 s"
  by (simp add: match_hex64_def)

lemma of_char_hex_digit: "n < 16 \<Longrightarrow> (of_char (hex_digit n) :: nat) = (if n < 10 then 48 + n else 87 + n)"
  by (simp add: hex_digit_def)

lemma is_hex_hex_digit: "n < 16 \<Longrightarrow> is_hex (hex_digit n)"
  by (simp add: is_hex_def of_char_hex_digit Let_def)

lemma hex_val_hex_digit: "n < 16 \<Longrightarrow> hex_val (hex_digit n) = n"
  by (simp add: hex_val_def of_char_hex_digit Let_def)

lemma hex_digit_hex_val: "is_hex c \<Longrightarrow> hex_digit (hex_val c) = c"
proof -
  assume "is_hex c"
  then have "(of_char (hex_digit (hex_val c)) :: nat) = of_char c"
    by (auto simp: is_hex_def hex_val_def hex_digit_def Let_def)
  then show ?thesis by simp
qed

lemma hex_val_bound: "is_hex c \<Longrightarrow> hex_val c < 16"
  by (auto simp: is_hex_def hex_val_def Let_def)

lemma of_char_less_256: "(of_char c :: nat) < 256"
  by (rule nat_of_char_less_256)

lemma hex_Nil [simp]: "hex [] = []"
  by (simp add: hex_def)

lemma hex_Cons: "hex (c # cs) = hex_byte c @ hex cs"
  by (simp add: hex_def)

lemma fromhex_hex [simp]: "fromhex (hex bs) = bs"
proof (induction bs)
  case (Cons c cs)
  have "(of_char c :: nat) div 16 < 16" using of_char_less_256 [of c] by (simp add: less_mult_imp_div_less)
  then show ?case
    using Cons by (simp add: hex_Cons hex_byte_def hex_val_hex_digit)
qed simp

lemma hex_inj [text_inj]: "hex a = hex b \<longleftrightarrow> a = b"
  by (metis fromhex_hex)

lemma length_hex [simp]: "length (hex bs) = 2 * length bs"
  by (induction bs) (simp_all add: hex_Cons hex_byte_def)

lemma hex_is_hex: "list_all is_hex (hex bs)"
proof (induction bs)
  case (Cons c cs)
  have "(of_char c :: nat) div 16 < 16" using of_char_less_256 [of c] by (simp add: less_mult_imp_div_less)
  then show ?case
    using Cons by (simp add: hex_Cons hex_byte_def is_hex_hex_digit)
qed simp

lemma hex_fromhex: "list_all is_hex s \<Longrightarrow> even (length s) \<Longrightarrow> hex (fromhex s) = s"
proof (induction s rule: fromhex.induct)
  case (1 a b r)
  have "16 * hex_val a + hex_val b < 256"
    using "1.prems"(1) hex_val_bound [of a] hex_val_bound [of b] by simp
  then have "(of_char (char_of (16 * hex_val a + hex_val b) :: char) :: nat) = 16 * hex_val a + hex_val b"
    by simp
  then show ?case
    using 1 hex_val_bound [of b]
    by (simp add: hex_Cons hex_byte_def hex_digit_hex_val)
qed simp_all

lemma hex64_hex: "length bs = 32 \<Longrightarrow> hex64 (hex bs)"
  by (simp add: hex64_def hex_is_hex)

lemma fromhex_inj_hex64: "hex64 a \<Longrightarrow> hex64 b \<Longrightarrow> fromhex a = fromhex b \<longleftrightarrow> a = b"
  by (metis hex_fromhex hex64_def even_numeral)

lemma length_fromhex_hex64: "hex64 a \<Longrightarrow> length (fromhex a) = 32"
proof -
  assume a: "hex64 a"
  then have "length (hex (fromhex a)) = 64"
    by (simp add: hex64_def hex_fromhex del: length_hex)
  then show ?thesis by simp
qed

lemma sep_not_hex64 [simp]: "hex64 s \<Longrightarrow> CHR ''|'' \<notin> set s" "hex64 s \<Longrightarrow> CHR '':'' \<notin> set s"
  by (auto simp: hex64_def list_all_iff is_hex_def Let_def)

definition zeros64 :: string where
  "zeros64 = replicate 64 (CHR ''0'')"

lemma hex64_zeros64 [simp]: "hex64 zeros64"
  by (simp add: hex64_def zeros64_def list_all_iff is_hex_def)

lemma sep_not_match_hex64 [simp]: "match_hex64 s \<Longrightarrow> CHR ''|'' \<notin> set s"
proof -
  assume m: "match_hex64 s"
  show ?thesis
  proof (cases "hex64 s")
    case False
    with m have len: "length s = 65" and pre: "hex64 (take 64 s)" and lf: "s ! 64 = CHR 0x0A"
      by (auto simp: match_hex64_def)
    have "s = take 64 s @ [s ! 64]"
      using len by (metis take_Suc_conv_app_nth take_all eq_imp_le lessI eval_nat_numeral(3) semiring_norm(26) semiring_norm(27) semiring_norm(28))
    moreover have "CHR ''|'' \<notin> set (take 64 s @ [s ! 64])" using sep_not_hex64(1) [OF pre] lf by simp
    ultimately show ?thesis by metis
  qed simp
qed

section \<open>Problem reports\<close>

text \<open>The dictionaries \<^verbatim>\<open>{"check", "subject", "problem"}\<close> every verifier returns.\<close>

record problem =
  p_check :: string
  p_subject :: string
  p_problem :: string

definition mk_problem :: "string \<Rightarrow> string \<Rightarrow> string \<Rightarrow> problem" where
  "mk_problem check subject message = \<lparr>p_check = check, p_subject = subject, p_problem = message\<rparr>"

section \<open>Association lists\<close>

lemma map_of_update: "map_of (AList.update k v al) = (map_of al)(k \<mapsto> v)"
  by (simp add: update_conv')

lemma distinct_map_fst_sort [simp]:
  "distinct (map g (sort_key f xs)) \<longleftrightarrow> distinct (map g xs)"
  by (simp add: distinct_map)

lemma map_of_sort_key [simp]:
  "distinct (map fst xs) \<Longrightarrow> map_of (sort_key f xs) = map_of xs"
  by (rule map_of_inject_set [THEN iffD2]) simp_all

lemma update_members: "kr \<in> set (AList.update k v d) \<Longrightarrow> kr = (k, v) \<or> kr \<in> set d"
  by (induction d) (auto split: if_splits)

lemma delete_members: "kr \<in> set (AList.delete k d) \<Longrightarrow> kr \<in> set d"
  by (induction d) (auto split: if_splits)

lemma update_new: "k \<notin> fst ` set d \<Longrightarrow> AList.update k v d = d @ [(k, v)]"
  by (induction d) auto

section \<open>Sorting\<close>

lemma sort_key_inj_perm:
  assumes "mset xs = mset ys" and "inj_on f (set xs)"
  shows "sort_key f xs = sort_key f ys"
  using assms by (intro sort_key_inj_key_eq) simp_all

lemma sort_key_map: "sort_key f (map g xs) = map g (sort_key (\<lambda>x. f (g x)) xs)"
proof -
  have "insort_key f (g x) (map g ys) = map g (insort_key (\<lambda>x. f (g x)) x ys)" for x ys
    by (induction ys) auto
  then show ?thesis by (induction xs) auto
qed

section \<open>Tables with a key\<close>

lemma find_append: "find P (xs @ ys) = (case find P xs of None \<Rightarrow> find P ys | Some x \<Rightarrow> Some x)"
  by (induction xs) auto

lemma find_key_map:
  "find (\<lambda>h. k h = x) (map (\<lambda>h. if k h = k new then new else h) hs) =
     (if k new = x \<and> x \<in> k ` set hs then Some new else find (\<lambda>h. k h = x) hs)"
proof (induction hs)
  case (Cons a hs)
  then show ?case by (cases "k a = x"; cases "k new = x"; cases "k a = k new") auto
qed simp

lemma find_key_None: "find (\<lambda>h. k h = x) hs = None \<longleftrightarrow> x \<notin> k ` set hs"
  by (auto simp: find_None_iff)

lemma find_key_Some:
  "distinct (map k hs) \<Longrightarrow> find (\<lambda>h. k h = x) hs = Some h \<longleftrightarrow> h \<in> set hs \<and> k h = x"
  by (induction hs) (auto split: if_splits)

lemma find_key_remove:
  "find (\<lambda>h. k h = x) (filter (\<lambda>h. k h \<noteq> y) hs) = (if x = y then None else find (\<lambda>h. k h = x) hs)"
  by (induction hs) auto

lemma map_key_replace [simp]: "map k (map (\<lambda>h. if k h = k new then new else h) hs) = map k hs"
  by simp

end
