(* ===== verification/Sha256.thy ===== *)
theory Sha256
  imports Ledger_Prelude
begin

text \<open>
  \<open>hashlib.sha256\<close>, the one primitive everything else rests on, written out after FIPS 180-4 on
  32-bit words: \<open>sha256\<close> is the digest (32 bytes), \<open>sha256_hex\<close> its \<open>hexdigest()\<close>. The
  definitions compute, and \<open>sha256_abc_prefix\<close> evaluates the first schedule words of the standard's
  one-block example in the kernel.

  Nothing below relies on the digits of the algorithm: the proofs use that a digest has 32 bytes, and
  collision resistance enters as a hypothesis that SHA-256 is injective on the byte strings that
  the two computations at hand hash (\<open>inj_on sha256 S\<close> for an explicit finite \<open>S\<close>), never as
  injectivity outright, which would be false.
\<close>

unbundle bit_operations_syntax

type_synonym u32 = "32 word"

definition rotr32 :: "nat \<Rightarrow> u32 \<Rightarrow> u32" where
  "rotr32 n x = drop_bit n x OR push_bit (32 - n) x"

definition sha_ch :: "u32 \<Rightarrow> u32 \<Rightarrow> u32 \<Rightarrow> u32" where
  "sha_ch x y z = (x AND y) XOR (NOT x AND z)"

definition sha_maj :: "u32 \<Rightarrow> u32 \<Rightarrow> u32 \<Rightarrow> u32" where
  "sha_maj x y z = (x AND y) XOR (x AND z) XOR (y AND z)"

definition sha_big0 :: "u32 \<Rightarrow> u32" where
  "sha_big0 x = rotr32 2 x XOR rotr32 13 x XOR rotr32 22 x"

definition sha_big1 :: "u32 \<Rightarrow> u32" where
  "sha_big1 x = rotr32 6 x XOR rotr32 11 x XOR rotr32 25 x"

definition sha_small0 :: "u32 \<Rightarrow> u32" where
  "sha_small0 x = rotr32 7 x XOR rotr32 18 x XOR drop_bit 3 x"

definition sha_small1 :: "u32 \<Rightarrow> u32" where
  "sha_small1 x = rotr32 17 x XOR rotr32 19 x XOR drop_bit 10 x"

text \<open>The 64 round constants, two to a literal, high word first.\<close>

definition sha_K_pairs :: "64 word list" where
  "sha_K_pairs =
   [0x428a2f9871374491, 0xb5c0fbcfe9b5dba5, 0x3956c25b59f111f1, 0x923f82a4ab1c5ed5,
    0xd807aa9812835b01, 0x243185be550c7dc3, 0x72be5d7480deb1fe, 0x9bdc06a7c19bf174,
    0xe49b69c1efbe4786, 0x0fc19dc6240ca1cc, 0x2de92c6f4a7484aa, 0x5cb0a9dc76f988da,
    0x983e5152a831c66d, 0xb00327c8bf597fc7, 0xc6e00bf3d5a79147, 0x06ca635114292967,
    0x27b70a852e1b2138, 0x4d2c6dfc53380d13, 0x650a7354766a0abb, 0x81c2c92e92722c85,
    0xa2bfe8a1a81a664b, 0xc24b8b70c76c51a3, 0xd192e819d6990624, 0xf40e3585106aa070,
    0x19a4c1161e376c08, 0x2748774c34b0bcb5, 0x391c0cb34ed8aa4a, 0x5b9cca4f682e6ff3,
    0x748f82ee78a5636f, 0x84c878148cc70208, 0x90befffaa4506ceb, 0xbef9a3f7c67178f2]"

definition halves :: "64 word \<Rightarrow> u32 list" where
  "halves x = [ucast (drop_bit 32 x), ucast x]"

definition sha_K :: "u32 list" where
  "sha_K = concat (map halves sha_K_pairs)"

type_synonym sha_state = "u32 \<times> u32 \<times> u32 \<times> u32 \<times> u32 \<times> u32 \<times> u32 \<times> u32"

definition sha_init :: sha_state where
  "sha_init = (0x6a09e667, 0xbb67ae85, 0x3c6ef372, 0xa54ff53a,
               0x510e527f, 0x9b05688c, 0x1f83d9ab, 0x5be0cd19)"

fun sha_round :: "u32 \<times> u32 \<Rightarrow> sha_state \<Rightarrow> sha_state" where
  "sha_round (k, w) (a, b, c, d, e, f, g, h) =
     (let t1 = h + sha_big1 e + sha_ch e f g + k + w; t2 = sha_big0 a + sha_maj a b c
      in (t1 + t2, a, b, c, d + t1, e, f, g))"

text \<open>The message schedule from a window of sixteen words: one word leaves, one is computed.\<close>

fun sha_sched :: "nat \<Rightarrow> u32 list \<Rightarrow> u32 list" where
  "sha_sched 0 w = w"
| "sha_sched (Suc n) w =
     hd w # sha_sched n (tl w @ [sha_small1 (w ! 14) + w ! 9 + sha_small0 (w ! 1) + w ! 0])"

definition byte_word :: "char \<Rightarrow> u32" where
  "byte_word c = word_of_int (of_char c)"

fun sha_words :: "bytes \<Rightarrow> u32 list" where
  "sha_words (a # b # c # d # r) =
     (push_bit 24 (byte_word a) OR push_bit 16 (byte_word b) OR push_bit 8 (byte_word c) OR byte_word d)
       # sha_words r"
| "sha_words _ = []"

fun sha_add :: "sha_state \<Rightarrow> sha_state \<Rightarrow> sha_state" where
  "sha_add (a, b, c, d, e, f, g, h) (a', b', c', d', e', f', g', h') =
     (a + a', b + b', c + c', d + d', e + e', f + f', g + g', h + h')"

definition sha_compress :: "bytes \<Rightarrow> sha_state \<Rightarrow> sha_state" where
  "sha_compress blk st = sha_add st (fold sha_round (zip sha_K (sha_sched 48 (sha_words blk))) st)"

function sha_blocks :: "bytes \<Rightarrow> sha_state \<Rightarrow> sha_state" where
  "sha_blocks bs st =
     (if bs = [] then st else sha_blocks (drop 64 bs) (sha_compress (take 64 bs) st))"
  by pat_completeness auto
termination
  by (relation "measure (\<lambda>(bs, st). length bs)") auto

declare sha_blocks.simps [simp del]

definition word_bytes :: "u32 \<Rightarrow> bytes" where
  "word_bytes w = map (\<lambda>i. char_of (uint (drop_bit i w))) [24, 16, 8, 0]"

definition len_bytes :: "nat \<Rightarrow> bytes" where
  "len_bytes n = (let k = (8 * int n) mod 2 ^ 64
                  in map (\<lambda>i. char_of (k div 2 ^ i)) [56, 48, 40, 32, 24, 16, 8, 0])"

definition sha_pad :: "bytes \<Rightarrow> bytes" where
  "sha_pad m = m @ [CHR 0x80] @ replicate ((119 - length m mod 64) mod 64) (CHR 0x00)
                 @ len_bytes (length m)"

definition sha256 :: "bytes \<Rightarrow> bytes" where
  "sha256 m = (case sha_blocks (sha_pad m) sha_init of
                 (a, b, c, d, e, f, g, h) \<Rightarrow> concat (map word_bytes [a, b, c, d, e, f, g, h]))"

text \<open>\<open>hashlib.sha256(x).hexdigest()\<close>\<close>

definition sha256_hex :: "bytes \<Rightarrow> string" where
  "sha256_hex m = hex (sha256 m)"

lemma length_word_bytes [simp]: "length (word_bytes w) = 4"
  by (simp add: word_bytes_def)

lemma length_sha256 [simp]: "length (sha256 m) = 32"
  by (simp add: sha256_def split: prod.split)

lemma hex64_sha256_hex [simp]: "hex64 (sha256_hex m)"
  by (simp add: sha256_hex_def hex64_hex)

lemma length_sha256_hex [simp]: "length (sha256_hex m) = 64"
  by (simp add: sha256_hex_def)

lemma sha256_hex_nonempty: "sha256_hex m \<noteq> []"
  by (metis length_sha256_hex list.size(3) zero_neq_numeral)

lemma sha256_hex_eq_iff: "sha256_hex a = sha256_hex b \<longleftrightarrow> sha256 a = sha256 b"
  by (simp add: sha256_hex_def hex_inj)

lemma sha256_hex_injD:
  "inj_on sha256 S \<Longrightarrow> a \<in> S \<Longrightarrow> b \<in> S \<Longrightarrow> sha256_hex a = sha256_hex b \<longleftrightarrow> a = b"
  by (auto simp: sha256_hex_eq_iff dest: inj_onD)

lemma sha_words_abc:
  "sha_words (take 64 (sha_pad ''abc'')) = 0x61626380 # replicate 14 0 @ [24]"
  by code_simp

lemma sha256_abc_prefix:
  "sha_round (hd sha_K, hd (sha_words (take 64 (sha_pad ''abc'')))) sha_init =
     (0x5d6aebcd, 0x6a09e667, 0xbb67ae85, 0x3c6ef372, 0xfa2a4622, 0x510e527f, 0x9b05688c, 0x1f83d9ab)"
  by code_simp

end
