(* ===== verification/Blocks.thy ===== *)
theory Blocks
  imports Sha256
begin

text \<open>
  Continuity Blocks, hashing only: \<^verbatim>\<open>app/blocks.py\<close> (the recursive RFC 6962 definition and the
  block hash) and the two SQL functions of \<^verbatim>\<open>app/pg_schema.py\<close> that compute the same values in the
  database (\<open>jarvis_merkle_root\<close>, level by level, and \<open>jarvis_block_hash\<close>).

  The lemmas show that the two algorithms agree, that a root binds the list it was computed from and
  that a block hash binds every field, and what the Python check lets through that the database does
  not (a trailing line feed).
\<close>

section \<open>app/blocks.py\<close>

definition GENESIS_HASH :: string where
  "GENESIS_HASH = replicate 64 (CHR ''0'')"

text \<open>
  \<open>bytes.fromhex\<close> skips the line feed that the regular expression lets through, so the value is
  that of the first 64 characters.
\<close>

definition check_hex64 :: "string \<Rightarrow> string \<Rightarrow> string + bytes" where
  "check_hex64 value what =
     (if \<not> match_hex64 value then Inl (what @ '' must be 64 lowercase hex characters'')
      else Inr (fromhex (take 64 value)))"

definition leaf_hash :: "string \<Rightarrow> string + bytes" where
  "leaf_hash row_hash =
     res_bind (check_hex64 row_hash ''row_hash'') (\<lambda>raw. Inr (sha256 (CHR 0x00 # raw)))"

definition node_hash :: "bytes \<Rightarrow> bytes \<Rightarrow> bytes" where
  "node_hash left right = sha256 (CHR 0x01 # left @ right)"

text \<open>The loop \<^verbatim>\<open>k = 1; while k * 2 < n: k *= 2\<close>.\<close>

function split_k :: "nat \<Rightarrow> nat \<Rightarrow> nat" where
  "split_k k n = (if 0 < k \<and> k * 2 < n then split_k (k * 2) n else k)"
  by pat_completeness auto
termination
  by (relation "measure (\<lambda>(k, n). n - k)") auto

declare split_k.simps [simp del]

lemma split_k_bounds: "0 < k \<Longrightarrow> k < n \<Longrightarrow> k \<le> split_k k n \<and> split_k k n < n \<and> n \<le> 2 * split_k k n"
proof (induction k n rule: split_k.induct)
  case (1 k n)
  then show ?case by (cases "k * 2 < n") (auto simp: split_k.simps [of k n])
qed

lemma split_k_pow2: "k = 2 ^ i \<Longrightarrow> \<exists>j. split_k k n = 2 ^ j"
proof (induction k n arbitrary: i rule: split_k.induct)
  case (1 k n)
  show ?case
  proof (cases "k * 2 < n")
    case True
    from "1.prems" have k: "k * 2 = 2 ^ Suc i" "0 < k" by simp_all
    with True "1.IH" [of "Suc i"] have "\<exists>j. split_k (k * 2) n = 2 ^ j" by blast
    with True k(2) show ?thesis by (subst split_k.simps) simp
  next
    case False
    then have "split_k k n = k" by (simp add: split_k.simps [of k n])
    with "1.prems" show ?thesis by blast
  qed
qed

text \<open>
  The tree over already-hashed leaves. Both callers refuse the empty list before they call it (the
  Python recursion would not return on it); its value here is never used.
\<close>

function mth :: "bytes list \<Rightarrow> bytes" where
  "mth hashes =
     (if length hashes = 0 then []
      else if length hashes = 1 then hashes ! 0
      else let k = split_k 1 (length hashes)
           in node_hash (mth (take k hashes)) (mth (drop k hashes)))"
  by pat_completeness auto
termination
proof (relation "measure length")
  fix hashes :: "bytes list" and k
  assume "\<not> length hashes = 0" "\<not> length hashes = 1" "k = split_k 1 (length hashes)"
  moreover from this have "1 < length hashes" by linarith
  moreover from calculation have "1 \<le> k \<and> k < length hashes"
    using split_k_bounds [of 1 "length hashes"] by simp
  ultimately show "(take k hashes, hashes) \<in> measure length" "(drop k hashes, hashes) \<in> measure length"
    by simp_all
qed simp

declare mth.simps [simp del]

definition merkle_tree_hash :: "bytes list \<Rightarrow> string + bytes" where
  "merkle_tree_hash leaf_hashes =
     (if leaf_hashes = [] then Inl ''a tree needs at least one leaf'' else Inr (mth leaf_hashes))"

definition merkle_root :: "string list \<Rightarrow> string + string" where
  "merkle_root row_hashes =
     (if row_hashes = [] then Inl ''a block must contain at least one entry''
      else res_bind (res_map_list leaf_hash row_hashes) (\<lambda>ls. Inr (hex (mth ls))))"

text \<open>The fields a block hash commits to.\<close>

record block_fields =
  bf_tenant :: string
  bf_height :: int
  bf_first_seq :: int
  bf_last_seq :: int
  bf_entry_count :: int
  bf_prev :: string
  bf_root :: string
  bf_format :: int

definition block_text :: "block_fields \<Rightarrow> string" where
  "block_text b =
     ''jarvis-block|v'' @ str_int (bf_format b) @ CHR ''|'' #
     dec_nat (length (bf_tenant b)) @ CHR '':'' # bf_tenant b @ CHR ''|'' #
     str_int (bf_height b) @ CHR ''|'' # str_int (bf_first_seq b) @ CHR ''|'' #
     str_int (bf_last_seq b) @ CHR ''|'' # str_int (bf_entry_count b) @ CHR ''|'' #
     bf_prev b @ CHR ''|'' # bf_root b"

definition block_hash :: "block_fields \<Rightarrow> string + string" where
  "block_hash b =
     res_bind (check_hex64 (bf_prev b) ''prev_block_hash'') (\<lambda>_.
     res_bind (check_hex64 (bf_root b) ''entries_root'') (\<lambda>_.
     Inr (sha256_hex (block_text b))))"

section \<open>The SQL functions of app/pg_schema.py\<close>

text \<open>One round of the \<open>WHILE n > 1\<close> loop: pairs are hashed, an unpaired last node is carried up.\<close>

fun pair_level :: "bytes list \<Rightarrow> bytes list" where
  "pair_level (a # b # r) = sha256 (CHR 0x01 # a @ b) # pair_level r"
| "pair_level lvl = lvl"

lemma length_pair_level: "length (pair_level lvl) = (length lvl + 1) div 2"
  by (induction lvl rule: pair_level.induct) auto

function merkle_levels :: "bytes list \<Rightarrow> bytes list" where
  "merkle_levels lvl = (if length lvl > 1 then merkle_levels (pair_level lvl) else lvl)"
  by pat_completeness auto
termination
  by (relation "measure length") (auto simp: length_pair_level)

declare merkle_levels.simps [simp del]

text \<open>
  \<open>decode(leaves[i], 'hex')\<close> is applied to \<open>row_hash\<close> values, which the table's \<open>CHECK\<close> keeps to 64
  lower-case digits. \<open>RAISE EXCEPTION\<close> is the \<open>Inl\<close> branch.
\<close>

definition jarvis_merkle_root :: "string list \<Rightarrow> string + string" where
  "jarvis_merkle_root leaves =
     (if leaves = [] then Inl ''a block must contain at least one entry''
      else Inr (hex (merkle_levels (map (\<lambda>l. sha256 (CHR 0x00 # fromhex l)) leaves) ! 0)))"

definition jarvis_block_hash ::
  "int \<Rightarrow> string \<Rightarrow> int \<Rightarrow> int \<Rightarrow> int \<Rightarrow> int \<Rightarrow> string \<Rightarrow> string \<Rightarrow> string" where
  "jarvis_block_hash fmt tenant height first_seq last_seq entry_count prev_block_hash entries_root =
     sha256_hex (''jarvis-block|v'' @ str_int fmt @ ''|'' @ dec_nat (length tenant) @ '':'' @ tenant @ ''|'' @
       str_int height @ ''|'' @ str_int first_seq @ ''|'' @ str_int last_seq @ ''|'' @
       str_int entry_count @ ''|'' @ prev_block_hash @ ''|'' @ entries_root)"

section \<open>The recursive tree and the level-wise tree agree\<close>

lemma mth_single [simp]: "mth [h] = h"
  by (subst mth.simps) simp

lemma mth_split:
  "1 < length hs \<Longrightarrow>
     mth hs = node_hash (mth (take (split_k 1 (length hs)) hs)) (mth (drop (split_k 1 (length hs)) hs))"
  by (subst mth.simps) (auto simp: Let_def)

lemma pow2_between_unique:
  fixes n :: nat
  assumes "2 ^ i < n" "n \<le> 2 * 2 ^ i" "2 ^ j < n" "n \<le> 2 * 2 ^ j"
  shows "i = j"
proof -
  have "\<not> i < j" if "2 ^ j < n" "n \<le> 2 * 2 ^ i" for i j
  proof
    assume "i < j"
    then have "(2::nat) ^ Suc i \<le> 2 ^ j" by (intro power_increasing) simp_all
    with that show False by simp
  qed
  with assms show ?thesis by (meson linorder_neqE_nat)
qed

lemma split_k_unique:
  assumes "1 < n" "2 ^ i < n" "n \<le> 2 * 2 ^ i"
  shows "split_k 1 n = 2 ^ i"
proof -
  obtain j where j: "split_k 1 n = 2 ^ j" using split_k_pow2 [of 1 0 n] by auto
  with split_k_bounds [of 1 n] assms(1) have "2 ^ j < n" "n \<le> 2 * 2 ^ j" by auto
  with assms have "j = i" by (intro pow2_between_unique) auto
  with j show ?thesis by simp
qed

lemma split_k_half:
  assumes "2 < n"
  shows "2 * split_k 1 ((n + 1) div 2) = split_k 1 n"
proof -
  obtain j where j: "split_k 1 n = 2 ^ j" using split_k_pow2 [of 1 0 n] by auto
  with split_k_bounds [of 1 n] assms have b: "2 ^ j < n" "n \<le> 2 * 2 ^ j" by auto
  with assms obtain i where i: "j = Suc i" by (cases j) auto
  from b i have "2 ^ i < (n + 1) div 2" "(n + 1) div 2 \<le> 2 * 2 ^ i" by auto
  with assms have "split_k 1 ((n + 1) div 2) = 2 ^ i" by (intro split_k_unique) auto
  with i j show ?thesis by simp
qed

lemma pair_level_append: "even (length xs) \<Longrightarrow> pair_level (xs @ ys) = pair_level xs @ pair_level ys"
  by (induction xs rule: pair_level.induct) auto

lemma mth_pair_level: "hs \<noteq> [] \<Longrightarrow> mth (pair_level hs) = mth hs"
proof (induction "length hs" arbitrary: hs rule: less_induct)
  case less
  from less.prems have "0 < length hs" by simp
  then consider "length hs = 1" | "length hs = 2" | "2 < length hs" by linarith
  then show ?case
  proof cases
    case 1
    then obtain a where "hs = [a]" by (cases hs) auto
    then show ?thesis by simp
  next
    case 2
    then obtain a b where hs: "hs = [a, b]" by (metis length_0_conv length_Suc_conv numeral_2_eq_2)
    have "split_k (Suc 0) (Suc (Suc 0)) = Suc 0" by (simp add: split_k.simps)
    with hs mth_split [of hs] show ?thesis by (simp add: node_hash_def)
  next
    case 3
    define k where "k = split_k 1 (length hs)"
    define k' where "k' = split_k 1 ((length hs + 1) div 2)"
    have k: "k = 2 * k'" using split_k_half [of "length hs"] 3 by (simp add: k_def k'_def)
    have kb: "1 \<le> k" "k < length hs" using split_k_bounds [of 1 "length hs"] 3 by (simp_all add: k_def)
    define L where "L = take k hs"
    define R where "R = drop k hs"
    have LR: "hs = L @ R" and lens: "length L = 2 * k'" "0 < length R" "length R < length hs" "length L < length hs"
      using kb k by (simp_all add: L_def R_def)
    have pl: "pair_level hs = pair_level L @ pair_level R"
      using LR lens by (metis pair_level_append dvd_triv_left)
    have len_pl: "length (pair_level hs) = (length hs + 1) div 2" by (rule length_pair_level)
    have "length (pair_level L) = k'" using lens by (simp add: length_pair_level)
    with pl have tk: "take k' (pair_level hs) = pair_level L" "drop k' (pair_level hs) = pair_level R"
      by simp_all
    have "mth (pair_level hs) = node_hash (mth (pair_level L)) (mth (pair_level R))"
      using mth_split [of "pair_level hs"] 3 len_pl tk by (simp add: k'_def)
    also have "\<dots> = node_hash (mth L) (mth R)"
    proof -
      have "L \<noteq> []" "R \<noteq> []" using lens kb k by auto
      then show ?thesis using less.hyps [OF lens(4)] less.hyps [OF lens(3)] by simp
    qed
    also have "\<dots> = mth hs" using mth_split [of hs] 3 by (simp add: L_def R_def k_def)
    finally show ?thesis .
  qed
qed

lemma merkle_levels_mth: "hs \<noteq> [] \<Longrightarrow> merkle_levels hs = [mth hs]"
proof (induction hs rule: merkle_levels.induct)
  case (1 hs)
  show ?case
  proof (cases "length hs > 1")
    case True
    then have "pair_level hs \<noteq> []" using length_pair_level [of hs] by auto
    with 1 True show ?thesis by (simp add: merkle_levels.simps [of hs] mth_pair_level)
  next
    case False
    with 1 obtain a where "hs = [a]" by (cases hs) auto
    then show ?thesis by (simp add: merkle_levels.simps)
  qed
qed

lemma leaf_hash_hex64: "hex64 h \<Longrightarrow> leaf_hash h = Inr (sha256 (CHR 0x00 # fromhex h))"
  by (simp add: leaf_hash_def check_hex64_def hex64_def)

lemma leaf_hashes_hex64:
  "list_all hex64 hs \<Longrightarrow> res_map_list leaf_hash hs = Inr (map (\<lambda>h. sha256 (CHR 0x00 # fromhex h)) hs)"
  by (rule res_map_list_Inr) (simp add: leaf_hash_hex64 list_all_iff)

lemma jarvis_merkle_root_eq_hex: "list_all hex64 hs \<Longrightarrow> jarvis_merkle_root hs = merkle_root hs"
  by (simp add: jarvis_merkle_root_def merkle_root_def leaf_hashes_hex64 merkle_levels_mth)

text \<open>C8: for every list of row hashes, the empty list included, the database's level-by-level
  Merkle root is the root of the recursive RFC 6962 definition in Python.\<close>

theorem jarvis_merkle_root_eq:
  assumes "list_all hex64 hs"
  shows "jarvis_merkle_root hs = merkle_root hs"
  using assms by (rule jarvis_merkle_root_eq_hex)

theorem jarvis_merkle_root_eq_witness:
  "jarvis_merkle_root [zeros64, zeros64, zeros64] = merkle_root [zeros64, zeros64, zeros64]"
  by (rule jarvis_merkle_root_eq) simp

section \<open>What a root and a block hash bind\<close>

text \<open>
  The byte strings hashed while computing a tree over given leaf preimages: the preimages themselves
  (first byte 0) and the node preimages (first byte 1).
\<close>

function mth_inputs :: "bytes list \<Rightarrow> bytes list" where
  "mth_inputs hashes =
     (if length hashes \<le> 1 then []
      else let k = split_k 1 (length hashes)
           in (CHR 0x01 # mth (take k hashes) @ mth (drop k hashes))
                # mth_inputs (take k hashes) @ mth_inputs (drop k hashes))"
  by pat_completeness auto
termination
proof (relation "measure length")
  fix hashes :: "bytes list" and k
  assume "\<not> length hashes \<le> 1" "k = split_k 1 (length hashes)"
  moreover from this have "1 \<le> k \<and> k < length hashes" using split_k_bounds [of 1 "length hashes"] by simp
  ultimately show "(take k hashes, hashes) \<in> measure length" "(drop k hashes, hashes) \<in> measure length"
    by auto
qed simp

declare mth_inputs.simps [simp del]

definition tree_inputs :: "bytes list \<Rightarrow> bytes list" where
  "tree_inputs preimages = preimages @ mth_inputs (map sha256 preimages)"

lemma mth_inputs_split:
  "1 < length hs \<Longrightarrow>
     mth_inputs hs = (let k = split_k 1 (length hs)
       in (CHR 0x01 # mth (take k hs) @ mth (drop k hs)) # mth_inputs (take k hs) @ mth_inputs (drop k hs))"
  by (subst mth_inputs.simps) simp

lemma length_mth: "hs \<noteq> [] \<Longrightarrow> \<forall>h \<in> set hs. length h = 32 \<Longrightarrow> length (mth hs) = 32"
proof (cases "1 < length hs")
  case False
  assume "hs \<noteq> []" "\<forall>h \<in> set hs. length h = 32"
  with False show ?thesis by (cases hs) auto
qed (simp add: mth_split node_hash_def)

text \<open>
  Two trees over hashed leaves (first preimage byte 0) with one root have the same leaves, unless two
  of the byte strings hashed on the way collide. The leaf tag and the node tag keep trees of
  different sizes apart.
\<close>

lemma mth_binding:
  assumes "ps \<noteq> []" "qs \<noteq> []"
    and "\<forall>p \<in> set ps \<union> set qs. p \<noteq> [] \<and> hd p = CHR 0x00"
    and "inj_on sha256 (set (tree_inputs ps) \<union> set (tree_inputs qs))"
    and "mth (map sha256 ps) = mth (map sha256 qs)"
  shows "ps = qs"
  using assms
proof (induction "length ps" arbitrary: ps qs rule: less_induct)
  case less
  let ?I = "set (tree_inputs ps) \<union> set (tree_inputs qs)"
  have node: "\<exists>l r. mth (map sha256 xs) = sha256 (CHR 0x01 # l @ r) \<and> CHR 0x01 # l @ r \<in> set (tree_inputs xs)"
    if "1 < length xs" for xs
    using that by (auto simp: mth_split mth_inputs_split tree_inputs_def node_hash_def Let_def)
  have leaf: "\<exists>p. xs = [p]" if "xs \<noteq> []" "\<not> 1 < length xs" for xs :: "bytes list"
    using that by (cases xs) auto
  have mixed: False
    if c: "1 < length xs" "ys = [p]" "mth (map sha256 xs) = mth (map sha256 ys)" "hd p = CHR 0x00"
      "set (tree_inputs xs) \<union> set (tree_inputs ys) = ?I" for xs ys p
  proof -
    from node [OF c(1)] obtain l r where n: "mth (map sha256 xs) = sha256 (CHR 0x01 # l @ r)"
      "CHR 0x01 # l @ r \<in> ?I" using c(5) by blast
    have "p \<in> ?I" using c by (auto simp: tree_inputs_def)
    moreover have "sha256 p = sha256 (CHR 0x01 # l @ r)" using n c by simp
    ultimately have "p = CHR 0x01 # l @ r" using n(2) less.prems(4) by (meson inj_onD)
    with c(4) show False by simp
  qed
  show ?case
  proof (cases "1 < length ps")
    case False
    with leaf less.prems obtain p where p: "ps = [p]" by blast
    show ?thesis
    proof (cases "1 < length qs")
      case True
      with mixed [of qs ps p] p less.prems show ?thesis by (auto simp: Un_commute)
    next
      case False
      with leaf less.prems obtain q where q: "qs = [q]" by blast
      with p less.prems(5) have "sha256 p = sha256 q" "p \<in> ?I" "q \<in> ?I"
        by (simp_all add: tree_inputs_def)
      with less.prems(4) have "p = q" by (meson inj_onD)
      with p q show ?thesis by simp
    qed
  next
    case psl: True
    show ?thesis
    proof (cases "1 < length qs")
      case False
      with leaf less.prems obtain q where "qs = [q]" by blast
      with mixed [of ps qs q] psl less.prems show ?thesis by auto
    next
      case qsl: True
      define k where "k = split_k 1 (length ps)"
      define k' where "k' = split_k 1 (length qs)"
      have kb: "1 \<le> k" "k < length ps" "1 \<le> k'" "k' < length qs"
        using split_k_bounds [of 1 "length ps"] split_k_bounds [of 1 "length qs"] psl qsl
        by (simp_all add: k_def k'_def)
      have ne: "take k ps \<noteq> []" "drop k ps \<noteq> []" "take k' qs \<noteq> []" "drop k' qs \<noteq> []" using kb by auto
      let ?t = "\<lambda>k xs. mth (map sha256 (take k xs))" and ?d = "\<lambda>k xs. mth (map sha256 (drop k xs))"
      have split: "mth (map sha256 ps) = sha256 (CHR 0x01 # ?t k ps @ ?d k ps)"
        "mth (map sha256 qs) = sha256 (CHR 0x01 # ?t k' qs @ ?d k' qs)"
        using psl qsl by (simp_all add: mth_split node_hash_def k_def k'_def take_map drop_map)
      have inputs: "CHR 0x01 # ?t k ps @ ?d k ps \<in> ?I" "CHR 0x01 # ?t k' qs @ ?d k' qs \<in> ?I"
        using psl qsl
        by (simp_all add: mth_inputs_split tree_inputs_def k_def k'_def take_map drop_map Let_def)
      have "CHR 0x01 # ?t k ps @ ?d k ps = CHR 0x01 # ?t k' qs @ ?d k' qs"
        using less.prems(4,5) inputs split by (metis inj_onD)
      moreover have "length (?t k ps) = 32" "length (?t k' qs) = 32" using ne by (auto intro!: length_mth)
      ultimately have halves: "?t k ps = ?t k' qs" "?d k ps = ?d k' qs" by auto
      have sub: "set (tree_inputs (take k ps)) \<subseteq> ?I" "set (tree_inputs (drop k ps)) \<subseteq> ?I"
        "set (tree_inputs (take k' qs)) \<subseteq> ?I" "set (tree_inputs (drop k' qs)) \<subseteq> ?I"
        using psl qsl
        by (auto simp: mth_inputs_split [of "map sha256 ps"] mth_inputs_split [of "map sha256 qs"]
            tree_inputs_def k_def k'_def take_map drop_map Let_def dest: in_set_takeD in_set_dropD)
      have "take k ps = take k' qs"
        using less.prems(3) sub halves kb ne
        by (intro less.hyps) (auto intro: inj_on_subset [OF less.prems(4)] dest: in_set_takeD)
      moreover have "drop k ps = drop k' qs"
        using less.prems(3) sub halves kb ne
        by (intro less.hyps) (auto intro: inj_on_subset [OF less.prems(4)] dest: in_set_dropD)
      ultimately show ?thesis by (metis append_take_drop_id)
    qed
  qed
qed

text \<open>The byte strings hashed while computing the root of a list of row hashes.\<close>

definition root_inputs :: "string list \<Rightarrow> bytes list" where
  "root_inputs hs = tree_inputs (map (\<lambda>h. CHR 0x00 # fromhex h) hs)"

lemma merkle_root_hex64:
  "list_all hex64 hs \<Longrightarrow> hs \<noteq> [] \<Longrightarrow>
     merkle_root hs = Inr (hex (mth (map sha256 (map (\<lambda>h. CHR 0x00 # fromhex h) hs))))"
  by (simp add: merkle_root_def leaf_hashes_hex64 comp_def)

lemma merkle_root_Nil [simp]: "merkle_root [] = Inl ''a block must contain at least one entry''"
  by (simp add: merkle_root_def)

lemma merkle_root_hex64_Inr:
  "list_all hex64 hs \<Longrightarrow> hs \<noteq> [] \<Longrightarrow> \<exists>r. merkle_root hs = Inr r \<and> hex64 r"
  by (simp add: merkle_root_hex64 hex64_hex length_mth)

lemma merkle_root_bindingD:
  assumes "list_all hex64 hs" "list_all hex64 hs'"
    and "inj_on sha256 (set (root_inputs hs) \<union> set (root_inputs hs'))"
    and "merkle_root hs = Inr r" "merkle_root hs' = Inr r"
  shows "hs = hs'"
proof -
  let ?pre = "map (\<lambda>h. CHR 0x00 # fromhex h)"
  have ne: "hs \<noteq> []" "hs' \<noteq> []" using assms(4,5) by auto
  have "?pre hs = ?pre hs'"
  proof (rule mth_binding)
    have "Inr (hex (mth (map sha256 (?pre hs)))) = (Inr (hex (mth (map sha256 (?pre hs')))) :: string + string)"
      using merkle_root_hex64 [of hs] merkle_root_hex64 [of hs'] assms ne by metis
    then show "mth (map sha256 (?pre hs)) = mth (map sha256 (?pre hs'))" by (simp add: hex_inj del: map_map)
  qed (use assms(3) ne in \<open>auto simp: root_inputs_def\<close>)
  then have "map tl (?pre hs) = map tl (?pre hs')" by simp
  then have "map fromhex hs = map fromhex hs'" by (simp add: comp_def)
  moreover have "inj_on fromhex (set hs \<union> set hs')"
    using assms(1,2) by (auto simp: inj_on_def fromhex_inj_hex64 list_all_iff)
  ultimately show ?thesis by (rule map_inj_on)
qed

text \<open>A Merkle root commits to the whole list of row hashes: two lists of well-formed row hashes
  with the same root are the same list (same length, same order), provided SHA-256 has no collision
  among the byte strings hashed by the two computations.\<close>

lemma merkle_root_binding:
  assumes "list_all hex64 hs" "list_all hex64 hs'"
    and "inj_on sha256 (set (root_inputs hs) \<union> set (root_inputs hs'))"
    and "merkle_root hs = Inr r" "merkle_root hs' = Inr r"
  shows "hs = hs'"
  using assms by (rule merkle_root_bindingD)

lemma merkle_root_binding_witness:
  "\<exists>r. merkle_root [zeros64] = Inr r \<and> [zeros64] = [zeros64]"
proof -
  obtain r where r: "merkle_root [zeros64] = Inr r" using merkle_root_hex64_Inr [of "[zeros64]"] by auto
  have "inj_on sha256 (set (root_inputs [zeros64]) \<union> set (root_inputs [zeros64]))"
    by (simp add: root_inputs_def tree_inputs_def mth_inputs.simps)
  with r have "[zeros64] = [zeros64]" by (intro merkle_root_binding) auto
  with r show ?thesis by blast
qed

lemma block_text_inj:
  assumes "block_text b = block_text c" "match_hex64 (bf_prev b)" "match_hex64 (bf_prev c)"
  shows "b = c"
proof -
  from assms(1) have f: "bf_format b = bf_format c"
    and t: "dec_nat (length (bf_tenant b)) @ CHR '':'' # bf_tenant b @ CHR ''|'' #
      str_int (bf_height b) @ CHR ''|'' # str_int (bf_first_seq b) @ CHR ''|'' #
      str_int (bf_last_seq b) @ CHR ''|'' # str_int (bf_entry_count b) @ CHR ''|'' # bf_prev b @ CHR ''|'' # bf_root b =
     dec_nat (length (bf_tenant c)) @ CHR '':'' # bf_tenant c @ CHR ''|'' #
      str_int (bf_height c) @ CHR ''|'' # str_int (bf_first_seq c) @ CHR ''|'' #
      str_int (bf_last_seq c) @ CHR ''|'' # str_int (bf_entry_count c) @ CHR ''|'' # bf_prev c @ CHR ''|'' # bf_root c"
    by (simp_all add: block_text_def delim_split str_int_inj)
  from t have l: "length (bf_tenant b) = length (bf_tenant c)"
    by (simp add: delim_split dec_nat_inj)
  from t l assms(2,3) f show ?thesis
    by (auto simp: delim_split str_int_inj intro!: block_fields.equality)
qed

lemma block_hash_Inr:
  "block_hash b = Inr h \<longleftrightarrow>
     match_hex64 (bf_prev b) \<and> match_hex64 (bf_root b) \<and> h = sha256_hex (block_text b)"
  by (auto simp: block_hash_def check_hex64_def res_bind_def)

lemma jarvis_block_hash_eq:
  "match_hex64 (bf_prev b) \<Longrightarrow> match_hex64 (bf_root b) \<Longrightarrow>
     block_hash b = Inr (jarvis_block_hash (bf_format b) (bf_tenant b) (bf_height b) (bf_first_seq b)
       (bf_last_seq b) (bf_entry_count b) (bf_prev b) (bf_root b))"
  by (simp add: block_hash_Inr jarvis_block_hash_def block_text_def)

text \<open>A block hash commits to every field of the block (tenant, height, range, count, previous
  hash, root, format), whatever characters the tenant name contains: two blocks the Python function
  gives the same hash are equal, unless their two texts are a SHA-256 collision.\<close>

lemma block_hash_binding:
  assumes "block_hash b = Inr h" "block_hash c = Inr h"
    and "inj_on sha256 {block_text b, block_text c}"
  shows "b = c"
  using assms by (auto simp: block_hash_Inr sha256_hex_eq_iff dest: inj_onD intro!: block_text_inj)

definition sample_block :: block_fields where
  "sample_block = \<lparr>bf_tenant = ''a|1:b'', bf_height = 1, bf_first_seq = 1, bf_last_seq = 2,
     bf_entry_count = 2, bf_prev = zeros64, bf_root = zeros64, bf_format = 1\<rparr>"

lemma block_hash_binding_witness:
  "\<exists>h. block_hash sample_block = Inr h \<and> sample_block = sample_block"
proof -
  have h: "block_hash sample_block = Inr (sha256_hex (block_text sample_block))"
    by (simp add: block_hash_Inr sample_block_def)
  then have "sample_block = sample_block" by (rule block_hash_binding [OF _ h]) simp
  with h show ?thesis by blast
qed

text \<open>
  A finding: the Python test accepts a row hash with one trailing line feed, which
  \<open>bytes.fromhex\<close> then skips, so such a value has the leaf hash of the clean one. The database's
  \<open>CHECK\<close> constraints refuse it, so no stored row can have one.
\<close>

theorem leaf_hash_trailing_newline: "hex64 h \<Longrightarrow> leaf_hash (h @ [CHR 0x0A]) = leaf_hash h"
proof -
  assume h: "hex64 h"
  then have "length h = 64" by (simp add: hex64_def)
  with h have "match_hex64 (h @ [CHR 0x0A])" by (simp add: match_hex64_def nth_append)
  with h \<open>length h = 64\<close> show ?thesis by (simp add: leaf_hash_def check_hex64_def)
qed

end
