(* ===== verification/Ledger_Db.thy ===== *)
theory Ledger_Db
  imports Blocks
begin

text \<open>
  The PostgreSQL ledger of \<^verbatim>\<open>app/pg_schema.py\<close> (migrations 1 to 4): the tables \<open>memories\<close>,
  \<open>record_history\<close>, \<open>history_counters\<close> and \<open>chain_heads\<close>, the row triggers
  \<open>jarvis_bump_version\<close> and \<open>jarvis_record_history\<close>, and the three statements the application role can
  run on \<open>memories\<close> (\<open>INSERT\<close>, \<open>UPDATE\<close>, \<open>DELETE\<close>) with everything they cause: column checks,
  row-level security, primary and foreign keys, \<open>ON DELETE SET NULL (supersedes)\<close> and the capture of
  history. The other tables of the schema are in the same record, their operations in later theories.

  A table is the list of its rows; \<open>record_history\<close> is in insertion order. The JSON snapshot of a row
  (\<open>jarvis_memory_json\<close>) has one member per column, so the model keeps the row itself as its
  snapshot; the text PostgreSQL renders for a \<open>jsonb\<close> value is the parameter \<open>jtext\<close>. A
  \<open>timestamptz\<close> is a number of microseconds, a \<open>double precision\<close> a rational.

  The invariant \<open>db_inv\<close> states what the triggers maintain for every tenant: a gapless history, one
  hash chain per record, a chain head that is the last entry, and live rows that are exactly the last
  snapshots. Every statement preserves it.
\<close>

section \<open>Tables\<close>

record link =
  l_kind :: string
  l_ref :: string
  l_note :: string

record mem_row =
  r_tenant :: string
  r_id :: string
  r_version :: int
  r_content :: string
  r_sha :: string
  r_created :: int
  r_updated :: int
  r_source :: string
  r_session :: string
  r_type :: string
  r_status :: string
  r_confidence :: rat
  r_subject :: "string option"
  r_supersedes :: "string option"
  r_tags :: "string list"
  r_evidence :: "link list"

record hist_row =
  h_tenant :: string
  h_seq :: int
  h_memory :: string
  h_version :: int
  h_op :: string
  h_actor :: string
  h_changed :: int
  h_before :: "mem_row option"
  h_after :: "mem_row option"
  h_prev :: string
  h_hash :: string

record head_row =
  hd_tenant :: string
  hd_id :: string
  hd_seq :: int
  hd_hash :: string
  hd_deleted :: bool

record block_row =
  b_fields :: block_fields
  b_hash :: string
  b_sealed_at :: int
  b_sealed_by :: string

record ledger_db =
  memories :: "mem_row list"
  history :: "hist_row list"
  counters :: "(string \<times> int) list"
  heads :: "head_row list"
  blocks :: "block_row list"

text \<open>
  The session: the transaction-local settings \<open>jarvis.tenant_key\<close>, \<open>jarvis.actor\<close> and
  \<open>jarvis.history_op\<close> (unset is the empty string) and the clock.
\<close>

record session =
  s_tenant :: string
  s_actor :: string
  s_history_op :: string
  s_now :: int

datatype sql_error =
    Check_violation
  | Unique_violation
  | Foreign_key_violation
  | Rls_violation
  | Raised string

section \<open>Column checks\<close>

text \<open>\<open>char_length\<close> counts code points: the bytes that do not continue a UTF-8 sequence.\<close>

definition char_length :: "string \<Rightarrow> nat" where
  "char_length s = length (filter (\<lambda>c. (of_char c :: nat) div 64 \<noteq> 2) s)"

definition memory_types :: "string list" where
  "memory_types = [''decision'', ''fact'', ''task'', ''preference'', ''architecture'', ''research'', ''external_context'']"

definition memory_statuses :: "string list" where
  "memory_statuses = [''draft'', ''verified'', ''archived'']"

definition row_checks :: "mem_row \<Rightarrow> bool" where
  "row_checks r \<longleftrightarrow>
     r_tenant r \<noteq> [] \<and>
     1 \<le> char_length (r_id r) \<and> char_length (r_id r) \<le> 128 \<and>
     1 \<le> char_length (r_content r) \<and> char_length (r_content r) \<le> 2000 \<and>
     hex64 (r_sha r) \<and>
     char_length (r_source r) \<le> 128 \<and>
     1 \<le> char_length (r_session r) \<and> char_length (r_session r) \<le> 128 \<and>
     r_type r \<in> set memory_types \<and>
     r_status r \<in> set memory_statuses \<and>
     0 \<le> r_confidence r \<and> r_confidence r \<le> 1 \<and>
     (case r_subject r of None \<Rightarrow> True | Some s \<Rightarrow> char_length s \<le> 256) \<and>
     length (r_tags r) \<le> 32 \<and>
     length (r_evidence r) \<le> 32"

section \<open>The history capture trigger\<close>

definition option_text :: "(mem_row \<Rightarrow> string) \<Rightarrow> mem_row option \<Rightarrow> string" where
  "option_text jtext v = (case v of None \<Rightarrow> [] | Some r \<Rightarrow> jtext r)"

definition history_text ::
  "(mem_row \<Rightarrow> string) \<Rightarrow> string \<Rightarrow> string \<Rightarrow> int \<Rightarrow> mem_row option \<Rightarrow> mem_row option \<Rightarrow> bytes" where
  "history_text jtext prev op version before after =
     prev @ ''|'' @ op @ ''|'' @ str_int version @ ''|'' @ option_text jtext before @ ''|'' @ option_text jtext after"

definition jarvis_history_hash ::
  "(mem_row \<Rightarrow> string) \<Rightarrow> string \<Rightarrow> string \<Rightarrow> int \<Rightarrow> mem_row option \<Rightarrow> mem_row option \<Rightarrow> string" where
  "jarvis_history_hash jtext prev op version before after =
     sha256_hex (history_text jtext prev op version before after)"

datatype trigger_event =
    On_insert mem_row
  | On_update mem_row mem_row
  | On_delete mem_row

text \<open>\<open>SELECT ... ORDER BY h.seq DESC LIMIT 1\<close>: the entry with the highest sequence number.\<close>

definition newest :: "hist_row list \<Rightarrow> hist_row option" where
  "newest es = (case rev (sort_key h_seq es) of [] \<Rightarrow> None | e # _ \<Rightarrow> Some e)"

definition record_entries :: "ledger_db \<Rightarrow> string \<Rightarrow> string \<Rightarrow> hist_row list" where
  "record_entries db t m = filter (\<lambda>h. h_tenant h = t \<and> h_memory h = m) (history db)"

definition tenant_entries :: "ledger_db \<Rightarrow> string \<Rightarrow> hist_row list" where
  "tenant_entries db t = filter (\<lambda>h. h_tenant h = t) (history db)"

definition head_key :: "head_row \<Rightarrow> string \<times> string" where
  "head_key h = (hd_tenant h, hd_id h)"

definition put_head :: "head_row \<Rightarrow> head_row list \<Rightarrow> head_row list" where
  "put_head new hs =
     (if head_key new \<in> head_key ` set hs
      then map (\<lambda>h. if head_key h = head_key new then new else h) hs
      else hs @ [new])"

fun event_fields :: "string \<Rightarrow> trigger_event \<Rightarrow> string \<times> string \<times> string \<times> mem_row option \<times> mem_row option \<times> int" where
  "event_fields hop (On_delete old) = (r_tenant old, r_id old, ''delete'', Some old, None, r_version old)"
| "event_fields hop (On_update old new) = (r_tenant new, r_id new, ''update'', Some old, Some new, r_version new)"
| "event_fields hop (On_insert new) =
     (r_tenant new, r_id new, (if hop = ''backfill'' then ''backfill'' else ''create''), None, Some new, r_version new)"

definition jarvis_record_history ::
  "(mem_row \<Rightarrow> string) \<Rightarrow> session \<Rightarrow> trigger_event \<Rightarrow> ledger_db \<Rightarrow> ledger_db" where
  "jarvis_record_history jtext s ev db =
     (case event_fields (s_history_op s) ev of (t, mid, opn, b, a, v) \<Rightarrow>
        let prev = (case newest (record_entries db t mid) of None \<Rightarrow> zeros64 | Some e \<Rightarrow> h_hash e);
            act = (if s_actor s = [] then ''unknown'' else s_actor s);
            seq = (case map_of (counters db) t of None \<Rightarrow> 1 | Some n \<Rightarrow> n + 1);
            rh = jarvis_history_hash jtext prev opn v b a
        in db\<lparr>counters := AList.update t seq (counters db),
              history := history db @
                [\<lparr>h_tenant = t, h_seq = seq, h_memory = mid, h_version = v, h_op = opn, h_actor = act,
                  h_changed = s_now s, h_before = b, h_after = a, h_prev = prev, h_hash = rh\<rparr>],
              heads := put_head \<lparr>hd_tenant = t, hd_id = mid, hd_seq = seq, hd_hash = rh,
                                 hd_deleted = (opn = ''delete'')\<rparr> (heads db)\<rparr>)"

section \<open>Statements on memories\<close>

definition row_key :: "mem_row \<Rightarrow> string \<times> string" where
  "row_key r = (r_tenant r, r_id r)"

definition find_row :: "ledger_db \<Rightarrow> string \<Rightarrow> string \<Rightarrow> mem_row option" where
  "find_row db t m = find (\<lambda>r. row_key r = (t, m)) (memories db)"

text \<open>The foreign key \<open>(tenant_key, supersedes)\<close>, checked on the table after the statement.\<close>

definition fk_ok :: "mem_row list \<Rightarrow> mem_row \<Rightarrow> bool" where
  "fk_ok rows r \<longleftrightarrow>
     (case r_supersedes r of None \<Rightarrow> True
      | Some m \<Rightarrow> \<exists>x \<in> set rows. r_tenant x = r_tenant r \<and> r_id x = m)"

definition sql_insert ::
  "(mem_row \<Rightarrow> string) \<Rightarrow> session \<Rightarrow> mem_row \<Rightarrow> ledger_db \<Rightarrow> sql_error + ledger_db" where
  "sql_insert jtext s row db =
     (if r_tenant row \<noteq> s_tenant s then Inl Rls_violation
      else if \<not> row_checks row then Inl Check_violation
      else if row_key row \<in> row_key ` set (memories db) then Inl Unique_violation
      else let rows = memories db @ [row]
           in if \<not> fk_ok rows row then Inl Foreign_key_violation
              else Inr (jarvis_record_history jtext s (On_insert row) (db\<lparr>memories := rows\<rparr>)))"

definition replace_row :: "mem_row \<Rightarrow> mem_row list \<Rightarrow> mem_row list" where
  "replace_row new rows = map (\<lambda>r. if row_key r = row_key new then new else r) rows"

text \<open>\<open>jarvis_bump_version\<close>: the version belongs to the database, the identity never changes.\<close>

definition jarvis_bump_version :: "mem_row \<Rightarrow> mem_row \<Rightarrow> sql_error + mem_row" where
  "jarvis_bump_version old new =
     (if r_tenant new \<noteq> r_tenant old then Inl (Raised ''tenant_key is immutable'')
      else if r_id new \<noteq> r_id old then Inl (Raised ''id is immutable'')
      else Inr (new\<lparr>r_version := r_version old + 1\<rparr>))"

definition write_update ::
  "(mem_row \<Rightarrow> string) \<Rightarrow> session \<Rightarrow> mem_row \<Rightarrow> mem_row \<Rightarrow> ledger_db \<Rightarrow> ledger_db" where
  "write_update jtext s old new db =
     jarvis_record_history jtext s (On_update old new) (db\<lparr>memories := replace_row new (memories db)\<rparr>)"

text \<open>
  \<open>UPDATE memories SET ... WHERE tenant_key = t AND id = m AND version = v\<close>: no visible row with that
  version updates nothing (the result says whether a row was changed).
\<close>

definition sql_update ::
  "(mem_row \<Rightarrow> string) \<Rightarrow> session \<Rightarrow> string \<Rightarrow> int \<Rightarrow> (mem_row \<Rightarrow> mem_row) \<Rightarrow> ledger_db
     \<Rightarrow> sql_error + mem_row option \<times> ledger_db" where
  "sql_update jtext s m v upd db =
     (case find_row db (s_tenant s) m of
        None \<Rightarrow> Inr (None, db)
      | Some old \<Rightarrow>
          if r_version old \<noteq> v then Inr (None, db)
          else res_bind (jarvis_bump_version old (upd old)) (\<lambda>new.
            if r_tenant new \<noteq> s_tenant s then Inl Rls_violation
            else if \<not> row_checks new then Inl Check_violation
            else if \<not> fk_ok (replace_row new (memories db)) new then Inl Foreign_key_violation
            else Inr (Some new, write_update jtext s old new db)))"

text \<open>
  \<open>ON DELETE SET NULL (supersedes)\<close>: every row that names the deleted one is updated by the
  referential action (as the table's owner), which fires the row triggers. The action's own statement
  only queues the \<open>AFTER\<close> triggers of the rows it updates, behind those the delete has already queued, so
  the delete's entry precedes the entries of these updates.
\<close>

fun ri_set_null :: "(mem_row \<Rightarrow> string) \<Rightarrow> session \<Rightarrow> mem_row list \<Rightarrow> ledger_db \<Rightarrow> ledger_db" where
  "ri_set_null jtext s [] db = db"
| "ri_set_null jtext s (r # rs) db =
     ri_set_null jtext s rs
       (write_update jtext s r (r\<lparr>r_supersedes := None, r_version := r_version r + 1\<rparr>) db)"

definition sql_delete ::
  "(mem_row \<Rightarrow> string) \<Rightarrow> session \<Rightarrow> string \<Rightarrow> ledger_db \<Rightarrow> bool \<times> ledger_db" where
  "sql_delete jtext s m db =
     (case find_row db (s_tenant s) m of
        None \<Rightarrow> (False, db)
      | Some old \<Rightarrow>
          let rows = filter (\<lambda>r. row_key r \<noteq> row_key old) (memories db);
              children = filter (\<lambda>r. r_tenant r = r_tenant old \<and> r_supersedes r = Some m) rows
          in (True, ri_set_null jtext s children
                      (jarvis_record_history jtext s (On_delete old) (db\<lparr>memories := rows\<rparr>))))"

section \<open>What the triggers maintain\<close>

definition entry_hash :: "(mem_row \<Rightarrow> string) \<Rightarrow> hist_row \<Rightarrow> string" where
  "entry_hash jtext e = jarvis_history_hash jtext (h_prev e) (h_op e) (h_version e) (h_before e) (h_after e)"

text \<open>The table check of \<open>record_history\<close> on the operation and its two snapshots.\<close>

definition op_check :: "hist_row \<Rightarrow> bool" where
  "op_check e \<longleftrightarrow>
     (h_op e \<in> {''create'', ''backfill''} \<and> h_before e = None \<and> h_after e \<noteq> None) \<or>
     (h_op e = ''update'' \<and> h_before e \<noteq> None \<and> h_after e \<noteq> None) \<or>
     (h_op e = ''delete'' \<and> h_before e \<noteq> None \<and> h_after e = None)"

text \<open>One record's chain: hashes linked from \<open>p\<close>, snapshots linked from the state \<open>b\<close>.\<close>

fun record_chain :: "(mem_row \<Rightarrow> string) \<Rightarrow> string \<Rightarrow> mem_row option \<Rightarrow> hist_row list \<Rightarrow> bool" where
  "record_chain jtext p b [] \<longleftrightarrow> True"
| "record_chain jtext p b (e # es) \<longleftrightarrow>
     h_prev e = p \<and> h_before e = b \<and> h_hash e = entry_hash jtext e \<and> op_check e \<and>
     record_chain jtext (h_hash e) (h_after e) es"

definition chain_end :: "hist_row list \<Rightarrow> string" where
  "chain_end es = (if es = [] then zeros64 else h_hash (last es))"

definition live_of :: "hist_row list \<Rightarrow> mem_row option" where
  "live_of es = (if es = [] then None else h_after (last es))"

definition head_of :: "string \<Rightarrow> string \<Rightarrow> hist_row list \<Rightarrow> head_row option" where
  "head_of t m es =
     (if es = [] then None
      else Some \<lparr>hd_tenant = t, hd_id = m, hd_seq = h_seq (last es), hd_hash = h_hash (last es),
                 hd_deleted = (h_op (last es) = ''delete'')\<rparr>)"

definition find_head :: "ledger_db \<Rightarrow> string \<Rightarrow> string \<Rightarrow> head_row option" where
  "find_head db t m = find (\<lambda>h. head_key h = (t, m)) (heads db)"

definition seqs_ok :: "ledger_db \<Rightarrow> string \<Rightarrow> bool" where
  "seqs_ok db t \<longleftrightarrow>
     map h_seq (tenant_entries db t) = map int [1..<Suc (length (tenant_entries db t))] \<and>
     map_of (counters db) t =
       (if tenant_entries db t = [] then None else Some (int (length (tenant_entries db t))))"

text \<open>
  The invariant, except that the rows with keys in \<open>K\<close> have left the table and their history does not
  say so yet (the state in which the referential action of a delete runs).
\<close>

definition db_inv_except :: "(mem_row \<Rightarrow> string) \<Rightarrow> (string \<times> string) set \<Rightarrow> ledger_db \<Rightarrow> bool" where
  "db_inv_except jtext K db \<longleftrightarrow>
     distinct (map row_key (memories db)) \<and>
     distinct (map head_key (heads db)) \<and>
     (\<forall>t. seqs_ok db t) \<and>
     (\<forall>t m. record_chain jtext zeros64 None (record_entries db t m)) \<and>
     (\<forall>t m. find_head db t m = head_of t m (record_entries db t m)) \<and>
     (\<forall>t m. (t, m) \<notin> K \<longrightarrow> find_row db t m = live_of (record_entries db t m)) \<and>
     (\<forall>t m. (t, m) \<in> K \<longrightarrow> find_row db t m = None)"

definition db_inv :: "(mem_row \<Rightarrow> string) \<Rightarrow> ledger_db \<Rightarrow> bool" where
  "db_inv jtext db \<longleftrightarrow> db_inv_except jtext {} db"

lemma record_chain_append:
  "record_chain jtext p b (es @ fs) \<longleftrightarrow>
     record_chain jtext p b es \<and>
     record_chain jtext (if es = [] then p else h_hash (last es)) (if es = [] then b else h_after (last es)) fs"
  by (induction es arbitrary: p b) auto

lemma record_entries_subset: "record_entries db t m = filter (\<lambda>h. h_memory h = m) (tenant_entries db t)"
  by (simp add: record_entries_def tenant_entries_def conj_commute)

lemma seqs_ok_distinct: "seqs_ok db t \<Longrightarrow> distinct (map h_seq (tenant_entries db t))"
  by (simp add: seqs_ok_def distinct_map)

lemma seqs_ok_nth: "seqs_ok db t \<Longrightarrow> i < length (tenant_entries db t) \<Longrightarrow> h_seq (tenant_entries db t ! i) = int i + 1"
proof -
  assume ok: "seqs_ok db t" and i: "i < length (tenant_entries db t)"
  from ok have "map h_seq (tenant_entries db t) ! i = map int [1..<Suc (length (tenant_entries db t))] ! i"
    by (simp add: seqs_ok_def)
  with i show ?thesis by (simp del: upt_Suc)
qed

lemma seqs_ok_sorted: "seqs_ok db t \<Longrightarrow> sorted (map h_seq (tenant_entries db t))"
  by (simp add: seqs_ok_def sorted_iff_nth_mono_less del: upt_Suc)

lemma sort_key_sorted_id: "sorted (map f xs) \<Longrightarrow> sort_key f xs = xs"
  by (simp add: sort_key_id_if_sorted)

lemma seqs_ok_sorted_record: "seqs_ok db t \<Longrightarrow> sorted (map h_seq (record_entries db t m))"
  by (metis seqs_ok_sorted record_entries_subset sorted_filter)

lemma newest_last: "sorted (map h_seq es) \<Longrightarrow> newest es = (if es = [] then None else Some (last es))"
  by (cases es rule: rev_cases) (simp_all add: newest_def sort_key_sorted_id)

section \<open>Every statement preserves the invariant\<close>

definition event_ok :: "session \<Rightarrow> trigger_event \<Rightarrow> bool" where
  "event_ok s ev \<longleftrightarrow> (case ev of On_update old new \<Rightarrow> row_key old = row_key new | _ \<Rightarrow> True)"

text \<open>The entry the capture trigger appends.\<close>

definition captured :: "(mem_row \<Rightarrow> string) \<Rightarrow> session \<Rightarrow> trigger_event \<Rightarrow> ledger_db \<Rightarrow> hist_row" where
  "captured jtext s ev db = last (history (jarvis_record_history jtext s ev db))"

lemma jarvis_record_history_history [simp]:
  "history (jarvis_record_history jtext s ev db) = history db @ [captured jtext s ev db]"
  by (cases "event_fields (s_history_op s) ev") (simp add: captured_def jarvis_record_history_def Let_def)

lemma jarvis_record_history_memories [simp]:
  "memories (jarvis_record_history jtext s ev db) = memories db"
  "blocks (jarvis_record_history jtext s ev db) = blocks db"
  by (cases "event_fields (s_history_op s) ev", simp add: jarvis_record_history_def Let_def)+

lemma captured_fields:
  assumes "event_fields (s_history_op s) ev = (t, m, opn, b, a, v)"
    and "\<forall>t. seqs_ok db t"
  shows "captured jtext s ev db =
    \<lparr>h_tenant = t, h_seq = int (length (tenant_entries db t)) + 1, h_memory = m, h_version = v, h_op = opn,
     h_actor = (if s_actor s = [] then ''unknown'' else s_actor s), h_changed = s_now s, h_before = b, h_after = a,
     h_prev = chain_end (record_entries db t m),
     h_hash = jarvis_history_hash jtext (chain_end (record_entries db t m)) opn v b a\<rparr>"
  using assms seqs_ok_sorted_record [of db t m]
  by (auto simp: captured_def jarvis_record_history_def Let_def newest_last chain_end_def seqs_ok_def)

lemma jarvis_record_history_counters:
  assumes "event_fields (s_history_op s) ev = (t, m, opn, b, a, v)" "seqs_ok db t"
  shows "map_of (counters (jarvis_record_history jtext s ev db)) =
    (map_of (counters db))(t \<mapsto> int (length (tenant_entries db t)) + 1)"
  using assms by (auto simp: jarvis_record_history_def Let_def map_of_update seqs_ok_def)

lemma find_put_head:
  "find (\<lambda>h. head_key h = x) (put_head new hs) =
     (if head_key new = x then Some new else find (\<lambda>h. head_key h = x) hs)"
proof (cases "head_key new \<in> head_key ` set hs")
  case True
  then show ?thesis by (auto simp add: put_head_def find_key_map)
next
  case False
  then have "find (\<lambda>h. head_key h = head_key new) hs = None" by (simp add: find_key_None)
  with False show ?thesis
    by (cases "head_key new = x") (auto simp: put_head_def find_append split: option.split)
qed

lemma head_key_make [simp]:
  "head_key \<lparr>hd_tenant = t, hd_id = m, hd_seq = q, hd_hash = h, hd_deleted = d\<rparr> = (t, m)"
  by (simp add: head_key_def)

lemma distinct_put_head: "distinct (map head_key hs) \<Longrightarrow> distinct (map head_key (put_head new hs))"
  by (auto simp: put_head_def simp del: map_map)

lemma jarvis_record_history_heads:
  assumes "event_fields (s_history_op s) ev = (t, m, opn, b, a, v)"
  shows "heads (jarvis_record_history jtext s ev db) =
    put_head \<lparr>hd_tenant = t, hd_id = m, hd_seq = h_seq (captured jtext s ev db),
      hd_hash = h_hash (captured jtext s ev db), hd_deleted = (h_op (captured jtext s ev db) = ''delete'')\<rparr> (heads db)"
  using assms by (simp add: captured_def jarvis_record_history_def Let_def)

lemma captured_key:
  assumes "event_fields (s_history_op s) ev = (t, m, opn, b, a, v)"
  shows "h_tenant (captured jtext s ev db) = t" "h_memory (captured jtext s ev db) = m"
    "h_op (captured jtext s ev db) = opn" "h_before (captured jtext s ev db) = b"
    "h_after (captured jtext s ev db) = a"
  using assms by (simp_all add: captured_def jarvis_record_history_def Let_def)

lemma event_op_check:
  "event_fields hop ev = (t, m, opn, b, a, v) \<Longrightarrow> h_op e = opn \<Longrightarrow> h_before e = b \<Longrightarrow> h_after e = a \<Longrightarrow> op_check e"
  unfolding op_check_def by (cases ev) (simp_all, metis+)

lemma entries_after_capture:
  assumes "event_fields (s_history_op s) ev = (t, m, opn, b, a, v)"
  shows "tenant_entries (jarvis_record_history jtext s ev db) t' =
      tenant_entries db t' @ (if t' = t then [captured jtext s ev db] else [])"
    and "record_entries (jarvis_record_history jtext s ev db) t' m' =
      record_entries db t' m' @ (if t' = t \<and> m' = m then [captured jtext s ev db] else [])"
  using captured_key(1,2) [OF assms] by (auto simp: tenant_entries_def record_entries_def)

lemma seqs_ok_capture:
  assumes "event_fields (s_history_op s) ev = (t, m, opn, b, a, v)" "\<forall>t. seqs_ok db t"
  shows "seqs_ok (jarvis_record_history jtext s ev db) t'"
proof (cases "t' = t")
  case True
  have "h_seq (captured jtext s ev db) = int (length (tenant_entries db t)) + 1"
    using captured_fields [OF assms] by simp
  with True assms(2) show ?thesis
    by (simp add: seqs_ok_def entries_after_capture [OF assms(1)] jarvis_record_history_counters [OF assms(1)])
next
  case False
  with assms(2) show ?thesis
    by (simp add: seqs_ok_def entries_after_capture [OF assms(1)] jarvis_record_history_counters [OF assms(1)])
qed

lemma capture_inv:
  assumes inv: "db_inv_except jtext K db"
    and ev: "event_fields (s_history_op s) ev = (t, m, opn, b, a, v)"
    and b: "b = live_of (record_entries db t m)"
    and rows: "distinct (map row_key rows)"
    and find: "\<And>t' m'. find_row (db\<lparr>memories := rows\<rparr>) t' m' = (if t' = t \<and> m' = m then a else find_row db t' m')"
  shows "db_inv_except jtext (K - {(t, m)}) (jarvis_record_history jtext s ev (db\<lparr>memories := rows\<rparr>))"
proof -
  let ?db = "db\<lparr>memories := rows\<rparr>" and ?db' = "jarvis_record_history jtext s ev (db\<lparr>memories := rows\<rparr>)"
  let ?e = "captured jtext s ev ?db"
  have same [simp]: "record_entries ?db = record_entries db" "tenant_entries ?db = tenant_entries db"
    by (simp_all add: fun_eq_iff record_entries_def tenant_entries_def)
  have seqs: "\<forall>t. seqs_ok ?db t" using inv by (simp add: db_inv_except_def seqs_ok_def)
  note e = captured_fields [OF ev seqs, of jtext, unfolded same]
  note keys = captured_key [OF ev, of jtext ?db]
  note entries = entries_after_capture [OF ev, of jtext ?db, unfolded same]
  have chain: "record_chain jtext zeros64 None (record_entries db t' m')" for t' m'
    using inv by (simp add: db_inv_except_def)
  have chain': "record_chain jtext zeros64 None (record_entries ?db' t' m')" for t' m'
  proof (cases "t' = t \<and> m' = m")
    case True
    have "op_check ?e" using event_op_check [OF ev] keys by blast
    then show ?thesis
      using True b chain [of t m] keys
      by (auto simp: entries record_chain_append e entry_hash_def chain_end_def live_of_def)
  next
    case False
    with chain show ?thesis by (auto simp: entries)
  qed
  have heads: "find_head ?db' t' m' = head_of t' m' (record_entries ?db' t' m')" for t' m'
    using inv by (auto simp: find_head_def jarvis_record_history_heads [OF ev] find_put_head entries head_of_def keys db_inv_except_def)
  have live: "find_row ?db' t' m' = find_row ?db t' m'" for t' m' by (simp add: find_row_def)
  have old: "find_row db t' m' = (if (t', m') \<in> K then None else live_of (record_entries db t' m'))" for t' m'
    using inv by (simp add: db_inv_except_def)
  have "find_row ?db' t' m' = live_of (record_entries ?db' t' m')" if k: "(t', m') \<notin> K - {(t, m)}" for t' m'
  proof (cases "t' = t \<and> m' = m")
    case True
    then show ?thesis by (simp add: live find entries live_of_def keys)
  next
    case False
    then have "find_row ?db' t' m' = find_row db t' m'" "record_entries ?db' t' m' = record_entries db t' m'"
      by (simp only: live find if_not_P if_False refl, simp only: entries if_False append_Nil2)
    with k False show ?thesis by (auto simp: old)
  qed
  moreover have "find_row ?db' t' m' = None" if k: "(t', m') \<in> K - {(t, m)}" for t' m'
    using k by (auto simp add: live find old)
  moreover have "distinct (map head_key (heads ?db'))"
    using inv by (simp add: db_inv_except_def jarvis_record_history_heads [OF ev] distinct_put_head)
  moreover have "\<forall>t. seqs_ok ?db' t" using seqs_ok_capture [OF ev seqs] by blast
  moreover have "distinct (map row_key (memories ?db'))" using rows by simp
  ultimately show ?thesis
    unfolding db_inv_except_def using chain' heads by blast
qed

lemma db_inv_except_find_row:
  "db_inv_except jtext K db \<Longrightarrow> (t, m) \<notin> K \<Longrightarrow> find_row db t m = live_of (record_entries db t m)"
  by (simp add: db_inv_except_def)

lemma find_row_key: "distinct (map row_key (memories db)) \<Longrightarrow> find_row db t m = Some r \<longleftrightarrow> r \<in> set (memories db) \<and> row_key r = (t, m)"
  by (simp add: find_row_def find_key_Some)

lemma row_key_replace [simp]: "map row_key (replace_row new rows) = map row_key rows"
  by (simp add: replace_row_def)

lemma find_replace_row:
  "find (\<lambda>r. row_key r = x) (replace_row new rows) =
     (if row_key new = x \<and> x \<in> row_key ` set rows then Some new else find (\<lambda>r. row_key r = x) rows)"
  unfolding replace_row_def by (rule find_key_map)

lemma write_update_inv:
  assumes "db_inv_except jtext K db" "find_row db (r_tenant old) (r_id old) = Some old" "row_key new = row_key old"
  shows "db_inv_except jtext K (write_update jtext s old new db)"
proof -
  from assms(2) have notK: "(r_tenant old, r_id old) \<notin> K"
    using assms(1) by (auto simp: db_inv_except_def)
  from assms(3) have key: "r_tenant new = r_tenant old" "r_id new = r_id old" by (simp_all add: row_key_def)
  have d: "distinct (map row_key (memories db))" using assms(1) by (simp add: db_inv_except_def)
  then have mem: "old \<in> set (memories db)" using assms(2) by (simp add: find_row_key)
  have "db_inv_except jtext (K - {(r_tenant old, r_id old)}) (write_update jtext s old new db)"
    unfolding write_update_def
  proof (rule capture_inv [OF assms(1)])
    show "event_fields (s_history_op s) (On_update old new) =
        (r_tenant old, r_id old, ''update'', Some old, Some new, r_version new)"
      using key by simp
    show "Some old = live_of (record_entries db (r_tenant old) (r_id old))"
      using db_inv_except_find_row [OF assms(1) notK] assms(2) by simp
    show "distinct (map row_key (replace_row new (memories db)))" using d by (simp del: map_map)
    have "row_key new \<in> row_key ` set (memories db)" using mem assms(3) by force
    then show "find_row (db\<lparr>memories := replace_row new (memories db)\<rparr>) t' m' =
        (if t' = r_tenant old \<and> m' = r_id old then Some new else find_row db t' m')" for t' m'
      using key by (auto simp: find_row_def find_replace_row) (auto simp: row_key_def)
  qed
  with notK show ?thesis by simp
qed

lemma write_update_find_row:
  assumes "row_key new = row_key old" "(t, m) \<noteq> row_key old"
  shows "find_row (write_update jtext s old new db) t m = find_row db t m"
  using assms by (auto simp: write_update_def find_row_def find_replace_row)

lemma write_update_entries:
  "(t, m) \<noteq> row_key new \<Longrightarrow> record_entries (write_update jtext s old new db) t m = record_entries db t m"
  by (auto simp: write_update_def record_entries_def captured_key row_key_def)

lemma ri_set_null_inv:
  assumes "db_inv_except jtext K db" "distinct (map row_key rs)"
    and "\<forall>r \<in> set rs. find_row db (r_tenant r) (r_id r) = Some r"
  shows "db_inv_except jtext K (ri_set_null jtext s rs db)"
  using assms
proof (induction rs arbitrary: db)
  case (Cons r rs)
  let ?new = "r\<lparr>r_supersedes := None, r_version := r_version r + 1\<rparr>"
  have k: "row_key ?new = row_key r" by (simp add: row_key_def)
  have "\<forall>x \<in> set rs. find_row (write_update jtext s r ?new db) (r_tenant x) (r_id x) = Some x"
  proof
    fix x assume x: "x \<in> set rs"
    with Cons.prems(2) have "row_key x \<noteq> row_key r" by (simp add: image_iff) metis
    then have "(r_tenant x, r_id x) \<noteq> row_key r" by (simp add: row_key_def)
    with x Cons.prems(3) write_update_find_row [OF k] show
      "find_row (write_update jtext s r ?new db) (r_tenant x) (r_id x) = Some x" by simp
  qed
  moreover have "db_inv_except jtext K (write_update jtext s r ?new db)"
    using Cons.prems by (intro write_update_inv k) simp_all
  ultimately show ?case using Cons.IH Cons.prems(2) by simp
qed simp

lemma ri_set_null_find_row:
  "(t, m) \<notin> row_key ` set rs \<Longrightarrow> find_row (ri_set_null jtext s rs db) t m = find_row db t m"
proof (induction rs arbitrary: db)
  case (Cons r rs)
  have "row_key (r\<lparr>r_supersedes := None, r_version := r_version r + 1\<rparr>) = row_key r" by (simp add: row_key_def)
  with Cons show ?case by (simp add: write_update_find_row)
qed simp

lemma ri_set_null_entries:
  "(t, m) \<notin> row_key ` set rs \<Longrightarrow> record_entries (ri_set_null jtext s rs db) t m = record_entries db t m"
proof (induction rs arbitrary: db)
  case (Cons r rs)
  have "row_key (r\<lparr>r_supersedes := None, r_version := r_version r + 1\<rparr>) = row_key r" by (simp add: row_key_def)
  with Cons show ?case by (simp add: write_update_entries)
qed simp

lemma sql_insert_inv:
  assumes "db_inv jtext db" "sql_insert jtext s row db = Inr db'"
  shows "db_inv jtext db'"
proof -
  from assms(2) have new: "row_key row \<notin> row_key ` set (memories db)"
    and db': "db' = jarvis_record_history jtext s (On_insert row) (db\<lparr>memories := memories db @ [row]\<rparr>)"
    by (auto simp: sql_insert_def Let_def split: if_splits)
  have inv: "db_inv_except jtext {} db" using assms(1) by (simp add: db_inv_def)
  from new have none: "find_row db (r_tenant row) (r_id row) = None"
    unfolding row_key_def [of row] by (simp add: find_row_def find_key_None)
  have "db_inv_except jtext ({} - {(r_tenant row, r_id row)}) db'"
    unfolding db'
  proof (rule capture_inv [OF inv])
    show "event_fields (s_history_op s) (On_insert row) = (r_tenant row, r_id row,
        (if s_history_op s = ''backfill'' then ''backfill'' else ''create''), None, Some row, r_version row)"
      by simp
    show "None = live_of (record_entries db (r_tenant row) (r_id row))"
      using none db_inv_except_find_row [OF inv, of "r_tenant row" "r_id row"] by simp
    show "distinct (map row_key (memories db @ [row]))"
      using new inv by (auto simp: db_inv_except_def)
    show "find_row (db\<lparr>memories := memories db @ [row]\<rparr>) t' m' =
        (if t' = r_tenant row \<and> m' = r_id row then Some row else find_row db t' m')" for t' m'
      using none by (auto simp: find_row_def find_append row_key_def split: option.splits)
  qed
  then show ?thesis by (simp add: db_inv_def)
qed

lemma sql_update_inv:
  assumes "db_inv jtext db" "sql_update jtext s m v upd db = Inr (res, db')"
  shows "db_inv jtext db'"
proof -
  have d: "distinct (map row_key (memories db))" using assms(1) by (simp add: db_inv_def db_inv_except_def)
  show ?thesis
  proof (cases "find_row db (s_tenant s) m")
    case None
    with assms show ?thesis by (simp add: sql_update_def)
  next
    case (Some old)
    with d have k: "row_key old = (s_tenant s, m)" by (simp add: find_row_key)
    show ?thesis
    proof (cases "r_version old = v")
      case False
      with Some assms show ?thesis by (simp add: sql_update_def)
    next
      case True
      with Some assms(2) obtain new where b: "jarvis_bump_version old (upd old) = Inr new"
        and db': "db' = write_update jtext s old new db"
        by (auto simp: sql_update_def res_bind_Inr_iff split: if_splits)
      from b have "row_key new = row_key old"
        by (auto simp: jarvis_bump_version_def row_key_def split: if_splits)
      with Some k assms(1) show ?thesis
        unfolding db' db_inv_def by (intro write_update_inv) (simp_all add: row_key_def)
    qed
  qed
qed

lemma sql_delete_inv:
  assumes "db_inv jtext db" "sql_delete jtext s m db = (res, db')"
  shows "db_inv jtext db'"
proof (cases "find_row db (s_tenant s) m")
  case None
  with assms show ?thesis by (simp add: sql_delete_def)
next
  case (Some old)
  have inv: "db_inv_except jtext {} db" using assms(1) by (simp add: db_inv_def)
  then have d: "distinct (map row_key (memories db))" by (simp add: db_inv_except_def)
  from Some d have old: "old \<in> set (memories db)" "row_key old = (s_tenant s, m)" by (simp_all add: find_row_key)
  then have key: "r_tenant old = s_tenant s" "r_id old = m" by (simp_all add: row_key_def)
  define rows where "rows = filter (\<lambda>r. row_key r \<noteq> row_key old) (memories db)"
  define cs where "cs = filter (\<lambda>r. r_tenant r = r_tenant old \<and> r_supersedes r = Some m) rows"
  define db1 where "db1 = jarvis_record_history jtext s (On_delete old) (db\<lparr>memories := rows\<rparr>)"
  have db': "db' = ri_set_null jtext s cs db1"
    using assms(2) Some by (simp add: sql_delete_def Let_def rows_def cs_def db1_def)
  have find0: "find_row (db\<lparr>memories := rows\<rparr>) t' m' = (if t' = s_tenant s \<and> m' = m then None else find_row db t' m')" for t' m'
    using old(2) by (simp add: find_row_def rows_def find_key_remove)
  have d0: "distinct (map row_key rows)" using d unfolding rows_def by (metis distinct_map_filter)
  have dc: "distinct (map row_key cs)" using d0 unfolding cs_def by (metis distinct_map_filter)
  have "db_inv_except jtext ({} - {(s_tenant s, m)}) db1"
    unfolding db1_def
  proof (rule capture_inv [OF inv])
    show "event_fields (s_history_op s) (On_delete old) = (s_tenant s, m, ''delete'', Some old, None, r_version old)"
      using key by simp
    show "Some old = live_of (record_entries db (s_tenant s) m)"
      using Some db_inv_except_find_row [OF inv, of "s_tenant s" m] by simp
  qed (use d0 find0 in simp_all)
  moreover have "\<forall>r \<in> set cs. find_row db1 (r_tenant r) (r_id r) = Some r"
  proof
    fix r assume "r \<in> set cs"
    then have "r \<in> set rows" by (simp add: cs_def)
    with d0 show "find_row db1 (r_tenant r) (r_id r) = Some r"
      by (simp add: find_row_def db1_def jarvis_record_history_memories find_key_Some [OF d0]) (simp add: row_key_def)
  qed
  ultimately show ?thesis using dc unfolding db' db_inv_def by (simp add: ri_set_null_inv)
qed

end
