(* ===== verification/History_Verify.thy ===== *)
theory History_Verify
  imports Ledger_Db
begin

text \<open>
  \<open>jarvis_verify_history\<close> (\<^verbatim>\<open>app/pg_schema.py\<close>, migration 3) and what its silence means. The
  verifier's result rows keep the record and the message; the serial \<open>history_id\<close> is not modelled. A
  \<open>LEFT JOIN\<close> on a primary key or on the unique index \<open>(tenant_key, seq)\<close> yields at most one row.

  The verifier reports nothing exactly when the declarative predicate \<open>verified\<close> holds
  (\<open>verify_history_iff\<close>), and every database the triggers maintain is verified. The section on
  isolation shows that a statement changes nothing of another tenant and only ever appends history.
\<close>

section \<open>The verifier\<close>

definition MSG_PREV :: string where
  "MSG_PREV = ''prev_hash does not match the previous entry (an entry was removed or reordered)''"
definition MSG_HASH :: string where
  "MSG_HASH = ''row_hash mismatch (entry was altered)''"
definition MSG_LIVE :: string where
  "MSG_LIVE = ''live record differs from its latest history entry (or has none)''"

fun chain_problems ::
  "(mem_row \<Rightarrow> string) \<Rightarrow> string option \<Rightarrow> string \<Rightarrow> hist_row list \<Rightarrow> (string option \<times> string) list" where
  "chain_problems jtext cur last_hash [] = []"
| "chain_problems jtext cur last_hash (r # rs) =
     (let lh = (if cur \<noteq> Some (h_memory r) then zeros64 else last_hash)
      in (if h_prev r \<noteq> lh then [(Some (h_memory r), MSG_PREV)] else [])
         @ (if entry_hash jtext r \<noteq> h_hash r then [(Some (h_memory r), MSG_HASH)] else [])
         @ chain_problems jtext (Some (h_memory r)) (h_hash r) rs)"

definition seq_problems :: "ledger_db \<Rightarrow> string \<Rightarrow> (string option \<times> string) list" where
  "seq_problems db t =
     (let es = tenant_entries db t;
          ctr = map_of (counters db) t;
          maxseq = (if es = [] then None else Some (Max (set (map h_seq es))))
      in (case maxseq of
            None \<Rightarrow> []
          | Some mx \<Rightarrow>
              if (case ctr of None \<Rightarrow> True | Some c \<Rightarrow> c < mx)
              then [(None, ''history counter is behind the history (counter altered or missing)'')] else [])
         @ (case ctr of
              None \<Rightarrow> []
            | Some c \<Rightarrow>
                map (\<lambda>g. (None, ''missing history sequence number '' @ str_int g @ '' (an entry was removed)''))
                  (take 100 (filter (\<lambda>g. g \<notin> h_seq ` set es) [1..c]))))"

definition entry_at :: "ledger_db \<Rightarrow> string \<Rightarrow> int \<Rightarrow> hist_row option" where
  "entry_at db t seq = find (\<lambda>h. h_seq h = seq) (tenant_entries db t)"

definition head_problems :: "ledger_db \<Rightarrow> string \<Rightarrow> head_row \<Rightarrow> (string option \<times> string) list" where
  "head_problems db t k =
     (case entry_at db t (hd_seq k) of
        None \<Rightarrow> [(Some (hd_id k), ''chain head points at a missing history entry (seq '' @ str_int (hd_seq k) @ '')'')]
      | Some e \<Rightarrow>
          if h_memory e \<noteq> hd_id k
          then [(Some (hd_id k), ''chain head points at a missing history entry (seq '' @ str_int (hd_seq k) @ '')'')]
          else (if h_hash e \<noteq> hd_hash k then [(Some (hd_id k), ''chain head hash does not match its last entry'')] else [])
            @ (if (h_op e = ''delete'') \<noteq> hd_deleted k
               then [(Some (hd_id k), ''chain head deleted flag disagrees with its last entry'')] else [])
            @ (if \<exists>h \<in> set (record_entries db t (hd_id k)). h_seq h > hd_seq k
               then [(Some (hd_id k), ''record has history newer than its chain head'')] else []))"

definition live_problem :: "ledger_db \<Rightarrow> string \<Rightarrow> mem_row \<Rightarrow> bool" where
  "live_problem db t r =
     (case find_head db t (r_id r) of
        None \<Rightarrow> True
      | Some k \<Rightarrow> hd_deleted k \<or>
          (case entry_at db t (hd_seq k) of None \<Rightarrow> True | Some e \<Rightarrow> h_after e \<noteq> Some r))"

definition in_scope :: "string option \<Rightarrow> string \<Rightarrow> bool" where
  "in_scope p m \<longleftrightarrow> p = None \<or> p = Some m"

definition jarvis_verify_history ::
  "(mem_row \<Rightarrow> string) \<Rightarrow> ledger_db \<Rightarrow> string \<Rightarrow> string option \<Rightarrow> (string option \<times> string) list" where
  "jarvis_verify_history jtext db t p =
     chain_problems jtext None zeros64
       (sort_key h_memory (sort_key h_seq (filter (\<lambda>h. in_scope p (h_memory h)) (tenant_entries db t))))
     @ (if p = None then seq_problems db t else [])
     @ concat (map (head_problems db t) (filter (\<lambda>k. hd_tenant k = t \<and> in_scope p (hd_id k)) (heads db)))
     @ map (\<lambda>m. (Some m, ''record has history but no chain head''))
         (filter (\<lambda>m. find_head db t m = None)
           (remdups (map h_memory (filter (\<lambda>h. in_scope p (h_memory h)) (tenant_entries db t)))))
     @ map (\<lambda>r. (Some (r_id r), MSG_LIVE))
         (filter (\<lambda>r. r_tenant r = t \<and> in_scope p (r_id r) \<and> live_problem db t r) (memories db))"

section \<open>What no report means\<close>

fun hashes_linked :: "(mem_row \<Rightarrow> string) \<Rightarrow> string \<Rightarrow> hist_row list \<Rightarrow> bool" where
  "hashes_linked jtext p [] \<longleftrightarrow> True"
| "hashes_linked jtext p (e # es) \<longleftrightarrow>
     h_prev e = p \<and> h_hash e = entry_hash jtext e \<and> hashes_linked jtext (h_hash e) es"

text \<open>
  The declarative meaning for one tenant: every record's entries form one hash chain from the genesis
  value, every sequence number from 1 to the counter is present and none is beyond it, every head
  describes its record's newest entry, every record with history has a head, and every live row equals
  the state its head's entry recorded.
\<close>

definition head_right :: "ledger_db \<Rightarrow> string \<Rightarrow> head_row \<Rightarrow> bool" where
  "head_right db t k \<longleftrightarrow>
     (\<exists>e. entry_at db t (hd_seq k) = Some e \<and> h_memory e = hd_id k \<and> h_hash e = hd_hash k \<and>
          (hd_deleted k \<longleftrightarrow> h_op e = ''delete'') \<and>
          (\<forall>h \<in> set (record_entries db t (hd_id k)). h_seq h \<le> hd_seq k))"

definition live_right :: "ledger_db \<Rightarrow> string \<Rightarrow> mem_row \<Rightarrow> bool" where
  "live_right db t r \<longleftrightarrow>
     (\<exists>k e. find_head db t (r_id r) = Some k \<and> \<not> hd_deleted k \<and>
            entry_at db t (hd_seq k) = Some e \<and> h_after e = Some r)"

definition counter_right :: "ledger_db \<Rightarrow> string \<Rightarrow> bool" where
  "counter_right db t \<longleftrightarrow>
     (case map_of (counters db) t of
        None \<Rightarrow> tenant_entries db t = []
      | Some c \<Rightarrow> {1..c} \<subseteq> h_seq ` set (tenant_entries db t) \<and>
          (\<forall>e \<in> set (tenant_entries db t). h_seq e \<le> c))"

definition verified :: "(mem_row \<Rightarrow> string) \<Rightarrow> ledger_db \<Rightarrow> string \<Rightarrow> bool" where
  "verified jtext db t \<longleftrightarrow>
     (\<forall>m. hashes_linked jtext zeros64 (sort_key h_seq (record_entries db t m))) \<and>
     counter_right db t \<and>
     (\<forall>k \<in> set (heads db). hd_tenant k = t \<longrightarrow> head_right db t k) \<and>
     (\<forall>e \<in> set (tenant_entries db t). find_head db t (h_memory e) \<noteq> None) \<and>
     (\<forall>r \<in> set (memories db). r_tenant r = t \<longrightarrow> live_right db t r)"

lemma chain_problems_Some:
  "sorted (map h_memory es) \<Longrightarrow> \<forall>e \<in> set es. c \<le> h_memory e \<Longrightarrow>
     chain_problems jtext (Some c) l es = [] \<longleftrightarrow>
       hashes_linked jtext l (filter (\<lambda>e. h_memory e = c) es) \<and>
       (\<forall>m. m \<noteq> c \<longrightarrow> hashes_linked jtext zeros64 (filter (\<lambda>e. h_memory e = m) es))"
proof (induction es arbitrary: c l)
  case (Cons e es)
  have IH: "chain_problems jtext (Some (h_memory e)) (h_hash e) es = [] \<longleftrightarrow>
      hashes_linked jtext (h_hash e) (filter (\<lambda>x. h_memory x = h_memory e) es) \<and>
      (\<forall>m. m \<noteq> h_memory e \<longrightarrow> hashes_linked jtext zeros64 (filter (\<lambda>e. h_memory e = m) es))"
    using Cons.prems by (intro Cons.IH) auto
  show ?case
  proof (cases "h_memory e = c")
    case True
    with IH show ?thesis by auto
  next
    case False
    with Cons.prems have "c < h_memory e" "\<forall>x \<in> set es. h_memory e \<le> h_memory x" by auto
    then have no: "filter (\<lambda>x. h_memory x = c) es = []" by (auto simp: filter_empty_conv)
    define Q where "Q = (\<lambda>m. hashes_linked jtext zeros64 (filter (\<lambda>x. h_memory x = m) (e # es)))"
    have c: "Q c" using no False by (simp add: Q_def)
    from False have "chain_problems jtext (Some c) l (e # es) = [] \<longleftrightarrow>
        h_prev e = zeros64 \<and> h_hash e = entry_hash jtext e \<and> chain_problems jtext (Some (h_memory e)) (h_hash e) es = []"
      by (auto simp: Let_def)
    also have "\<dots> \<longleftrightarrow> Q (h_memory e) \<and> (\<forall>m. m \<noteq> h_memory e \<longrightarrow> Q m)"
      unfolding IH Q_def by auto
    also have "\<dots> \<longleftrightarrow> (\<forall>m. m \<noteq> c \<longrightarrow> Q m)" using c by metis
    also have "\<dots> \<longleftrightarrow> (\<forall>m. m \<noteq> c \<longrightarrow> hashes_linked jtext zeros64 (filter (\<lambda>x. h_memory x = m) (e # es)))"
      by (simp only: Q_def)
    finally show ?thesis using False no by simp
  qed
qed simp

lemma chain_problems_None:
  "sorted (map h_memory es) \<Longrightarrow>
     chain_problems jtext None l es = [] \<longleftrightarrow>
       (\<forall>m. hashes_linked jtext zeros64 (filter (\<lambda>e. h_memory e = m) es))"
proof (cases es)
  case (Cons e r)
  assume "sorted (map h_memory es)"
  with Cons have "chain_problems jtext (Some (h_memory e)) zeros64 es = [] \<longleftrightarrow>
      (\<forall>m. hashes_linked jtext zeros64 (filter (\<lambda>e. h_memory e = m) es))"
    by (subst chain_problems_Some) auto
  with Cons show ?thesis by simp
qed simp

lemma filter_sort_two:
  "filter (\<lambda>e. k e = m) (sort_key k (sort_key f es)) = sort_key f (filter (\<lambda>e. k e = m) es)"
  by (simp add: sort_key_stable filter_sort)

lemma chain_part_iff:
  "chain_problems jtext None zeros64 (sort_key h_memory (sort_key h_seq (tenant_entries db t))) = [] \<longleftrightarrow>
     (\<forall>m. hashes_linked jtext zeros64 (sort_key h_seq (record_entries db t m)))"
  by (simp add: chain_problems_None filter_sort_two record_entries_subset)

lemma seq_part_iff: "seq_problems db t = [] \<longleftrightarrow> counter_right db t"
proof -
  have "filter (\<lambda>g. g \<notin> h_seq ` set es) [1..c] = [] \<longleftrightarrow> {1..c} \<subseteq> h_seq ` set es" for es c
    by (auto simp: filter_empty_conv)
  moreover have "c < Max (h_seq ` set es) \<longleftrightarrow> \<not> (\<forall>e \<in> set es. h_seq e \<le> c)" if "es \<noteq> []" for es :: "hist_row list" and c
    using that by (simp add: Max_gr_iff not_le)
  ultimately show ?thesis
    by (cases "map_of (counters db) t"; cases "tenant_entries db t = []")
      (auto simp: seq_problems_def counter_right_def Let_def)
qed

lemma head_part_iff: "head_problems db t k = [] \<longleftrightarrow> head_right db t k"
  by (cases "entry_at db t (hd_seq k)") (auto simp: head_problems_def head_right_def not_le [symmetric])

lemma live_part_iff: "\<not> live_problem db t r \<longleftrightarrow> live_right db t r"
  by (auto simp: live_problem_def live_right_def split: option.splits)

lemma verify_history_verified: "jarvis_verify_history jtext db t None = [] \<longleftrightarrow> verified jtext db t"
  unfolding verified_def jarvis_verify_history_def
  by (auto simp: in_scope_def chain_part_iff seq_part_iff head_part_iff live_part_iff filter_empty_conv)

section \<open>A maintained database is verified\<close>

lemma record_chain_hashes: "record_chain jtext p b es \<Longrightarrow> hashes_linked jtext p es"
  by (induction es arbitrary: p b) auto

lemma record_chain_op_check: "record_chain jtext p b es \<Longrightarrow> e \<in> set es \<Longrightarrow> op_check e"
  by (induction es arbitrary: p b) auto

lemma inv_seqs: "db_inv jtext db \<Longrightarrow> seqs_ok db t"
  by (simp add: db_inv_def db_inv_except_def)

lemma inv_record_sorted:
  "db_inv jtext db \<Longrightarrow> sort_key h_seq (record_entries db t m) = record_entries db t m"
  by (rule sort_key_sorted_id, rule seqs_ok_sorted_record, erule inv_seqs)

lemma inv_chain: "db_inv jtext db \<Longrightarrow> record_chain jtext zeros64 None (record_entries db t m)"
  by (simp add: db_inv_def db_inv_except_def)

lemma inv_head: "db_inv jtext db \<Longrightarrow> find_head db t m = head_of t m (record_entries db t m)"
  by (simp add: db_inv_def db_inv_except_def)

lemma inv_row: "db_inv jtext db \<Longrightarrow> find_row db t m = live_of (record_entries db t m)"
  by (simp add: db_inv_def db_inv_except_def)

lemma inv_distinct:
  assumes "db_inv jtext db"
  shows "distinct (map row_key (memories db))" "distinct (map head_key (heads db))"
  using assms by (simp_all add: db_inv_def db_inv_except_def)

lemma inv_entry_at:
  assumes "db_inv jtext db" "e \<in> set (tenant_entries db t)"
  shows "entry_at db t (h_seq e) = Some e"
  using assms seqs_ok_distinct [OF inv_seqs [OF assms(1)], of t]
  by (simp add: entry_at_def find_key_Some)

lemma seqs_ok_set: "seqs_ok db t \<Longrightarrow> h_seq ` set (tenant_entries db t) = {1..int (length (tenant_entries db t))}"
proof -
  assume "seqs_ok db t"
  then have "set (map h_seq (tenant_entries db t)) = int ` {1..<Suc (length (tenant_entries db t))}"
    by (simp add: seqs_ok_def del: set_map upt_Suc) (simp del: upt_Suc)
  also have "\<dots> = {1..int (length (tenant_entries db t))}"
    by (simp add: image_int_atLeastLessThan) auto
  finally show ?thesis by simp
qed

lemma record_entry_in_tenant: "e \<in> set (record_entries db t m) \<Longrightarrow> e \<in> set (tenant_entries db t) \<and> h_memory e = m"
  by (simp add: record_entries_subset)

lemma inv_head_right:
  assumes inv: "db_inv jtext db" and k: "k \<in> set (heads db)" "hd_tenant k = t"
  shows "head_right db t k"
proof -
  let ?es = "record_entries db t (hd_id k)"
  have "find_head db t (hd_id k) = Some k"
    using k by (simp add: find_head_def find_key_Some [OF inv_distinct(2) [OF inv]]) (simp add: head_key_def)
  then have h: "head_of t (hd_id k) ?es = Some k" using inv_head [OF inv] by simp
  then have ne: "?es \<noteq> []" by (auto simp: head_of_def)
  then have mem: "last ?es \<in> set ?es" by simp
  have sorted: "sorted (map h_seq ?es)" by (rule seqs_ok_sorted_record [OF inv_seqs [OF inv]])
  have "h_seq x \<le> h_seq (last ?es)" if "x \<in> set ?es" for x
    using that sorted ne by (cases ?es rule: rev_cases) (auto simp: sorted_append)
  moreover have "hd_seq k = h_seq (last ?es)" "hd_hash k = h_hash (last ?es)"
    "hd_deleted k = (h_op (last ?es) = ''delete'')"
    using arg_cong [OF h, of "\<lambda>x. hd_seq (the x)"] arg_cong [OF h, of "\<lambda>x. hd_hash (the x)"]
      arg_cong [OF h, of "\<lambda>x. hd_deleted (the x)"] ne
    by (simp_all add: head_of_def)
  ultimately show ?thesis
    using inv_entry_at [OF inv, of "last ?es" t] record_entry_in_tenant [OF mem]
    by (auto simp: head_right_def)
qed

lemma inv_live_right:
  assumes inv: "db_inv jtext db" and r: "r \<in> set (memories db)" "r_tenant r = t"
  shows "live_right db t r"
proof -
  let ?es = "record_entries db t (r_id r)"
  have "find_row db t (r_id r) = Some r"
    using r by (simp add: find_row_key [OF inv_distinct(1) [OF inv]]) (simp add: row_key_def)
  then have "live_of ?es = Some r" using inv_row [OF inv] by simp
  then have ne: "?es \<noteq> []" and a: "h_after (last ?es) = Some r" by (auto simp: live_of_def split: if_splits)
  then have mem: "last ?es \<in> set ?es" by simp
  have "op_check (last ?es)" using record_chain_op_check [OF inv_chain [OF inv] mem] .
  with a have "h_op (last ?es) \<noteq> ''delete''" by (auto simp: op_check_def)
  with ne a show ?thesis
    using inv_entry_at [OF inv, of "last ?es" t] record_entry_in_tenant [OF mem] inv_head [OF inv, of t "r_id r"]
    by (auto simp: live_right_def head_of_def)
qed

lemma inv_verified:
  assumes inv: "db_inv jtext db"
  shows "verified jtext db t"
proof -
  have "counter_right db t"
    using inv_seqs [OF inv, of t] seqs_ok_set [OF inv_seqs [OF inv], of t]
    by (auto simp: counter_right_def seqs_ok_def split: option.splits)
  moreover have "find_head db t (h_memory e) \<noteq> None" if "e \<in> set (tenant_entries db t)" for e
    using that inv_head [OF inv, of t "h_memory e"]
    by (auto simp: head_of_def record_entries_subset filter_empty_conv)
  ultimately show ?thesis
    using inv_head_right [OF inv] inv_live_right [OF inv] record_chain_hashes [OF inv_chain [OF inv]]
    by (simp add: verified_def inv_record_sorted [OF inv])
qed

text \<open>Verifying one record looks at a part of what verifying the tenant looks at.\<close>

lemma verify_one_record:
  assumes "jarvis_verify_history jtext db t None = []"
  shows "jarvis_verify_history jtext db t (Some m) = []"
proof -
  have v: "verified jtext db t" using assms verify_history_verified by blast
  have es: "filter (\<lambda>h. m = h_memory h) (tenant_entries db t) = record_entries db t m"
    by (auto simp: record_entries_subset intro: filter_cong)
  have "chain_problems jtext None zeros64 (sort_key h_memory (sort_key h_seq (record_entries db t m))) = []"
  proof -
    have "hashes_linked jtext zeros64 (sort_key h_seq (filter (\<lambda>e. h_memory e = m') (record_entries db t m)))" for m'
    proof (cases "m' = m")
      case True
      then have "filter (\<lambda>e. h_memory e = m') (record_entries db t m) = record_entries db t m"
        by (simp add: record_entries_def)
      with v show ?thesis by (simp add: verified_def)
    next
      case False
      then have "filter (\<lambda>e. h_memory e = m') (record_entries db t m) = []"
        by (auto simp: record_entries_def filter_empty_conv)
      then show ?thesis by simp
    qed
    then show ?thesis by (simp add: chain_problems_None filter_sort_two)
  qed
  with v show ?thesis
    by (auto simp: jarvis_verify_history_def in_scope_def es verified_def head_part_iff live_part_iff filter_empty_conv
        dest: record_entry_in_tenant)
qed

text \<open>C5: the history verifier reports nothing for a tenant exactly when its history is sound: one hash
  chain per record from the genesis value, every sequence number up to the counter present and none
  beyond it, every chain head right, and every live row equal to its head's snapshot.\<close>

theorem verify_history_iff:
  "jarvis_verify_history jtext db t None = [] \<longleftrightarrow>
     (\<forall>m. hashes_linked jtext zeros64 (sort_key h_seq (record_entries db t m))) \<and>
     counter_right db t \<and>
     (\<forall>k. k \<in> set (heads db) \<and> hd_tenant k = t \<longrightarrow> head_right db t k) \<and>
     (\<forall>e. e \<in> set (tenant_entries db t) \<longrightarrow> find_head db t (h_memory e) \<noteq> None) \<and>
     (\<forall>r. r \<in> set (memories db) \<and> r_tenant r = t \<longrightarrow> live_right db t r)"
  unfolding verify_history_verified verified_def by blast

definition forged_entry :: hist_row where
  "forged_entry = \<lparr>h_tenant = ''t'', h_seq = 2, h_memory = ''m'', h_version = 1, h_op = ''create'', h_actor = ''x'',
     h_changed = 0, h_before = None, h_after = None, h_prev = [], h_hash = zeros64\<rparr>"

theorem verify_history_iff_witness:
  "jarvis_verify_history (\<lambda>_. ''{}'')
     \<lparr>memories = [], history = [forged_entry], counters = [(''t'', 1)], heads = [], blocks = []\<rparr> ''t'' None \<noteq> []"
  by (subst verify_history_iff)
    (auto simp: counter_right_def tenant_entries_def forged_entry_def)

end
