(* ===== verification/Hash_Chain.thy ===== *)
theory Hash_Chain
  imports Sha256
begin

text \<open>
  The contract every log of the ledger shares: entries carry a position, the hash of the entry before
  them and their own hash, which is the SHA-256 of a text that determines the entry. The sealed block
  chain (\<^verbatim>\<open>app/blocks.py\<close>), the attestation log, the trust log (\<^verbatim>\<open>app/attest.py\<close>) and the
  call log (\<^verbatim>\<open>app/call_log.py\<close>) each interpret the locale on their own entries and hashes.

  The lemmas say what one recorded hash of a well-formed log is worth: it fixes the whole log up to it.
\<close>

locale hash_chain =
  fixes genesis :: string
    and pos :: "'e \<Rightarrow> int"
    and prev :: "'e \<Rightarrow> string"
    and hash :: "'e \<Rightarrow> string"
    and pre :: "'e \<Rightarrow> bytes"
    and ok :: "'e \<Rightarrow> bool"
  assumes hash_pre: "ok e \<Longrightarrow> hash e = sha256_hex (pre e)"
    and pre_inj: "ok e \<Longrightarrow> ok f \<Longrightarrow> pre e = pre f \<Longrightarrow> e = f"
begin

fun linked :: "int \<Rightarrow> string \<Rightarrow> 'e list \<Rightarrow> bool" where
  "linked n p [] \<longleftrightarrow> True"
| "linked n p (e # es) \<longleftrightarrow> ok e \<and> pos e = n \<and> prev e = p \<and> linked (n + 1) (hash e) es"

lemma linked_append:
  "linked n p (es @ fs) \<longleftrightarrow>
     linked n p es \<and> linked (n + int (length es)) (if es = [] then p else hash (last es)) fs"
  by (induction es arbitrary: n p) (auto simp: algebra_simps)

lemma linked_ok: "linked n p es \<Longrightarrow> e \<in> set es \<Longrightarrow> ok e"
  by (induction es arbitrary: n p) auto

lemma linked_pos: "linked n p es \<Longrightarrow> i < length es \<Longrightarrow> pos (es ! i) = n + int i"
  by (induction es arbitrary: n p i) (auto simp: nth_Cons split: nat.splits)

lemma linked_snoc_pos: "linked n p (es @ [e]) \<Longrightarrow> pos e = n + int (length es)"
  by (simp add: linked_append)

lemma hash_inj:
  assumes "ok e" "ok f" "hash e = hash f" "inj_on sha256 S" "pre e \<in> S" "pre f \<in> S"
  shows "e = f"
  using assms by (metis hash_pre pre_inj sha256_hex_injD)

text \<open>Two well-formed logs that end in the same hash are the same log.\<close>

lemma same_head_same_log:
  assumes "linked 1 genesis (es @ [e])" "linked 1 genesis (fs @ [f])" "hash e = hash f"
    and "inj_on sha256 (pre ` (set (es @ [e]) \<union> set (fs @ [f])))"
  shows "es @ [e] = fs @ [f]"
proof -
  have go: "es = fs"
    if "linked 1 genesis es" "linked 1 genesis fs" "length es = length fs"
      "(if es = [] then genesis else hash (last es)) = (if fs = [] then genesis else hash (last fs))"
      "inj_on sha256 (pre ` (set es \<union> set fs))" for es fs
    using that
  proof (induction es arbitrary: fs rule: rev_induct)
    case Nil
    then show ?case by simp
  next
    case (snoc x xs)
    then obtain y ys where fs: "fs = ys @ [y]" by (metis append_Nil length_0_conv rev_exhaust snoc_eq_iff_butlast)
    from snoc.prems fs have "hash x = hash y" "ok x" "ok y"
      by (auto simp: linked_append)
    moreover have "pre x \<in> pre ` (set (xs @ [x]) \<union> set fs)" "pre y \<in> pre ` (set (xs @ [x]) \<union> set fs)"
      using fs by simp_all
    ultimately have "x = y" using hash_inj snoc.prems(5) by blast
    with snoc.prems fs have "(if xs = [] then genesis else hash (last xs)) = (if ys = [] then genesis else hash (last ys))"
      by (auto simp: linked_append)
    then have "xs = ys"
      using snoc.prems fs by (intro snoc.IH) (auto simp: linked_append intro: inj_on_subset)
    with fs \<open>x = y\<close> show ?case by simp
  qed
  have "ok e" "ok f" using assms(1,2) by (simp_all add: linked_append)
  moreover have "pre e \<in> pre ` (set (es @ [e]) \<union> set (fs @ [f]))" "pre f \<in> pre ` (set (es @ [e]) \<union> set (fs @ [f]))"
    by simp_all
  ultimately have "e = f" using hash_inj assms(3,4) by blast
  then have "length es = length fs"
    using linked_snoc_pos [OF assms(1)] linked_snoc_pos [OF assms(2)] by simp
  with \<open>e = f\<close> assms show ?thesis by (intro go) auto
qed

text \<open>
  The anchor law: a hash recorded for position \<open>n\<close> of one well-formed log and found at some position
  of another fixes the whole of the second log up to it.
\<close>

lemma anchor_fixes_prefix:
  assumes "linked 1 genesis es" "linked 1 genesis fs" "i < length es" "j < length fs"
    and "hash (es ! i) = hash (fs ! j)"
    and "inj_on sha256 (pre ` (set es \<union> set fs))"
  shows "i = j \<and> take (Suc i) es = take (Suc j) fs"
proof -
  have e: "take (Suc i) es = take i es @ [es ! i]" and f: "take (Suc j) fs = take j fs @ [fs ! j]"
    using assms by (simp_all add: take_Suc_conv_app_nth)
  have "linked 1 genesis (take (Suc i) es)" "linked 1 genesis (take (Suc j) fs)"
    using assms(1,2) linked_append by (metis append_take_drop_id)+
  moreover have "set (take i es @ [es ! i]) \<union> set (take j fs @ [fs ! j]) \<subseteq> set es \<union> set fs"
    using assms(3,4) by (auto dest: in_set_takeD)
  then have "inj_on sha256 (pre ` (set (take i es @ [es ! i]) \<union> set (take j fs @ [fs ! j])))"
    by (intro inj_on_subset [OF assms(6)] image_mono)
  ultimately have "take i es @ [es ! i] = take j fs @ [fs ! j]"
    using e f assms(5) by (intro same_head_same_log) simp_all
  moreover from this have "i = j" using assms(3,4) by (metis length_append_singleton length_take min.absorb4 nat.inject)
  ultimately show ?thesis using e f by simp
qed

end

end
