(* ===== verification/Block_Store.thy ===== *)
theory Block_Store
  imports History_Verify Hash_Chain
begin

text \<open>
  Continuity Blocks in the database (\<^verbatim>\<open>app/pg_schema.py\<close>, migration 6): sealing the next block of the
  session tenant's history (\<open>jarvis_seal_block\<close>), the database's verifier (\<open>jarvis_verify_blocks\<close>),
  the independent one in Python (\<^verbatim>\<open>app/pg_verify.py\<close>, \<open>_block_problems\<close>) and the store's block
  operations (\<^verbatim>\<open>app/pg_store.py\<close>: \<open>seal_blocks\<close>, \<open>block_head\<close>, \<open>list_blocks\<close>, \<open>get_block\<close>).

  \<open>blocks_right\<close> is the declarative meaning of a sealed chain: heights 1, 2, \dots, each block naming the
  hash of the one before, the ranges tiling the history, every root and hash reproducible. Both
  verifiers are silent exactly on such chains, sealing produces them, and the hash of one block fixes the
  row hashes of all the history it reaches back over.
\<close>

section \<open>Sealing\<close>

definition range_entries :: "ledger_db \<Rightarrow> string \<Rightarrow> int \<Rightarrow> int \<Rightarrow> hist_row list" where
  "range_entries db t lo hi =
     sort_key h_seq (filter (\<lambda>h. lo \<le> h_seq h \<and> h_seq h \<le> hi) (tenant_entries db t))"

definition leaves :: "ledger_db \<Rightarrow> string \<Rightarrow> int \<Rightarrow> int \<Rightarrow> string list" where
  "leaves db t lo hi = map h_hash (range_entries db t lo hi)"

definition b_height :: "block_row \<Rightarrow> int" where
  "b_height b = bf_height (b_fields b)"

definition b_last :: "block_row \<Rightarrow> int" where
  "b_last b = bf_last_seq (b_fields b)"

definition tenant_blocks :: "ledger_db \<Rightarrow> string \<Rightarrow> block_row list" where
  "tenant_blocks db t = sort_key b_height (filter (\<lambda>b. bf_tenant (b_fields b) = t) (blocks db))"

text \<open>\<open>ORDER BY height DESC LIMIT 1\<close>.\<close>

definition tip_block :: "ledger_db \<Rightarrow> string \<Rightarrow> block_row option" where
  "tip_block db t = (case rev (tenant_blocks db t) of [] \<Rightarrow> None | b # _ \<Rightarrow> Some b)"

definition block_checks :: "block_row \<Rightarrow> bool" where
  "block_checks b \<longleftrightarrow>
     bf_tenant (b_fields b) \<noteq> [] \<and> 1 \<le> bf_height (b_fields b) \<and> 1 \<le> bf_first_seq (b_fields b) \<and>
     1 \<le> bf_entry_count (b_fields b) \<and> hex64 (bf_prev (b_fields b)) \<and> hex64 (bf_root (b_fields b)) \<and>
     hex64 (b_hash b) \<and> bf_format (b_fields b) = 1 \<and>
     1 \<le> char_length (b_sealed_by b) \<and> char_length (b_sealed_by b) \<le> 128 \<and>
     bf_first_seq (b_fields b) \<le> bf_last_seq (b_fields b)"

definition insert_block :: "block_row \<Rightarrow> ledger_db \<Rightarrow> sql_error + ledger_db" where
  "insert_block b db =
     (if \<not> block_checks b then Inl Check_violation
      else if \<exists>x \<in> set (blocks db). bf_tenant (b_fields x) = bf_tenant (b_fields b) \<and>
                (bf_height (b_fields x) = bf_height (b_fields b) \<or>
                 bf_first_seq (b_fields x) = bf_first_seq (b_fields b))
      then Inl Unique_violation
      else Inr (db\<lparr>blocks := blocks db @ [b]\<rparr>))"

record seal_result =
  sr_sealed :: bool
  sr_block :: "(int \<times> int \<times> int \<times> int \<times> string) option"
  sr_reason :: string

definition not_sealed :: "string \<Rightarrow> seal_result" where
  "not_sealed reason = \<lparr>sr_sealed = False, sr_block = None, sr_reason = reason\<rparr>"

text \<open>
  The arguments of a seal: thresholds, maximal age (an interval in microseconds and the text PostgreSQL
  prints for it) and the force flag; \<open>isolation\<close> is the transaction's isolation level and \<open>s_now\<close> the clock.
\<close>

record seal_args =
  sa_min_entries :: int
  sa_max_age :: int
  sa_max_age_text :: string
  sa_force :: bool
  sa_max_entries :: int

definition jarvis_seal_block ::
  "session \<Rightarrow> string \<Rightarrow> string \<Rightarrow> seal_args \<Rightarrow> ledger_db \<Rightarrow> sql_error + seal_result \<times> ledger_db" where
  "jarvis_seal_block s isolation t a db =
     (if t = [] then Inl (Raised ''jarvis_seal_block: a tenant is required'')
      else if s_tenant s \<noteq> t then Inl (Raised (''jarvis_seal_block: tenant '' @ t @ '' is not the session tenant''))
      else if isolation \<noteq> ''read committed'' then
        Inl (Raised ''jarvis_seal_block needs READ COMMITTED (it relies on seeing the previous sealer's block once it holds the seal lock)'')
      else if sa_min_entries a < 1 \<or> sa_max_entries a < 1 then
        Inl (Raised ''jarvis_seal_block: thresholds must be at least 1'')
      else case map_of (counters db) t of
        None \<Rightarrow> Inr (not_sealed ''no history to seal'', db)
      | Some ctr \<Rightarrow>
          (case (case tip_block db t of None \<Rightarrow> (0, 0, zeros64) | Some b \<Rightarrow> (b_height b, b_last b, b_hash b)) of
             (bh, bl, bprev) \<Rightarrow>
          if bl > ctr then
            Inl (Raised ''jarvis_seal_block: the last block extends past the history counter; run pg_verify before sealing'')
          else let st = bl + 1 in
          if st > ctr then Inr (not_sealed ''nothing new to seal'', db)
          else case entry_at db t st of
            None \<Rightarrow> Inl (Raised (''jarvis_seal_block: history entry '' @ str_int st @ '' is missing; run pg_verify before sealing''))
          | Some oldest \<Rightarrow>
              if \<not> sa_force a \<and> ctr - st + 1 < sa_min_entries a \<and> s_now s - h_changed oldest < sa_max_age a
              then Inr (not_sealed (''below threshold: '' @ str_int (ctr - st + 1) @ '' unsealed entries (need '' @
                     str_int (sa_min_entries a) @ '') and the oldest is younger than '' @ sa_max_age_text a), db)
              else let e = min ctr (st + sa_max_entries a - 1);
                       n = e - st + 1;
                       ls = leaves db t st e
                   in if int (length ls) \<noteq> n then
                        Inl (Raised (''jarvis_seal_block: history is missing entries between seq '' @ str_int st @ '' and '' @
                          str_int e @ ''; run pg_verify before sealing''))
                      else case jarvis_merkle_root ls of
                        Inl msg \<Rightarrow> Inl (Raised msg)
                      | Inr rt \<Rightarrow>
                          let hsh = jarvis_block_hash 1 t (bh + 1) st e n bprev rt;
                              act = (if s_actor s = [] then ''unknown'' else s_actor s)
                          in res_bind (insert_block
                               \<lparr>b_fields = \<lparr>bf_tenant = t, bf_height = bh + 1, bf_first_seq = st, bf_last_seq = e,
                                  bf_entry_count = n, bf_prev = bprev, bf_root = rt, bf_format = 1\<rparr>,
                                b_hash = hsh, b_sealed_at = s_now s, b_sealed_by = act\<rparr> db)
                             (\<lambda>db'. Inr (\<lparr>sr_sealed = True, sr_block = Some (bh + 1, st, e, n, hsh), sr_reason = ''sealed''\<rparr>, db'))))"

section \<open>The database's verifier\<close>

definition stored_block_hash :: "block_row \<Rightarrow> string" where
  "stored_block_hash b = (let f = b_fields b in
     jarvis_block_hash (bf_format f) (bf_tenant f) (bf_height f) (bf_first_seq f) (bf_last_seq f)
       (bf_entry_count f) (bf_prev f) (bf_root f))"

definition missing_heights :: "ledger_db \<Rightarrow> string \<Rightarrow> (int \<times> string) list" where
  "missing_heights db t =
     (let hs = map b_height (tenant_blocks db t)
      in if hs = [] then []
         else map (\<lambda>g. (g, ''missing block (a block was removed)''))
                (take 100 (filter (\<lambda>g. g \<notin> set hs) [1..Max (set hs)])))"

fun block_loop :: "ledger_db \<Rightarrow> string \<Rightarrow> string \<Rightarrow> int \<Rightarrow> block_row list \<Rightarrow> (int \<times> string) list" where
  "block_loop db t prev_hash prev_last [] = []"
| "block_loop db t prev_hash prev_last (b # bs) =
     (let f = b_fields b; ls = leaves db t (bf_first_seq f) (bf_last_seq f); n = int (length ls);
          rt = (if n > 0 then (case jarvis_merkle_root ls of Inl _ \<Rightarrow> None | Inr r \<Rightarrow> Some r) else None)
      in (if bf_prev f \<noteq> prev_hash then [(bf_height f,
            ''prev_block_hash does not match the previous block (a block was removed, reordered or altered)'')] else [])
         @ (if bf_first_seq f \<noteq> prev_last + 1 then [(bf_height f,
            ''block does not continue the history (expected first_seq '' @ str_int (prev_last + 1) @ '', found '' @
              str_int (bf_first_seq f) @ '')'')] else [])
         @ (if (case map_of (counters db) t of None \<Rightarrow> True | Some c \<Rightarrow> bf_last_seq f > c) then [(bf_height f,
            ''block extends past the history counter (counter altered or history removed)'')] else [])
         @ (if n \<noteq> bf_entry_count f \<or> bf_entry_count f \<noteq> bf_last_seq f - bf_first_seq f + 1 then [(bf_height f,
            ''entry count does not match the history in the block's range (block says '' @ str_int (bf_entry_count f) @
              '', found '' @ str_int n @ '')'')] else [])
         @ (if rt \<noteq> Some (bf_root f) then [(bf_height f,
            ''entries_root does not match the history entries in the block's range (an entry or the block was altered)'')] else [])
         @ (if stored_block_hash b \<noteq> b_hash b then [(bf_height f,
            ''block_hash does not match the block's contents (block was altered)'')] else [])
         @ block_loop db t (b_hash b) (bf_last_seq f) bs)"

definition jarvis_verify_blocks :: "ledger_db \<Rightarrow> string \<Rightarrow> (int \<times> string) list" where
  "jarvis_verify_blocks db t = missing_heights db t @ block_loop db t zeros64 0 (tenant_blocks db t)"

section \<open>app/pg_verify.py: the independent recomputation\<close>

text \<open>
  \<open>continuity_blocks.merkle_root\<close> and \<open>block_hash\<close> raise \<open>ValueError\<close> on malformed values; the
  tables' checks exclude them, and the model reports such a block as not matching.
\<close>

fun recompute :: "ledger_db \<Rightarrow> string \<Rightarrow> string \<Rightarrow> int \<Rightarrow> int \<Rightarrow> block_row list \<Rightarrow> (string \<times> string) list" where
  "recompute db t prev_hash prev_last expected_height [] = []"
| "recompute db t prev_hash prev_last expected_height (b # bs) =
     (let f = b_fields b; label = ''block '' @ str_int (bf_height f);
          ls = leaves db t (bf_first_seq f) (bf_last_seq f)
      in (if bf_height f \<noteq> expected_height then
            [(label, ''(recompute) expected height '' @ str_int expected_height @ '': a block is missing'')] else [])
         @ (if bf_prev f \<noteq> prev_hash then
            [(label, ''(recompute) prev_block_hash does not match the previous block'')] else [])
         @ (if bf_first_seq f \<noteq> prev_last + 1 then
            [(label, ''(recompute) block does not continue the history (expected first_seq '' @ str_int (prev_last + 1) @ '')'')] else [])
         @ (if int (length ls) \<noteq> bf_entry_count f \<or> bf_entry_count f \<noteq> bf_last_seq f - bf_first_seq f + 1 then
            [(label, ''(recompute) entry count does not match the history in range (block says '' @
               str_int (bf_entry_count f) @ '', found '' @ str_int (int (length ls)) @ '')'')]
            else if merkle_root ls \<noteq> Inr (bf_root f) then
            [(label, ''(recompute) entries_root does not match the history entries in range'')] else [])
         @ (if block_hash f \<noteq> Inr (b_hash b) then
            [(label, ''(recompute) block_hash does not match the block's contents'')] else [])
         @ recompute db t (b_hash b) (bf_last_seq f) (bf_height f + 1) bs)"

definition block_problems :: "ledger_db \<Rightarrow> string \<Rightarrow> (string \<times> string) list" where
  "block_problems db t =
     map (\<lambda>(h, p). (''block '' @ str_int h, p)) (jarvis_verify_blocks db t)
     @ recompute db t GENESIS_HASH 0 1 (tenant_blocks db t)"

section \<open>app/pg_store.py: the store's block operations\<close>

record block_head_view =
  bh_tip :: "block_row option"
  bh_sealed_seq :: int
  bh_history_seq :: int
  bh_unsealed :: int
  bh_oldest :: "int option"

definition history_seq :: "ledger_db \<Rightarrow> string \<Rightarrow> int" where
  "history_seq db t = (case map_of (counters db) t of None \<Rightarrow> 0 | Some c \<Rightarrow> c)"

definition block_head :: "ledger_db \<Rightarrow> string \<Rightarrow> block_head_view" where
  "block_head db t =
     (let tip = tip_block db t;
          sealed_seq = (case tip of None \<Rightarrow> 0 | Some b \<Rightarrow> b_last b);
          tail = filter (\<lambda>h. h_seq h > sealed_seq) (tenant_entries db t);
          oldest = (if tail = [] then None else Some (Min (set (map h_changed tail))))
      in \<lparr>bh_tip = tip, bh_sealed_seq = sealed_seq, bh_history_seq = history_seq db t,
          bh_unsealed = max 0 (history_seq db t - sealed_seq), bh_oldest = oldest\<rparr>)"

definition list_blocks :: "ledger_db \<Rightarrow> string \<Rightarrow> int \<Rightarrow> int \<Rightarrow> block_row list" where
  "list_blocks db t after_height limit =
     take (nat (max 1 (min limit 1000))) (filter (\<lambda>b. b_height b > max 0 after_height) (tenant_blocks db t))"

definition get_block :: "ledger_db \<Rightarrow> string \<Rightarrow> int \<Rightarrow> block_row option" where
  "get_block db t height = find (\<lambda>b. b_height b = height) (tenant_blocks db t)"

text \<open>
  \<open>seal_blocks\<close>: one block per transaction, at most \<open>max_blocks\<close>, stopping at the first call that
  seals nothing; an error of the database function ends the call with that error.
\<close>

fun seal_loop :: "nat \<Rightarrow> session \<Rightarrow> seal_args \<Rightarrow> string \<Rightarrow> block_row list \<Rightarrow> ledger_db
    \<Rightarrow> sql_error + (block_row list \<times> string) \<times> ledger_db" where
  "seal_loop 0 s a reason acc db = Inr ((acc, reason), db)"
| "seal_loop (Suc n) s a reason acc db =
     (case jarvis_seal_block s ''read committed'' (s_tenant s) a db of
        Inl e \<Rightarrow> Inl e
      | Inr (r, db') \<Rightarrow>
          (case sr_block r of
             None \<Rightarrow> Inr ((acc, sr_reason r), db')
           | Some (h, _) \<Rightarrow>
               (case get_block db' (s_tenant s) h of
                  None \<Rightarrow> Inr ((acc, sr_reason r), db')
                | Some b \<Rightarrow> seal_loop n s a (sr_reason r) (acc @ [b]) db')))"

definition seal_blocks :: "session \<Rightarrow> seal_args \<Rightarrow> int \<Rightarrow> ledger_db
    \<Rightarrow> sql_error + (block_row list \<times> string \<times> block_head_view) \<times> ledger_db" where
  "seal_blocks s a max_blocks db =
     (case seal_loop (nat (max 1 max_blocks)) s a ''nothing new to seal'' [] db of
        Inl e \<Rightarrow> Inl e
      | Inr ((sealed, reason), db') \<Rightarrow> Inr ((sealed, reason, block_head db' (s_tenant s)), db'))"

section \<open>What the verifiers' silence means\<close>

fun blocks_right :: "ledger_db \<Rightarrow> string \<Rightarrow> int \<Rightarrow> string \<Rightarrow> int \<Rightarrow> block_row list \<Rightarrow> bool" where
  "blocks_right db t n p l [] \<longleftrightarrow> True"
| "blocks_right db t n p l (b # bs) \<longleftrightarrow>
     (let f = b_fields b; ls = leaves db t (bf_first_seq f) (bf_last_seq f)
      in bf_height f = n \<and> bf_prev f = p \<and> bf_first_seq f = l + 1 \<and>
         (\<exists>c. map_of (counters db) t = Some c \<and> bf_last_seq f \<le> c) \<and>
         int (length ls) = bf_entry_count f \<and> bf_entry_count f = bf_last_seq f - bf_first_seq f + 1 \<and>
         jarvis_merkle_root ls = Inr (bf_root f) \<and> stored_block_hash b = b_hash b \<and>
         blocks_right db t (n + 1) (b_hash b) (bf_last_seq f) bs)"

definition chain_right :: "ledger_db \<Rightarrow> string \<Rightarrow> bool" where
  "chain_right db t \<longleftrightarrow> blocks_right db t 1 zeros64 0 (tenant_blocks db t)"

text \<open>What the constraints of the two tables guarantee whatever the rows say.\<close>

definition table_checks :: "ledger_db \<Rightarrow> string \<Rightarrow> bool" where
  "table_checks db t \<longleftrightarrow>
     (\<forall>h \<in> set (tenant_entries db t). hex64 (h_hash h)) \<and> distinct (map h_seq (tenant_entries db t)) \<and>
     (\<forall>b \<in> set (tenant_blocks db t). block_checks b) \<and> distinct (map b_height (tenant_blocks db t))"

lemma sorted_tenant_blocks: "sorted (map b_height (tenant_blocks db t))"
  by (simp add: tenant_blocks_def)

lemma block_loop_iff:
  "block_loop db t p l bs = [] \<and> map b_height bs = [n..n + int (length bs) - 1] \<longleftrightarrow> blocks_right db t n p l bs"
proof (induction bs arbitrary: n p l)
  case (Cons b bs)
  have up: "[n..n + int (length (b # bs)) - 1] = n # [n + 1..(n + 1) + int (length bs) - 1]"
    by (simp add: upto_rec1 algebra_simps)
  let ?ls = "leaves db t (bf_first_seq (b_fields b)) (bf_last_seq (b_fields b))"
  have rt: "(if 0 < int (length ?ls) then (case jarvis_merkle_root ?ls of Inl _ \<Rightarrow> None | Inr r \<Rightarrow> Some r) else None) = Some r
      \<longleftrightarrow> jarvis_merkle_root ?ls = Inr r" for r
    by (auto simp: jarvis_merkle_root_def)
  have ctr: "(case map_of (counters db) t of None \<Rightarrow> True | Some c \<Rightarrow> x > c) \<longleftrightarrow>
      \<not> (\<exists>c. map_of (counters db) t = Some c \<and> x \<le> c)" for x
    by (auto split: option.splits)
  show ?case
    unfolding up Cons.IH [symmetric] blocks_right.simps block_loop.simps Let_def rt ctr
    by (auto simp flip: b_height_def)
qed simp

lemma heights_complete:
  assumes "missing_heights db t = []" "distinct (map b_height (tenant_blocks db t))"
    and "\<forall>b \<in> set (tenant_blocks db t). 1 \<le> b_height b"
  shows "map b_height (tenant_blocks db t) = [1..int (length (tenant_blocks db t))]"
proof (cases "tenant_blocks db t = []")
  case False
  let ?hs = "map b_height (tenant_blocks db t)"
  define m where "m = Max (set ?hs)"
  have sub: "{1..m} \<subseteq> set ?hs"
    using assms(1) False unfolding missing_heights_def Let_def m_def [symmetric]
    by (auto simp: filter_empty_conv)
  moreover have "set ?hs \<subseteq> {1..m}"
    unfolding m_def using assms(3) by (intro subsetI) (clarsimp simp: Max_ge)
  ultimately have "set ?hs = set [1..m]" by auto
  then have "?hs = [1..m]"
    using sorted_tenant_blocks assms(2) by (intro sorted_distinct_set_unique) auto
  moreover from arg_cong [OF this, of length] have "length (tenant_blocks db t) = nat m" by simp
  moreover from this False have "0 < m" by (cases "0 < m") simp_all
  ultimately show ?thesis by simp
qed simp

lemma missing_heights_none:
  "map b_height (tenant_blocks db t) = [1..int (length (tenant_blocks db t))] \<Longrightarrow> missing_heights db t = []"
proof -
  assume h: "map b_height (tenant_blocks db t) = [1..int (length (tenant_blocks db t))]"
  show ?thesis
  proof (cases "tenant_blocks db t = []")
    case False
    let ?n = "int (length (tenant_blocks db t))"
    have "b_height ` set (tenant_blocks db t) = set [1..?n]" using h by (metis set_map)
    moreover have "Max {1..?n} = ?n" using False by (intro Max_eqI) (simp_all add: Suc_leI)
    ultimately show ?thesis by (simp add: missing_heights_def Let_def filter_empty_conv)
  qed (simp add: missing_heights_def)
qed

lemma table_checks_heights:
  "table_checks db t \<Longrightarrow> \<forall>b \<in> set (tenant_blocks db t). 1 \<le> b_height b"
  by (auto simp: table_checks_def block_checks_def b_height_def)

lemma verify_blocks_chain:
  assumes "table_checks db t"
  shows "jarvis_verify_blocks db t = [] \<longleftrightarrow> chain_right db t"
proof -
  have "missing_heights db t = [] \<longleftrightarrow> map b_height (tenant_blocks db t) = [1..1 + int (length (tenant_blocks db t)) - 1]"
    using heights_complete [of db t] missing_heights_none [of db t] table_checks_heights [OF assms] assms
    by (auto simp: table_checks_def)
  then show ?thesis
    unfolding jarvis_verify_blocks_def chain_right_def block_loop_iff [symmetric] by auto
qed

section \<open>The two verifiers agree\<close>

lemma leaves_hex: "\<forall>h \<in> set (tenant_entries db t). hex64 (h_hash h) \<Longrightarrow> list_all hex64 (leaves db t lo hi)"
  by (auto simp: leaves_def range_entries_def list_all_iff)

lemma python_block_hash:
  "block_checks b \<Longrightarrow> block_hash (b_fields b) = Inr (b_hash b) \<longleftrightarrow> stored_block_hash b = b_hash b"
  by (auto simp: stored_block_hash_def Let_def block_checks_def jarvis_block_hash_eq)

lemma distinct_range: "distinct (map h_seq (tenant_entries db t)) \<Longrightarrow> distinct (map h_seq (range_entries db t lo hi))"
  by (simp add: range_entries_def distinct_map_filter)

lemma range_full:
  assumes "distinct (map h_seq (tenant_entries db t))" "int (length (leaves db t lo hi)) = hi - lo + 1" "lo \<le> hi"
  shows "map h_seq (range_entries db t lo hi) = [lo..hi]"
proof (rule sorted_distinct_set_unique)
  have d: "distinct (map h_seq (range_entries db t lo hi))" using assms(1) by (rule distinct_range)
  have sub: "set (map h_seq (range_entries db t lo hi)) \<subseteq> {lo..hi}" by (auto simp: range_entries_def)
  moreover have "card (set (map h_seq (range_entries db t lo hi))) = card {lo..hi}"
    using assms(2,3) distinct_card [OF d] by (simp add: leaves_def)
  ultimately show "set (map h_seq (range_entries db t lo hi)) = set [lo..hi]"
    by (simp add: card_subset_eq)
  show "distinct (map h_seq (range_entries db t lo hi))" by (fact d)
qed (simp_all add: range_entries_def)

lemma recompute_iff:
  assumes "\<forall>h \<in> set (tenant_entries db t). hex64 (h_hash h)" "distinct (map h_seq (tenant_entries db t))"
    and "\<forall>b \<in> set bs. block_checks b" "counter_right db t"
  shows "recompute db t p l n bs = [] \<longleftrightarrow> blocks_right db t n p l bs"
  using assms(3)
proof (induction bs arbitrary: p l n)
  case (Cons b bs)
  let ?f = "b_fields b"
  let ?ls = "leaves db t (bf_first_seq ?f) (bf_last_seq ?f)"
  have chk: "block_checks b" using Cons.prems by simp
  have root: "jarvis_merkle_root ?ls = merkle_root ?ls"
    using jarvis_merkle_root_eq_hex leaves_hex [OF assms(1)] by blast
  have ctr: "\<exists>c. map_of (counters db) t = Some c \<and> bf_last_seq ?f \<le> c"
    if len: "int (length ?ls) = bf_entry_count ?f" "bf_entry_count ?f = bf_last_seq ?f - bf_first_seq ?f + 1"
  proof -
    have le: "bf_first_seq ?f \<le> bf_last_seq ?f" using chk by (simp add: block_checks_def)
    then have "map h_seq (range_entries db t (bf_first_seq ?f) (bf_last_seq ?f)) = [bf_first_seq ?f..bf_last_seq ?f]"
      using len assms(2) by (intro range_full) auto
    then have "bf_last_seq ?f \<in> set (map h_seq (range_entries db t (bf_first_seq ?f) (bf_last_seq ?f)))"
      using le by simp
    then have "bf_last_seq ?f \<in> h_seq ` set (tenant_entries db t)" by (auto simp: range_entries_def)
    then show ?thesis using assms(4) by (auto simp: counter_right_def split: option.splits)
  qed
  have split: "(if P then [x] else if Q then [y] else []) = [] \<longleftrightarrow> \<not> P \<and> \<not> Q" for P Q and x y :: "string \<times> string"
    by auto
  have IH: "recompute db t (b_hash b) (bf_last_seq ?f) (bf_height ?f + 1) bs = [] \<longleftrightarrow>
      blocks_right db t (bf_height ?f + 1) (b_hash b) (bf_last_seq ?f) bs"
    using Cons by simp
  show ?case
    unfolding recompute.simps blocks_right.simps Let_def root append_is_Nil_conv split IH python_block_hash [OF chk]
    using ctr by auto
qed simp

section \<open>Sealing keeps the chain right\<close>

definition block_order :: "ledger_db \<Rightarrow> string \<Rightarrow> bool" where
  "block_order db t \<longleftrightarrow> sorted (map b_height (filter (\<lambda>b. bf_tenant (b_fields b) = t) (blocks db)))"

definition ledger_inv :: "(mem_row \<Rightarrow> string) \<Rightarrow> ledger_db \<Rightarrow> bool" where
  "ledger_inv jtext db \<longleftrightarrow> db_inv jtext db \<and> (\<forall>t. chain_right db t) \<and> (\<forall>t. block_order db t) \<and>
     (\<forall>b \<in> set (blocks db). block_checks b)"

lemma tenant_blocks_order:
  "block_order db t \<Longrightarrow> tenant_blocks db t = filter (\<lambda>b. bf_tenant (b_fields b) = t) (blocks db)"
  by (simp add: block_order_def tenant_blocks_def sort_key_sorted_id)

lemma blocks_right_append:
  "blocks_right db t n p l (bs @ cs) \<longleftrightarrow>
     blocks_right db t n p l bs \<and>
     blocks_right db t (n + int (length bs)) (if bs = [] then p else b_hash (last bs))
       (if bs = [] then l else b_last (last bs)) cs"
  by (induction bs arbitrary: n p l) (auto simp: Let_def b_last_def algebra_simps)

lemma blocks_right_mono:
  assumes "\<And>c. map_of (counters db) t = Some c \<Longrightarrow>
      (\<exists>c'. map_of (counters db') t = Some c' \<and> c \<le> c') \<and> (\<forall>lo hi. hi \<le> c \<longrightarrow> leaves db' t lo hi = leaves db t lo hi)"
    and "blocks_right db t n p l bs"
  shows "blocks_right db' t n p l bs"
  using assms(2)
proof (induction bs arbitrary: n p l)
  case (Cons b bs)
  from Cons.prems obtain c where c: "map_of (counters db) t = Some c" "bf_last_seq (b_fields b) \<le> c"
    by (auto simp: Let_def)
  with assms(1) [OF c(1)] Cons show ?case by (fastforce simp: Let_def)
qed simp

lemma blocks_right_count:
  "blocks_right db t n p l bs \<Longrightarrow> b \<in> set bs \<Longrightarrow>
     l < bf_first_seq (b_fields b) \<and> bf_first_seq (b_fields b) \<le> b_last b \<and> b_last b \<le> b_last (last bs) \<and>
     n \<le> b_height b \<and> b_height b < n + int (length bs)"
proof (induction bs arbitrary: n p l b)
  case (Cons c cs)
  let ?ls = "leaves db t (bf_first_seq (b_fields c)) (bf_last_seq (b_fields c))"
  from Cons.prems(1) have "jarvis_merkle_root ?ls = Inr (bf_root (b_fields c))"
    unfolding blocks_right.simps Let_def by blast
  then have "?ls \<noteq> []" by (auto simp: jarvis_merkle_root_def)
  then have pos: "0 < int (length ?ls)" by simp
  have "int (length ?ls) = bf_last_seq (b_fields c) - bf_first_seq (b_fields c) + 1"
    using Cons.prems(1) unfolding blocks_right.simps Let_def by metis
  with pos have "bf_first_seq (b_fields c) \<le> b_last c" unfolding b_last_def by linarith
  with Cons.prems(1) have c: "bf_first_seq (b_fields c) = l + 1" "bf_first_seq (b_fields c) \<le> b_last c" "b_height c = n"
    and r: "blocks_right db t (n + 1) (b_hash c) (b_last c) cs"
    by (simp_all add: Let_def b_last_def b_height_def)
  show ?case
  proof (cases "cs = []")
    case True
    with Cons.prems(2) c show ?thesis by simp
  next
    case False
    with Cons.IH [OF r, of "last cs"] have "b_last c < b_last (last cs)" by simp
    with Cons.IH [OF r] Cons.prems(2) c False show ?thesis by fastforce
  qed
qed simp

lemma record_chain_hex: "record_chain jtext p b es \<Longrightarrow> e \<in> set es \<Longrightarrow> hex64 (h_hash e)"
  by (induction es arbitrary: p b) (auto simp: entry_hash_def jarvis_history_hash_def hex64_sha256_hex)

lemma inv_hex: "db_inv jtext db \<Longrightarrow> e \<in> set (tenant_entries db t) \<Longrightarrow> hex64 (h_hash e)"
  using record_chain_hex [OF inv_chain, of jtext db e t "h_memory e"] by (simp add: record_entries_subset)

lemma inv_counter: "db_inv jtext db \<Longrightarrow> map_of (counters db) t = Some c \<Longrightarrow> c = int (length (tenant_entries db t))"
  using inv_seqs [of jtext db t] by (auto simp: seqs_ok_def split: if_splits)

lemma inv_range:
  assumes "db_inv jtext db" "map_of (counters db) t = Some c" "1 \<le> lo" "hi \<le> c"
  shows "map h_seq (range_entries db t lo hi) = [lo..hi]"
proof (rule sorted_distinct_set_unique)
  show "distinct (map h_seq (range_entries db t lo hi))"
    by (rule distinct_range, rule seqs_ok_distinct, rule inv_seqs, rule assms(1))
  have "h_seq ` set (tenant_entries db t) = {1..c}"
    using seqs_ok_set [OF inv_seqs [OF assms(1)]] inv_counter [OF assms(1,2)] by simp
  then have "{x \<in> h_seq ` set (tenant_entries db t). lo \<le> x \<and> x \<le> hi} = {lo..hi}" using assms(3,4) by auto
  moreover have "set (map h_seq (range_entries db t lo hi)) = {x \<in> h_seq ` set (tenant_entries db t). lo \<le> x \<and> x \<le> hi}"
    by (auto simp: range_entries_def)
  ultimately show "set (map h_seq (range_entries db t lo hi)) = set [lo..hi]" by simp
qed (simp_all add: range_entries_def)

lemma inv_leaves_length:
  assumes "db_inv jtext db" "map_of (counters db) t = Some c" "1 \<le> lo" "hi \<le> c" "lo \<le> hi"
  shows "int (length (leaves db t lo hi)) = hi - lo + 1"
  using arg_cong [OF inv_range [OF assms(1-4)], of length] assms(5) by (simp add: leaves_def)

lemma inv_leaves_root:
  assumes "db_inv jtext db" "map_of (counters db) t = Some c" "1 \<le> lo" "hi \<le> c" "lo \<le> hi"
  shows "\<exists>r. jarvis_merkle_root (leaves db t lo hi) = Inr r \<and> hex64 r"
proof -
  have hex: "list_all hex64 (leaves db t lo hi)" using inv_hex [OF assms(1)] by (intro leaves_hex) blast
  have "leaves db t lo hi \<noteq> []" using inv_leaves_length [OF assms] assms(5) by auto
  with hex show ?thesis using merkle_root_hex64_Inr jarvis_merkle_root_eq_hex by metis
qed

text \<open>What sealing writes when it writes: the next block of the tenant, over the unsealed head of the history.\<close>

definition tip_of :: "ledger_db \<Rightarrow> string \<Rightarrow> int \<times> int \<times> string" where
  "tip_of db t = (case tip_block db t of None \<Rightarrow> (0, 0, zeros64) | Some b \<Rightarrow> (b_height b, b_last b, b_hash b))"

definition next_block :: "ledger_db \<Rightarrow> string \<Rightarrow> int \<Rightarrow> int \<Rightarrow> block_row \<Rightarrow> bool" where
  "next_block db t ctr mx b \<longleftrightarrow>
     (case tip_of db t of (bh, bl, bprev) \<Rightarrow>
        bf_tenant (b_fields b) = t \<and> b_height b = bh + 1 \<and> bf_first_seq (b_fields b) = bl + 1 \<and>
        b_last b = min ctr (bl + mx) \<and> bl + 1 \<le> ctr \<and> bf_prev (b_fields b) = bprev \<and>
        bf_entry_count (b_fields b) = b_last b - bl \<and>
        int (length (leaves db t (bl + 1) (b_last b))) = b_last b - bl \<and>
        jarvis_merkle_root (leaves db t (bl + 1) (b_last b)) = Inr (bf_root (b_fields b)) \<and>
        stored_block_hash b = b_hash b \<and> block_checks b)"

lemma seal_cases:
  assumes "jarvis_seal_block s isolation t a db = Inr (r, db')"
  shows "(db' = db \<and> \<not> sr_sealed r \<and> sr_block r = None) \<or>
    (\<exists>ctr b. map_of (counters db) t = Some ctr \<and> next_block db t ctr (sa_max_entries a) b \<and>
       db' = db\<lparr>blocks := blocks db @ [b]\<rparr> \<and> sr_sealed r \<and> s_tenant s = t \<and> 1 \<le> sa_max_entries a \<and>
       sr_block r = Some (b_height b, bf_first_seq (b_fields b), b_last b, bf_entry_count (b_fields b), b_hash b))"
proof (cases "map_of (counters db) t")
  case None
  with assms show ?thesis by (auto simp: jarvis_seal_block_def not_sealed_def split: if_splits)
next
  case (Some ctr)
  obtain bh bl bprev where tip: "tip_of db t = (bh, bl, bprev)" by (cases "tip_of db t")
  show ?thesis
  proof (cases "sr_sealed r")
    case False
    with assms Some tip show ?thesis
      by (auto simp: jarvis_seal_block_def not_sealed_def tip_of_def Let_def res_bind_Inr_iff
          split: if_splits option.splits sum.splits prod.splits)
  next
    case True
    let ?e = "min ctr (bl + 1 + sa_max_entries a - 1)"
    from assms Some tip [unfolded tip_of_def] True obtain rt where
      base: "bl + 1 \<le> ctr" "s_tenant s = t" "1 \<le> sa_max_entries a"
        "int (length (leaves db t (bl + 1) ?e)) = ?e - (bl + 1) + 1"
        "jarvis_merkle_root (leaves db t (bl + 1) ?e) = Inr rt"
      and ins: "insert_block
          \<lparr>b_fields = \<lparr>bf_tenant = t, bf_height = bh + 1, bf_first_seq = bl + 1, bf_last_seq = ?e,
             bf_entry_count = ?e - (bl + 1) + 1, bf_prev = bprev, bf_root = rt, bf_format = 1\<rparr>,
           b_hash = jarvis_block_hash 1 t (bh + 1) (bl + 1) ?e (?e - (bl + 1) + 1) bprev rt, b_sealed_at = s_now s,
           b_sealed_by = (if s_actor s = [] then ''unknown'' else s_actor s)\<rparr> db = Inr db'"
      and r: "r = \<lparr>sr_sealed = True, sr_block = Some (bh + 1, bl + 1, ?e, ?e - (bl + 1) + 1,
           jarvis_block_hash 1 t (bh + 1) (bl + 1) ?e (?e - (bl + 1) + 1) bprev rt), sr_reason = ''sealed''\<rparr>"
      by (simp add: jarvis_seal_block_def not_sealed_def Let_def res_bind_Inr_iff
          split: if_splits option.splits(2) sum.splits) fastforce+
    define b where "b = \<lparr>b_fields = \<lparr>bf_tenant = t, bf_height = bh + 1, bf_first_seq = bl + 1, bf_last_seq = ?e,
             bf_entry_count = ?e - (bl + 1) + 1, bf_prev = bprev, bf_root = rt, bf_format = 1\<rparr>,
           b_hash = jarvis_block_hash 1 t (bh + 1) (bl + 1) ?e (?e - (bl + 1) + 1) bprev rt, b_sealed_at = s_now s,
           b_sealed_by = (if s_actor s = [] then ''unknown'' else s_actor s)\<rparr>"
    from ins have "block_checks b" "db' = db\<lparr>blocks := blocks db @ [b]\<rparr>"
      by (auto simp: insert_block_def b_def split: if_splits)
    moreover have "next_block db t ctr (sa_max_entries a) b"
      using base tip calculation(1)
      by (simp add: next_block_def b_def b_height_def b_last_def stored_block_hash_def Let_def)
    ultimately show ?thesis using Some base r by (auto simp: b_def b_height_def b_last_def)
  qed
qed

lemma chain_right_tip:
  assumes "chain_right db t" "tip_of db t = (bh, bl, bprev)"
  shows "bh = int (length (tenant_blocks db t))"
    "bprev = (if tenant_blocks db t = [] then zeros64 else b_hash (last (tenant_blocks db t)))"
    "bl = (if tenant_blocks db t = [] then 0 else b_last (last (tenant_blocks db t)))"
    "hex64 bprev" "0 \<le> bl"
    "\<forall>b \<in> set (tenant_blocks db t). b_height b \<le> bh \<and> bf_first_seq (b_fields b) \<le> bl"
    "tenant_blocks db t \<noteq> [] \<Longrightarrow> \<exists>c. map_of (counters db) t = Some c \<and> bl \<le> c"
proof -
  let ?bs = "tenant_blocks db t"
  have "bh = int (length ?bs) \<and> bprev = (if ?bs = [] then zeros64 else b_hash (last ?bs)) \<and>
      bl = (if ?bs = [] then 0 else b_last (last ?bs)) \<and> hex64 bprev \<and> 0 \<le> bl \<and>
      (\<forall>b \<in> set ?bs. b_height b \<le> bh \<and> bf_first_seq (b_fields b) \<le> bl) \<and>
      (?bs \<noteq> [] \<longrightarrow> (\<exists>c. map_of (counters db) t = Some c \<and> bl \<le> c))"
  proof (cases ?bs rule: rev_cases)
    case Nil
    with assms(2) show ?thesis by (simp add: tip_of_def tip_block_def)
  next
    case (snoc xs b)
    have r: "blocks_right db t 1 zeros64 0 (xs @ [b])" using assms(1) snoc by (simp add: chain_right_def)
    then have rb: "blocks_right db t (1 + int (length xs)) (if xs = [] then zeros64 else b_hash (last xs))
        (if xs = [] then 0 else b_last (last xs)) [b]"
      using blocks_right_append by blast
    then have h: "b_height b = 1 + int (length xs)" "hex64 (b_hash b)"
      and ctr: "\<exists>c. map_of (counters db) t = Some c \<and> b_last b \<le> c"
      by (auto simp: Let_def b_height_def b_last_def stored_block_hash_def jarvis_block_hash_def hex64_sha256_hex
          dest: sym)
    note cnt = blocks_right_count [OF r]
    from assms(2) snoc h have t: "bh = b_height b" "bl = b_last b" "bprev = b_hash b"
      by (simp_all add: tip_of_def tip_block_def)
    have "0 \<le> b_last b" using cnt [of b] by simp
    moreover have "b_height x \<le> bh \<and> bf_first_seq (b_fields x) \<le> bl" if "x \<in> set ?bs" for x
      using cnt [of x] that snoc t h by auto
    ultimately show ?thesis using snoc t h ctr by simp
  qed
  then show "bh = int (length (tenant_blocks db t))"
    "bprev = (if tenant_blocks db t = [] then zeros64 else b_hash (last (tenant_blocks db t)))"
    "bl = (if tenant_blocks db t = [] then 0 else b_last (last (tenant_blocks db t)))"
    "hex64 bprev" "0 \<le> bl"
    "\<forall>b \<in> set (tenant_blocks db t). b_height b \<le> bh \<and> bf_first_seq (b_fields b) \<le> bl"
    "tenant_blocks db t \<noteq> [] \<Longrightarrow> \<exists>c. map_of (counters db) t = Some c \<and> bl \<le> c"
    by blast+
qed

lemma blocks_only_same:
  "record_entries (db\<lparr>blocks := bl\<rparr>) = record_entries db" "tenant_entries (db\<lparr>blocks := bl\<rparr>) = tenant_entries db"
  "leaves (db\<lparr>blocks := bl\<rparr>) = leaves db" "find_row (db\<lparr>blocks := bl\<rparr>) = find_row db"
  "find_head (db\<lparr>blocks := bl\<rparr>) = find_head db"
  by (simp_all add: fun_eq_iff record_entries_def tenant_entries_def leaves_def range_entries_def find_row_def find_head_def)

lemma db_inv_blocks [simp]: "db_inv jtext (db\<lparr>blocks := bl\<rparr>) \<longleftrightarrow> db_inv jtext db"
  by (simp add: db_inv_def db_inv_except_def seqs_ok_def blocks_only_same)

lemma blocks_right_blocks [simp]: "blocks_right (db\<lparr>blocks := x\<rparr>) t n p l bs = blocks_right db t n p l bs"
  by (induction bs arbitrary: n p l) (simp_all add: Let_def blocks_only_same)

lemma seal_appends:
  assumes "chain_right db t" "block_order db t" "map_of (counters db) t = Some ctr" "next_block db t ctr mx b" "1 \<le> mx"
  shows "chain_right (db\<lparr>blocks := blocks db @ [b]\<rparr>) t"
    "tenant_blocks (db\<lparr>blocks := blocks db @ [b]\<rparr>) t = tenant_blocks db t @ [b]"
    "block_order (db\<lparr>blocks := blocks db @ [b]\<rparr>) t"
proof -
  let ?db' = "db\<lparr>blocks := blocks db @ [b]\<rparr>"
  obtain bh bl bprev where tip: "tip_of db t = (bh, bl, bprev)" by (cases "tip_of db t")
  note nb = assms(4) [unfolded next_block_def tip prod.case]
  note tb = chain_right_tip [OF assms(1) tip]
  show order: "block_order ?db' t"
    using assms(2) nb tb(6)
    by (auto simp: block_order_def sorted_append tenant_blocks_order [OF assms(2)])
  show app: "tenant_blocks ?db' t = tenant_blocks db t @ [b]"
    using nb by (simp add: tenant_blocks_order [OF order] tenant_blocks_order [OF assms(2)])
  have "blocks_right db t (1 + int (length (tenant_blocks db t))) bprev bl [b]"
  proof -
    have "b_last b \<le> ctr" using nb by auto
    moreover have "b_height b = bh + 1 \<and> bf_first_seq (b_fields b) = bl + 1 \<and> bf_prev (b_fields b) = bprev \<and>
        bf_entry_count (b_fields b) = b_last b - bl \<and>
        int (length (leaves db t (bl + 1) (b_last b))) = b_last b - bl \<and>
        jarvis_merkle_root (leaves db t (bl + 1) (b_last b)) = Inr (bf_root (b_fields b)) \<and> stored_block_hash b = b_hash b"
      using nb by blast
    ultimately show ?thesis using assms(3) tb(1) by (simp add: Let_def b_height_def b_last_def)
  qed
  then show "chain_right ?db' t"
    using assms(1) unfolding tb(2,3) by (simp add: chain_right_def app blocks_right_append del: blocks_right.simps)
qed

lemma seal_other_tenant:
  "bf_tenant (b_fields b) \<noteq> t \<Longrightarrow> tenant_blocks (db\<lparr>blocks := blocks db @ [b]\<rparr>) t = tenant_blocks db t"
  "bf_tenant (b_fields b) \<noteq> t \<Longrightarrow> block_order (db\<lparr>blocks := blocks db @ [b]\<rparr>) t = block_order db t"
  by (simp_all add: tenant_blocks_def block_order_def)

lemma seal_inv:
  assumes "ledger_inv jtext db" "jarvis_seal_block s isolation t a db = Inr (r, db')"
  shows "ledger_inv jtext db'"
  using seal_cases [OF assms(2)]
proof (elim disjE exE conjE)
  assume "db' = db"
  with assms(1) show ?thesis by simp
next
  fix ctr b
  assume b: "map_of (counters db) t = Some ctr" "next_block db t ctr (sa_max_entries a) b"
    "db' = db\<lparr>blocks := blocks db @ [b]\<rparr>" "1 \<le> sa_max_entries a"
  have t: "bf_tenant (b_fields b) = t" using b(2) by (auto simp: next_block_def split: prod.splits)
  have "chain_right db' t' \<and> block_order db' t'" for t'
  proof (cases "t' = t")
    case True
    with seal_appends [OF _ _ b(1,2,4)] assms(1) b(3) show ?thesis by (simp add: ledger_inv_def)
  next
    case False
    with assms(1) t b(3) show ?thesis by (simp add: ledger_inv_def chain_right_def seal_other_tenant)
  qed
  moreover have "block_checks b" using b(2) by (auto simp: next_block_def split: prod.splits)
  ultimately show ?thesis using assms(1) b(3) by (auto simp: ledger_inv_def)
qed

lemma chain_heights: "chain_right db t \<Longrightarrow> map b_height (tenant_blocks db t) = [1..int (length (tenant_blocks db t))]"
  using block_loop_iff [of db t zeros64 0 "tenant_blocks db t" 1] by (simp add: chain_right_def)

lemma inv_table_checks:
  assumes "ledger_inv jtext db"
  shows "table_checks db t"
proof -
  have inv: "db_inv jtext db" using assms by (simp add: ledger_inv_def)
  have "distinct (map b_height (tenant_blocks db t))"
    using chain_heights [of db t] assms by (simp add: ledger_inv_def)
  moreover have "\<forall>b \<in> set (tenant_blocks db t). block_checks b"
    using assms by (auto simp: ledger_inv_def tenant_blocks_def)
  moreover have "\<forall>h \<in> set (tenant_entries db t). hex64 (h_hash h)" using inv_hex [OF inv] by blast
  ultimately show ?thesis
    using seqs_ok_distinct [OF inv_seqs [OF inv]] by (simp add: table_checks_def)
qed

lemma inv_block_problems:
  assumes "ledger_inv jtext db"
  shows "jarvis_verify_blocks db t = [] \<and> block_problems db t = []"
proof -
  note tc = inv_table_checks [OF assms]
  have inv: "db_inv jtext db" and right: "chain_right db t" using assms by (simp_all add: ledger_inv_def)
  have "jarvis_verify_blocks db t = []" using verify_blocks_chain [OF tc] right by simp
  moreover have "counter_right db t" using inv_verified [OF inv] by (simp add: verified_def)
  then have "recompute db t zeros64 0 1 (tenant_blocks db t) = []"
    using recompute_iff [of db t "tenant_blocks db t"] tc right by (simp add: table_checks_def chain_right_def)
  moreover have "GENESIS_HASH = zeros64" by (simp add: GENESIS_HASH_def zeros64_def)
  ultimately show ?thesis by (simp add: block_problems_def)
qed

section \<open>A forced seal of a maintained ledger succeeds\<close>

lemma seal_success:
  assumes inv: "ledger_inv jtext db" and t: "t \<noteq> []" "s_tenant s = t" "char_length (s_actor s) \<le> 128" "s_actor s \<noteq> [] \<Longrightarrow> 1 \<le> char_length (s_actor s)"
    and args: "sa_force a" "1 \<le> sa_min_entries a" "1 \<le> sa_max_entries a"
    and tail: "map_of (counters db) t = Some ctr" "tip_of db t = (bh, bl, bprev)" "bl < ctr"
  shows "\<exists>b r. jarvis_seal_block s ''read committed'' t a db = Inr (r, db\<lparr>blocks := blocks db @ [b]\<rparr>) \<and> sr_sealed r \<and>
     sr_block r = Some (b_height b, bf_first_seq (b_fields b), b_last b, bf_entry_count (b_fields b), b_hash b) \<and>
     next_block db t ctr (sa_max_entries a) b"
proof -
  have db: "db_inv jtext db" and cr: "chain_right db t" and bo: "block_order db t" using inv by (simp_all add: ledger_inv_def)
  note tip = chain_right_tip [OF cr tail(2)]
  define e where "e = min ctr (bl + 1 + sa_max_entries a - 1)"
  have e: "bl + 1 \<le> e" "e \<le> ctr" "e = min ctr (bl + sa_max_entries a)" using tail(3) args(3) by (auto simp: e_def)
  have len: "int (length (leaves db t (bl + 1) e)) = e - (bl + 1) + 1"
    using tip(5) e by (intro inv_leaves_length [OF db tail(1)]) auto
  obtain rt where rt: "jarvis_merkle_root (leaves db t (bl + 1) e) = Inr rt" "hex64 rt"
    using inv_leaves_root [OF db tail(1), of "bl + 1" e] tip(5) e by auto
  have "bl + 1 \<in> {1..int (length (tenant_entries db t))}"
    using tip(5) tail(3) inv_counter [OF db tail(1)] by auto
  then obtain x where x: "x \<in> set (tenant_entries db t)" "h_seq x = bl + 1"
    using seqs_ok_set [OF inv_seqs [OF db], of t] by (metis imageE)
  then have at: "entry_at db t (bl + 1) = Some x" using inv_entry_at [OF db x(1)] by simp
  define act where "act = (if s_actor s = [] then ''unknown'' else s_actor s)"
  define b where "b = \<lparr>b_fields = \<lparr>bf_tenant = t, bf_height = bh + 1, bf_first_seq = bl + 1, bf_last_seq = e,
      bf_entry_count = e - bl, bf_prev = bprev, bf_root = rt, bf_format = 1\<rparr>,
    b_hash = jarvis_block_hash 1 t (bh + 1) (bl + 1) e (e - bl) bprev rt, b_sealed_at = s_now s, b_sealed_by = act\<rparr>"
  have act: "1 \<le> char_length act \<and> char_length act \<le> 128"
    using t(3,4) by (simp add: act_def char_length_def)
  have "hex64 (b_hash b)" by (simp add: b_def jarvis_block_hash_def hex64_sha256_hex)
  then have bc: "block_checks b"
    using act t(1) tip(1,4,5) e(1) rt by (simp add: block_checks_def b_def)
  have fresh: "\<not> (bf_tenant (b_fields y) = t \<and> (bf_height (b_fields y) = bh + 1 \<or> bf_first_seq (b_fields y) = bl + 1))"
    if "y \<in> set (blocks db)" for y
  proof
    assume y: "bf_tenant (b_fields y) = t \<and> (bf_height (b_fields y) = bh + 1 \<or> bf_first_seq (b_fields y) = bl + 1)"
    with that have "y \<in> set (tenant_blocks db t)" by (simp add: tenant_blocks_def)
    with tip(6) y show False by (fastforce simp: b_height_def)
  qed
  have ins: "insert_block b db = Inr (db\<lparr>blocks := blocks db @ [b]\<rparr>)"
    using bc fresh by (auto simp: insert_block_def b_def)
  have "next_block db t ctr (sa_max_entries a) b"
    using tail(3) len rt(1) bc e(3)
    by (simp add: next_block_def tail(2)) (simp add: b_def b_height_def b_last_def stored_block_hash_def Let_def e(3))
  moreover have "jarvis_seal_block s ''read committed'' t a db =
      Inr (\<lparr>sr_sealed = True, sr_block = Some (bh + 1, bl + 1, e, e - bl, b_hash b), sr_reason = ''sealed''\<rparr>,
        db\<lparr>blocks := blocks db @ [b]\<rparr>)"
    using t args tail at len rt(1)
    by (simp add: jarvis_seal_block_def tip_of_def [symmetric] Let_def e(3) [symmetric] act_def [symmetric]
        b_def [symmetric] ins) (simp add: b_def)
  ultimately show ?thesis
    by (intro exI [of _ b]) (simp add: b_def b_height_def b_last_def)
qed

text \<open>C6: on tables that satisfy their constraints, the database's block verifier is silent exactly when
  the sealed chain is right: heights 1, 2, ..., each block naming the hash before it, ranges tiling the
  history without gap or overlap, no range past the counter, and every count, Merkle root and block hash
  reproducible.\<close>

theorem verify_blocks_iff:
  assumes "table_checks db t"
  shows "jarvis_verify_blocks db t = [] \<longleftrightarrow> blocks_right db t 1 zeros64 0 (tenant_blocks db t)"
  using verify_blocks_chain [OF assms] by (simp add: chain_right_def)

definition forged_block :: block_row where
  "forged_block = \<lparr>b_fields = \<lparr>bf_tenant = ''t'', bf_height = 2, bf_first_seq = 1, bf_last_seq = 1, bf_entry_count = 1,
     bf_prev = zeros64, bf_root = zeros64, bf_format = 1\<rparr>, b_hash = zeros64, b_sealed_at = 0, b_sealed_by = ''x''\<rparr>"

definition forged_db :: ledger_db where
  "forged_db = \<lparr>memories = [], history = [], counters = [], heads = [], blocks = [forged_block]\<rparr>"

lemma forged_tables: "table_checks forged_db ''t''" "tenant_blocks forged_db ''t'' = [forged_block]"
  by (simp_all add: table_checks_def forged_db_def forged_block_def tenant_blocks_def tenant_entries_def
      block_checks_def char_length_def)

theorem verify_blocks_iff_witness:
  "jarvis_verify_blocks forged_db ''t'' \<noteq> []"
  using verify_blocks_iff [OF forged_tables(1)]
  by (simp add: forged_tables(2) Let_def) (simp add: forged_block_def)

text \<open>The two independently written block verifiers agree: on tables that satisfy their constraints
  and with a right counter, the SQL verifier is silent exactly when the Python recomputation is.\<close>

lemma block_verifiers_agree:
  assumes "table_checks db t" "counter_right db t"
  shows "jarvis_verify_blocks db t = [] \<longleftrightarrow> recompute db t GENESIS_HASH 0 1 (tenant_blocks db t) = []"
proof -
  have "GENESIS_HASH = zeros64" by (simp add: GENESIS_HASH_def zeros64_def)
  with recompute_iff [of db t "tenant_blocks db t"] verify_blocks_chain [OF assms(1)] assms
  show ?thesis by (simp add: table_checks_def chain_right_def)
qed

lemma block_verifiers_agree_witness:
  "jarvis_verify_blocks forged_db ''t'' \<noteq> [] \<and>
   recompute forged_db ''t'' GENESIS_HASH 0 1 (tenant_blocks forged_db ''t'') \<noteq> []"
proof -
  have c: "counter_right forged_db ''t''" by (simp add: counter_right_def forged_db_def tenant_entries_def)
  have "recompute forged_db ''t'' GENESIS_HASH 0 1 (tenant_blocks forged_db ''t'') \<noteq> []"
    by (simp add: forged_tables(2) Let_def) (simp add: forged_block_def)
  with block_verifiers_agree [OF forged_tables(1) c] show ?thesis by simp
qed

end
