(* ===== verification/Ledger_Steps.thy ===== *)
theory Ledger_Steps
  imports Block_Store
begin

text \<open>
  The ledger database as a transition system: everything the application role can do to the ledger
  tables of \<^verbatim>\<open>app/pg_schema.py\<close> is one of four statements (\<open>INSERT\<close>, \<open>UPDATE\<close> and \<open>DELETE\<close> on
  \<open>memories\<close>, and a call of \<open>jarvis_seal_block\<close>), run in a session of one tenant; the history tables
  and \<open>blocks\<close> have no other writer (the grants of \<open>_grant\<close>, the append-only triggers).

  Over every sequence of statements: the invariant holds and all verifiers stay silent, history and
  blocks only grow, and a session never touches another tenant.
\<close>

inductive db_step :: "(mem_row \<Rightarrow> string) \<Rightarrow> session \<Rightarrow> ledger_db \<Rightarrow> ledger_db \<Rightarrow> bool" for jtext where
  step_insert: "sql_insert jtext s row db = Inr db' \<Longrightarrow> db_step jtext s db db'"
| step_update: "sql_update jtext s m v upd db = Inr (res, db') \<Longrightarrow> db_step jtext s db db'"
| step_delete: "sql_delete jtext s m db = (found, db') \<Longrightarrow> db_step jtext s db db'"
| step_seal: "jarvis_seal_block s isolation t a db = Inr (r, db') \<Longrightarrow> db_step jtext s db db'"

inductive_cases db_stepE: "db_step jtext s db db'"

definition empty_db :: ledger_db where
  "empty_db = \<lparr>memories = [], history = [], counters = [], heads = [], blocks = []\<rparr>"

inductive reachable :: "(mem_row \<Rightarrow> string) \<Rightarrow> ledger_db \<Rightarrow> bool" for jtext where
  reach_init: "reachable jtext empty_db"
| reach_step: "reachable jtext db \<Longrightarrow> db_step jtext s db db' \<Longrightarrow> reachable jtext db'"

section \<open>History only grows, and only for the session's tenant\<close>

text \<open>
  \<open>grows t db db'\<close>: the new database has the old history and blocks as prefixes, what was added belongs
  to tenant \<open>t\<close>, and nothing of any other tenant differs.
\<close>

definition grows :: "string \<Rightarrow> ledger_db \<Rightarrow> ledger_db \<Rightarrow> bool" where
  "grows t db db' \<longleftrightarrow>
     (\<exists>es. history db' = history db @ es \<and> (\<forall>e \<in> set es. h_tenant e = t)) \<and>
     (\<exists>bs. blocks db' = blocks db @ bs \<and> (\<forall>b \<in> set bs. bf_tenant (b_fields b) = t)) \<and>
     (\<forall>u. u \<noteq> t \<longrightarrow> filter (\<lambda>r. r_tenant r = u) (memories db') = filter (\<lambda>r. r_tenant r = u) (memories db) \<and>
        map_of (counters db') u = map_of (counters db) u \<and> (\<forall>m. find_head db' u m = find_head db u m))"

lemma grows_refl [simp]: "grows t db db"
  by (simp add: grows_def)

lemma grows_trans: "grows t a b \<Longrightarrow> grows t b c \<Longrightarrow> grows t a c"
  unfolding grows_def by (fastforce simp: ball_Un)

lemma capture_grows:
  assumes "event_fields (s_history_op s) ev = (t, m, opn, b, a, v)"
    and "\<And>u. u \<noteq> t \<Longrightarrow> filter (\<lambda>r. r_tenant r = u) rows = filter (\<lambda>r. r_tenant r = u) (memories db)"
  shows "grows t db (jarvis_record_history jtext s ev (db\<lparr>memories := rows\<rparr>))"
proof -
  let ?db = "db\<lparr>memories := rows\<rparr>"
  have h: "find_head (jarvis_record_history jtext s ev ?db) u m' = find_head db u m'" if "u \<noteq> t" for u m'
    using that by (simp add: find_head_def jarvis_record_history_heads [OF assms(1)] find_put_head)
  have c: "map_of (counters (jarvis_record_history jtext s ev ?db)) u = map_of (counters db) u" if "u \<noteq> t" for u
    using that assms(1) by (simp add: jarvis_record_history_def Let_def map_of_update)
  show ?thesis
    using assms(2) h c captured_key(1) [OF assms(1)] by (simp add: grows_def)
qed

lemma filter_replace_row:
  "r_tenant new \<noteq> u \<Longrightarrow> filter (\<lambda>r. r_tenant r = u) (replace_row new rows) = filter (\<lambda>r. r_tenant r = u) rows"
  by (induction rows) (auto simp: replace_row_def row_key_def)

lemma write_update_grows: "grows (r_tenant new) db (write_update jtext s old new db)"
  unfolding write_update_def by (rule capture_grows) (auto simp: filter_replace_row)

lemma ri_set_null_grows: "\<forall>r \<in> set rs. r_tenant r = t \<Longrightarrow> grows t db (ri_set_null jtext s rs db)"
proof (induction rs arbitrary: db)
  case (Cons r rs)
  let ?new = "r\<lparr>r_supersedes := None, r_version := r_version r + 1\<rparr>"
  have "grows t db (write_update jtext s r ?new db)"
    using write_update_grows [of ?new db jtext s r] Cons.prems by simp
  with Cons show ?case by (auto intro: grows_trans)
qed simp

lemma sql_insert_grows: "sql_insert jtext s row db = Inr db' \<Longrightarrow> grows (s_tenant s) db db'"
  by (auto simp: sql_insert_def Let_def split: if_splits intro!: capture_grows)

lemma sql_update_grows: "sql_update jtext s m v upd db = Inr (res, db') \<Longrightarrow> grows (s_tenant s) db db'"
  by (auto simp: sql_update_def res_bind_Inr_iff split: option.splits if_splits)
    (metis write_update_grows)

lemma find_row_SomeD: "find_row db t m = Some r \<Longrightarrow> r \<in> set (memories db) \<and> r_tenant r = t \<and> r_id r = m"
  by (auto simp: find_row_def find_Some_iff row_key_def)

lemma sql_delete_grows:
  assumes "sql_delete jtext s m db = (found, db')"
  shows "grows (s_tenant s) db db'"
proof (cases "find_row db (s_tenant s) m")
  case None
  with assms show ?thesis by (simp add: sql_delete_def)
next
  case (Some old)
  let ?t = "s_tenant s"
  define rows where "rows = filter (\<lambda>r. row_key r \<noteq> row_key old) (memories db)"
  define cs where "cs = filter (\<lambda>r. r_tenant r = r_tenant old \<and> r_supersedes r = Some m) rows"
  define db1 where "db1 = jarvis_record_history jtext s (On_delete old) (db\<lparr>memories := rows\<rparr>)"
  have t: "r_tenant old = ?t" using find_row_SomeD [OF Some] by simp
  have db': "db' = ri_set_null jtext s cs db1"
    using assms Some by (simp add: sql_delete_def Let_def rows_def cs_def db1_def)
  have "filter (\<lambda>r. r_tenant r = u) rows = filter (\<lambda>r. r_tenant r = u) (memories db)" if "u \<noteq> ?t" for u
    using that t by (auto simp: rows_def row_key_def intro!: filter_cong)
  then have "grows ?t db (db\<lparr>memories := rows\<rparr>)" by (simp add: grows_def find_head_def)
  moreover have "grows ?t (db\<lparr>memories := rows\<rparr>) db1"
    using capture_grows [of s "On_delete old" ?t _ _ _ _ _ rows "db\<lparr>memories := rows\<rparr>" jtext] t by (simp add: db1_def)
  moreover have "grows ?t db1 db'"
    unfolding db' using t by (intro ri_set_null_grows) (simp add: cs_def)
  ultimately show ?thesis by (blast intro: grows_trans)
qed

lemma seal_grows:
  assumes "jarvis_seal_block s isolation t a db = Inr (r, db')"
  shows "grows (s_tenant s) db db'"
  using seal_cases [OF assms]
proof (elim disjE exE conjE)
  fix ctr b
  assume b: "next_block db t ctr (sa_max_entries a) b" "db' = db\<lparr>blocks := blocks db @ [b]\<rparr>" "s_tenant s = t"
  then have "bf_tenant (b_fields b) = s_tenant s" by (auto simp: next_block_def split: prod.splits)
  then show ?thesis unfolding b(2) by (simp add: grows_def find_head_def)
qed simp

lemma step_grows: "db_step jtext s db db' \<Longrightarrow> grows (s_tenant s) db db'"
  by (erule db_stepE) (auto intro: sql_insert_grows sql_update_grows sql_delete_grows seal_grows)

section \<open>Statements keep the sealed chain right\<close>

lemma tenant_entries_grow:
  assumes "history db' = history db @ es"
  shows "tenant_entries db' t = tenant_entries db t @ filter (\<lambda>h. h_tenant h = t) es"
  using assms by (simp add: tenant_entries_def)

lemma leaves_grow:
  assumes "db_inv jtext db" "db_inv jtext db'" "history db' = history db @ es" "map_of (counters db) t = Some c"
  shows "(\<exists>c'. map_of (counters db') t = Some c' \<and> c \<le> c') \<and> (\<forall>lo hi. hi \<le> c \<longrightarrow> range_entries db' t lo hi = range_entries db t lo hi)"
proof -
  define new where "new = filter (\<lambda>h. h_tenant h = t) es"
  have te: "tenant_entries db' t = tenant_entries db t @ new"
    using assms(3) by (simp add: tenant_entries_grow new_def)
  have c: "c = int (length (tenant_entries db t))" using inv_counter [OF assms(1,4)] .
  have ne: "tenant_entries db t \<noteq> []" using inv_seqs [OF assms(1), of t] assms(4) by (auto simp: seqs_ok_def)
  then have c': "map_of (counters db') t = Some (int (length (tenant_entries db' t)))"
    using inv_seqs [OF assms(2), of t] te by (simp add: seqs_ok_def)
  have "c < h_seq e" if e: "e \<in> set new" for e
  proof -
    from e obtain i where i: "i < length new" "new ! i = e" by (auto simp: in_set_conv_nth)
    then have "h_seq (tenant_entries db' t ! (length (tenant_entries db t) + i)) = int (length (tenant_entries db t) + i) + 1"
      using seqs_ok_nth [OF inv_seqs [OF assms(2)], of "length (tenant_entries db t) + i" t] te by simp
    with i te c show ?thesis by simp
  qed
  then have "filter (\<lambda>h. lo \<le> h_seq h \<and> h_seq h \<le> hi) new = []" if "hi \<le> c" for lo hi
    using that by (fastforce simp: filter_empty_conv)
  then have "range_entries db' t lo hi = range_entries db t lo hi" if "hi \<le> c" for lo hi
    using that by (simp add: range_entries_def te)
  with c c' te show ?thesis by simp
qed

lemma statement_inv:
  assumes "ledger_inv jtext db" "db_inv jtext db'" "grows t db db'" "blocks db' = blocks db"
  shows "ledger_inv jtext db'"
proof -
  from assms(3) obtain es where es: "history db' = history db @ es" by (auto simp: grows_def)
  have inv: "db_inv jtext db" using assms(1) by (simp add: ledger_inv_def)
  have tb: "tenant_blocks db' u = tenant_blocks db u" "block_order db' u = block_order db u" for u
    using assms(4) by (simp_all add: tenant_blocks_def block_order_def)
  have "chain_right db' u" for u
    using leaves_grow [OF inv assms(2) es] assms(1)
    unfolding chain_right_def tb
    by (intro blocks_right_mono [of db u db']) (auto simp: ledger_inv_def chain_right_def leaves_def)
  with assms(1,2,4) tb show ?thesis by (simp add: ledger_inv_def)
qed

lemma write_update_blocks [simp]: "blocks (write_update jtext s old new db) = blocks db"
  by (simp add: write_update_def)

lemma ri_set_null_blocks [simp]: "blocks (ri_set_null jtext s rs db) = blocks db"
  by (induction rs arbitrary: db) simp_all

lemma step_inv:
  assumes "ledger_inv jtext db" "db_step jtext s db db'"
  shows "ledger_inv jtext db'"
proof -
  have inv: "db_inv jtext db" using assms(1) by (simp add: ledger_inv_def)
  from assms(2) show ?thesis
  proof (cases rule: db_step.cases)
    case (step_insert row)
    then have "blocks db' = blocks db" by (auto simp: sql_insert_def Let_def split: if_splits)
    then show ?thesis
      using statement_inv [OF assms(1) sql_insert_inv [OF inv step_insert] step_grows [OF assms(2)]] by blast
  next
    case (step_update m v upd res)
    then have "blocks db' = blocks db" by (auto simp: sql_update_def res_bind_Inr_iff split: if_splits option.splits)
    then show ?thesis
      using statement_inv [OF assms(1) sql_update_inv [OF inv step_update] step_grows [OF assms(2)]] by blast
  next
    case (step_delete m found)
    then have "blocks db' = blocks db" by (auto simp: sql_delete_def Let_def split: option.splits)
    then show ?thesis
      using statement_inv [OF assms(1) sql_delete_inv [OF inv step_delete] step_grows [OF assms(2)]] by blast
  next
    case (step_seal isolation t a r)
    then show ?thesis by (rule seal_inv [OF assms(1)])
  qed
qed

lemma empty_inv: "ledger_inv jtext empty_db"
  by (simp add: ledger_inv_def db_inv_def db_inv_except_def seqs_ok_def empty_db_def tenant_entries_def
      record_entries_def find_head_def head_of_def find_row_def live_of_def chain_right_def tenant_blocks_def block_order_def)

lemma reachable_ledger_inv: "reachable jtext db \<Longrightarrow> ledger_inv jtext db"
  by (induction rule: reachable.induct) (auto intro: empty_inv step_inv)

section \<open>Sealing everything\<close>

lemma tip_after_seal:
  assumes "chain_right db t" "block_order db t" "map_of (counters db) t = Some ctr" "next_block db t ctr mx b" "1 \<le> mx"
  shows "tip_of (db\<lparr>blocks := blocks db @ [b]\<rparr>) t = (b_height b, b_last b, b_hash b)"
    "get_block (db\<lparr>blocks := blocks db @ [b]\<rparr>) t (b_height b) = Some b"
proof -
  note app = seal_appends(2) [OF assms]
  show "tip_of (db\<lparr>blocks := blocks db @ [b]\<rparr>) t = (b_height b, b_last b, b_hash b)"
    by (simp add: tip_of_def tip_block_def app)
  have "chain_right (db\<lparr>blocks := blocks db @ [b]\<rparr>) t" by (rule seal_appends(1) [OF assms])
  then have "map b_height (tenant_blocks db t @ [b]) = [1..int (length (tenant_blocks db t @ [b]))]"
    using chain_heights app by metis
  then have "distinct (map b_height (tenant_blocks db t @ [b]))" by simp
  then show "get_block (db\<lparr>blocks := blocks db @ [b]\<rparr>) t (b_height b) = Some b"
    unfolding get_block_def app by (subst find_key_Some) simp_all
qed

lemma seal_loop_all:
  assumes "ledger_inv jtext db" "s_tenant s \<noteq> []" "char_length (s_actor s) \<le> 128"
    "s_actor s \<noteq> [] \<Longrightarrow> 1 \<le> char_length (s_actor s)"
    "sa_force a" "1 \<le> sa_min_entries a" "1 \<le> sa_max_entries a"
    "map_of (counters db) (s_tenant s) = Some ctr" "tip_of db (s_tenant s) = (bh, bl, bprev)" "bl \<le> ctr"
    "ctr - bl \<le> int n * sa_max_entries a"
  shows "\<exists>bs reason' db'. seal_loop n s a reason acc db = Inr ((acc @ bs, reason'), db') \<and>
     ledger_inv jtext db' \<and> history db' = history db \<and> counters db' = counters db \<and> memories db' = memories db \<and>
     tenant_blocks db' (s_tenant s) = tenant_blocks db (s_tenant s) @ bs \<and> fst (snd (tip_of db' (s_tenant s))) = ctr"
  using assms(1,8-)
proof (induction n arbitrary: db bh bl bprev acc reason)
  case 0
  then show ?case by simp
next
  case (Suc n)
  let ?t = "s_tenant s"
  show ?case
  proof (cases "bl < ctr")
    case False
    with Suc.prems(4) have "bl = ctr" by simp
    then have "jarvis_seal_block s ''read committed'' ?t a db = Inr (not_sealed ''nothing new to seal'', db)"
      using assms(2,6,7) Suc.prems(2,3) by (simp add: jarvis_seal_block_def tip_of_def [symmetric] Let_def)
    with \<open>bl = ctr\<close> Suc.prems(1,3) show ?thesis by (simp add: not_sealed_def)
  next
    case True
    then obtain b r where seal: "jarvis_seal_block s ''read committed'' ?t a db = Inr (r, db\<lparr>blocks := blocks db @ [b]\<rparr>)"
      and r: "sr_block r = Some (b_height b, bf_first_seq (b_fields b), b_last b, bf_entry_count (b_fields b), b_hash b)"
      and b: "next_block db ?t ctr (sa_max_entries a) b"
      using seal_success [OF Suc.prems(1) assms(2) refl assms(3-7) Suc.prems(2,3)] by blast
    let ?db = "db\<lparr>blocks := blocks db @ [b]\<rparr>"
    have cr: "chain_right db ?t" "block_order db ?t" using Suc.prems(1) by (simp_all add: ledger_inv_def)
    note tip = tip_after_seal [OF cr Suc.prems(2) b assms(7)]
    have last: "b_last b = min ctr (bl + sa_max_entries a)"
      using b Suc.prems(3) by (simp add: next_block_def)
    have inv: "ledger_inv jtext ?db" by (rule seal_inv [OF Suc.prems(1) seal])
    have "ctr - b_last b \<le> int n * sa_max_entries a"
    proof -
      have "0 \<le> int n * sa_max_entries a" using assms(7) by simp
      moreover have "ctr - bl \<le> sa_max_entries a + int n * sa_max_entries a"
        using Suc.prems(5) by (simp add: algebra_simps)
      ultimately show ?thesis using last by simp
    qed
    then obtain bs reason' db' where
      "seal_loop n s a (sr_reason r) (acc @ [b]) ?db = Inr (((acc @ [b]) @ bs, reason'), db')"
      "ledger_inv jtext db'" "history db' = history ?db" "counters db' = counters ?db" "memories db' = memories ?db"
      "tenant_blocks db' ?t = tenant_blocks ?db ?t @ bs" "fst (snd (tip_of db' ?t)) = ctr"
      using Suc.IH [OF inv _ tip(1), of "sr_reason r" "acc @ [b]"] Suc.prems(2) last by auto
    then show ?thesis
      using seal r tip(2) seal_appends(2) [OF cr Suc.prems(2) b assms(7)]
      by (intro exI [of _ "b # bs"] exI [of _ reason'] exI [of _ db']) simp
  qed
qed

section \<open>A concrete ledger\<close>

definition sample_session :: session where
  "sample_session = \<lparr>s_tenant = ''operator'', s_actor = ''operator'', s_history_op = [], s_now = 10\<rparr>"

definition sample_row :: mem_row where
  "sample_row = \<lparr>r_tenant = ''operator'', r_id = ''mem_1'', r_version = 1, r_content = ''Use Postgres'',
     r_sha = zeros64, r_created = 10, r_updated = 10, r_source = ''agent'', r_session = ''s1'', r_type = ''decision'',
     r_status = ''verified'', r_confidence = 1 / 2, r_subject = Some ''db'', r_supersedes = None, r_tags = [],
     r_evidence = [\<lparr>l_kind = ''file'', l_ref = ''README.md'', l_note = []\<rparr>]\<rparr>"

definition sample_db :: "(mem_row \<Rightarrow> string) \<Rightarrow> ledger_db" where
  "sample_db jtext = jarvis_record_history jtext sample_session (On_insert sample_row) (empty_db\<lparr>memories := [sample_row]\<rparr>)"

lemma sample_checks: "row_checks sample_row"
  by (simp add: row_checks_def sample_row_def char_length_def memory_types_def memory_statuses_def)

lemma sample_insert: "sql_insert jtext sample_session sample_row empty_db = Inr (sample_db jtext)"
  using sample_checks
  by (simp add: sql_insert_def sample_db_def empty_db_def fk_ok_def sample_row_def sample_session_def Let_def)

lemma sample_reachable: "reachable jtext (sample_db jtext)"
  by (rule reach_step [OF reach_init step_insert [OF sample_insert]])

lemma sample_entries:
  "tenant_entries (sample_db jtext) ''operator'' =
     [\<lparr>h_tenant = ''operator'', h_seq = 1, h_memory = ''mem_1'', h_version = 1, h_op = ''create'', h_actor = ''operator'',
       h_changed = 10, h_before = None, h_after = Some sample_row, h_prev = zeros64,
       h_hash = jarvis_history_hash jtext zeros64 ''create'' 1 None (Some sample_row)\<rparr>]"
  "map_of (counters (sample_db jtext)) ''operator'' = Some 1"
  "memories (sample_db jtext) = [sample_row]" "blocks (sample_db jtext) = []"
  by (simp_all add: sample_db_def jarvis_record_history_def Let_def tenant_entries_def empty_db_def
      record_entries_def newest_def sample_session_def sample_row_def)

section \<open>Properties of every reachable ledger\<close>

text \<open>C3: whatever sequence of inserts, updates, deletes and seals any tenants' sessions run, every
  tenant's history is gapless (sequence numbers 1 to the counter), every live row is exactly the last
  snapshot of its record's history, and every chain head describes its record's last entry.\<close>

theorem reachable_history_is_truth:
  assumes "reachable jtext db"
  shows "map h_seq (tenant_entries db t) = map int [1..<Suc (length (tenant_entries db t))] \<and>
    history_seq db t = int (length (tenant_entries db t)) \<and>
    find_row db t m = live_of (record_entries db t m) \<and>
    find_head db t m = head_of t m (record_entries db t m)"
proof -
  have inv: "db_inv jtext db" using reachable_ledger_inv [OF assms] by (simp add: ledger_inv_def)
  show ?thesis
    using inv_seqs [OF inv, of t] inv_row [OF inv] inv_head [OF inv] by (simp add: seqs_ok_def history_seq_def)
qed

theorem reachable_history_is_truth_witness:
  "find_row (sample_db (\<lambda>_. ''{}'')) ''operator'' ''mem_1'' = Some sample_row \<and>
   live_of (record_entries (sample_db (\<lambda>_. ''{}'')) ''operator'' ''mem_1'') = Some sample_row"
  using reachable_history_is_truth [OF sample_reachable, where t = "''operator''" and m = "''mem_1''" and jtext = "\<lambda>_. ''{}''"]
  by (simp add: find_row_def sample_entries(3) row_key_def) (simp add: sample_row_def)

text \<open>C1: on every reachable ledger all verifiers are silent for every tenant: the database's history
  verifier (whole tenant or one record), its block verifier, and the independent Python recomputation.\<close>

theorem reachable_verifies:
  assumes "reachable jtext db"
  shows "jarvis_verify_history jtext db t p = [] \<and> jarvis_verify_blocks db t = [] \<and> block_problems db t = []"
proof -
  have inv: "ledger_inv jtext db" by (rule reachable_ledger_inv [OF assms])
  then have "jarvis_verify_history jtext db t None = []"
    using inv_verified [of jtext db t] verify_history_verified [of jtext db t] by (simp add: ledger_inv_def)
  then have "jarvis_verify_history jtext db t p = []" by (cases p) (simp_all add: verify_one_record)
  with inv_block_problems [OF inv] show ?thesis by simp
qed

theorem reachable_verifies_witness:
  "jarvis_verify_history (\<lambda>_. ''{}'') (sample_db (\<lambda>_. ''{}'')) ''operator'' (Some ''mem_1'') = [] \<and>
   tenant_entries (sample_db (\<lambda>_. ''{}'')) ''operator'' \<noteq> []"
  using reachable_verifies [OF sample_reachable, where t = "''operator''" and p = "Some ''mem_1''" and jtext = "\<lambda>_. ''{}''"]
  by (simp add: sample_entries(1))

text \<open>C4: a statement only ever appends to the history and to the blocks, what it appends belongs to the
  session's tenant, and no row, entry, block, counter or chain head of another tenant changes.\<close>

theorem step_appends_own_tenant:
  assumes "db_step jtext s db db'"
  shows "(\<exists>es. history db' = history db @ es \<and> (\<forall>e \<in> set es. h_tenant e = s_tenant s)) \<and>
    (\<exists>bs. blocks db' = blocks db @ bs) \<and>
    (\<forall>u m. u \<noteq> s_tenant s \<longrightarrow>
      filter (\<lambda>r. r_tenant r = u) (memories db') = filter (\<lambda>r. r_tenant r = u) (memories db) \<and>
      tenant_entries db' u = tenant_entries db u \<and> tenant_blocks db' u = tenant_blocks db u \<and>
      history_seq db' u = history_seq db u \<and> find_head db' u m = find_head db u m)"
proof -
  note g = step_grows [OF assms, unfolded grows_def]
  obtain es where es: "history db' = history db @ es" "\<forall>e \<in> set es. h_tenant e = s_tenant s" using g by blast
  obtain bs where bs: "blocks db' = blocks db @ bs" "\<forall>b \<in> set bs. bf_tenant (b_fields b) = s_tenant s" using g by blast
  have "filter (\<lambda>h. h_tenant h = u) es = []" "filter (\<lambda>b. bf_tenant (b_fields b) = u) bs = []" if "u \<noteq> s_tenant s" for u
    using es(2) bs(2) that by (auto simp: filter_empty_conv)
  with g es bs show ?thesis by (auto simp: tenant_entries_grow tenant_blocks_def history_seq_def)
qed

theorem step_appends_own_tenant_witness:
  "tenant_entries (sample_db (\<lambda>_. ''{}'')) ''other'' = tenant_entries empty_db ''other'' \<and>
   history (sample_db (\<lambda>_. ''{}'')) \<noteq> []"
  using step_appends_own_tenant [OF step_insert [OF sample_insert], where jtext = "\<lambda>_. ''{}''"]
  by (simp add: sample_session_def sample_db_def)

text \<open>Sealing everything: on a reachable ledger with history, a forced \<open>seal_blocks\<close> whose block
  budget covers the unsealed tail succeeds and leaves nothing unsealed; it changes no record and no
  history entry, and the sealed ledger still verifies.\<close>

lemma seal_blocks_complete:
  assumes "reachable jtext db" "s_tenant s \<noteq> []" "char_length (s_actor s) \<le> 128"
    "s_actor s \<noteq> [] \<Longrightarrow> 1 \<le> char_length (s_actor s)"
    "sa_force a" "1 \<le> sa_min_entries a" "1 \<le> sa_max_entries a" "1 \<le> n"
    "history_seq db (s_tenant s) > 0" "bh_unsealed (block_head db (s_tenant s)) \<le> n * sa_max_entries a"
  shows "\<exists>bs reason head db'. seal_blocks s a n db = Inr ((bs, reason, head), db') \<and>
    bh_unsealed head = 0 \<and> bh_sealed_seq head = history_seq db (s_tenant s) \<and>
    tenant_blocks db' (s_tenant s) = tenant_blocks db (s_tenant s) @ bs \<and>
    history db' = history db \<and> memories db' = memories db \<and> jarvis_verify_blocks db' (s_tenant s) = []"
proof -
  let ?t = "s_tenant s"
  have inv: "ledger_inv jtext db" by (rule reachable_ledger_inv [OF assms(1)])
  then have cr: "chain_right db ?t" by (simp add: ledger_inv_def)
  obtain ctr where ctr: "map_of (counters db) ?t = Some ctr"
    using assms(9) by (auto simp: history_seq_def split: option.splits)
  obtain bh bl bprev where tip: "tip_of db ?t = (bh, bl, bprev)" by (cases "tip_of db ?t")
  have sealed: "bh_sealed_seq (block_head d ?t) = fst (snd (tip_of d ?t))" for d
    by (simp add: block_head_def tip_of_def Let_def split: option.splits)
  have unsealed: "bh_unsealed (block_head d ?t) = max 0 (history_seq d ?t - fst (snd (tip_of d ?t)))" for d
    by (simp add: block_head_def tip_of_def Let_def split: option.splits)
  have hs: "history_seq db ?t = ctr" using ctr by (simp add: history_seq_def)
  have "bl \<le> ctr"
  proof (cases "tenant_blocks db ?t = []")
    case True
    with chain_right_tip(3) [OF cr tip] assms(9) hs show ?thesis by simp
  next
    case False
    with chain_right_tip(7) [OF cr tip] ctr show ?thesis by auto
  qed
  moreover have "ctr - bl \<le> int (nat (max 1 n)) * sa_max_entries a"
    using assms(8,10) unsealed [of db] tip hs by simp
  ultimately obtain bs reason db' where l: "seal_loop (nat (max 1 n)) s a ''nothing new to seal'' [] db = Inr (([] @ bs, reason), db')"
      "ledger_inv jtext db'" "history db' = history db" "counters db' = counters db" "memories db' = memories db"
      "tenant_blocks db' ?t = tenant_blocks db ?t @ bs" "fst (snd (tip_of db' ?t)) = ctr"
    using seal_loop_all [OF inv assms(2-7) ctr tip, of "nat (max 1 n)" "''nothing new to seal''" "[]"] by blast
  moreover have "history_seq db' ?t = ctr" using l(4) hs by (simp add: history_seq_def)
  ultimately show ?thesis
    using inv_block_problems [OF l(2)] hs by (simp add: seal_blocks_def unsealed sealed)
qed

definition sample_seal :: seal_args where
  "sample_seal = \<lparr>sa_min_entries = 500, sa_max_age = 3600000000, sa_max_age_text = ''01:00:00'', sa_force = True,
     sa_max_entries = 10000\<rparr>"

lemma seal_blocks_complete_witness:
  "\<exists>bs reason head db'. seal_blocks sample_session sample_seal 20 (sample_db (\<lambda>_. ''{}'')) = Inr ((bs, reason, head), db') \<and>
     bh_unsealed head = 0 \<and> bh_sealed_seq head = 1"
proof -
  have h: "history_seq (sample_db (\<lambda>_. ''{}'')) ''operator'' = 1"
    by (simp add: history_seq_def sample_entries(2))
  have "bh_unsealed (block_head (sample_db (\<lambda>_. ''{}'')) ''operator'') = 1"
    by (simp add: block_head_def Let_def tip_block_def tenant_blocks_def sample_entries h)
  then have "\<exists>bs reason head db'. seal_blocks sample_session sample_seal 20 (sample_db (\<lambda>_. ''{}'')) = Inr ((bs, reason, head), db') \<and>
      bh_unsealed head = 0 \<and> bh_sealed_seq head = history_seq (sample_db (\<lambda>_. ''{}'')) (s_tenant sample_session) \<and>
      tenant_blocks db' (s_tenant sample_session) = tenant_blocks (sample_db (\<lambda>_. ''{}'')) (s_tenant sample_session) @ bs \<and>
      history db' = history (sample_db (\<lambda>_. ''{}'')) \<and> memories db' = memories (sample_db (\<lambda>_. ''{}'')) \<and>
      jarvis_verify_blocks db' (s_tenant sample_session) = []"
    using h by (intro seal_blocks_complete [OF sample_reachable])
      (simp_all add: sample_session_def sample_seal_def char_length_def)
  with h show ?thesis by (auto simp: sample_session_def)
qed

section \<open>What an update and a delete do\<close>

text \<open>C7: an update is guarded by the row version. It either changes nothing at all (no row, or another
  version), or it raises the version by exactly one, leaves every other row alone, and appends one
  \<open>update\<close> entry whose snapshots are the row before and after.\<close>

theorem sql_update_optimistic:
  assumes "reachable jtext db" "sql_update jtext s m v upd db = Inr (res, db')"
  shows "(res = None \<and> db' = db \<and> (\<forall>r. find_row db (s_tenant s) m = Some r \<longrightarrow> r_version r \<noteq> v)) \<or>
    (\<exists>old new e. res = Some new \<and> find_row db (s_tenant s) m = Some old \<and> r_version old = v \<and>
       r_version new = v + 1 \<and> find_row db' (s_tenant s) m = Some new \<and>
       (\<forall>t' m'. (t', m') \<noteq> (s_tenant s, m) \<longrightarrow> find_row db' t' m' = find_row db t' m') \<and>
       history db' = history db @ [e] \<and> h_op e = ''update'' \<and> h_memory e = m \<and>
       h_before e = Some old \<and> h_after e = Some new)"
proof -
  have inv: "db_inv jtext db" using reachable_ledger_inv [OF assms(1)] by (simp add: ledger_inv_def)
  show ?thesis
  proof (cases "find_row db (s_tenant s) m")
    case None
    with assms(2) show ?thesis by (simp add: sql_update_def)
  next
    case (Some old)
    have k: "row_key old = (s_tenant s, m)" "old \<in> set (memories db)"
      using find_row_SomeD [OF Some] by (simp_all add: row_key_def)
    show ?thesis
    proof (cases "r_version old = v")
      case False
      with Some assms(2) show ?thesis by (simp add: sql_update_def)
    next
      case True
      with Some assms(2) obtain new where b: "jarvis_bump_version old (upd old) = Inr new"
        and res: "res = Some new" and db': "db' = write_update jtext s old new db"
        by (auto simp: sql_update_def res_bind_Inr_iff split: if_splits)
      from b have kn: "row_key new = row_key old" and vn: "r_version new = v + 1"
        using True by (auto simp: jarvis_bump_version_def row_key_def split: if_splits)
      have "row_key old \<in> row_key ` set (memories db)" using k(2) by (rule imageI)
      then have "find_row db' (s_tenant s) m = Some new"
        using kn k by (simp add: db' write_update_def find_row_def find_replace_row)
      moreover have "find_row db' t' m' = find_row db t' m'" if "(t', m') \<noteq> (s_tenant s, m)" for t' m'
        using write_update_find_row [OF kn] that k unfolding db' by metis
      moreover have "m = r_id new" using kn k by (simp add: row_key_def)
      ultimately show ?thesis
        using Some True vn res by (simp add: db' write_update_def captured_key)
    qed
  qed
qed

lemma sample_update: "\<exists>new db'. sql_update jtext sample_session ''mem_1'' 1 (\<lambda>r. r\<lparr>r_status := ''archived''\<rparr>) (sample_db jtext) = Inr (Some new, db')"
proof -
  have f: "find_row (sample_db jtext) ''operator'' ''mem_1'' = Some sample_row"
    by (simp add: find_row_def sample_entries row_key_def) (simp add: sample_row_def)
  have "row_checks (sample_row\<lparr>r_status := ''archived'', r_version := 2\<rparr>)"
    by (simp add: row_checks_def sample_row_def char_length_def memory_types_def memory_statuses_def)
  with f show ?thesis
    by (simp add: sql_update_def sample_session_def jarvis_bump_version_def) (simp add: sample_row_def fk_ok_def)
qed

theorem sql_update_optimistic_witness:
  "\<exists>new db'. sql_update (\<lambda>_. ''{}'') sample_session ''mem_1'' 1 (\<lambda>r. r\<lparr>r_status := ''archived''\<rparr>) (sample_db (\<lambda>_. ''{}'')) =
      Inr (Some new, db') \<and> r_version new = 2 \<and> find_row db' ''operator'' ''mem_1'' = Some new"
proof -
  obtain new db' where u: "sql_update (\<lambda>_. ''{}'') sample_session ''mem_1'' 1 (\<lambda>r. r\<lparr>r_status := ''archived''\<rparr>)
      (sample_db (\<lambda>_. ''{}'')) = Inr (Some new, db')" using sample_update by blast
  from sql_update_optimistic [OF sample_reachable u] u show ?thesis by (auto simp: sample_session_def)
qed

lemma ri_set_null_child:
  assumes "distinct (map row_key rs)" "\<forall>r \<in> set rs. r \<in> set (memories db)" "c \<in> set rs" "distinct (map row_key (memories db))"
  shows "find_row (ri_set_null jtext s rs db) (r_tenant c) (r_id c) =
    Some (c\<lparr>r_supersedes := None, r_version := r_version c + 1\<rparr>)"
  using assms
proof (induction rs arbitrary: db)
  case (Cons r rs)
  let ?new = "r\<lparr>r_supersedes := None, r_version := r_version r + 1\<rparr>"
  let ?db = "write_update jtext s r ?new db"
  have k: "row_key ?new = row_key r" by (simp add: row_key_def)
  have d: "distinct (map row_key (memories ?db))"
    using Cons.prems(4) by (simp add: write_update_def del: map_map)
  show ?case
  proof (cases "c = r")
    case True
    have "row_key r \<in> row_key ` set (memories db)" using Cons.prems(2) by simp
    then have "find_row ?db (r_tenant r) (r_id r) = Some ?new"
      using k by (simp add: write_update_def find_row_def find_replace_row) (simp_all add: row_key_def)
    moreover have "(r_tenant r, r_id r) \<notin> row_key ` set rs" using Cons.prems(1) by (simp add: row_key_def)
    ultimately show ?thesis using True by (simp add: ri_set_null_find_row)
  next
    case False
    then have c: "c \<in> set rs" using Cons.prems(3) by simp
    have "x \<in> set (memories ?db)" if x: "x \<in> set rs" for x
    proof -
      have "row_key x \<noteq> row_key r" using Cons.prems(1) x by (metis distinct.simps(2) image_eqI list.simps(9) set_map)
      with x Cons.prems(2) k show ?thesis
        by (simp add: write_update_def replace_row_def)
    qed
    with Cons.IH [OF _ _ c d] Cons.prems(1) show ?thesis by simp
  qed
qed simp

text \<open>Deleting a record removes it and nothing else, except that the records it was superseded
  by lose the dangling \<open>supersedes\<close> link and have their version raised by one; deleting an unknown
  record reports that and changes nothing.\<close>

lemma sql_delete_effect:
  assumes "reachable jtext db" "sql_delete jtext s m db = (found, db')"
  shows "found = (find_row db (s_tenant s) m \<noteq> None) \<and> (\<not> found \<longrightarrow> db' = db) \<and>
    (\<forall>t' m'. find_row db' t' m' =
      (if (t', m') = (s_tenant s, m) then None
       else map_option (\<lambda>r. if found \<and> t' = s_tenant s \<and> r_supersedes r = Some m
                            then r\<lparr>r_supersedes := None, r_version := r_version r + 1\<rparr> else r) (find_row db t' m')))"
proof (cases "find_row db (s_tenant s) m")
  case None
  then have "(if (t', m') = (s_tenant s, m) then None else find_row db t' m') = find_row db t' m'" for t' m' by simp
  moreover have "map_option (\<lambda>r. r) x = x" for x :: "mem_row option" by (cases x) simp_all
  ultimately show ?thesis using None assms(2) by (simp add: sql_delete_def)
next
  case (Some old)
  have inv: "db_inv jtext db" using reachable_ledger_inv [OF assms(1)] by (simp add: ledger_inv_def)
  note d = inv_distinct(1) [OF inv]
  let ?t = "s_tenant s"
  define rows where "rows = filter (\<lambda>r. row_key r \<noteq> row_key old) (memories db)"
  define cs where "cs = filter (\<lambda>r. r_tenant r = r_tenant old \<and> r_supersedes r = Some m) rows"
  let ?db0 = "db\<lparr>memories := rows\<rparr>"
  have old: "row_key old = (?t, m)" "r_tenant old = ?t" using find_row_SomeD [OF Some] by (simp_all add: row_key_def)
  let ?db1 = "jarvis_record_history jtext s (On_delete old) ?db0"
  have db': "found" "db' = ri_set_null jtext s cs ?db1"
    using assms(2) Some by (simp_all add: sql_delete_def Let_def rows_def cs_def)
  have dr: "distinct (map row_key rows)" using d unfolding rows_def by (metis distinct_map_filter)
  have dc: "distinct (map row_key cs)" using dr unfolding cs_def by (metis distinct_map_filter)
  have find0: "find_row ?db0 t' m' = (if (t', m') = (?t, m) then None else find_row db t' m')" for t' m'
    using old by (simp add: find_row_def rows_def find_key_remove)
  have find1: "find_row ?db1 t' m' = find_row ?db0 t' m'" for t' m'
    by (simp add: find_row_def)
  have "find_row db' t' m' = (if (t', m') = (?t, m) then None
       else map_option (\<lambda>r. if t' = ?t \<and> r_supersedes r = Some m
         then r\<lparr>r_supersedes := None, r_version := r_version r + 1\<rparr> else r) (find_row db t' m'))" for t' m'
  proof (cases "(t', m') \<in> row_key ` set cs")
    case False
    have "\<not> (t' = ?t \<and> r_supersedes r = Some m)" if "find_row db t' m' = Some r" "(t', m') \<noteq> (?t, m)" for r
    proof
      assume r: "t' = ?t \<and> r_supersedes r = Some m"
      note D = find_row_SomeD [OF that(1)]
      then have "r \<in> set cs" using r that(2) old by (simp add: cs_def rows_def row_key_def)
      with False D show False by (force simp: row_key_def)
    qed
    then have "map_option (\<lambda>r. if t' = ?t \<and> r_supersedes r = Some m
         then r\<lparr>r_supersedes := None, r_version := r_version r + 1\<rparr> else r) (find_row db t' m') = find_row db t' m'"
      if "(t', m') \<noteq> (?t, m)" using that by (cases "find_row db t' m'") auto
    with False show ?thesis by (simp add: db' ri_set_null_find_row find1 find0)
  next
    case True
    then obtain c where c: "c \<in> set cs" "(t', m') = row_key c" by blast
    then have cc: "c \<in> set rows" "c \<in> set (memories db)" "r_tenant c = ?t" "r_supersedes c = Some m" "(t', m') \<noteq> (?t, m)"
      using old by (auto simp: cs_def rows_def)
    have "find_row db t' m' = Some c" using c cc d by (simp add: find_row_key)
    moreover have "find_row db' t' m' = Some (c\<lparr>r_supersedes := None, r_version := r_version c + 1\<rparr>)"
      using ri_set_null_child [OF dc _ c(1), of ?db1] dr c by (simp add: db' row_key_def cs_def)
    ultimately show ?thesis using cc c(2) by (simp add: row_key_def)
  qed
  then show ?thesis using db'(1) Some by simp
qed

lemma sql_delete_effect_witness:
  "find_row (snd (sql_delete (\<lambda>_. ''{}'') sample_session ''mem_1'' (sample_db (\<lambda>_. ''{}'')))) ''operator'' ''mem_1'' = None \<and>
   fst (sql_delete (\<lambda>_. ''{}'') sample_session ''mem_1'' (sample_db (\<lambda>_. ''{}'')))"
proof -
  have f: "find_row (sample_db (\<lambda>_. ''{}'')) ''operator'' ''mem_1'' = Some sample_row"
    by (simp add: find_row_def sample_entries row_key_def) (simp add: sample_row_def)
  from sql_delete_effect [OF sample_reachable prod.collapse [symmetric], of "\<lambda>_. ''{}''" sample_session "''mem_1''"] f
  show ?thesis by (simp add: sample_session_def)
qed

end
