(* ===== verification/Anchors.thy ===== *)
theory Anchors
  imports Ledger_Steps
begin

text \<open>
  What a recorded block hash (an anchor kept outside the database) is worth: in any two verified
  databases in which the same hash is found, the blocks up to it have the same fields, the entries they
  cover have the same row hashes, and, through the per-entry hash, the same operations, versions and
  before/after snapshots. The block chain is an instance of the hash chain contract.

  The hypotheses are that SHA-256 has no collision among the texts of each kind that were hashed and
  that the JSON text of a snapshot delimits itself (\<open>json_code\<close>, true of JSON objects).
\<close>

section \<open>The sealed chain is a hash chain\<close>

interpretation sealed: hash_chain zeros64 "\<lambda>e. bf_height (fst e)" "\<lambda>e. bf_prev (fst e)" snd
    "\<lambda>e. block_text (fst e)" "\<lambda>e. hex64 (bf_prev (fst e)) \<and> snd e = sha256_hex (block_text (fst e))"
  by unfold_locales (auto intro!: prod_eqI block_text_inj)

definition sealed_of :: "block_row \<Rightarrow> block_fields \<times> string" where
  "sealed_of b = (b_fields b, b_hash b)"

lemma sealed_of_simps [simp]: "fst (sealed_of b) = b_fields b" "snd (sealed_of b) = b_hash b"
  by (simp_all add: sealed_of_def)

lemma stored_block_hash_text: "stored_block_hash b = sha256_hex (block_text (b_fields b))"
  by (simp add: stored_block_hash_def Let_def jarvis_block_hash_def block_text_def)

lemma blocks_right_linked:
  "blocks_right db t n p l bs \<Longrightarrow> hex64 p \<Longrightarrow> sealed.linked n p (map sealed_of bs)"
proof (induction bs arbitrary: n p l)
  case (Cons b bs)
  then have h: "b_hash b = sha256_hex (block_text (b_fields b))"
    by (simp add: Let_def stored_block_hash_text)
  moreover from Cons.prems(1) have "blocks_right db t (n + 1) (b_hash b) (bf_last_seq (b_fields b)) bs"
    by (simp add: Let_def)
  then have "sealed.linked (n + 1) (b_hash b) (map sealed_of bs)"
    using h by (intro Cons.IH) (simp_all add: hex64_sha256_hex)
  ultimately show ?case using Cons.prems by (simp add: Let_def)
qed simp

lemma same_block_hash_same_blocks:
  assumes "chain_right db t" "chain_right db' t'"
    and "i < length (tenant_blocks db t)" "j < length (tenant_blocks db' t')"
    and "b_hash (tenant_blocks db t ! i) = b_hash (tenant_blocks db' t' ! j)"
    and "inj_on sha256 ((\<lambda>b. block_text (b_fields b)) ` (set (tenant_blocks db t) \<union> set (tenant_blocks db' t')))"
  shows "i = j \<and> map sealed_of (take (Suc i) (tenant_blocks db t)) = map sealed_of (take (Suc i) (tenant_blocks db' t'))"
proof -
  have "sealed.linked 1 zeros64 (map sealed_of (tenant_blocks db t))" "sealed.linked 1 zeros64 (map sealed_of (tenant_blocks db' t'))"
    using assms(1,2) by (auto simp: chain_right_def intro: blocks_right_linked)
  moreover have "(\<lambda>e. block_text (fst e)) ` (set (map sealed_of (tenant_blocks db t)) \<union> set (map sealed_of (tenant_blocks db' t')))
      = (\<lambda>b. block_text (b_fields b)) ` (set (tenant_blocks db t) \<union> set (tenant_blocks db' t'))"
    by (simp add: image_Un image_image)
  ultimately show ?thesis
    using sealed.anchor_fixes_prefix [of "map sealed_of (tenant_blocks db t)" "map sealed_of (tenant_blocks db' t')" i j] assms
    by (auto simp: take_map)
qed

section \<open>Tiling\<close>

lemma blocks_right_tiles:
  "blocks_right db t n p l bs \<Longrightarrow> i < length bs \<Longrightarrow> l < q \<Longrightarrow> q \<le> b_last (bs ! i) \<Longrightarrow>
     \<exists>k \<le> i. bf_first_seq (b_fields (bs ! k)) \<le> q \<and> q \<le> bf_last_seq (b_fields (bs ! k))"
proof (induction bs arbitrary: n p l i)
  case (Cons b bs)
  then have first: "bf_first_seq (b_fields b) = l + 1" and r: "blocks_right db t (n + 1) (b_hash b) (bf_last_seq (b_fields b)) bs"
    by (simp_all add: Let_def)
  show ?case
  proof (cases "q \<le> bf_last_seq (b_fields b)")
    case True
    with first Cons.prems(3) show ?thesis by (intro exI [of _ 0]) simp
  next
    case False
    with Cons.prems obtain i' where i: "i = Suc i'" by (cases i) (auto simp: b_last_def)
    with Cons.IH [OF r, of i'] Cons.prems False obtain k where "k \<le> i'"
      "bf_first_seq (b_fields (bs ! k)) \<le> q \<and> q \<le> bf_last_seq (b_fields (bs ! k))" by auto
    with i show ?thesis by (intro exI [of _ "Suc k"]) simp
  qed
qed simp

lemma blocks_right_nth:
  assumes "blocks_right db t n p l bs" "k < length bs"
  shows "int (length (leaves db t (bf_first_seq (b_fields (bs ! k))) (bf_last_seq (b_fields (bs ! k))))) =
      bf_last_seq (b_fields (bs ! k)) - bf_first_seq (b_fields (bs ! k)) + 1"
    and "jarvis_merkle_root (leaves db t (bf_first_seq (b_fields (bs ! k))) (bf_last_seq (b_fields (bs ! k)))) =
      Inr (bf_root (b_fields (bs ! k)))"
  using assms
  by (induction bs arbitrary: n p l k) (auto simp: Let_def nth_Cons split: nat.splits)

section \<open>The entry hash binds the entry's content\<close>

definition entry_text :: "(mem_row \<Rightarrow> string) \<Rightarrow> hist_row \<Rightarrow> bytes" where
  "entry_text jtext e = history_text jtext (h_prev e) (h_op e) (h_version e) (h_before e) (h_after e)"

definition entry_content :: "hist_row \<Rightarrow> string \<times> string \<times> int \<times> mem_row option \<times> mem_row option" where
  "entry_content e = (h_prev e, h_op e, h_version e, h_before e, h_after e)"

definition snapshots :: "hist_row list \<Rightarrow> mem_row set" where
  "snapshots es = \<Union> ((\<lambda>e. set_option (h_before e) \<union> set_option (h_after e)) ` set es)"

definition json_code :: "(mem_row \<Rightarrow> string) \<Rightarrow> mem_row set \<Rightarrow> bool" where
  "json_code jtext A \<longleftrightarrow>
     (\<forall>a \<in> A. \<forall>b \<in> A. \<forall>x y. jtext a @ ''|'' @ x = jtext b @ ''|'' @ y \<longrightarrow> a = b \<and> x = y)"

lemma json_codeD:
  "json_code jtext A \<Longrightarrow> a \<in> A \<Longrightarrow> b \<in> A \<Longrightarrow> jtext a @ ''|'' @ x = jtext b @ ''|'' @ y \<Longrightarrow> a = b \<and> x = y"
  unfolding json_code_def by blast

lemma json_code_inj: "json_code jtext A \<Longrightarrow> a \<in> A \<Longrightarrow> b \<in> A \<Longrightarrow> jtext a = jtext b \<Longrightarrow> a = b"
  using json_codeD [of jtext A a b "[]" "[]"] by simp

lemma op_check_no_bar: "op_check e \<Longrightarrow> CHR ''|'' \<notin> set (h_op e)"
  by (auto simp: op_check_def)

lemma entry_text_inj:
  assumes "op_check e" "op_check f" "hex64 (h_prev e)" "hex64 (h_prev f)" "json_code jtext (snapshots [e, f])"
    and "entry_text jtext e = entry_text jtext f"
  shows "entry_content e = entry_content f"
proof -
  have bar: "CHR ''|'' \<notin> set (h_prev e)" "CHR ''|'' \<notin> set (h_prev f)" "CHR ''|'' \<notin> set (h_op e)" "CHR ''|'' \<notin> set (h_op f)"
    using assms(1-4) by (simp_all add: op_check_no_bar)
  from assms(6) bar have same: "h_prev e = h_prev f" "h_op e = h_op f" "h_version e = h_version f"
    and snaps: "option_text jtext (h_before e) @ ''|'' @ option_text jtext (h_after e) =
      option_text jtext (h_before f) @ ''|'' @ option_text jtext (h_after f)"
    by (auto simp: entry_text_def history_text_def delim_split str_int_inj)
  have A: "set_option (h_before e) \<union> set_option (h_after e) \<union> set_option (h_before f) \<union> set_option (h_after f) \<subseteq> snapshots [e, f]"
    by (auto simp: snapshots_def)
  consider "h_before e = None" "h_before f = None" "\<exists>a b. h_after e = Some a \<and> h_after f = Some b"
    | "\<exists>a b a' b'. h_before e = Some b \<and> h_before f = Some b' \<and> h_after e = Some a \<and> h_after f = Some a'"
    | "\<exists>b b'. h_before e = Some b \<and> h_before f = Some b'" "h_after e = None" "h_after f = None"
    using assms(1,2) same(2) by (auto simp: op_check_def)
  then have "h_before e = h_before f \<and> h_after e = h_after f"
  proof cases
    case 1
    then obtain a b where ab: "h_after e = Some a" "h_after f = Some b" by blast
    with 1 snaps have "jtext a = jtext b" by (simp add: option_text_def)
    with ab 1 A json_code_inj [OF assms(5), of a b] show ?thesis by simp
  next
    case 2
    then obtain a b a' b' where ab: "h_before e = Some b" "h_before f = Some b'" "h_after e = Some a" "h_after f = Some a'" by blast
    with snaps have "jtext b @ ''|'' @ jtext a = jtext b' @ ''|'' @ jtext a'" by (simp add: option_text_def)
    with ab A json_codeD [OF assms(5), of b b'] have "b = b'" "jtext a = jtext a'" by auto
    with ab A json_code_inj [OF assms(5), of a a'] show ?thesis by simp
  next
    case 3
    then obtain b b' where ab: "h_before e = Some b" "h_before f = Some b'" by blast
    with 3 snaps have "jtext b @ ''|'' @ [] = jtext b' @ ''|'' @ []" by (simp add: option_text_def)
    with ab 3 A json_codeD [OF assms(5), of b b' "[]" "[]"] show ?thesis by simp
  qed
  with same show ?thesis by (simp add: entry_content_def)
qed

lemma entry_hash_text: "entry_hash jtext e = sha256_hex (entry_text jtext e)"
  by (simp add: entry_hash_def jarvis_history_hash_def entry_text_def)

lemma hashes_linked_entry:
  "hashes_linked jtext p es \<Longrightarrow> hex64 p \<Longrightarrow> e \<in> set es \<Longrightarrow> hex64 (h_prev e) \<and> h_hash e = sha256_hex (entry_text jtext e)"
proof (induction es arbitrary: p)
  case (Cons x es)
  have "hex64 (h_hash x)" using Cons.prems(1) by (simp add: entry_hash_text hex64_sha256_hex)
  with Cons show ?case by (auto simp: entry_hash_text)
qed simp

lemma verified_entry:
  assumes "verified jtext db t" "e \<in> set (tenant_entries db t)"
  shows "hex64 (h_prev e) \<and> h_hash e = sha256_hex (entry_text jtext e)"
proof (rule hashes_linked_entry)
  show "hashes_linked jtext zeros64 (sort_key h_seq (record_entries db t (h_memory e)))"
    using assms(1) by (simp add: verified_def)
qed (use assms(2) in \<open>simp_all add: record_entries_subset\<close>)

section \<open>The anchor law\<close>

definition all_root_inputs :: "ledger_db \<Rightarrow> string \<Rightarrow> bytes set" where
  "all_root_inputs db t = \<Union> ((\<lambda>b. set (root_inputs (leaves db t (bf_first_seq (b_fields b)) (bf_last_seq (b_fields b)))))
     ` set (tenant_blocks db t))"

lemma same_range_same_hash:
  assumes "distinct (map h_seq (tenant_entries db t))" "distinct (map h_seq (tenant_entries db' t'))"
    and "leaves db t lo hi = leaves db' t' lo hi" "int (length (leaves db t lo hi)) = hi - lo + 1"
    and "lo \<le> q" "q \<le> hi"
  shows "\<exists>e e'. entry_at db t q = Some e \<and> entry_at db' t' q = Some e' \<and> h_hash e = h_hash e'"
proof -
  let ?r = "range_entries db t lo hi" and ?r' = "range_entries db' t' lo hi"
  have seqs: "map h_seq ?r = [lo..hi]" "map h_seq ?r' = [lo..hi]"
    using assms by (auto intro: range_full)
  define i where "i = nat (q - lo)"
  have "length ?r = nat (hi - lo + 1)" "length ?r' = nat (hi - lo + 1)"
    using arg_cong [OF seqs(1), of length] arg_cong [OF seqs(2), of length] by simp_all
  then have i: "i < length ?r" "i < length ?r'" using assms(5,6) by (auto simp: i_def)
  have "[lo..hi] ! i = q" using assms(5,6) by (simp add: i_def)
  then have q: "h_seq (?r ! i) = q" "h_seq (?r' ! i) = q"
    using arg_cong [OF seqs(1), of "\<lambda>x. x ! i"] arg_cong [OF seqs(2), of "\<lambda>x. x ! i"] i by simp_all
  have "h_hash (?r ! i) = h_hash (?r' ! i)" using assms(3) i by (metis leaves_def nth_map)
  moreover have "?r ! i \<in> set (tenant_entries db t)" "?r' ! i \<in> set (tenant_entries db' t')"
    using i nth_mem [of i ?r] nth_mem [of i ?r'] by (auto simp: range_entries_def)
  ultimately show ?thesis
    using q assms(1,2) by (auto simp: entry_at_def find_key_Some)
qed

lemma entry_at_mem: "entry_at db t q = Some e \<Longrightarrow> e \<in> set (tenant_entries db t) \<and> h_seq e = q"
  by (auto simp: entry_at_def find_Some_iff)

lemma anchored_row_hashes:
  assumes right: "chain_right db t" "chain_right db' t"
    and tables: "table_checks db t" "table_checks db' t"
    and b: "b \<in> set (tenant_blocks db t)" "b' \<in> set (tenant_blocks db' t)" "b_hash b = b_hash b'"
    and coll: "inj_on sha256 ((\<lambda>b. block_text (b_fields b)) ` (set (tenant_blocks db t) \<union> set (tenant_blocks db' t)))"
      "inj_on sha256 (all_root_inputs db t \<union> all_root_inputs db' t)"
    and q: "1 \<le> q" "q \<le> b_last b"
  shows "\<exists>e e'. entry_at db t q = Some e \<and> entry_at db' t q = Some e' \<and> h_hash e = h_hash e'"
proof -
  let ?bs = "tenant_blocks db t" and ?bs' = "tenant_blocks db' t"
  obtain i j where ij: "i < length ?bs" "?bs ! i = b" "j < length ?bs'" "?bs' ! j = b'"
    using b(1,2) by (metis in_set_conv_nth)
  then have same: "i = j" "map sealed_of (take (Suc i) ?bs) = map sealed_of (take (Suc i) ?bs')"
    using same_block_hash_same_blocks [OF right, of i j] b(3) coll(1) by auto
  obtain k where k: "k \<le> i" "bf_first_seq (b_fields (?bs ! k)) \<le> q" "q \<le> bf_last_seq (b_fields (?bs ! k))"
    using blocks_right_tiles [OF right(1) [unfolded chain_right_def] ij(1), of q] q ij(2) by auto
  have kl: "k < length ?bs" "k < length ?bs'" using k(1) ij same(1) by simp_all
  have "map sealed_of (take (Suc i) ?bs) ! k = map sealed_of (take (Suc i) ?bs') ! k" using same(2) by simp
  then have f: "b_fields (?bs ! k) = b_fields (?bs' ! k)" using k(1) kl ij same(1) by (simp add: sealed_of_def)
  let ?lo = "bf_first_seq (b_fields (?bs ! k))" and ?hi = "bf_last_seq (b_fields (?bs ! k))"
  note n = blocks_right_nth [OF right(1) [unfolded chain_right_def] kl(1)]
  note n' = blocks_right_nth [OF right(2) [unfolded chain_right_def] kl(2), folded f]
  have hex: "list_all hex64 (leaves db t ?lo ?hi)" "list_all hex64 (leaves db' t ?lo ?hi)"
    using tables by (auto simp: table_checks_def intro: leaves_hex)
  have "leaves db t ?lo ?hi = leaves db' t ?lo ?hi"
  proof (rule merkle_root_bindingD [OF hex])
    have "set (root_inputs (leaves db t ?lo ?hi)) \<subseteq> all_root_inputs db t"
      unfolding all_root_inputs_def using kl(1) by (intro UN_upper) (rule nth_mem)
    moreover have "set (root_inputs (leaves db' t ?lo ?hi)) \<subseteq> all_root_inputs db' t"
      unfolding all_root_inputs_def f using kl(2) by (intro UN_upper) (rule nth_mem)
    ultimately show "inj_on sha256 (set (root_inputs (leaves db t ?lo ?hi)) \<union> set (root_inputs (leaves db' t ?lo ?hi)))"
      by (intro inj_on_subset [OF coll(2)] Un_mono)
    show "merkle_root (leaves db t ?lo ?hi) = Inr (bf_root (b_fields (?bs ! k)))"
      using n(2) by (simp add: jarvis_merkle_root_eq_hex [OF hex(1)])
    show "merkle_root (leaves db' t ?lo ?hi) = Inr (bf_root (b_fields (?bs ! k)))"
      using n'(2) by (simp add: jarvis_merkle_root_eq_hex [OF hex(2)])
  qed
  then show ?thesis
    using tables n(1) k by (intro same_range_same_hash [of db t db' t ?lo ?hi q]) (auto simp: table_checks_def)
qed

lemma anchored_content:
  assumes right: "chain_right db t" "chain_right db' t"
    and tables: "table_checks db t" "table_checks db' t"
    and ver: "verified jtext db t" "verified jtext db' t"
    and ops: "\<forall>e \<in> set (tenant_entries db t @ tenant_entries db' t). op_check e"
    and b: "b \<in> set (tenant_blocks db t)" "b' \<in> set (tenant_blocks db' t)" "b_hash b = b_hash b'"
    and coll: "inj_on sha256 ((\<lambda>b. block_text (b_fields b)) ` (set (tenant_blocks db t) \<union> set (tenant_blocks db' t)))"
      "inj_on sha256 (all_root_inputs db t \<union> all_root_inputs db' t)"
      "inj_on sha256 (entry_text jtext ` (set (tenant_entries db t) \<union> set (tenant_entries db' t)))"
    and code: "json_code jtext (snapshots (tenant_entries db t @ tenant_entries db' t))"
    and q: "1 \<le> q" "q \<le> b_last b"
  shows "\<exists>e e'. entry_at db t q = Some e \<and> entry_at db' t q = Some e' \<and> entry_content e = entry_content e'"
proof -
  obtain e e' where e: "entry_at db t q = Some e" "entry_at db' t q = Some e'" "h_hash e = h_hash e'"
    using anchored_row_hashes [OF right tables b coll(1,2) q] by blast
  note m = entry_at_mem [OF e(1)] entry_at_mem [OF e(2)]
  note v = verified_entry [OF ver(1), of e] verified_entry [OF ver(2), of e']
  have "entry_text jtext e = entry_text jtext e'"
    using v m e(3) sha256_hex_injD [OF coll(3), of "entry_text jtext e" "entry_text jtext e'"] by simp
  moreover have "snapshots [e, e'] \<subseteq> snapshots (tenant_entries db t @ tenant_entries db' t)"
    using m by (auto simp: snapshots_def)
  then have "json_code jtext (snapshots [e, e'])" using code unfolding json_code_def by blast
  ultimately have "entry_content e = entry_content e'"
    using v m ops by (intro entry_text_inj) auto
  with e show ?thesis by blast
qed

text \<open>C2: an anchor fixes history. If two databases pass the history and block verifiers for a tenant and
  the same block hash occurs in both (say, one kept outside the database), then every entry that block
  reaches back over is the same in both: previous hash, operation, version, and before and after
  snapshots, unless SHA-256 collides among the hashed texts. Who changed a record, and when, is not
  part of the hashed text.\<close>

theorem anchor_fixes_history:
  assumes "jarvis_verify_history jtext db t None = []" "jarvis_verify_history jtext db' t None = []"
    and "jarvis_verify_blocks db t = []" "jarvis_verify_blocks db' t = []"
    and "table_checks db t" "table_checks db' t"
    and "\<forall>e \<in> set (tenant_entries db t @ tenant_entries db' t). op_check e"
    and "b \<in> set (tenant_blocks db t)" "b' \<in> set (tenant_blocks db' t)" "b_hash b = b_hash b'"
    and "inj_on sha256 ((\<lambda>b. block_text (b_fields b)) ` (set (tenant_blocks db t) \<union> set (tenant_blocks db' t)))"
    and "inj_on sha256 (all_root_inputs db t \<union> all_root_inputs db' t)"
    and "inj_on sha256 (entry_text jtext ` (set (tenant_entries db t) \<union> set (tenant_entries db' t)))"
    and "json_code jtext (snapshots (tenant_entries db t @ tenant_entries db' t))"
    and "1 \<le> q" "q \<le> b_last b"
  shows "\<exists>e e'. entry_at db t q = Some e \<and> entry_at db' t q = Some e' \<and> entry_content e = entry_content e'"
  using assms
  by (intro anchored_content [of db t db' jtext b b' q]) (simp_all add: verify_blocks_chain verify_history_verified)

theorem anchor_fixes_history_witness:
  "\<exists>db b. b \<in> set (tenant_blocks db ''operator'') \<and> b_last b = 1 \<and>
     (\<exists>e. entry_at db ''operator'' 1 = Some e \<and> h_after e = Some sample_row)"
proof -
  let ?jt = "\<lambda>_::mem_row. ''{}''"
  let ?db = "sample_db ?jt"
  have inv: "ledger_inv ?jt ?db" by (rule reachable_ledger_inv [OF sample_reachable])
  have nob: "tenant_blocks ?db ''operator'' = []" by (simp add: tenant_blocks_def sample_entries)
  have tip: "tip_of ?db ''operator'' = (0, 0, zeros64)" by (simp add: tip_of_def tip_block_def nob)
  obtain b r where seal: "jarvis_seal_block sample_session ''read committed'' ''operator'' sample_seal ?db =
        Inr (r, ?db\<lparr>blocks := blocks ?db @ [b]\<rparr>)"
    and nb: "next_block ?db ''operator'' 1 (sa_max_entries sample_seal) b"
    using seal_success [OF inv _ _ _ _ _ _ _ sample_entries(2) tip, of sample_session sample_seal]
    by (auto simp: sample_session_def sample_seal_def char_length_def)
  define db where "db = ?db\<lparr>blocks := blocks ?db @ [b]\<rparr>"
  have r: "reachable ?jt db" unfolding db_def by (rule reach_step [OF sample_reachable step_seal [OF seal]])
  then have ver: "jarvis_verify_history ?jt db ''operator'' None = []" "jarvis_verify_blocks db ''operator'' = []"
    using reachable_ledger_inv [OF r] inv_block_problems [of ?jt db] inv_verified [of ?jt db] verify_history_verified [of ?jt db]
    by (auto simp: ledger_inv_def)
  have tc: "table_checks db ''operator''" by (rule inv_table_checks [OF reachable_ledger_inv [OF r]])
  have bs: "tenant_blocks db ''operator'' = [b]"
    using seal_appends(2) [OF _ _ sample_entries(2) nb] inv nob by (simp add: db_def ledger_inv_def sample_seal_def)
  have es: "tenant_entries db ''operator'' = tenant_entries ?db ''operator''"
    by (simp add: db_def blocks_only_same)
  have f: "bf_first_seq (b_fields b) = 1" "bf_last_seq (b_fields b) = 1"
    using nb by (simp_all add: next_block_def tip sample_seal_def b_last_def)
  have root: "all_root_inputs db ''operator'' = {CHR 0x00 # fromhex (jarvis_history_hash ?jt zeros64 ''create'' 1 None (Some sample_row))}"
    by (simp add: all_root_inputs_def bs f leaves_def range_entries_def es sample_entries root_inputs_def tree_inputs_def mth_inputs.simps)
  have "\<exists>e e'. entry_at db ''operator'' 1 = Some e \<and> entry_at db ''operator'' 1 = Some e' \<and> entry_content e = entry_content e'"
  proof (rule anchor_fixes_history [OF ver(1) ver(1) ver(2) ver(2) tc tc])
    show "b \<in> set (tenant_blocks db ''operator'')" "b \<in> set (tenant_blocks db ''operator'')" by (simp_all add: bs)
    show "inj_on sha256 (all_root_inputs db ''operator'' \<union> all_root_inputs db ''operator'')" by (simp add: root)
    show "json_code ?jt (snapshots (tenant_entries db ''operator'' @ tenant_entries db ''operator''))"
      by (simp add: json_code_def snapshots_def es sample_entries)
  qed (simp_all add: bs es sample_entries op_check_def f b_last_def)
  then obtain e where "entry_at db ''operator'' 1 = Some e" by blast
  moreover from this have "h_after e = Some sample_row"
    using entry_at_mem [of db "''operator''" 1 e] by (simp add: es sample_entries)
  ultimately show ?thesis using bs f by (intro exI [of _ db] exI [of _ b]) (simp add: b_last_def)
qed

end
