(* ===== verification/Replay.thy ===== *)
theory Replay
  imports Anchors
begin

text \<open>
  Replay Contracts, RC.Ledger.v1 (\<^verbatim>\<open>app/replay.py\<close>): the state leaf and state root, the fold that
  rebuilds the state at a history position, the seven checks of \<open>verify_replay\<close> in their order, and the
  served replay of \<^verbatim>\<open>app/pg_store.py\<close> (\<open>_resolve_replay_seq\<close>, \<open>replay_state\<close> with its SQL
  \<open>DISTINCT ON\<close> heads and paging).

  The database values before and after are texts here, as PostgreSQL renders them (parameter
  \<open>jtext\<close>). The lemmas show that the fold and the SQL heads agree, that replaying at the position an
  earlier state of the database had reached gives exactly the records of that state, and that a state root
  commits to every record's newest entry.
\<close>

section \<open>Hashing\<close>

definition EMPTY_ROOT :: string where
  "EMPTY_ROOT = sha256_hex []"

definition state_leaf_text :: "string \<Rightarrow> string \<Rightarrow> bytes" where
  "state_leaf_text ident row_hash =
     CHR 0x00 # ''jarvis-state|v1|'' @ dec_nat (length ident) @ '':'' @ ident @ ''|'' @ row_hash"

definition state_leaf :: "string \<Rightarrow> string \<Rightarrow> string + bytes" where
  "state_leaf memory_id row_hash =
     (if \<not> match_hex64 row_hash then Inl ''row_hash must be 64 lowercase hex characters''
      else Inr (sha256 (state_leaf_text memory_id row_hash)))"

definition state_root :: "(string \<times> string) list \<Rightarrow> string + string" where
  "state_root hs =
     (if hs = [] then Inr EMPTY_ROOT
      else let ordered = sort_key fst hs; ids = map fst ordered
           in if length (remdups ids) \<noteq> length ids then Inl ''a record can appear only once in a state''
              else res_bind (res_map_list (\<lambda>(i, h). state_leaf i h) ordered) (\<lambda>ls.
                   res_bind (merkle_tree_hash ls) (\<lambda>r. Inr (hex r))))"

record entry =
  e_seq :: int
  e_memory :: string
  e_op :: string
  e_version :: int
  e_prev :: string
  e_row :: string
  e_before :: "string option"
  e_after :: "string option"

definition or_empty :: "string option \<Rightarrow> string" where
  "or_empty v = (case v of None \<Rightarrow> [] | Some s \<Rightarrow> s)"

definition entry_row_hash :: "string \<Rightarrow> string \<Rightarrow> int \<Rightarrow> string option \<Rightarrow> string option \<Rightarrow> string" where
  "entry_row_hash prev op version before after =
     sha256_hex (prev @ ''|'' @ op @ ''|'' @ str_int version @ ''|'' @ or_empty before @ ''|'' @ or_empty after)"

section \<open>The fold\<close>

record folded =
  f_live :: "(string \<times> entry) list"
  f_deleted :: nat

definition newest_entries :: "entry list \<Rightarrow> int \<Rightarrow> (string \<times> entry) list" where
  "newest_entries entries at_seq =
     foldl (\<lambda>d e. if e_seq e \<le> at_seq then AList.update (e_memory e) e d else d) [] (sort_key e_seq entries)"

definition fold_state :: "entry list \<Rightarrow> int \<Rightarrow> folded" where
  "fold_state entries at_seq =
     (let newest = newest_entries entries at_seq
      in \<lparr>f_live = filter (\<lambda>(m, e). e_op e \<noteq> ''delete'') newest,
          f_deleted = length (filter (\<lambda>(m, e). e_op e = ''delete'') newest)\<rparr>)"

section \<open>The offline verifier\<close>

datatype replay_exc =
    Replay_error (re_code: string) (re_message: string) (re_status: int)
  | Value_error string

definition to_entry :: "(mem_row \<Rightarrow> string) \<Rightarrow> hist_row \<Rightarrow> entry" where
  "to_entry jtext h = \<lparr>e_seq = h_seq h, e_memory = h_memory h, e_op = h_op h, e_version = h_version h,
     e_prev = h_prev h, e_row = h_hash h, e_before = map_option jtext (h_before h), e_after = map_option jtext (h_after h)\<rparr>"

text \<open>The query's \<open>ORDER BY memory_id COLLATE "C", seq\<close>.\<close>

definition ctx_entries :: "(mem_row \<Rightarrow> string) \<Rightarrow> ledger_db \<Rightarrow> string \<Rightarrow> int \<Rightarrow> entry list" where
  "ctx_entries jtext db t seq =
     map (to_entry jtext) (sort_key h_memory (sort_key h_seq (filter (\<lambda>h. h_seq h \<le> seq) (tenant_entries db t))))"

record ctx =
  c_db :: ledger_db
  c_tenant :: string
  c_at_seq :: int
  c_expect_root :: "string option"
  c_expect_block_hash :: "string option"
  c_expect_block_height :: "int option"
  c_counter :: int
  c_entries :: "entry list"
  c_folded :: folded

definition check_seq :: "ctx \<Rightarrow> problem list" where
  "check_seq c =
     (if c_at_seq c > c_counter c then [mk_problem ''seq'' ''history''
        (''at_seq '' @ str_int (c_at_seq c) @ '' is beyond the history counter '' @ str_int (c_counter c))] else [])
     @ (let seqs = map e_seq (c_entries c)
        in (if length (remdups seqs) \<noteq> length seqs
            then [mk_problem ''seq'' ''history'' ''a history seq appears more than once''] else [])
           @ map (\<lambda>n. mk_problem ''seq'' (''seq '' @ str_int n)
                 (''history entry '' @ str_int n @ '' is missing (an entry was removed)''))
               (take 20 (filter (\<lambda>n. n \<notin> set seqs) [1..c_at_seq c])))"

definition check_entry_hash :: "ctx \<Rightarrow> problem list" where
  "check_entry_hash c =
     map (\<lambda>e. mk_problem ''entry_hash'' (''seq '' @ str_int (e_seq e))
            (''row_hash does not match the entry's contents (record '' @ e_memory e @ ''; the entry was altered)''))
       (filter (\<lambda>e. entry_row_hash (e_prev e) (e_op e) (e_version e) (e_before e) (e_after e) \<noteq> e_row e) (c_entries c))"

fun chain_link_loop :: "(string \<times> string) list \<Rightarrow> entry list \<Rightarrow> problem list" where
  "chain_link_loop last_hash [] = []"
| "chain_link_loop last_hash (e # es) =
     (let expected = (case map_of last_hash (e_memory e) of None \<Rightarrow> GENESIS_HASH | Some h \<Rightarrow> h)
      in (if e_prev e \<noteq> expected then [mk_problem ''chain_link'' (''seq '' @ str_int (e_seq e))
            (''prev_hash does not match the previous entry of '' @ e_memory e @ '' (an entry was removed, reordered or altered)'')] else [])
         @ chain_link_loop (AList.update (e_memory e) (e_row e) last_hash) es)"

definition check_chain_link :: "ctx \<Rightarrow> problem list" where
  "check_chain_link c = chain_link_loop [] (c_entries c)"

definition live_heads :: "folded \<Rightarrow> (string \<times> string) list" where
  "live_heads f = map (\<lambda>(m, e). (m, e_row e)) (f_live f)"

definition check_state_root :: "ctx \<Rightarrow> string \<Rightarrow> problem list" where
  "check_state_root c rt =
     (case c_expect_root c of
        None \<Rightarrow> []
      | Some x \<Rightarrow> if x \<noteq> rt then [mk_problem ''state_root'' ''state''
          (''state root '' @ rt @ '' differs from the expected root '' @ x)] else [])"

definition live_texts :: "(mem_row \<Rightarrow> string) \<Rightarrow> ledger_db \<Rightarrow> string \<Rightarrow> (string \<times> string) list" where
  "live_texts jtext db t = map (\<lambda>r. (r_id r, jtext r)) (filter (\<lambda>r. r_tenant r = t) (memories db))"

definition check_live_match :: "(mem_row \<Rightarrow> string) \<Rightarrow> ctx \<Rightarrow> problem list" where
  "check_live_match jtext c =
     (if c_at_seq c \<noteq> c_counter c then []
      else let live = live_texts jtext (c_db c) (c_tenant c)
           in concat (map (\<lambda>(m, e).
                case map_of live m of
                  None \<Rightarrow> [mk_problem ''live_match'' m ''the replayed state has a record that is not in the live table'']
                | Some txt \<Rightarrow> if Some txt \<noteq> e_after e
                    then [mk_problem ''live_match'' m ''the live record differs from its latest history entry''] else [])
                (f_live (c_folded c)))
              @ map (\<lambda>m. mk_problem ''live_match'' m ''the live table has a record that the replayed history does not'')
                  (sort (remdups (filter (\<lambda>m. m \<notin> fst ` set (f_live (c_folded c))) (map fst live)))))"

definition covering_block :: "ledger_db \<Rightarrow> string \<Rightarrow> int \<Rightarrow> block_row option" where
  "covering_block db t seq =
     find (\<lambda>b. bf_tenant (b_fields b) = t \<and> bf_first_seq (b_fields b) \<le> seq \<and> bf_last_seq (b_fields b) \<ge> seq) (blocks db)"

text \<open>\<^verbatim>\<open>re.match(r"block (\d+)$", what)\<close>: the height in a label, if it has one.\<close>

definition label_height :: "string \<Rightarrow> nat option" where
  "label_height what =
     (if take 6 what = ''block '' \<and> all_digits (drop 6 what) then Some (dec_value (drop 6 what)) else None)"

definition check_blocks :: "ctx \<Rightarrow> problem list" where
  "check_blocks c =
     (case covering_block (c_db c) (c_tenant c) (c_at_seq c) of
        None \<Rightarrow> []
      | Some b \<Rightarrow>
          map (\<lambda>(what, msg). mk_problem ''blocks'' what msg)
            (filter (\<lambda>(what, msg). case label_height what of None \<Rightarrow> True | Some h \<Rightarrow> int h \<le> b_height b)
              (block_problems (c_db c) (c_tenant c))))"

definition check_expected_block :: "ctx \<Rightarrow> problem list" where
  "check_expected_block c =
     (if c_expect_block_hash c = None \<and> c_expect_block_height c = None then []
      else case covering_block (c_db c) (c_tenant c) (c_at_seq c) of
        None \<Rightarrow> [mk_problem ''expected_block'' ''block''
          (''no sealed block covers seq '' @ str_int (c_at_seq c) @ '', but one was expected'')]
      | Some b \<Rightarrow>
          (case c_expect_block_height c of None \<Rightarrow> []
           | Some h \<Rightarrow> if b_height b \<noteq> h then [mk_problem ''expected_block'' (''block '' @ str_int (b_height b))
               (''the covering block is '' @ str_int (b_height b) @ '', expected block '' @ str_int h)] else [])
          @ (case c_expect_block_hash c of None \<Rightarrow> []
           | Some x \<Rightarrow> if b_hash b \<noteq> x then [mk_problem ''expected_block'' (''block '' @ str_int (b_height b))
               (''the covering block's hash is '' @ b_hash b @ '', not the expected '' @ x)] else []))"

definition resolve_at_seq :: "ledger_db \<Rightarrow> string \<Rightarrow> int option \<Rightarrow> int option \<Rightarrow> replay_exc + int" where
  "resolve_at_seq db t at_seq at_block =
     (if at_seq \<noteq> None \<and> at_block \<noteq> None
      then Inl (Replay_error ''replay_bound_ambiguous'' ''give at_seq or at_block, not both'' 422)
      else case at_block of
        Some h \<Rightarrow> (case get_block db t h of
           None \<Rightarrow> Inl (Replay_error ''replay_block_not_found'' (''there is no sealed block '' @ str_int h) 404)
         | Some b \<Rightarrow> Inr (b_last b))
      | None \<Rightarrow> (case at_seq of
           None \<Rightarrow> Inr (history_seq db t)
         | Some n \<Rightarrow> if n > history_seq db t
             then Inl (Replay_error ''replay_seq_out_of_range''
               (''at_seq '' @ str_int n @ '' is beyond the history counter '' @ str_int (history_seq db t)) 422)
             else Inr n))"

record replay_result =
  rr_problems :: "problem list"
  rr_at_seq :: int
  rr_history_seq :: int
  rr_sealed_seq :: int
  rr_root :: string
  rr_records :: nat
  rr_deleted :: nat
  rr_entries :: nat
  rr_block :: "(int \<times> string) option"

definition sealed_seq :: "ledger_db \<Rightarrow> string \<Rightarrow> int" where
  "sealed_seq db t = (let bs = tenant_blocks db t in if bs = [] then 0 else Max (set (map b_last bs)))"

text \<open>
  \<open>verify_replay\<close> with \<open>signatures="off"\<close> (signature levels are added by another component). The
  seven checks run in the order of the \<open>CHECKS\<close> dictionary; a malformed row hash makes
  \<open>state_root\<close> raise, which ends the call.
\<close>

definition verify_replay ::
  "(mem_row \<Rightarrow> string) \<Rightarrow> ledger_db \<Rightarrow> string \<Rightarrow> int option \<Rightarrow> int option \<Rightarrow> string option \<Rightarrow> string option
     \<Rightarrow> int option \<Rightarrow> replay_exc + replay_result" where
  "verify_replay jtext db t at_seq at_block expect_root expect_block_hash expect_block_height =
     res_bind (resolve_at_seq db t at_seq at_block) (\<lambda>seq.
       let es = ctx_entries jtext db t seq;
           c = \<lparr>c_db = db, c_tenant = t, c_at_seq = seq, c_expect_root = expect_root,
                c_expect_block_hash = expect_block_hash, c_expect_block_height = expect_block_height,
                c_counter = history_seq db t, c_entries = es, c_folded = fold_state es seq\<rparr>
       in case state_root (live_heads (c_folded c)) of
            Inl msg \<Rightarrow> Inl (Value_error msg)
          | Inr rt \<Rightarrow> Inr
              \<lparr>rr_problems = check_seq c @ check_entry_hash c @ check_chain_link c @ check_state_root c rt
                 @ check_live_match jtext c @ check_blocks c @ check_expected_block c,
               rr_at_seq = seq, rr_history_seq = history_seq db t, rr_sealed_seq = sealed_seq db t, rr_root = rt,
               rr_records = length (f_live (c_folded c)), rr_deleted = f_deleted (c_folded c),
               rr_entries = length es,
               rr_block = map_option (\<lambda>b. (b_height b, b_hash b)) (covering_block db t seq)\<rparr>)"

section \<open>The served replay (app/pg_store.py)\<close>

text \<open>\<open>SELECT DISTINCT ON (memory_id) \<dots> ORDER BY memory_id, seq DESC\<close>: one newest entry per record, by id.\<close>

definition distinct_heads :: "ledger_db \<Rightarrow> string \<Rightarrow> int \<Rightarrow> hist_row list" where
  "distinct_heads db t seq =
     (let es = filter (\<lambda>h. h_seq h \<le> seq) (tenant_entries db t)
      in map (\<lambda>m. last (sort_key h_seq (filter (\<lambda>h. h_memory h = m) es))) (sort (remdups (map h_memory es))))"

record replayed_record =
  pr_id :: string
  pr_seq :: int
  pr_version :: int
  pr_row_hash :: string
  pr_record :: "mem_row option"

record replay_state =
  rs_at_seq :: int
  rs_history_seq :: int
  rs_sealed_seq :: int
  rs_sealed :: bool
  rs_boundary :: bool
  rs_block :: "block_row option"
  rs_count :: nat
  rs_deleted :: nat
  rs_root :: string
  rs_records :: "replayed_record list"
  rs_next :: "string option"

definition MAX_PAGE :: int where
  "MAX_PAGE = 1000"

definition live_page :: "hist_row list \<Rightarrow> string option \<Rightarrow> nat \<Rightarrow> hist_row list \<times> string option" where
  "live_page live after_id limit =
     (let page = take (limit + 1) (filter (\<lambda>h. case after_id of None \<Rightarrow> True | Some a \<Rightarrow> h_memory h > a) live);
          more = length page > limit; page' = take limit page
      in (page', if more then Some (h_memory (last page')) else None))"

definition replay_state ::
  "ledger_db \<Rightarrow> string \<Rightarrow> int option \<Rightarrow> int option \<Rightarrow> string option \<Rightarrow> int \<Rightarrow> replay_exc + replay_state" where
  "replay_state db t at_seq at_block after_id limit =
     res_bind (resolve_at_seq db t at_seq at_block) (\<lambda>seq.
       let hs = distinct_heads db t seq;
           live = filter (\<lambda>h. h_op h \<noteq> ''delete'') hs;
           (page, nxt) = live_page live after_id (nat (max 1 (min limit MAX_PAGE)));
           block = covering_block db t seq
       in case state_root (map (\<lambda>h. (h_memory h, h_hash h)) live) of
            Inl msg \<Rightarrow> Inl (Value_error msg)
          | Inr rt \<Rightarrow> Inr
              \<lparr>rs_at_seq = seq, rs_history_seq = history_seq db t, rs_sealed_seq = sealed_seq db t,
               rs_sealed = (block \<noteq> None),
               rs_boundary = (case block of None \<Rightarrow> False | Some b \<Rightarrow> b_last b = seq),
               rs_block = block, rs_count = length live, rs_deleted = length hs - length live, rs_root = rt,
               rs_records = map (\<lambda>h. \<lparr>pr_id = h_memory h, pr_seq = h_seq h, pr_version = h_version h,
                 pr_row_hash = h_hash h, pr_record = h_after h\<rparr>) page,
               rs_next = nxt\<rparr>)"

section \<open>The fold and the SQL heads\<close>

definition upto_seq :: "ledger_db \<Rightarrow> string \<Rightarrow> int \<Rightarrow> hist_row list" where
  "upto_seq db t seq = sort_key h_seq (filter (\<lambda>h. h_seq h \<le> seq) (tenant_entries db t))"

text \<open>The newest entry of a record at a position.\<close>

definition newest_at :: "ledger_db \<Rightarrow> string \<Rightarrow> int \<Rightarrow> string \<Rightarrow> hist_row option" where
  "newest_at db t seq m =
     (let es = filter (\<lambda>h. h_memory h = m) (upto_seq db t seq) in if es = [] then None else Some (last es))"

lemma ctx_entries_sorted:
  assumes "distinct (map h_seq (tenant_entries db t))"
  shows "sort_key e_seq (ctx_entries jtext db t seq) = map (to_entry jtext) (upto_seq db t seq)"
proof -
  let ?F = "filter (\<lambda>h. h_seq h \<le> seq) (tenant_entries db t)"
  have "inj_on h_seq (set ?F)" using assms by (auto simp: distinct_map inj_on_def)
  then have "sort_key h_seq (sort_key h_memory (sort_key h_seq ?F)) = sort_key h_seq ?F"
    by (intro sort_key_inj_perm) simp_all
  then show ?thesis by (simp add: ctx_entries_def sort_key_map to_entry_def upto_seq_def)
qed

lemma newest_fold:
  "map_of (foldl (\<lambda>d e. if e_seq e \<le> n then AList.update (e_memory e) e d else d) [] es) m =
     (let fs = filter (\<lambda>e. e_seq e \<le> n \<and> e_memory e = m) es in if fs = [] then None else Some (last fs))"
  by (induction es rule: rev_induct) (auto simp: map_of_update Let_def)

lemma newest_fold_distinct:
  "distinct (map fst (foldl (\<lambda>d e. if e_seq e \<le> n then AList.update (e_memory e) e d else d) [] es))"
  by (induction es rule: rev_induct) (auto simp: distinct_update)

lemma newest_entries_map_of:
  assumes "distinct (map h_seq (tenant_entries db t))"
  shows "map_of (newest_entries (ctx_entries jtext db t seq) seq) m = map_option (to_entry jtext) (newest_at db t seq m)"
proof -
  have u: "\<forall>h \<in> set (upto_seq db t seq). h_seq h \<le> seq" by (simp add: upto_seq_def)
  have "filter (\<lambda>e. e_seq e \<le> seq \<and> e_memory e = m) (map (to_entry jtext) (upto_seq db t seq)) =
      map (to_entry jtext) (filter (\<lambda>h. h_memory h = m) (upto_seq db t seq))"
    using u by (auto simp: filter_map to_entry_def comp_def intro!: arg_cong [of _ _ "map _"] filter_cong)
  then show ?thesis
    by (simp add: newest_entries_def ctx_entries_sorted [OF assms] newest_fold newest_at_def last_map Let_def)
qed

lemma newest_entries_distinct: "distinct (map fst (newest_entries es n))"
  by (simp add: newest_entries_def newest_fold_distinct)

lemma fold_live_distinct: "distinct (map fst (f_live (fold_state es n)))"
  by (simp add: fold_state_def Let_def distinct_map_filter newest_entries_distinct)

lemma map_of_filter_value:
  "distinct (map fst xs) \<Longrightarrow> map_of (filter (\<lambda>(k, v). P v) xs) k =
     (case map_of xs k of None \<Rightarrow> None | Some v \<Rightarrow> if P v then Some v else None)"
  by (induction xs) (auto split: option.splits simp: map_of_eq_None_iff image_iff)

lemma fold_live_map_of:
  assumes "distinct (map h_seq (tenant_entries db t))"
  shows "map_of (f_live (fold_state (ctx_entries jtext db t seq) seq)) m =
    (case newest_at db t seq m of None \<Rightarrow> None | Some h \<Rightarrow> if h_op h = ''delete'' then None else Some (to_entry jtext h))"
  using newest_entries_distinct
  by (auto simp: fold_state_def Let_def map_of_filter_value [where P = "\<lambda>e. e_op e \<noteq> ''delete''"]
      newest_entries_map_of [OF assms] to_entry_def split: option.splits)

lemma upto_seq_memories: "h_memory ` set (upto_seq db t seq) = {m. newest_at db t seq m \<noteq> None}"
  by (auto simp: newest_at_def Let_def filter_empty_conv)

lemma newest_at_memory: "newest_at db t seq m = Some h \<Longrightarrow> h_memory h = m \<and> h \<in> set (tenant_entries db t) \<and> h_seq h \<le> seq"
proof -
  assume "newest_at db t seq m = Some h"
  then have "h \<in> set (filter (\<lambda>h. h_memory h = m) (upto_seq db t seq))"
    unfolding newest_at_def Let_def by (metis last_in_set option.distinct(1) option.inject)
  then show ?thesis by (auto simp: upto_seq_def)
qed

lemma distinct_heads_alt:
  "distinct_heads db t seq = map (\<lambda>m. the (newest_at db t seq m)) (sort (remdups (map h_memory (upto_seq db t seq))))"
proof -
  let ?F = "filter (\<lambda>h. h_seq h \<le> seq) (tenant_entries db t)"
  have ids: "sort (remdups (map h_memory (upto_seq db t seq))) = sort (remdups (map h_memory ?F))"
    by (rule sorted_distinct_set_unique) (simp_all add: upto_seq_def)
  have "last (sort_key h_seq (filter (\<lambda>h. h_memory h = m) ?F)) = the (newest_at db t seq m)"
    if "m \<in> set (sort (remdups (map h_memory ?F)))" for m
  proof -
    have "filter (\<lambda>h. h_memory h = m) (upto_seq db t seq) = sort_key h_seq (filter (\<lambda>h. h_memory h = m) ?F)"
      by (simp add: upto_seq_def filter_sort)
    moreover have "filter (\<lambda>h. h_memory h = m) ?F \<noteq> []" using that by (auto simp: filter_empty_conv)
    then have "sort_key h_seq (filter (\<lambda>h. h_memory h = m) ?F) \<noteq> []" by (metis set_empty set_sort)
    ultimately show ?thesis by (simp add: newest_at_def)
  qed
  then show ?thesis unfolding ids by (simp add: distinct_heads_def Let_def)
qed

lemma heads_ids: "map h_memory (distinct_heads db t seq) = sort (remdups (map h_memory (upto_seq db t seq)))"
proof -
  have "h_memory (the (newest_at db t seq m)) = m" if "m \<in> h_memory ` set (upto_seq db t seq)" for m
    using that newest_at_memory [of db t seq m] by (auto simp: upto_seq_memories)
  then show ?thesis unfolding distinct_heads_alt map_map by (intro map_idI) simp
qed

lemma set_distinct_heads: "set (distinct_heads db t seq) = {h. newest_at db t seq (h_memory h) = Some h}"
proof -
  have "set (distinct_heads db t seq) = (\<lambda>m. the (newest_at db t seq m)) ` {m. newest_at db t seq m \<noteq> None}"
    by (simp add: distinct_heads_alt upto_seq_memories)
  then show ?thesis using newest_at_memory [of db t seq] by (auto simp: image_iff) force+
qed

section \<open>The state root\<close>

lemma state_root_perm:
  assumes "mset hs = mset hs'" "distinct (map fst hs)"
  shows "state_root hs = state_root hs'"
proof -
  have "sort_key fst hs = sort_key fst hs'"
    using assms by (intro sort_key_inj_perm) (simp_all add: distinct_map)
  moreover have "hs = [] \<longleftrightarrow> hs' = []" using assms(1) by auto
  ultimately show ?thesis by (simp add: state_root_def)
qed

lemma state_root_set:
  assumes "set hs = set hs'" "distinct (map fst hs)" "distinct (map fst hs')"
  shows "state_root hs = state_root hs'"
proof (rule state_root_perm)
  have "distinct hs" "distinct hs'" using assms(2,3) by (simp_all add: distinct_map)
  with assms(1) show "mset hs = mset hs'" by (simp add: set_eq_iff_mset_eq_distinct)
qed (fact assms(2))

lemma live_pairs:
  assumes "distinct (map h_seq (tenant_entries db t))"
  shows "set (live_heads (fold_state (ctx_entries jtext db t seq) seq)) =
      set (map (\<lambda>h. (h_memory h, h_hash h)) (filter (\<lambda>h. h_op h \<noteq> ''delete'') (distinct_heads db t seq)))"
proof -
  let ?live = "f_live (fold_state (ctx_entries jtext db t seq) seq)"
  have "(m, e) \<in> set ?live \<longleftrightarrow> (\<exists>h. newest_at db t seq m = Some h \<and> h_op h \<noteq> ''delete'' \<and> e = to_entry jtext h)" for m e
    using map_of_eq_Some_iff [OF fold_live_distinct, of "ctx_entries jtext db t seq" seq m e]
    by (auto simp: fold_live_map_of [OF assms] split: option.splits if_splits)
  then have "set (live_heads (fold_state (ctx_entries jtext db t seq) seq)) =
      {(m, e_row (to_entry jtext h)) | m h. newest_at db t seq m = Some h \<and> h_op h \<noteq> ''delete''}"
    unfolding live_heads_def by (auto simp: image_iff split: prod.splits)
  also have "\<dots> = {(h_memory h, h_hash h) | h. newest_at db t seq (h_memory h) = Some h \<and> h_op h \<noteq> ''delete''}"
    using newest_at_memory [of db t seq] by (auto simp: to_entry_def)
  also have "\<dots> = set (map (\<lambda>h. (h_memory h, h_hash h)) (filter (\<lambda>h. h_op h \<noteq> ''delete'') (distinct_heads db t seq)))"
    by (auto simp: set_distinct_heads)
  finally show ?thesis .
qed

lemma live_heads_distinct: "distinct (map fst (live_heads (fold_state es n)))"
  using fold_live_distinct [of es n] by (simp add: live_heads_def comp_def case_prod_beta)

lemma served_heads_distinct:
  "distinct (map fst (map (\<lambda>h. (h_memory h, h_hash h)) (filter P (distinct_heads db t seq))))"
proof -
  have "distinct (map h_memory (distinct_heads db t seq))" by (simp add: heads_ids)
  then show ?thesis by (simp add: comp_def distinct_map_filter)
qed

section \<open>Replaying an earlier state\<close>

inductive later :: "(mem_row \<Rightarrow> string) \<Rightarrow> ledger_db \<Rightarrow> ledger_db \<Rightarrow> bool" for jtext where
  later_refl: "later jtext db db"
| later_step: "later jtext db db' \<Longrightarrow> db_step jtext s db' db'' \<Longrightarrow> later jtext db db''"

lemma later_reachable: "later jtext db db' \<Longrightarrow> reachable jtext db \<Longrightarrow> reachable jtext db'"
  by (induction rule: later.induct) (auto intro: reach_step)

lemma later_history: "later jtext db db' \<Longrightarrow> \<exists>es. history db' = history db @ es"
proof (induction rule: later.induct)
  case (later_step db db' s db'')
  then show ?case using step_grows [OF later_step.hyps(2)] by (auto simp: grows_def)
qed simp

text \<open>What was added to a maintained history lies beyond its old counter.\<close>

lemma upto_earlier:
  assumes "db_inv jtext db" "db_inv jtext db'" "history db' = history db @ es"
  shows "upto_seq db' t (history_seq db t) = tenant_entries db t"
proof -
  define new where "new = filter (\<lambda>h. h_tenant h = t) es"
  have te: "tenant_entries db' t = tenant_entries db t @ new"
    using assms(3) by (simp add: tenant_entries_grow new_def)
  have n: "history_seq db t = int (length (tenant_entries db t))"
    using inv_seqs [OF assms(1), of t] by (simp add: history_seq_def seqs_ok_def)
  have old: "h_seq e \<le> history_seq db t" if "e \<in> set (tenant_entries db t)" for e
  proof -
    have "h_seq e \<in> {1..int (length (tenant_entries db t))}"
      using that seqs_ok_set [OF inv_seqs [OF assms(1)], of t] by blast
    with n show ?thesis by simp
  qed
  have "history_seq db t < h_seq e" if e: "e \<in> set new" for e
  proof -
    from e obtain i where i: "i < length new" "new ! i = e" by (auto simp: in_set_conv_nth)
    then have "h_seq (tenant_entries db' t ! (length (tenant_entries db t) + i)) = int (length (tenant_entries db t) + i) + 1"
      using seqs_ok_nth [OF inv_seqs [OF assms(2)], of "length (tenant_entries db t) + i" t] te by simp
    with i te n show ?thesis by simp
  qed
  then have "filter (\<lambda>h. h_seq h \<le> history_seq db t) new = []" by (fastforce simp: filter_empty_conv)
  moreover have "filter (\<lambda>h. h_seq h \<le> history_seq db t) (tenant_entries db t) = tenant_entries db t"
    using old by (simp add: filter_id_conv)
  ultimately show ?thesis
    using seqs_ok_sorted [OF inv_seqs [OF assms(1)], of t] by (simp add: upto_seq_def te sort_key_sorted_id)
qed

lemma newest_at_earlier:
  assumes "db_inv jtext db" "db_inv jtext db'" "history db' = history db @ es"
  shows "newest_at db' t (history_seq db t) m =
    (if record_entries db t m = [] then None else Some (last (record_entries db t m)))"
  by (simp add: newest_at_def upto_earlier [OF assms] record_entries_subset)

lemma newest_live:
  assumes "db_inv jtext db" "record_entries db t m \<noteq> []"
  shows "h_op (last (record_entries db t m)) = ''delete'' \<longleftrightarrow> find_row db t m = None"
    "h_after (last (record_entries db t m)) = find_row db t m"
proof -
  have "op_check (last (record_entries db t m))"
    using record_chain_op_check [OF inv_chain [OF assms(1), of t m]] assms(2) by simp
  moreover show "h_after (last (record_entries db t m)) = find_row db t m"
    using inv_row [OF assms(1), of t m] assms(2) by (simp add: live_of_def)
  ultimately show "h_op (last (record_entries db t m)) = ''delete'' \<longleftrightarrow> find_row db t m = None"
    by (auto simp: op_check_def)
qed

lemma replay_earlier:
  assumes "db_inv jtext db" "db_inv jtext db'" "history db' = history db @ es"
  shows "map_option e_after (map_of (f_live (fold_state (ctx_entries jtext db' t (history_seq db t)) (history_seq db t))) m) =
    map_option (\<lambda>r. Some (jtext r)) (find_row db t m)"
proof -
  have d: "distinct (map h_seq (tenant_entries db' t))" by (rule seqs_ok_distinct [OF inv_seqs [OF assms(2)]])
  show ?thesis
  proof (cases "record_entries db t m = []")
    case True
    then have "find_row db t m = None" using inv_row [OF assms(1)] by (simp add: live_of_def)
    with True show ?thesis by (simp add: fold_live_map_of [OF d] newest_at_earlier [OF assms])
  next
    case False
    with newest_live [OF assms(1) False] show ?thesis
      by (cases "find_row db t m") (auto simp: fold_live_map_of [OF d] newest_at_earlier [OF assms] to_entry_def)
  qed
qed

section \<open>The verifier is silent on maintained ledgers\<close>

fun prev_linked :: "string \<Rightarrow> entry list \<Rightarrow> bool" where
  "prev_linked p [] \<longleftrightarrow> True"
| "prev_linked p (e # es) \<longleftrightarrow> e_prev e = p \<and> prev_linked (e_row e) es"

lemma chain_link_loop_iff:
  "chain_link_loop d es = [] \<longleftrightarrow>
     (\<forall>m. prev_linked (case map_of d m of None \<Rightarrow> GENESIS_HASH | Some h \<Rightarrow> h) (filter (\<lambda>e. e_memory e = m) es))"
proof (induction es arbitrary: d)
  case (Cons e es)
  let ?p = "\<lambda>d m. case map_of d m of None \<Rightarrow> GENESIS_HASH | Some h \<Rightarrow> h"
  let ?d = "AList.update (e_memory e) (e_row e) d"
  have upd: "?p ?d m = (if m = e_memory e then e_row e else ?p d m)" for m by (simp add: map_of_update)
  have "chain_link_loop d (e # es) = [] \<longleftrightarrow> e_prev e = ?p d (e_memory e) \<and>
      (\<forall>m. prev_linked (?p ?d m) (filter (\<lambda>e. e_memory e = m) es))"
    by (simp add: Let_def Cons.IH)
  also have "\<dots> \<longleftrightarrow> (\<forall>m. prev_linked (?p d m) (filter (\<lambda>x. e_memory x = m) (e # es)))"
    unfolding upd by (auto split: if_splits)
  finally show ?case .
qed simp

lemma hashes_linked_prev: "hashes_linked jtext p es \<Longrightarrow> prev_linked p (map (to_entry jtext) es)"
  by (induction es arbitrary: p) (auto simp: to_entry_def)

lemma hashes_linked_prefix: "hashes_linked jtext p (es @ fs) \<Longrightarrow> hashes_linked jtext p es"
  by (induction es arbitrary: p) auto

lemma filter_le_prefix:
  "sorted (map f xs) \<Longrightarrow> filter (\<lambda>x. f x \<le> (n :: int)) xs = takeWhile (\<lambda>x. f x \<le> n) xs"
proof (induction xs)
  case (Cons x xs)
  show ?case
  proof (cases "f x \<le> n")
    case False
    then have "\<forall>y \<in> set xs. \<not> f y \<le> n" using Cons.prems by auto
    then have "filter (\<lambda>x. f x \<le> n) xs = []" by (simp add: filter_empty_conv)
    with False show ?thesis by simp
  qed (use Cons in simp)
qed simp

lemma ctx_entries_record:
  "filter (\<lambda>e. e_memory e = m) (ctx_entries jtext db t seq) =
     map (to_entry jtext) (takeWhile (\<lambda>h. h_seq h \<le> seq) (sort_key h_seq (record_entries db t m)))"
proof -
  let ?F = "filter (\<lambda>h. h_seq h \<le> seq) (tenant_entries db t)"
  have "filter (\<lambda>e. e_memory e = m) (ctx_entries jtext db t seq) =
      map (to_entry jtext) (filter (\<lambda>h. h_memory h = m) (sort_key h_memory (sort_key h_seq ?F)))"
    by (simp add: ctx_entries_def filter_map comp_def to_entry_def)
  also have "filter (\<lambda>h. h_memory h = m) (sort_key h_memory (sort_key h_seq ?F)) = sort_key h_seq (filter (\<lambda>h. h_memory h = m) ?F)"
    by (rule filter_sort_two)
  also have "filter (\<lambda>h. h_memory h = m) ?F = filter (\<lambda>h. h_seq h \<le> seq) (record_entries db t m)"
    by (simp add: record_entries_subset conj_commute)
  also have "sort_key h_seq \<dots> = filter (\<lambda>h. h_seq h \<le> seq) (sort_key h_seq (record_entries db t m))"
    by (simp add: filter_sort)
  also have "\<dots> = takeWhile (\<lambda>h. h_seq h \<le> seq) (sort_key h_seq (record_entries db t m))"
    by (rule filter_le_prefix) simp
  finally show ?thesis .
qed

lemma check_chain_link_verified:
  assumes "\<forall>m. hashes_linked jtext zeros64 (sort_key h_seq (record_entries db t m))"
  shows "chain_link_loop [] (ctx_entries jtext db t seq) = []"
proof -
  have "prev_linked zeros64 (map (to_entry jtext) (takeWhile (\<lambda>h. h_seq h \<le> seq) (sort_key h_seq (record_entries db t m))))" for m
    using assms takeWhile_dropWhile_id [of "\<lambda>h. h_seq h \<le> seq" "sort_key h_seq (record_entries db t m)"]
    by (metis hashes_linked_prefix hashes_linked_prev)
  moreover have "GENESIS_HASH = zeros64" by (simp add: GENESIS_HASH_def zeros64_def)
  ultimately show ?thesis by (simp add: chain_link_loop_iff ctx_entries_record)
qed

lemma entry_row_hash_to_entry:
  "entry_row_hash (h_prev h) (h_op h) (h_version h) (map_option jtext (h_before h)) (map_option jtext (h_after h)) =
     entry_hash jtext h"
  by (auto simp: entry_row_hash_def entry_hash_def jarvis_history_hash_def history_text_def option_text_def or_empty_def
      split: option.splits)

lemma ctx_entries_mem: "e \<in> set (ctx_entries jtext db t seq) \<longleftrightarrow> (\<exists>h \<in> set (tenant_entries db t). h_seq h \<le> seq \<and> e = to_entry jtext h)"
  by (auto simp: ctx_entries_def)

lemma check_entry_hash_verified:
  assumes "verified jtext db t"
  shows "\<forall>e \<in> set (ctx_entries jtext db t seq). entry_row_hash (e_prev e) (e_op e) (e_version e) (e_before e) (e_after e) = e_row e"
  using verified_entry [OF assms]
  by (auto simp: ctx_entries_mem to_entry_def entry_row_hash_to_entry entry_hash_text)

lemma check_seq_verified:
  assumes "db_inv jtext db" "c_at_seq c \<le> c_counter c" "c_counter c = history_seq db t"
    "c_entries c = ctx_entries jtext db t (c_at_seq c)"
  shows "check_seq c = []"
proof -
  have d: "distinct (map h_seq (tenant_entries db t))" by (rule seqs_ok_distinct [OF inv_seqs [OF assms(1)]])
  have "distinct (map e_seq (c_entries c))"
    using d by (simp add: assms(4) ctx_entries_def comp_def to_entry_def distinct_map_filter)
  then have "length (remdups (map e_seq (c_entries c))) = length (map e_seq (c_entries c))"
    by (simp add: distinct_remdups_id)
  moreover have "n \<in> set (map e_seq (c_entries c))" if "1 \<le> n" "n \<le> c_at_seq c" for n
  proof -
    have "n \<in> {1..int (length (tenant_entries db t))}"
      using that assms(2,3) inv_seqs [OF assms(1), of t] by (auto simp: history_seq_def seqs_ok_def split: if_splits)
    then have "n \<in> h_seq ` set (tenant_entries db t)" using seqs_ok_set [OF inv_seqs [OF assms(1)], of t] by simp
    with that(2) show ?thesis by (force simp: assms(4) ctx_entries_mem to_entry_def image_iff)
  qed
  then have "filter (\<lambda>n. n \<notin> set (map e_seq (c_entries c))) [1..c_at_seq c] = []"
    by (auto simp: filter_empty_conv simp del: set_map)
  ultimately show ?thesis using assms(2) unfolding check_seq_def Let_def by simp
qed

lemma map_of_live_texts:
  "distinct (map row_key (memories db)) \<Longrightarrow> map_of (live_texts jtext db t) m = map_option jtext (find_row db t m)"
proof -
  have "map_of (map (\<lambda>r. (r_id r, jtext r)) (filter (\<lambda>r. r_tenant r = t) rows)) m =
      map_option jtext (find (\<lambda>r. row_key r = (t, m)) rows)" for rows
    by (induction rows) (auto simp: row_key_def)
  then show ?thesis by (simp add: live_texts_def find_row_def)
qed

lemma check_live_match_inv:
  assumes "db_inv jtext db" "c_db c = db" "c_tenant c = t" "c_counter c = history_seq db t"
    "c_folded c = fold_state (ctx_entries jtext db t (c_at_seq c)) (c_at_seq c)"
  shows "check_live_match jtext c = []"
proof (cases "c_at_seq c = c_counter c")
  case True
  let ?live = "f_live (fold_state (ctx_entries jtext db t (history_seq db t)) (history_seq db t))"
  have dr: "distinct (map row_key (memories db))" by (rule inv_distinct(1) [OF assms(1)])
  have ea: "map_option e_after (map_of ?live m) = map_option (\<lambda>r. Some (jtext r)) (find_row db t m)" for m
    using replay_earlier [OF assms(1,1), of "[]"] by simp
  have one: "(case map_of (live_texts jtext db t) m of None \<Rightarrow> x | Some txt \<Rightarrow> if Some txt \<noteq> e_after e then y else z) = z"
    if "(m, e) \<in> set ?live" for m e and x y z :: "problem list"
  proof -
    have "map_of ?live m = Some e" using that fold_live_distinct by simp
    with ea [of m] obtain r where "find_row db t m = Some r" "e_after e = Some (jtext r)"
      by (cases "find_row db t m") auto
    then show ?thesis by (simp add: map_of_live_texts [OF dr])
  qed
  have two: "m \<in> fst ` set ?live" if "m \<in> fst ` set (live_texts jtext db t)" for m
  proof -
    from that have "map_of (live_texts jtext db t) m \<noteq> None" by (simp add: map_of_eq_None_iff)
    then have "map_of ?live m \<noteq> None" using ea [of m] by (auto simp: map_of_live_texts [OF dr])
    then show ?thesis by (simp add: map_of_eq_None_iff)
  qed
  have "concat (map (\<lambda>(m, e). case map_of (live_texts jtext db t) m of
        None \<Rightarrow> [mk_problem ''live_match'' m ''the replayed state has a record that is not in the live table'']
      | Some txt \<Rightarrow> if Some txt \<noteq> e_after e
          then [mk_problem ''live_match'' m ''the live record differs from its latest history entry''] else []) ?live) = []"
    using one by (auto simp: concat_eq_Nil_conv)
  moreover have "filter (\<lambda>m. m \<notin> fst ` set ?live) (map fst (live_texts jtext db t)) = []"
    using two by (auto simp: filter_empty_conv)
  ultimately show ?thesis using True assms(2-5) by (simp add: check_live_match_def Let_def)
qed (simp add: check_live_match_def)

lemma res_map_list_defined: "\<forall>x \<in> set xs. \<exists>y. f x = Inr y \<Longrightarrow> \<exists>ys. res_map_list f xs = Inr ys \<and> length ys = length xs"
proof (induction xs)
  case (Cons x xs)
  then obtain y ys where "f x = Inr y" "res_map_list f xs = Inr ys" "length ys = length xs" by auto
  then show ?case by simp
qed simp

lemma merkle_tree_hash_Inr: "ls \<noteq> [] \<Longrightarrow> merkle_tree_hash ls = Inr (mth ls)"
  by (simp add: merkle_tree_hash_def)

lemma state_root_hex:
  assumes "distinct (map fst hs)" "\<forall>(i, h) \<in> set hs. hex64 h" "hs \<noteq> []"
  shows "state_root hs = Inr (hex (mth (map sha256 (map (\<lambda>(i, h). state_leaf_text i h) (sort_key fst hs)))))"
proof -
  have d: "distinct (map fst (sort_key fst hs))" using assms(1) by simp
  have "res_map_list (\<lambda>(i, h). state_leaf i h) (sort_key fst hs) =
      Inr (map (\<lambda>(i, h). sha256 (state_leaf_text i h)) (sort_key fst hs))"
    using assms(2) by (intro res_map_list_Inr) (auto simp: state_leaf_def)
  moreover have "sort_key fst hs \<noteq> []" using assms(3) by (metis set_empty set_sort)
  ultimately show ?thesis
    using assms(3) d by (simp add: state_root_def Let_def distinct_remdups_id merkle_tree_hash_Inr comp_def split_def)
qed

lemma state_root_Inr:
  assumes "distinct (map fst hs)" "\<forall>(i, h) \<in> set hs. hex64 h"
  shows "\<exists>r. state_root hs = Inr r"
  using state_root_hex [OF assms] by (cases "hs = []") (auto simp: state_root_def)

lemma live_heads_hex:
  assumes "\<forall>h \<in> set (tenant_entries db t). hex64 (h_hash h)" "distinct (map h_seq (tenant_entries db t))"
  shows "\<forall>(i, h) \<in> set (live_heads (fold_state (ctx_entries jtext db t seq) seq)). hex64 h"
  using assms(1) newest_at_memory [of db t seq]
  by (fastforce simp: live_pairs [OF assms(2)] set_distinct_heads)

lemma verify_replay_silent:
  assumes inv: "ledger_inv jtext db" and seq: "resolve_at_seq db t at_seq at_block = Inr n" "n \<le> history_seq db t"
  shows "\<exists>r. verify_replay jtext db t at_seq at_block None None None = Inr r \<and> rr_problems r = [] \<and> rr_at_seq r = n"
proof -
  have db: "db_inv jtext db" using inv by (simp add: ledger_inv_def)
  have ver: "verified jtext db t" by (rule inv_verified [OF db])
  have hex: "\<forall>h \<in> set (tenant_entries db t). hex64 (h_hash h)" using inv_hex [OF db] by blast
  have d: "distinct (map h_seq (tenant_entries db t))" by (rule seqs_ok_distinct [OF inv_seqs [OF db]])
  obtain rt where rt: "state_root (live_heads (fold_state (ctx_entries jtext db t n) n)) = Inr rt"
    using state_root_Inr [OF live_heads_distinct live_heads_hex [OF hex d]] by blast
  define c where "c = \<lparr>c_db = db, c_tenant = t, c_at_seq = n, c_expect_root = None, c_expect_block_hash = None,
      c_expect_block_height = None, c_counter = history_seq db t, c_entries = ctx_entries jtext db t n,
      c_folded = fold_state (ctx_entries jtext db t n) n\<rparr>"
  have "check_seq c = []" by (rule check_seq_verified [OF db]) (simp_all add: c_def seq(2))
  moreover have "check_entry_hash c = []"
    using check_entry_hash_verified [OF ver, of n] by (simp add: check_entry_hash_def c_def filter_empty_conv)
  moreover have "check_chain_link c = []"
    using check_chain_link_verified [of jtext db t n] ver by (simp add: check_chain_link_def c_def verified_def)
  moreover have "check_live_match jtext c = []" by (rule check_live_match_inv [OF db]) (simp_all add: c_def)
  moreover have "check_blocks c = []"
    using inv_block_problems [OF inv, of t] by (simp add: check_blocks_def c_def split: option.split)
  moreover have "check_state_root c rt = []" "check_expected_block c = []"
    by (simp_all add: check_state_root_def check_expected_block_def c_def)
  ultimately show ?thesis
    using seq(1) rt unfolding verify_replay_def by (simp add: Let_def c_def)
qed

lemma resolve_within:
  assumes "ledger_inv jtext db" "resolve_at_seq db t at_seq at_block = Inr n"
  shows "n \<le> history_seq db t"
proof (cases at_block)
  case None
  with assms(2) show ?thesis by (auto simp: resolve_at_seq_def split: option.splits if_splits)
next
  case (Some h)
  with assms(2) obtain b where b: "get_block db t h = Some b" "n = b_last b"
    by (auto simp: resolve_at_seq_def split: option.splits if_splits)
  then have m: "b \<in> set (tenant_blocks db t)" by (auto simp: get_block_def find_Some_iff)
  have cr: "chain_right db t" using assms(1) by (simp add: ledger_inv_def)
  obtain bh bl bprev where tip: "tip_of db t = (bh, bl, bprev)" by (cases "tip_of db t")
  have ne: "tenant_blocks db t \<noteq> []" using m by auto
  have "b_last b \<le> b_last (last (tenant_blocks db t))"
    using blocks_right_count [OF cr [unfolded chain_right_def] m] by simp
  with chain_right_tip(3,7) [OF cr tip] ne b(2) show ?thesis by (auto simp: history_seq_def)
qed

section \<open>Served and verified replay agree\<close>

lemma live_pairs_length:
  assumes "distinct (map h_seq (tenant_entries db t))"
  shows "length (f_live (fold_state (ctx_entries jtext db t seq) seq)) =
    length (filter (\<lambda>h. h_op h \<noteq> ''delete'') (distinct_heads db t seq))"
proof -
  let ?a = "live_heads (fold_state (ctx_entries jtext db t seq) seq)"
  let ?b = "map (\<lambda>h. (h_memory h, h_hash h)) (filter (\<lambda>h. h_op h \<noteq> ''delete'') (distinct_heads db t seq))"
  have "distinct ?a" "distinct ?b"
    using live_heads_distinct [of "ctx_entries jtext db t seq" seq] served_heads_distinct [of "\<lambda>h. h_op h \<noteq> ''delete''" db t seq]
    by (simp_all add: distinct_map del: map_map)
  then have "length ?a = card (set ?a)" "length ?b = card (set ?b)" by (simp_all only: distinct_card)
  moreover have "card (set ?a) = card (set ?b)" by (simp only: live_pairs [OF assms])
  ultimately have "length ?a = length ?b" by (simp only:)
  then show ?thesis by (simp add: live_heads_def)
qed

lemma served_root:
  assumes "distinct (map h_seq (tenant_entries db t))"
  shows "state_root (map (\<lambda>h. (h_memory h, h_hash h)) (filter (\<lambda>h. h_op h \<noteq> ''delete'') (distinct_heads db t seq))) =
    state_root (live_heads (fold_state (ctx_entries jtext db t seq) seq))"
  using live_pairs [OF assms, of jtext seq] served_heads_distinct live_heads_distinct by (intro state_root_set) simp_all

section \<open>What a state root binds\<close>

definition state_inputs :: "(string \<times> string) list \<Rightarrow> bytes list" where
  "state_inputs hs = (if hs = [] then [[]] else tree_inputs (map (\<lambda>(i, h). state_leaf_text i h) (sort_key fst hs)))"

lemma mth_is_input:
  "ps \<noteq> [] \<Longrightarrow> \<exists>x \<in> set (tree_inputs ps). mth (map sha256 ps) = sha256 x \<and> (x \<in> set ps \<or> x \<noteq> [])"
proof (cases "1 < length ps")
  case True
  then show ?thesis by (auto simp: mth_split mth_inputs_split tree_inputs_def node_hash_def Let_def)
next
  case False
  assume "ps \<noteq> []"
  with False obtain p where "ps = [p]" by (cases ps) auto
  then show ?thesis by (simp add: tree_inputs_def)
qed

lemma state_leaf_text_inj:
  assumes "state_leaf_text i h = state_leaf_text i' h'" "hex64 h" "hex64 h'"
  shows "i = i' \<and> h = h'"
proof -
  from assms(1) have "dec_nat (length i) @ CHR '':'' # i @ CHR ''|'' # h = dec_nat (length i') @ CHR '':'' # i' @ CHR ''|'' # h'"
    by (simp add: state_leaf_text_def)
  then have "length i = length i'" "i @ CHR ''|'' # h = i' @ CHR ''|'' # h'"
    by (simp_all add: delim_split dec_nat_inj)
  then show ?thesis by simp
qed

lemma state_root_bindingD:
  assumes "distinct (map fst hs)" "distinct (map fst hs')" "\<forall>(i, h) \<in> set hs \<union> set hs'. hex64 h"
    and inj: "inj_on sha256 (set (state_inputs hs) \<union> set (state_inputs hs'))"
    and "state_root hs = Inr r" "state_root hs' = Inr r"
  shows "set hs = set hs'"
proof -
  let ?t = "\<lambda>hs. map (\<lambda>(i, h). state_leaf_text i h) (sort_key fst hs)"
  have ne: "?t hs \<noteq> []" if "hs \<noteq> []" for hs using that by (metis map_is_Nil_conv set_empty set_sort)
  have hd: "p \<noteq> [] \<and> hd p = CHR 0x00" if "p \<in> set (?t hs)" for p hs
    using that by (auto simp: state_leaf_text_def)
  have root: "state_root hs = Inr (hex (mth (map sha256 (?t hs))))" if "hs \<noteq> []" "distinct (map fst hs)" "\<forall>(i, h) \<in> set hs. hex64 h" for hs
    using state_root_hex that by blast
  have hex: "\<forall>(i, h) \<in> set hs. hex64 h" "\<forall>(i, h) \<in> set hs'. hex64 h" using assms(3) by auto
  have empty: False if c: "xs = []" "ys \<noteq> []" "state_root xs = Inr r" "state_root ys = Inr r"
    "distinct (map fst ys)" "\<forall>(i, h) \<in> set ys. hex64 h" "set (state_inputs xs) \<union> set (state_inputs ys) \<subseteq> set (state_inputs hs) \<union> set (state_inputs hs')" for xs ys
  proof -
    have "sha256_hex [] = hex (mth (map sha256 (?t ys)))"
      using c root [of ys] by (simp add: state_root_def EMPTY_ROOT_def)
    then have "sha256 [] = mth (map sha256 (?t ys))" by (simp add: sha256_hex_def hex_inj del: map_map)
    with mth_is_input [OF ne [OF c(2)]] obtain x where x: "x \<in> set (tree_inputs (?t ys))" "sha256 [] = sha256 x" "x \<in> set (?t ys) \<or> x \<noteq> []"
      by auto
    have "[] \<in> set (state_inputs hs) \<union> set (state_inputs hs')" "x \<in> set (state_inputs hs) \<union> set (state_inputs hs')"
      using c(1,2,7) x(1) by (auto simp: state_inputs_def)
    with inj_onD [OF inj x(2)] have "x = []" by simp
    with x(3) hd [of x ys] show False by auto
  qed
  show ?thesis
  proof (cases "hs = [] \<or> hs' = []")
    case True
    with empty [of hs hs'] empty [of hs' hs] assms hex show ?thesis by fastforce
  next
    case False
    then have e: "mth (map sha256 (?t hs)) = mth (map sha256 (?t hs'))"
      using root [of hs] root [of hs'] assms hex by (simp add: hex_inj del: map_map)
    have "inj_on sha256 (set (tree_inputs (?t hs)) \<union> set (tree_inputs (?t hs')))"
      by (rule inj_on_subset [OF inj]) (use False in \<open>auto simp: state_inputs_def\<close>)
    then have "?t hs = ?t hs'" using ne False hd e by (intro mth_binding) auto
    moreover have "inj_on (\<lambda>(i, h). state_leaf_text i h) (set (sort_key fst hs) \<union> set (sort_key fst hs'))"
    proof (rule inj_onI, clarify)
      fix i h i' h' assume m: "(i, h) \<in> set (sort_key fst hs) \<union> set (sort_key fst hs')"
        "(i', h') \<in> set (sort_key fst hs) \<union> set (sort_key fst hs')" and e: "state_leaf_text i h = state_leaf_text i' h'"
      from m hex have "hex64 h" "hex64 h'" by auto
      with state_leaf_text_inj [OF e] show "i = i' \<and> h = h'" by blast
    qed
    ultimately have "sort_key fst hs = sort_key fst hs'" by (rule map_inj_on)
    then show ?thesis by (metis set_sort)
  qed
qed

section \<open>Paging\<close>

text \<open>Following \<open>next_after_id\<close> to the end.\<close>

fun live_pages :: "nat \<Rightarrow> hist_row list \<Rightarrow> string option \<Rightarrow> nat \<Rightarrow> hist_row list" where
  "live_pages 0 live after_id k = []"
| "live_pages (Suc n) live after_id k =
     (case live_page live after_id k of
        (page, None) \<Rightarrow> page
      | (page, Some a) \<Rightarrow> page @ live_pages n live (Some a) k)"

definition beyond :: "hist_row list \<Rightarrow> string option \<Rightarrow> hist_row list" where
  "beyond live after_id = filter (\<lambda>h. case after_id of None \<Rightarrow> True | Some a \<Rightarrow> h_memory h > a) live"

lemma beyond_split:
  assumes "sorted (map h_memory live)" "distinct (map h_memory live)" "live = xs @ [y] @ zs"
  shows "beyond live (Some (h_memory y)) = zs"
proof -
  have "filter (\<lambda>h. h_memory h > h_memory y) xs = []"
    using assms by (auto simp: filter_empty_conv sorted_append not_less)
  moreover have "filter (\<lambda>h. h_memory h > h_memory y) zs = zs"
    using assms by (auto simp: filter_id_conv sorted_append less_le)
  ultimately show ?thesis using assms(3) by (simp add: beyond_def)
qed

lemma live_pages_suffix:
  assumes "sorted (map h_memory live)" "distinct (map h_memory live)" "1 \<le> k"
  shows "live = xs @ ys \<Longrightarrow> beyond live a = ys \<Longrightarrow> length ys \<le> n * k \<Longrightarrow> live_pages (Suc n) live a k = ys"
proof (induction n arbitrary: a xs ys)
  case 0
  then show ?case by (simp add: live_page_def beyond_def)
next
  case (Suc n)
  show ?case
  proof (cases "length ys \<le> k")
    case True
    then show ?thesis
      using Suc.prems(2) by (simp add: live_page_def beyond_def [symmetric] Let_def)
  next
    case False
    define y where "y = last (take k ys)"
    have ne: "take k ys \<noteq> []" using False assms(3) by auto
    have page: "live_page live a k = (take k ys, Some (h_memory y))"
      using Suc.prems(2) False by (simp add: live_page_def beyond_def [symmetric] Let_def y_def)
    have sp: "live = (xs @ butlast (take k ys)) @ [y] @ drop k ys"
    proof -
      have "take k ys = butlast (take k ys) @ [y]" unfolding y_def using append_butlast_last_id [OF ne] by simp
      then have "ys = (butlast (take k ys) @ [y]) @ drop k ys" by (metis append_take_drop_id)
      with Suc.prems(1) show ?thesis by simp
    qed
    have "live_pages (Suc n) live (Some (h_memory y)) k = drop k ys"
    proof (rule Suc.IH)
      show "live = (xs @ take k ys) @ drop k ys" using Suc.prems(1) by simp
      show "beyond live (Some (h_memory y)) = drop k ys" by (rule beyond_split [OF assms(1,2) sp])
      show "length (drop k ys) \<le> n * k" using Suc.prems(3) by simp
    qed
    then show ?thesis by (simp only: live_pages.simps page prod.case option.case append_take_drop_id)
  qed
qed

end
