(* ===== verification/Replay_Theorems.thy ===== *)
theory Replay_Theorems
  imports Replay
begin

text \<open>
  The properties of Replay Contracts over the definitions of \<open>Replay\<close>: replaying a recorded position
  gives the records that were live then, the served replay and the offline verifier agree, the verifier
  is silent on every reachable ledger, the pages of a served replay are the whole state, and a state root
  commits to the newest entry of every record.
\<close>

section \<open>Earlier positions of a grown ledger\<close>

lemma ctx_entries_upto: "ctx_entries jtext db t seq = map (to_entry jtext) (sort_key h_memory (upto_seq db t seq))"
  by (simp add: ctx_entries_def upto_seq_def)

lemma upto_seq_now: "db_inv jtext db \<Longrightarrow> upto_seq db t (history_seq db t) = tenant_entries db t"
  using upto_earlier [of jtext db db "[]" t] by simp

lemma ctx_entries_earlier:
  assumes "db_inv jtext db" "db_inv jtext db'" "history db' = history db @ es"
  shows "ctx_entries jtext db' t (history_seq db t) = ctx_entries jtext db t (history_seq db t)"
  using upto_earlier [OF assms, of t] upto_seq_now [OF assms(1), of t] by (simp add: ctx_entries_upto)

lemma distinct_heads_earlier:
  assumes "db_inv jtext db" "db_inv jtext db'" "history db' = history db @ es"
  shows "distinct_heads db' t (history_seq db t) = distinct_heads db t (history_seq db t)"
  using upto_earlier [OF assms, of t] upto_seq_now [OF assms(1), of t]
  by (simp add: distinct_heads_alt newest_at_def)

lemma history_seq_mono:
  assumes "db_inv jtext db" "db_inv jtext db'" "history db' = history db @ es"
  shows "history_seq db t \<le> history_seq db' t"
proof -
  have "history_seq d t = int (length (tenant_entries d t))" if "db_inv jtext d" for d
    using inv_seqs [OF that, of t] by (auto simp: history_seq_def seqs_ok_def split: if_splits)
  with assms show ?thesis by (simp add: tenant_entries_def)
qed

lemma verify_replay_parts:
  assumes "verify_replay jtext db t at_seq at_block er eh eb = Inr r" "resolve_at_seq db t at_seq at_block = Inr n"
  shows "state_root (live_heads (fold_state (ctx_entries jtext db t n) n)) = Inr (rr_root r) \<and>
    rr_records r = length (f_live (fold_state (ctx_entries jtext db t n) n)) \<and>
    rr_deleted r = f_deleted (fold_state (ctx_entries jtext db t n) n)"
  using assms by (auto simp: verify_replay_def Let_def split: sum.splits)

lemma resolve_now: "resolve_at_seq db t None None = Inr (history_seq db t)"
  by (simp add: resolve_at_seq_def)

lemma resolve_seq: "n \<le> history_seq db t \<Longrightarrow> resolve_at_seq db t (Some n) None = Inr n"
  by (simp add: resolve_at_seq_def)

text \<open>C9: replay is time travel: let a reachable ledger take any further sequence of statements (updates,
  deletes and seals by any session). Verifying a replay at the history counter of the earlier state
  succeeds without a problem, gives the root and the number of records the verifier gave then, and the
  replayed record texts are exactly the live rows of the earlier state, id by id.\<close>

theorem replay_time_travel:
  assumes "reachable jtext db" "later jtext db db'"
  shows "\<exists>r r0. verify_replay jtext db' t (Some (history_seq db t)) None None None None = Inr r \<and> rr_problems r = [] \<and>
    verify_replay jtext db t None None None None None = Inr r0 \<and> rr_root r = rr_root r0 \<and> rr_records r = rr_records r0 \<and>
    (\<forall>m. map_option e_after (map_of (f_live (fold_state (ctx_entries jtext db' t (history_seq db t)) (history_seq db t))) m) =
       map_option (\<lambda>row. Some (jtext row)) (find_row db t m))"
proof -
  have inv: "ledger_inv jtext db" "ledger_inv jtext db'"
    using assms later_reachable reachable_ledger_inv by blast+
  then have db: "db_inv jtext db" "db_inv jtext db'" by (simp_all add: ledger_inv_def)
  obtain es where es: "history db' = history db @ es" using later_history [OF assms(2)] by blast
  have le: "history_seq db t \<le> history_seq db' t" by (rule history_seq_mono [OF db es])
  obtain r where r: "verify_replay jtext db' t (Some (history_seq db t)) None None None None = Inr r" "rr_problems r = []"
    using verify_replay_silent [OF inv(2) resolve_seq [OF le] le] by blast
  obtain r0 where r0: "verify_replay jtext db t None None None None None = Inr r0"
    using verify_replay_silent [OF inv(1) resolve_now order.refl] by blast
  show ?thesis
    using r r0 verify_replay_parts [OF r(1) resolve_seq [OF le]] verify_replay_parts [OF r0 resolve_now]
      replay_earlier [OF db es, of t] by (simp add: ctx_entries_earlier [OF db es])
qed

theorem replay_time_travel_witness:
  "\<exists>r. verify_replay (\<lambda>_. ''{}'') (snd (sql_delete (\<lambda>_. ''{}'') sample_session ''mem_1'' (sample_db (\<lambda>_. ''{}''))))
      ''operator'' (Some 1) None None None None = Inr r \<and> rr_problems r = []"
proof -
  have "later (\<lambda>_. ''{}'') (sample_db (\<lambda>_. ''{}'')) (snd (sql_delete (\<lambda>_. ''{}'') sample_session ''mem_1'' (sample_db (\<lambda>_. ''{}''))))"
    by (rule later_step [OF later_refl step_delete [OF prod.collapse [symmetric]]])
  from replay_time_travel [OF sample_reachable this, of "''operator''"] show ?thesis
    by (auto simp: history_seq_def sample_entries(2))
qed

section \<open>Silence on reachable ledgers\<close>

text \<open>On every reachable ledger, for every tenant and every bound the resolver accepts (the latest
  entry, a history position or a block height), the replay verifier returns without an error, reports no
  problem of any of its checks, and replays exactly that position.\<close>

lemma replay_verifies:
  assumes "reachable jtext db" "resolve_at_seq db t at_seq at_block = Inr n"
  shows "\<exists>r. verify_replay jtext db t at_seq at_block None None None = Inr r \<and> rr_problems r = [] \<and> rr_at_seq r = n \<and>
    n \<le> history_seq db t"
  using verify_replay_silent [OF reachable_ledger_inv [OF assms(1)] assms(2)]
    resolve_within [OF reachable_ledger_inv [OF assms(1)] assms(2)] by blast

lemma replay_verifies_witness:
  "\<exists>r. verify_replay (\<lambda>_. ''{}'') (sample_db (\<lambda>_. ''{}'')) ''operator'' None None None None None = Inr r \<and>
     rr_problems r = [] \<and> rr_at_seq r = 1"
  using replay_verifies [OF sample_reachable resolve_now, of "\<lambda>_. ''{}''" "''operator''"]
  by (auto simp: history_seq_def sample_entries(2))

section \<open>The served replay\<close>

lemma replay_state_parts:
  assumes "replay_state db t at_seq at_block after_id limit = Inr s"
  shows "\<exists>n. resolve_at_seq db t at_seq at_block = Inr n \<and> rs_at_seq s = n \<and>
    (let live = filter (\<lambda>h. h_op h \<noteq> ''delete'') (distinct_heads db t n)
     in state_root (map (\<lambda>h. (h_memory h, h_hash h)) live) = Inr (rs_root s) \<and> rs_count s = length live \<and>
        rs_deleted s = length (distinct_heads db t n) - length live \<and>
        map pr_id (rs_records s) = map h_memory (fst (live_page live after_id (nat (max 1 (min limit MAX_PAGE))))) \<and>
        map pr_record (rs_records s) = map h_after (fst (live_page live after_id (nat (max 1 (min limit MAX_PAGE))))) \<and>
        rs_next s = snd (live_page live after_id (nat (max 1 (min limit MAX_PAGE)))))"
  using assms by (cases "resolve_at_seq db t at_seq at_block") (auto simp: replay_state_def Let_def split: sum.splits prod.splits)

lemma fold_deleted:
  assumes "distinct (map h_seq (tenant_entries db t))"
  shows "f_deleted (fold_state (ctx_entries jtext db t n) n) =
    length (distinct_heads db t n) - length (filter (\<lambda>h. h_op h \<noteq> ''delete'') (distinct_heads db t n))"
proof -
  let ?N = "newest_entries (ctx_entries jtext db t n) n"
  have "dom (map_of ?N) = {m. newest_at db t n m \<noteq> None}" by (auto simp: newest_entries_map_of [OF assms])
  then have "set (map fst ?N) = set (map h_memory (distinct_heads db t n))"
    by (simp add: dom_map_of_conv_image_fst heads_ids upto_seq_memories)
  moreover have "distinct (map fst ?N)" "distinct (map h_memory (distinct_heads db t n))"
    by (simp_all add: newest_entries_distinct heads_ids)
  ultimately have "length (map fst ?N) = length (map h_memory (distinct_heads db t n))"
    using distinct_card by metis
  then have len: "length ?N = length (distinct_heads db t n)" by simp
  have "length (filter (\<lambda>(m, e). e_op e \<noteq> ''delete'') ?N) + length (filter (\<lambda>(m, e). e_op e = ''delete'') ?N) = length ?N"
    using sum_length_filter_compl [of "\<lambda>(m, e). e_op e \<noteq> ''delete''" ?N] by (simp add: split_def)
  moreover have "length (filter (\<lambda>(m, e). e_op e \<noteq> ''delete'') ?N) =
      length (filter (\<lambda>h. h_op h \<noteq> ''delete'') (distinct_heads db t n))"
    using live_pairs_length [OF assms, of jtext n] by (simp add: fold_state_def Let_def)
  ultimately show ?thesis using len by (simp add: fold_state_def Let_def)
qed

lemma expect_root_silent:
  assumes "verify_replay jtext db t at_seq at_block None None None = Inr r"
  shows "verify_replay jtext db t at_seq at_block (Some (rr_root r)) None None = Inr r"
proof -
  have upd: "check_seq (c\<lparr>c_expect_root := x\<rparr>) = check_seq c" "check_entry_hash (c\<lparr>c_expect_root := x\<rparr>) = check_entry_hash c"
    "check_chain_link (c\<lparr>c_expect_root := x\<rparr>) = check_chain_link c"
    "check_live_match jtext (c\<lparr>c_expect_root := x\<rparr>) = check_live_match jtext c"
    "check_blocks (c\<lparr>c_expect_root := x\<rparr>) = check_blocks c"
    "check_expected_block (c\<lparr>c_expect_root := x\<rparr>) = check_expected_block c" for c x
    by (simp_all add: check_seq_def check_entry_hash_def check_chain_link_def check_live_match_def check_blocks_def
        check_expected_block_def Let_def split: option.split)
  obtain n where n: "resolve_at_seq db t at_seq at_block = Inr n"
    using assms by (cases "resolve_at_seq db t at_seq at_block") (auto simp: verify_replay_def)
  define c where "c = \<lparr>c_db = db, c_tenant = t, c_at_seq = n, c_expect_root = None, c_expect_block_hash = None,
      c_expect_block_height = None, c_counter = history_seq db t, c_entries = ctx_entries jtext db t n,
      c_folded = fold_state (ctx_entries jtext db t n) n\<rparr>"
  have c': "\<lparr>c_db = db, c_tenant = t, c_at_seq = n, c_expect_root = Some x, c_expect_block_hash = None,
      c_expect_block_height = None, c_counter = history_seq db t, c_entries = ctx_entries jtext db t n,
      c_folded = fold_state (ctx_entries jtext db t n) n\<rparr> = c\<lparr>c_expect_root := Some x\<rparr>" for x
    by (simp add: c_def)
  have "check_state_root c x = []" "check_state_root (c\<lparr>c_expect_root := Some x\<rparr>) x = []" for x
    by (simp_all add: check_state_root_def c_def)
  with assms show ?thesis
    unfolding verify_replay_def Let_def n res_bind_simps c' c_def [symmetric] by (auto simp: upd split: sum.splits)
qed

text \<open>C10: what the server serves is what the offline verifier verifies: on a reachable ledger, for every
  replay the store serves (any bound, page position and page size), verifying the same bound with the served
  state root as the expected root reports no problem, and root, record count, deletion count and position
  are the served ones.\<close>

theorem served_replay_verifies:
  assumes "reachable jtext db" "replay_state db t at_seq at_block after_id limit = Inr s"
  shows "\<exists>r. verify_replay jtext db t at_seq at_block (Some (rs_root s)) None None = Inr r \<and> rr_problems r = [] \<and>
    rr_root r = rs_root s \<and> rr_records r = rs_count s \<and> rr_deleted r = rs_deleted s \<and> rr_at_seq r = rs_at_seq s"
proof -
  obtain n where n: "resolve_at_seq db t at_seq at_block = Inr n" "rs_at_seq s = n"
    and s: "state_root (map (\<lambda>h. (h_memory h, h_hash h)) (filter (\<lambda>h. h_op h \<noteq> ''delete'') (distinct_heads db t n))) = Inr (rs_root s)"
      "rs_count s = length (filter (\<lambda>h. h_op h \<noteq> ''delete'') (distinct_heads db t n))"
      "rs_deleted s = length (distinct_heads db t n) - rs_count s"
    using replay_state_parts [OF assms(2)] by (auto simp: Let_def)
  have inv: "ledger_inv jtext db" by (rule reachable_ledger_inv [OF assms(1)])
  then have db: "db_inv jtext db" by (simp add: ledger_inv_def)
  have d: "distinct (map h_seq (tenant_entries db t))" by (rule seqs_ok_distinct [OF inv_seqs [OF db]])
  have rt: "state_root (live_heads (fold_state (ctx_entries jtext db t n) n)) = Inr (rs_root s)"
    using s(1) served_root [OF d, of n jtext] by simp
  obtain r where r: "verify_replay jtext db t at_seq at_block None None None = Inr r" "rr_problems r = []" "rr_at_seq r = n"
    using verify_replay_silent [OF inv n(1) resolve_within [OF inv n(1)]] by blast
  have "rr_root r = rs_root s" using verify_replay_parts [OF r(1) n(1)] rt by simp
  moreover from this have "verify_replay jtext db t at_seq at_block (Some (rs_root s)) None None = Inr r"
    using expect_root_silent [OF r(1)] by simp
  ultimately show ?thesis
    using r n s verify_replay_parts [OF r(1) n(1)] live_pairs_length [OF d, of jtext n] fold_deleted [OF d, of jtext n] by simp
qed

lemma replay_state_defined:
  assumes "state_root (map (\<lambda>h. (h_memory h, h_hash h)) (filter (\<lambda>h. h_op h \<noteq> ''delete'') (distinct_heads db t n))) = Inr rt"
    "resolve_at_seq db t at_seq at_block = Inr n"
  shows "\<exists>s. replay_state db t at_seq at_block after_id limit = Inr s \<and> rs_at_seq s = n"
  using assms by (simp add: replay_state_def Let_def split_def)

theorem served_replay_verifies_witness:
  "\<exists>s. replay_state (sample_db (\<lambda>_. ''{}'')) ''operator'' None None None 100 = Inr s \<and> rs_at_seq s = 1 \<and>
     (\<exists>r. verify_replay (\<lambda>_. ''{}'') (sample_db (\<lambda>_. ''{}'')) ''operator'' None None (Some (rs_root s)) None None = Inr r \<and>
        rr_problems r = [])"
proof -
  let ?db = "sample_db (\<lambda>_. ''{}'')" and ?jt = "\<lambda>_ :: mem_row. ''{}''"
  obtain r where r: "verify_replay ?jt ?db ''operator'' None None None None None = Inr r"
    using replay_verifies [OF sample_reachable resolve_now] by blast
  have db: "db_inv ?jt ?db" using reachable_ledger_inv [OF sample_reachable] by (simp add: ledger_inv_def)
  have "state_root (map (\<lambda>h. (h_memory h, h_hash h)) (filter (\<lambda>h. h_op h \<noteq> ''delete'') (distinct_heads ?db ''operator'' 1))) = Inr (rr_root r)"
    using verify_replay_parts [OF r resolve_now] served_root [OF seqs_ok_distinct [OF inv_seqs [OF db]], of "''operator''" 1 ?jt]
    by (simp add: history_seq_def sample_entries(2))
  moreover have "resolve_at_seq ?db ''operator'' None None = Inr 1"
    by (simp add: resolve_at_seq_def history_seq_def sample_entries(2))
  ultimately obtain s where s: "replay_state ?db ''operator'' None None None 100 = Inr s" "rs_at_seq s = 1"
    using replay_state_defined by blast
  from served_replay_verifies [OF sample_reachable s(1)] s show ?thesis by blast
qed

section \<open>All pages\<close>

text \<open>A client that follows \<open>next_after_id\<close> until the server says there is no more.\<close>

fun replay_pages :: "nat \<Rightarrow> ledger_db \<Rightarrow> string \<Rightarrow> int \<Rightarrow> string option \<Rightarrow> int \<Rightarrow> (string \<times> mem_row option) list" where
  "replay_pages 0 db t seq after_id limit = []"
| "replay_pages (Suc n) db t seq after_id limit =
     (case replay_state db t (Some seq) None after_id limit of
        Inl _ \<Rightarrow> []
      | Inr s \<Rightarrow> map (\<lambda>p. (pr_id p, pr_record p)) (rs_records s) @
          (case rs_next s of None \<Rightarrow> [] | Some a \<Rightarrow> replay_pages n db t seq (Some a) limit))"

lemma replay_pages_live:
  assumes "n0 \<le> history_seq db t" and live: "live = filter (\<lambda>h. h_op h \<noteq> ''delete'') (distinct_heads db t n0)"
    and rt: "state_root (map (\<lambda>h. (h_memory h, h_hash h)) live) = Inr rt" and k: "k = nat (max 1 (min limit MAX_PAGE))"
  shows "replay_pages n db t n0 a limit = map (\<lambda>h. (h_memory h, h_after h)) (live_pages n live a k)"
proof (induction n arbitrary: a)
  case (Suc n)
  obtain page nxt where pg: "live_page live a k = (page, nxt)" by (cases "live_page live a k") auto
  have "\<exists>s. replay_state db t (Some n0) None a limit = Inr s \<and>
      map (\<lambda>p. (pr_id p, pr_record p)) (rs_records s) = map (\<lambda>h. (h_memory h, h_after h)) page \<and> rs_next s = nxt"
    using pg rt by (simp add: replay_state_def resolve_seq [OF assms(1)] Let_def live [symmetric] k [symmetric] comp_def)
  then show ?case using Suc.IH pg by (auto split: option.split)
qed simp

lemma distinct_heads_hex:
  assumes "db_inv jtext db"
  shows "\<exists>rt. state_root (map (\<lambda>h. (h_memory h, h_hash h)) (filter (\<lambda>h. h_op h \<noteq> ''delete'') (distinct_heads db t n))) = Inr rt"
proof -
  have "\<forall>h \<in> set (distinct_heads db t n). hex64 (h_hash h)"
    using inv_hex [OF assms] newest_at_memory [of db t n] unfolding set_distinct_heads by blast
  then show ?thesis using served_heads_distinct by (intro state_root_Inr) auto
qed

text \<open>The pages of a served replay are the whole state: on a ledger grown from a reachable one by any
  statements, following \<open>next_after_id\<close> at the earlier history counter, with any page size, gives every
  record that was live then exactly once, in id order, each with the row it had. The number of pages
  needed is bounded by the number of records.\<close>

lemma replay_pages_complete:
  assumes "reachable jtext db" "later jtext db db'"
    and "length (filter (\<lambda>r. r_tenant r = t) (memories db)) \<le> n"
  shows "sorted (map fst (replay_pages (Suc n) db' t (history_seq db t) None limit)) \<and>
    distinct (map fst (replay_pages (Suc n) db' t (history_seq db t) None limit)) \<and>
    set (replay_pages (Suc n) db' t (history_seq db t) None limit) =
      {(r_id r, Some r) | r. r \<in> set (memories db) \<and> r_tenant r = t}"
proof -
  have inv: "ledger_inv jtext db" "ledger_inv jtext db'"
    using assms later_reachable reachable_ledger_inv by blast+
  then have db: "db_inv jtext db" "db_inv jtext db'" by (simp_all add: ledger_inv_def)
  obtain es where es: "history db' = history db @ es" using later_history [OF assms(2)] by blast
  define live where "live = filter (\<lambda>h. h_op h \<noteq> ''delete'') (distinct_heads db t (history_seq db t))"
  define k where "k = nat (max 1 (min limit MAX_PAGE))"
  have ids: "sorted (map h_memory live)" "distinct (map h_memory live)"
    using heads_ids [of db t "history_seq db t"]
    by (simp_all add: live_def distinct_map_filter sorted_filter)
  have newest: "newest_at db t (history_seq db t) m =
      (if record_entries db t m = [] then None else Some (last (record_entries db t m)))" for m
    using newest_at_earlier [OF db(1,1), of "[]" t m] by simp
  have key: "find_row db t m = Some r \<longleftrightarrow> r \<in> set (memories db) \<and> r_tenant r = t \<and> r_id r = m" for r m
    using find_row_key [OF inv_distinct(1) [OF db(1)], of t m r] by (simp add: row_key_def)
  have some: "record_entries db t m \<noteq> []" if "find_row db t m = Some r" for m r
    using that inv_row [OF db(1), of t m] by (auto simp: live_of_def)
  have mem: "h \<in> set live \<longleftrightarrow> (\<exists>r. find_row db t (h_memory h) = Some r \<and> h = last (record_entries db t (h_memory h)))" for h
    using some newest_live [OF db(1)] by (fastforce simp: live_def set_distinct_heads newest split: if_splits)
  have after: "h_after (last (record_entries db t m)) = Some r \<and> h_memory (last (record_entries db t m)) = m"
    if "find_row db t m = Some r" for m r
    using newest_live(2) [OF db(1) some [OF that]] last_in_set [OF some [OF that]] that by (simp add: record_entries_def)
  have pairs: "set (map (\<lambda>h. (h_memory h, h_after h)) live) = {(r_id r, Some r) | r. r \<in> set (memories db) \<and> r_tenant r = t}"
    (is "?A = ?B")
  proof (intro equalityI subsetI)
    fix x assume "x \<in> ?A"
    then obtain h where h: "h \<in> set live" "x = (h_memory h, h_after h)" by auto
    then obtain r where r: "find_row db t (h_memory h) = Some r" "h = last (record_entries db t (h_memory h))" using mem by blast
    have "h_after h = Some r" using after [OF r(1)] r(2) by simp
    with h r(1) key show "x \<in> ?B" by auto
  next
    fix x assume "x \<in> ?B"
    then obtain r where r: "x = (r_id r, Some r)" "find_row db t (r_id r) = Some r" using key by auto
    define h where "h = last (record_entries db t (r_id r))"
    have "h_after h = Some r" "h_memory h = r_id r" using after [OF r(2)] by (simp_all add: h_def)
    moreover have "h \<in> set live" using r(2) calculation(2) unfolding mem by (auto simp: h_def)
    ultimately show "x \<in> ?A" using r(1) by force
  qed
  have "length live = card (h_memory ` set live)" using distinct_card [OF ids(2)] by simp
  also have "h_memory ` set live = fst ` set (map (\<lambda>h. (h_memory h, h_after h)) live)" by (simp add: image_image)
  also have "\<dots> = r_id ` set (filter (\<lambda>r. r_tenant r = t) (memories db))" unfolding pairs by (auto simp: image_iff)
  also have "card \<dots> \<le> length (filter (\<lambda>r. r_tenant r = t) (memories db))"
    using card_image_le card_length le_trans by blast
  finally have "length live \<le> n" using assms(3) by (rule le_trans)
  moreover have k1: "1 \<le> k" by (simp add: k_def)
  moreover from this have "n * 1 \<le> n * k" by (rule mult_le_mono2)
  ultimately have len: "length live \<le> n * k" by linarith
  obtain rt where "state_root (map (\<lambda>h. (h_memory h, h_hash h)) live) = Inr rt"
    using distinct_heads_hex [OF db(1)] by (auto simp: live_def)
  then have "replay_pages (Suc n) db' t (history_seq db t) None limit = map (\<lambda>h. (h_memory h, h_after h)) (live_pages (Suc n) live None k)"
    using history_seq_mono [OF db es]
    by (intro replay_pages_live) (simp_all add: live_def k_def distinct_heads_earlier [OF db es])
  also have "live_pages (Suc n) live None k = live"
    by (rule live_pages_suffix [OF ids, where xs = "[]"]) (simp_all add: beyond_def len k1 [simplified])
  finally have "replay_pages (Suc n) db' t (history_seq db t) None limit = map (\<lambda>h. (h_memory h, h_after h)) live" .
  then show ?thesis using ids pairs by (simp add: comp_def)
qed

lemma replay_pages_complete_witness:
  "replay_pages 2 (snd (sql_delete (\<lambda>_. ''{}'') sample_session ''mem_1'' (sample_db (\<lambda>_. ''{}'')))) ''operator'' 1 None 0 =
     [(''mem_1'', Some sample_row)]"
proof -
  let ?P = "replay_pages 2 (snd (sql_delete (\<lambda>_. ''{}'') sample_session ''mem_1'' (sample_db (\<lambda>_. ''{}'')))) ''operator'' 1 None 0"
  have "later (\<lambda>_. ''{}'') (sample_db (\<lambda>_. ''{}'')) (snd (sql_delete (\<lambda>_. ''{}'') sample_session ''mem_1'' (sample_db (\<lambda>_. ''{}''))))"
    by (rule later_step [OF later_refl step_delete [OF prod.collapse [symmetric]]])
  from replay_pages_complete [OF sample_reachable this, of "''operator''" 1 0]
  have P: "distinct (map fst ?P)" "set ?P = {(''mem_1'', Some sample_row)}"
    by (simp_all add: history_seq_def sample_entries(2,3) numeral_2_eq_2) (auto simp: sample_row_def)
  then have "length ?P = 1" using distinct_card [of "map fst ?P"] by simp
  with P(2) show ?thesis by (cases ?P) auto
qed

section \<open>What a state root binds\<close>

text \<open>A state root commits to the state: two states (record ids with the row hashes of their newest
  entries) with the same root are equal, unless SHA-256 collides on the leaf and node texts of the two.\<close>

lemma state_root_binding:
  assumes "distinct (map fst hs)" "distinct (map fst hs')" "\<forall>(i, h) \<in> set hs \<union> set hs'. hex64 h"
    and "inj_on sha256 (set (state_inputs hs) \<union> set (state_inputs hs'))"
    and "state_root hs = Inr r" "state_root hs' = Inr r"
  shows "set hs = set hs'"
  using assms by (rule state_root_bindingD)

lemma state_root_binding_witness:
  "\<exists>r. state_root [(''mem_1'', zeros64)] = Inr r \<and> set [(''mem_1'', zeros64)] = set [(''mem_1'', zeros64)]"
proof -
  have h: "hex64 zeros64" by (simp add: zeros64_def hex64_def list_all_iff is_hex_def)
  obtain r where r: "state_root [(''mem_1'', zeros64)] = Inr r" using state_root_Inr [of "[(''mem_1'', zeros64)]"] h by auto
  have "set [(''mem_1'', zeros64)] = set [(''mem_1'', zeros64)]"
    by (rule state_root_binding [OF _ _ _ _ r r]) (simp_all add: h state_inputs_def tree_inputs_def mth_inputs.simps)
  with r show ?thesis by blast
qed

end
