(* ===== verification/Sshsig.thy ===== *)
theory Sshsig
  imports Sha256
begin

text \<open>
  OpenSSH public keys and signatures (\<^verbatim>\<open>app/attest.py\<close>, first half): the wire format, key lines, the
  pinned roots file, the SSHSIG armour and the signature check. Base64, \<open>str.strip\<close>, \<open>str.split\<close>,
  \<open>str.splitlines\<close> and SHA-512 are written out; the two things that are not (the Ed25519 primitive of
  the \<open>cryptography\<close> package, and how Python prints foreign bytes in an error message) are the fields
  of the parameter record \<open>sshlib\<close>.
\<close>

unbundle bit_operations_syntax

section \<open>Python's text methods\<close>

text \<open>The UTF-8 encodings of the white space characters \<open>str.strip\<close> and \<open>str.split\<close> go by.\<close>

definition WS :: "string list" where
  "WS = map (\<lambda>n. [char_of (n :: nat)]) ([9..<14] @ [28..<33]) @ [[CHR 0xC2, CHR 0x85], [CHR 0xC2, CHR 0xA0], [CHR 0xE1, CHR 0x9A, CHR 0x80]]
     @ map (\<lambda>n. [CHR 0xE2, CHR 0x80, char_of n]) ([0x80..<0x8B] @ [0xA8, 0xA9, 0xAF])
     @ [[CHR 0xE2, CHR 0x81, CHR 0x9F], [CHR 0xE3, CHR 0x80, CHR 0x80]]"

definition starts_with :: "string \<Rightarrow> string \<Rightarrow> bool" where
  "starts_with p s \<longleftrightarrow> take (length p) s = p"

definition starting :: "string list \<Rightarrow> string \<Rightarrow> string option" where
  "starting ps s = find (\<lambda>p. p \<noteq> [] \<and> starts_with p s) ps"

lemma startingD: "starting ps s = Some p \<Longrightarrow> p \<noteq> [] \<and> take (length p) s = p \<and> p \<in> set ps"
  by (auto simp: starting_def starts_with_def find_Some_iff)

lemma starting_shorter: "starting ps s = Some p \<Longrightarrow> length (drop (length p) s) < length s"
  using startingD [of ps s p] by (cases s) auto

function strip_front :: "string list \<Rightarrow> string \<Rightarrow> string" where
  "strip_front ps s = (case starting ps s of None \<Rightarrow> s | Some p \<Rightarrow> strip_front ps (drop (length p) s))"
  by pat_completeness auto
termination
  by (relation "measure (\<lambda>(ps, s). length s)") (auto simp del: length_drop dest: starting_shorter)

declare strip_front.simps [simp del]

definition lstrip :: "string \<Rightarrow> string" where
  "lstrip s = strip_front WS s"

definition rstrip :: "string \<Rightarrow> string" where
  "rstrip s = rev (strip_front (map rev WS) (rev s))"

definition strip :: "string \<Rightarrow> string" where
  "strip s = rstrip (lstrip s)"

text \<open>Up to the next white space.\<close>

fun word_of_text :: "string \<Rightarrow> string \<times> string" where
  "word_of_text [] = ([], [])"
| "word_of_text (c # s) =
     (if starting WS (c # s) \<noteq> None then ([], c # s) else (case word_of_text s of (w, r) \<Rightarrow> (c # w, r)))"

text \<open>\<open>s.split(None, 2)\<close>\<close>

definition split_ws2 :: "string \<Rightarrow> string list" where
  "split_ws2 s =
     (case word_of_text (lstrip s) of (w1, r1) \<Rightarrow>
        case word_of_text (lstrip r1) of (w2, r2) \<Rightarrow>
          filter (\<lambda>x. x \<noteq> []) [w1, w2, lstrip r2])"

fun replace_crlf :: "string \<Rightarrow> string" where
  "replace_crlf (a # b # s) =
     (if a = CHR 0x0D \<and> b = CHR 0x0A then CHR 0x0A # replace_crlf s else a # replace_crlf (b # s))"
| "replace_crlf s = s"

definition replace_cr :: "string \<Rightarrow> string" where
  "replace_cr s = map (\<lambda>c. if c = CHR 0x0D then CHR 0x0A else c) s"

text \<open>\<open>s.split(c)\<close> for a one-character separator.\<close>

fun split_on :: "char \<Rightarrow> string \<Rightarrow> string list" where
  "split_on c [] = [[]]"
| "split_on c (x # s) = (if x = c then [] # split_on c s else (case split_on c s of [] \<Rightarrow> [[x]] | w # ws \<Rightarrow> (x # w) # ws))"

definition LINE_BREAKS :: "string list" where
  "LINE_BREAKS = [[CHR 0x0D, CHR 0x0A]] @ map (\<lambda>n. [char_of (n :: nat)]) ([10..<14] @ [28..<31])
     @ [[CHR 0xC2, CHR 0x85], [CHR 0xE2, CHR 0x80, CHR 0xA8], [CHR 0xE2, CHR 0x80, CHR 0xA9]]"

function lines_loop :: "string \<Rightarrow> string \<Rightarrow> string list" where
  "lines_loop cur [] = (if cur = [] then [] else [cur])"
| "lines_loop cur (c # s) =
     (case starting LINE_BREAKS (c # s) of
        None \<Rightarrow> lines_loop (cur @ [c]) s
      | Some p \<Rightarrow> cur # lines_loop [] (drop (length p) (c # s)))"
  by pat_completeness auto
termination
  by (relation "measure (\<lambda>(cur, s). length s)") (auto simp del: length_drop dest: starting_shorter)

definition splitlines :: "string \<Rightarrow> string list" where
  "splitlines s = lines_loop [] s"

section \<open>Base64\<close>

definition b64_char :: "nat \<Rightarrow> char" where
  "b64_char n =
     (if n < 26 then char_of (65 + n) else if n < 52 then char_of (71 + n) else if n < 62 then char_of (n - 4)
      else if n = 62 then CHR ''+'' else CHR ''/'')"

definition b64_val :: "char \<Rightarrow> nat option" where
  "b64_val c =
     (let k = of_char c :: nat
      in if 65 \<le> k \<and> k \<le> 90 then Some (k - 65) else if 97 \<le> k \<and> k \<le> 122 then Some (k - 71)
         else if 48 \<le> k \<and> k \<le> 57 then Some (k + 4) else if k = 43 then Some 62 else if k = 47 then Some 63 else None)"

fun b64encode :: "bytes \<Rightarrow> string" where
  "b64encode [] = []"
| "b64encode [x] = (let a = of_char x in [b64_char (a div 4), b64_char (a mod 4 * 16), CHR ''='', CHR ''=''])"
| "b64encode [x, y] = (let a = of_char x; b = of_char y
     in [b64_char (a div 4), b64_char (a mod 4 * 16 + b div 16), b64_char (b mod 16 * 4), CHR ''=''])"
| "b64encode (x # y # z # r) = (let a = of_char x; b = of_char y; c = of_char z
     in b64_char (a div 4) # b64_char (a mod 4 * 16 + b div 16) # b64_char (b mod 16 * 4 + c div 64) # b64_char (c mod 64)
        # b64encode r)"

text \<open>\<open>base64.b64decode(s, validate=True)\<close>: the alphabet only, in groups of four, padded at the end.\<close>

fun b64decode :: "string \<Rightarrow> bytes option" where
  "b64decode [] = Some []"
| "b64decode (p # q # r # s # t) =
     (case (b64_val p, b64_val q) of
        (Some a, Some b) \<Rightarrow>
          (case b64_val r of
             None \<Rightarrow> if r = CHR ''='' \<and> s = CHR ''='' \<and> t = [] then Some [char_of (a * 4 + b div 16)] else None
           | Some c \<Rightarrow>
               (case b64_val s of
                  None \<Rightarrow> if s = CHR ''='' \<and> t = [] then Some [char_of (a * 4 + b div 16), char_of (b mod 16 * 16 + c div 4)] else None
                | Some d \<Rightarrow> map_option (\<lambda>u. char_of (a * 4 + b div 16) # char_of (b mod 16 * 16 + c div 4) # char_of (c mod 4 * 64 + d) # u)
                    (b64decode t)))
      | _ \<Rightarrow> None)"
| "b64decode _ = None"

lemma b64_val_char: "n < 64 \<Longrightarrow> b64_val (b64_char n) = Some n"
  by (auto simp: b64_val_def b64_char_def Let_def)

lemma b64_char_not_pad: "b64_val (CHR ''='') = None"
  by (simp add: b64_val_def)

lemma pack_div: "b < m \<Longrightarrow> (a * m + b) div m = (a :: nat)" and pack_mod: "b < m \<Longrightarrow> (a * m + b) mod m = b"
  by simp_all

lemma pack_less: "a < k \<Longrightarrow> b < m \<Longrightarrow> k * m = n \<Longrightarrow> a * m + b < (n :: nat)"
proof -
  assume "a < k" "b < m" "k * m = n"
  then have "a * m + b < Suc a * m" by simp
  also have "\<dots> \<le> k * m" using \<open>a < k\<close> by (intro mult_le_mono1) simp
  finally show ?thesis using \<open>k * m = n\<close> by simp
qed

lemma sextets:
  assumes "a < 256" "b < 256" "c < (256 :: nat)"
  shows "a div 4 < 64" "a mod 4 * 16 + b div 16 < 64" "b mod 16 * 4 + c div 64 < 64" "c mod 64 < 64"
    "a div 4 * 4 + (a mod 4 * 16 + b div 16) div 16 = a"
    "(a mod 4 * 16 + b div 16) mod 16 * 16 + (b mod 16 * 4 + c div 64) div 4 = b"
    "(b mod 16 * 4 + c div 64) mod 4 * 64 + c mod 64 = c"
proof -
  have b: "b div 16 < 16" and c: "c div 64 < 4" using assms by (simp_all add: less_mult_imp_div_less)
  show "a div 4 < 64" using assms by (simp add: less_mult_imp_div_less)
  show "c mod 64 < 64" by simp
  show "a mod 4 * 16 + b div 16 < 64" by (rule pack_less [of _ 4 _ 16]) (simp_all add: b)
  show "b mod 16 * 4 + c div 64 < 64" by (rule pack_less [of _ 16 _ 4]) (simp_all add: c)
  show "a div 4 * 4 + (a mod 4 * 16 + b div 16) div 16 = a" by (simp only: pack_div [OF b] div_mult_mod_eq)
  show "(a mod 4 * 16 + b div 16) mod 16 * 16 + (b mod 16 * 4 + c div 64) div 4 = b"
    by (simp only: pack_mod [OF b] pack_div [OF c] div_mult_mod_eq)
  show "(b mod 16 * 4 + c div 64) mod 4 * 64 + c mod 64 = c" by (simp only: pack_mod [OF c] div_mult_mod_eq)
qed

lemma b64decode_encode: "b64decode (b64encode bs) = Some bs"
proof (induction bs rule: b64encode.induct)
  case (2 x)
  show ?case using sextets [OF of_char_less_256 [of x], of 0 0] by (simp add: Let_def b64_val_char b64_char_not_pad)
next
  case (3 x y)
  show ?case using sextets [OF of_char_less_256 [of x] of_char_less_256 [of y], of 0]
    by (simp add: Let_def b64_val_char b64_char_not_pad del: mod_mult_self1 mod_mult_self2 mod_mult_self3 mod_mult_self4 div_mult_self1 div_mult_self2 div_mult_self3 div_mult_self4)
next
  case (4 x y z r)
  show ?case using 4 sextets [OF of_char_less_256 [of x] of_char_less_256 [of y] of_char_less_256 [of z]]
    by (simp add: Let_def b64_val_char del: mod_mult_self1 mod_mult_self2 mod_mult_self3 mod_mult_self4 div_mult_self1 div_mult_self2 div_mult_self3 div_mult_self4)
qed simp

section \<open>OpenSSH wire format\<close>

text \<open>\<open>struct.pack(">I", n)\<close>, for the lengths below \<open>2 ^ 32\<close> it accepts.\<close>

definition be32 :: "nat \<Rightarrow> bytes" where
  "be32 n = map (\<lambda>i. char_of (n div 2 ^ i)) [24, 16, 8, 0]"

definition be32_value :: "bytes \<Rightarrow> nat" where
  "be32_value b = foldl (\<lambda>v c. v * 256 + of_char c) 0 b"

definition wire_string :: "bytes \<Rightarrow> bytes" where
  "wire_string data = be32 (length data) @ data"

text \<open>\<open>None\<close> stands for the \<open>ValueError("truncated")\<close>.\<close>

definition read_string :: "bytes \<Rightarrow> nat \<Rightarrow> (bytes \<times> nat) option" where
  "read_string buf off =
     (if off + 4 > length buf then None
      else let n = be32_value (take 4 (drop off buf))
           in if off + 4 + n > length buf then None else Some (take n (drop (off + 4) buf), off + 4 + n))"

lemma length_be32 [simp]: "length (be32 n) = 4"
  by (simp add: be32_def)

lemma be32_value_be32: "n < 2 ^ 32 \<Longrightarrow> be32_value (be32 n) = n"
proof -
  assume n: "n < 2 ^ 32"
  have c: "(of_char (char_of (m :: nat) :: char) :: nat) = m mod 256" for m by simp
  have q: "n div 2 ^ 24 mod 256 = n div 2 ^ 24" using n by (simp add: less_mult_imp_div_less)
  have "n div 2 ^ 24 * 256 + n div 2 ^ 16 mod 256 = n div 2 ^ 16"
    using div_mult_mod_eq [of "n div 2 ^ 16" 256] by (simp add: div_mult2_eq [symmetric])
  moreover have "n div 2 ^ 16 * 256 + n div 2 ^ 8 mod 256 = n div 2 ^ 8"
    using div_mult_mod_eq [of "n div 2 ^ 8" 256] by (simp add: div_mult2_eq [symmetric])
  moreover have "n div 2 ^ 8 * 256 + n mod 256 = n" using div_mult_mod_eq [of n 256] by simp
  ultimately show ?thesis using q by (simp only: be32_value_def be32_def list.map foldl.simps c power_0 div_by_1 mult_0 add_0)
qed

lemma read_wire_string:
  assumes "length d < 2 ^ 32"
  shows "read_string (pre @ wire_string d @ post) (length pre) = Some (d, length pre + 4 + length d)"
  using be32_value_be32 [OF assms] by (simp add: read_string_def wire_string_def Let_def)

definition fingerprint :: "bytes \<Rightarrow> string" where
  "fingerprint blob = ''SHA256:'' @ rev (dropWhile (\<lambda>c. c = CHR ''='') (rev (b64encode (sha256 blob))))"

record public_key =
  pk_blob :: bytes
  pk_raw :: bytes
  pk_id :: string
  pk_comment :: string

definition pk_text :: "public_key \<Rightarrow> string" where
  "pk_text k = ''ssh-ed25519 '' @ b64encode (pk_blob k) @ (if pk_comment k \<noteq> [] then '' '' @ pk_comment k else [])"

section \<open>Refusals\<close>

text \<open>\<open>AttestError(code, message, status)\<close>\<close>

datatype attest_error = Attest_error (ae_code: string) (ae_message: string) (ae_status: int)

definition attest_422 :: "string \<Rightarrow> string \<Rightarrow> attest_error" where
  "attest_422 code message = Attest_error code message 422"

text \<open>\<open>bytes.decode("ascii", "replace")\<close>: every other byte becomes U+FFFD.\<close>

definition ascii_replace :: "bytes \<Rightarrow> string" where
  "ascii_replace b = concat (map (\<lambda>c. if (of_char c :: nat) < 128 then [c] else [CHR 0xEF, CHR 0xBF, CHR 0xBD]) b)"

section \<open>Public keys\<close>

definition public_key_from_blob :: "bytes \<Rightarrow> string \<Rightarrow> attest_error + public_key" where
  "public_key_from_blob blob comment =
     (case read_string blob 0 of
        None \<Rightarrow> Inl (attest_422 ''key_malformed'' ''the public key blob is truncated'')
      | Some (kind, off) \<Rightarrow>
          (case read_string blob off of
             None \<Rightarrow> Inl (attest_422 ''key_malformed'' ''the public key blob is truncated'')
           | Some (raw, off') \<Rightarrow>
               if kind \<noteq> ''ssh-ed25519''
               then Inl (attest_422 ''key_unsupported'' (''only ssh-ed25519 keys are supported, not '' @ ascii_replace kind @ '' (hardware keys come later)''))
               else if length raw \<noteq> 32 \<or> off' \<noteq> length blob
               then Inl (attest_422 ''key_malformed'' ''the Ed25519 public key must be exactly 32 bytes'')
               else Inr \<lparr>pk_blob = blob, pk_raw = raw, pk_id = fingerprint blob, pk_comment = comment\<rparr>))"

definition parse_public_key :: "string \<Rightarrow> attest_error + public_key" where
  "parse_public_key text =
     (let parts = split_ws2 (strip text)
      in if length parts < 2
         then Inl (attest_422 ''key_malformed'' ''a public key looks like: ssh-ed25519 AAAA... comment'')
         else if parts ! 0 \<noteq> ''ssh-ed25519''
         then Inl (attest_422 ''key_unsupported'' (''only ssh-ed25519 keys are supported, not '' @ parts ! 0 @ '' (hardware keys come later)''))
         else case b64decode (parts ! 1) of
                None \<Rightarrow> Inl (attest_422 ''key_malformed'' ''the public key is not valid base64'')
              | Some blob \<Rightarrow> public_key_from_blob blob (if length parts > 2 then parts ! 2 else []))"

text \<open>
  \<open>load_roots\<close> after \<open>p = path or os.getenv(ROOTS_ENV)\<close>: \<open>read\<close> is the file system
  (\<open>Inl\<close> the error string). The dictionary keeps the first position of a repeated key, with the last value.
\<close>

fun roots_loop :: "nat \<Rightarrow> string list \<Rightarrow> (string \<times> public_key) list \<Rightarrow> attest_error + (string \<times> public_key) list" where
  "roots_loop number [] roots = Inr roots"
| "roots_loop number (l # ls) roots =
     (let line = strip l
      in if line = [] \<or> starts_with ''#'' line then roots_loop (Suc number) ls roots
         else case parse_public_key line of
                Inl e \<Rightarrow> Inl (attest_422 (ae_code e) (''trust roots file line '' @ dec_nat number @ '': '' @ ae_message e))
              | Inr key \<Rightarrow> roots_loop (Suc number) ls (AList.update (pk_id key) key roots))"

definition load_roots :: "string option \<Rightarrow> (string \<Rightarrow> string + string) \<Rightarrow> attest_error + (string \<times> public_key) list" where
  "load_roots p read =
     (case p of
        None \<Rightarrow> Inr []
      | Some f \<Rightarrow>
          if f = [] then Inr []
          else case read f of
                 Inl err \<Rightarrow> Inl (attest_422 ''trust_roots_unreadable'' (''cannot read the trust roots file: '' @ err))
               | Inr text \<Rightarrow> roots_loop 1 (splitlines text) [])"

section \<open>Signatures\<close>

record parsed_signature =
  ps_key :: public_key
  ps_namespace :: bytes
  ps_algorithm :: bytes
  ps_signature :: bytes

definition normalize_signature :: "string \<Rightarrow> string" where
  "normalize_signature armored = strip (replace_cr (replace_crlf armored))"

definition ARMOR_BEGIN :: string where "ARMOR_BEGIN = ''-----BEGIN SSH SIGNATURE-----''"
definition ARMOR_END :: string where "ARMOR_END = ''-----END SSH SIGNATURE-----''"
definition NAMESPACE :: string where "NAMESPACE = ''jarvis-ledger-v1''"

text \<open>Several strings in a row.\<close>

fun read_strings :: "nat \<Rightarrow> bytes \<Rightarrow> nat \<Rightarrow> (bytes list \<times> nat) option" where
  "read_strings 0 buf off = Some ([], off)"
| "read_strings (Suc n) buf off =
     (case read_string buf off of
        None \<Rightarrow> None
      | Some (d, off') \<Rightarrow> map_option (\<lambda>(ds, o2). (d # ds, o2)) (read_strings n buf off'))"

definition parse_blob :: "bytes \<Rightarrow> string + parsed_signature" where
  "parse_blob blob =
     (if \<not> starts_with ''SSHSIG'' blob then Inl ''the signature does not start with SSHSIG''
      else if 10 > length blob then Inl ''the signature is truncated''
      else let version = be32_value (take 4 (drop 6 blob))
           in if version \<noteq> 1 then Inl (''unsupported SSHSIG version '' @ dec_nat version)
      else case read_strings 5 blob 10 of
             Some ([pub, namespace, reserved, algorithm, sig], off) \<Rightarrow>
               if off \<noteq> length blob \<or> reserved \<noteq> [] then Inl ''the signature has unexpected trailing or reserved data''
               else (case public_key_from_blob pub [] of
                       Inl e \<Rightarrow> Inl (ae_message e)
                     | Inr key \<Rightarrow>
                         (case read_strings 2 sig 0 of
                            Some ([sig_type, sig_raw], o2) \<Rightarrow>
                              if sig_type \<noteq> ''ssh-ed25519'' \<or> length sig_raw \<noteq> 64 \<or> o2 \<noteq> length sig
                              then Inl ''the signature is not a plain Ed25519 signature''
                              else Inr \<lparr>ps_key = key, ps_namespace = namespace, ps_algorithm = algorithm, ps_signature = sig_raw\<rparr>
                          | _ \<Rightarrow> Inl ''the signature blob is truncated''))
           | _ \<Rightarrow> Inl ''the signature is truncated'')"

definition parse_sshsig :: "string \<Rightarrow> string + parsed_signature" where
  "parse_sshsig armored =
     (let lines = split_on (CHR 0x0A) (normalize_signature armored)
      in if length lines < 3 \<or> lines ! 0 \<noteq> ARMOR_BEGIN \<or> last lines \<noteq> ARMOR_END
         then Inl ''not an OpenSSH signature (missing the BEGIN/END SSH SIGNATURE lines)''
         else case b64decode (concat (butlast (tl lines))) of
                None \<Rightarrow> Inl ''the signature body is not valid base64''
              | Some blob \<Rightarrow> parse_blob blob)"

section \<open>SHA-512\<close>

text \<open>
  \<open>hashlib.sha512\<close>. The constants are computed from their definition in FIPS 180-4: the first 64
  bits of the fractional parts of the square and cube roots of the first primes.
\<close>

fun root_bits :: "nat \<Rightarrow> nat \<Rightarrow> nat \<Rightarrow> nat \<Rightarrow> nat" where
  "root_bits k n r 0 = (if (r + 1) ^ k \<le> n then r + 1 else r)"
| "root_bits k n r (Suc i) = root_bits k n (if (r + 2 ^ Suc i) ^ k \<le> n then r + 2 ^ Suc i else r) i"

definition prime_by_trial :: "nat \<Rightarrow> bool" where
  "prime_by_trial p \<longleftrightarrow> 2 \<le> p \<and> list_all (\<lambda>d. p mod d \<noteq> 0) [2..<p]"

definition first_primes :: "nat list" where
  "first_primes = filter prime_by_trial [2..<410]"

type_synonym u64 = "64 word"

definition K512 :: "u64 list" where
  "K512 = map (\<lambda>p. word_of_nat (root_bits 3 (p * 2 ^ 192) 0 67)) first_primes"

definition H512 :: "u64 list" where
  "H512 = map (\<lambda>p. word_of_nat (root_bits 2 (p * 2 ^ 128) 0 67)) (take 8 first_primes)"

definition rotr64 :: "nat \<Rightarrow> u64 \<Rightarrow> u64" where
  "rotr64 n x = drop_bit n x OR push_bit (64 - n) x"

definition sched512_word :: "u64 list \<Rightarrow> u64" where
  "sched512_word w =
     (let s1 = w ! 14; s0 = w ! 1
      in (rotr64 19 s1 XOR rotr64 61 s1 XOR drop_bit 6 s1) + w ! 9 + (rotr64 1 s0 XOR rotr64 8 s0 XOR drop_bit 7 s0) + w ! 0)"

fun sched512 :: "nat \<Rightarrow> u64 list \<Rightarrow> u64 list" where
  "sched512 0 w = w"
| "sched512 (Suc n) w = hd w # sched512 n (tl w @ [sched512_word w])"

definition round512 :: "u64 list \<Rightarrow> u64 \<times> u64 \<Rightarrow> u64 list" where
  "round512 v kw =
     (let a = v ! 0; b = v ! 1; c = v ! 2; e = v ! 4; f = v ! 5; g = v ! 6;
          t1 = v ! 7 + (rotr64 14 e XOR rotr64 18 e XOR rotr64 41 e) + ((e AND f) XOR (NOT e AND g)) + fst kw + snd kw;
          t2 = (rotr64 28 a XOR rotr64 34 a XOR rotr64 39 a) + ((a AND b) XOR (a AND c) XOR (b AND c))
      in [t1 + t2, a, b, c, v ! 3 + t1, e, f, g])"

fun words512 :: "nat \<Rightarrow> bytes \<Rightarrow> u64 list" where
  "words512 0 b = []"
| "words512 (Suc n) b = foldl (\<lambda>v c. push_bit 8 v OR word_of_int (of_char c)) 0 (take 8 b) # words512 n (drop 8 b)"

fun blocks512 :: "nat \<Rightarrow> bytes \<Rightarrow> u64 list \<Rightarrow> u64 list" where
  "blocks512 0 b v = v"
| "blocks512 (Suc n) b v =
     blocks512 n (drop 128 b) (map2 (+) v (foldl round512 v (zip K512 (sched512 64 (words512 16 b)))))"

definition pad512 :: "bytes \<Rightarrow> bytes" where
  "pad512 m = m @ CHR 0x80 # replicate ((239 - length m mod 128) mod 128) (CHR 0x00)
     @ map (\<lambda>i. char_of (8 * length m div 2 ^ (8 * i))) (rev [0..<16])"

definition sha512 :: "bytes \<Rightarrow> bytes" where
  "sha512 m = (let b = pad512 m
     in concat (map (\<lambda>w. map (\<lambda>i. char_of (unat (drop_bit (8 * i) w))) (rev [0..<8])) (blocks512 (length b div 128) b H512)))"

section \<open>Checking a signature\<close>

text \<open>
  \<open>ed25519 raw signature signed\<close>: the \<open>cryptography\<close> package's check under a raw public key;
  \<open>shown\<close>: the \<open>repr\<close> of a byte string decoded with replacement, in error messages only.
\<close>

record sshlib =
  ed25519 :: "bytes \<Rightarrow> bytes \<Rightarrow> bytes \<Rightarrow> bool"
  shown :: "bytes \<Rightarrow> string"

definition signed_data :: "bytes \<Rightarrow> bytes \<Rightarrow> bytes \<Rightarrow> bytes" where
  "signed_data namespace algorithm digest =
     ''SSHSIG'' @ wire_string namespace @ wire_string [] @ wire_string algorithm @ wire_string digest"

definition verify_sshsig :: "sshlib \<Rightarrow> string \<Rightarrow> bytes \<Rightarrow> string + public_key" where
  "verify_sshsig lib armored message =
     res_bind (parse_sshsig armored) (\<lambda>parsed.
       if ps_namespace parsed \<noteq> NAMESPACE
       then Inl (''the signature is for namespace '' @ shown lib (ps_namespace parsed) @ '', not '' @ shown lib NAMESPACE)
       else if ps_algorithm parsed \<noteq> ''sha512'' \<and> ps_algorithm parsed \<noteq> ''sha256''
       then Inl (''unsupported hash algorithm '' @ shown lib (ps_algorithm parsed))
       else let digest = (if ps_algorithm parsed = ''sha512'' then sha512 message else sha256 message)
            in if ed25519 lib (pk_raw (ps_key parsed)) (ps_signature parsed) (signed_data (ps_namespace parsed) (ps_algorithm parsed) digest)
               then Inr (ps_key parsed) else Inl ''the signature does not match the message'')"

end
