(* ===== verification/Attest.thy ===== *)
theory Attest
  imports Sshsig Hash_Chain
begin

text \<open>
  Attestations and trust statements (\<^verbatim>\<open>app/attest.py\<close>, second half): the signed messages and their
  hashes, the subjects, the replay of the trust log (\<open>evaluate_trust\<close>), the check of the attestation
  log (\<open>evaluate_attestations\<close>), the check of one tenant and the signature level of a block or receipt.

  A loop over a log is a fold of a step over the log in the order of its sequence numbers; each step is
  the body of the Python loop, with its local list \<open>bad\<close> built in the order of the source. A dictionary
  that is only looked up (\<open>seen\<close>, \<open>by_seq\<close>) is a map.
\<close>

section \<open>Messages and hashes\<close>

definition GENESIS :: string where
  "GENESIS = zeros64"

definition ATTEST_KINDS :: "string list" where
  "ATTEST_KINDS = [''block'', ''receipt'', ''checkpoint'']"

definition TRUST_KINDS :: "string list" where
  "TRUST_KINDS = [''key'', ''revoke'', ''root_add'', ''cosign'', ''void'']"

text \<open>\<^verbatim>\<open>^[0-9]{4}-[0-9]{2}-[0-9]{2}T[0-9]{2}:[0-9]{2}:[0-9]{2}Z$\<close>, \<open>d\<close> standing for a digit.\<close>

definition signed_at_strict :: "string \<Rightarrow> bool" where
  "signed_at_strict s \<longleftrightarrow> list_all2 (\<lambda>p c. if p = CHR ''d'' then is_digit c else c = p) ''dddd-dd-ddTdd:dd:ddZ'' s"

definition match_signed_at :: "string \<Rightarrow> bool" where
  "match_signed_at s \<longleftrightarrow> signed_at_strict s \<or> (length s = 21 \<and> signed_at_strict (take 20 s) \<and> s ! 20 = CHR 0x0A)"

definition tenant_part :: "string \<Rightarrow> string" where
  "tenant_part tenant = dec_nat (length tenant) @ '':'' @ tenant"

definition clean :: "string \<Rightarrow> string \<Rightarrow> attest_error + string" where
  "clean value what =
     (if CHR ''|'' \<in> set value \<or> CHR 0x0A \<in> set value \<or> CHR 0x0D \<in> set value
      then Inl (attest_422 ''field_invalid'' (what @ '' cannot contain | or a line break'')) else Inr value)"

definition attestation_text :: "string \<Rightarrow> string \<Rightarrow> string \<Rightarrow> string \<Rightarrow> int \<Rightarrow> string \<Rightarrow> string \<Rightarrow> string" where
  "attestation_text kind tenant subject subject_hash signer_seq prev_hash signed_at =
     ''jarvis-attest|v1|'' @ kind @ ''|'' @ tenant_part tenant @ ''|'' @ subject @ ''|'' @ subject_hash @ ''|'' @
     str_int signer_seq @ ''|'' @ prev_hash @ ''|'' @ signed_at"

definition attestation_message ::
  "string \<Rightarrow> string \<Rightarrow> string \<Rightarrow> string \<Rightarrow> int \<Rightarrow> string \<Rightarrow> string \<Rightarrow> attest_error + string" where
  "attestation_message kind tenant subject subject_hash signer_seq prev_hash signed_at =
     (if kind \<notin> set ATTEST_KINDS
      then Inl (attest_422 ''attestation_kind_unknown'' ''an attestation is one of block, receipt, checkpoint'')
      else if \<not> match_hex64 subject_hash \<or> \<not> match_hex64 prev_hash
      then Inl (attest_422 ''field_invalid'' ''subject_hash and prev_hash must be 64 lowercase hex characters'')
      else if \<not> match_signed_at signed_at
      then Inl (attest_422 ''field_invalid'' ''signed_at looks like 2026-10-07T12:00:00Z'')
      else res_bind (clean subject ''subject'') (\<lambda>s.
        Inr (attestation_text kind tenant s subject_hash signer_seq prev_hash signed_at)))"

definition LF :: string where
  "LF = [CHR 0x0A]"

definition attestation_hash :: "string \<Rightarrow> string \<Rightarrow> string \<Rightarrow> string" where
  "attestation_hash message key_id signature = sha256_hex (message @ LF @ key_id @ LF @ normalize_signature signature)"

definition opt_int_text :: "int option \<Rightarrow> string" where
  "opt_int_text arg = (case arg of None \<Rightarrow> [] | Some n \<Rightarrow> str_int n)"

definition opt_text :: "string option \<Rightarrow> string" where
  "opt_text v = (case v of None \<Rightarrow> [] | Some s \<Rightarrow> s)"

definition trust_text :: "string \<Rightarrow> string \<Rightarrow> string \<Rightarrow> int option \<Rightarrow> string option \<Rightarrow> int \<Rightarrow> string \<Rightarrow> string" where
  "trust_text kind tenant key_id arg subject_hash stmt_seq prev_hash =
     ''jarvis-trust|v1|'' @ kind @ ''|'' @ tenant_part tenant @ ''|'' @ key_id @ ''|'' @ opt_int_text arg @ ''|'' @
     opt_text subject_hash @ ''|'' @ str_int stmt_seq @ ''|'' @ prev_hash"

definition trust_message ::
  "string \<Rightarrow> string \<Rightarrow> string \<Rightarrow> int option \<Rightarrow> string option \<Rightarrow> int \<Rightarrow> string \<Rightarrow> attest_error + string" where
  "trust_message kind tenant key_id arg subject_hash stmt_seq prev_hash =
     (if kind \<notin> set TRUST_KINDS
      then Inl (attest_422 ''trust_kind_unknown'' ''a trust statement is one of key, revoke, root_add, cosign, void'')
      else if opt_text subject_hash \<noteq> [] \<and> \<not> match_hex64 (opt_text subject_hash)
      then Inl (attest_422 ''field_invalid'' ''subject_hash must be 64 lowercase hex characters'')
      else Inr (trust_text kind tenant key_id arg subject_hash stmt_seq prev_hash))"

definition statement_hash :: "string \<Rightarrow> string \<Rightarrow> string \<Rightarrow> string" where
  "statement_hash message signed_by signature = sha256_hex (message @ LF @ signed_by @ LF @ normalize_signature signature)"

definition checkpoint_subject :: "int \<Rightarrow> string \<Rightarrow> int \<Rightarrow> string \<Rightarrow> string" where
  "checkpoint_subject covered_seq covered_head tip_height tip_hash =
     ''checkpoint:'' @ str_int covered_seq @ '':'' @ covered_head @ '':'' @ str_int tip_height @ '':'' @ tip_hash"

definition checkpoint_hash :: "string \<Rightarrow> int \<Rightarrow> string \<Rightarrow> int \<Rightarrow> string \<Rightarrow> string" where
  "checkpoint_hash tenant covered_seq covered_head tip_height tip_hash =
     sha256_hex (''jarvis-checkpoint|v1|'' @ tenant_part tenant @ ''|'' @ str_int covered_seq @ ''|'' @ covered_head @ ''|'' @
       str_int tip_height @ ''|'' @ tip_hash)"

text \<open>\<open>isdigit\<close> and \<open>int\<close> on ASCII text.\<close>

definition parse_checkpoint_subject :: "string \<Rightarrow> (int \<times> string \<times> int \<times> string) option" where
  "parse_checkpoint_subject subject =
     (case split_on (CHR '':'') subject of
        [tag, seq, head, height, tip] \<Rightarrow>
          if tag \<noteq> ''checkpoint'' \<or> \<not> all_digits seq \<or> \<not> all_digits height then None
          else if \<not> match_hex64 head \<or> \<not> match_hex64 tip then None
          else Some (int (dec_value seq), head, int (dec_value height), tip)
      | _ \<Rightarrow> None)"

definition parse_block_subject :: "string \<Rightarrow> int option" where
  "parse_block_subject subject =
     (if starts_with ''block:'' subject \<and> all_digits (drop 6 subject) \<and> subject ! 6 \<noteq> CHR ''0''
      then Some (int (dec_value (drop 6 subject))) else None)"

section \<open>The trust log\<close>

record statement =
  st_seq :: int
  st_kind :: string
  st_key_id :: string
  st_pubkey :: "string option"
  st_arg :: "int option"
  st_subject_hash :: "string option"
  st_prev :: string
  st_signed_by :: string
  st_signature :: string
  st_hash :: string

record key_auth =
  ka_key :: public_key
  ka_from_seq :: int
  ka_stmt_seq :: int
  ka_cutoff :: "int option"

record cosign =
  co_checkpoint_seq :: int
  co_checkpoint_hash :: string
  co_root_id :: string
  co_stmt_seq :: int

record trust_state =
  ts_roots :: "(string \<times> public_key) list"
  ts_keys :: "(string \<times> key_auth) list"
  ts_cosigns :: "cosign list"
  ts_voids :: "(int \<times> string) list"
  ts_problems :: "problem list"
  ts_head_seq :: int
  ts_head_hash :: string

definition trust_init :: "(string \<times> public_key) list \<Rightarrow> trust_state" where
  "trust_init pinned = \<lparr>ts_roots = pinned, ts_keys = [], ts_cosigns = [], ts_voids = [], ts_problems = [],
     ts_head_seq = 0, ts_head_hash = GENESIS\<rparr>"

text \<open>A missing or empty public key or hash is false in Python.\<close>

definition apply_key :: "trust_state \<Rightarrow> statement \<Rightarrow> trust_state \<times> string list" where
  "apply_key st s =
     (if opt_text (st_pubkey s) = [] then (st, [''the statement carries no public key''])
      else case parse_public_key (opt_text (st_pubkey s)) of
        Inl e \<Rightarrow> (st, [ae_message e])
      | Inr key \<Rightarrow>
          if pk_id key \<noteq> st_key_id s
          then (st, [''the public key's fingerprint is '' @ pk_id key @ '', not '' @ st_key_id s])
          else if st_kind s = ''root_add''
          then (if st_key_id s \<in> fst ` set (ts_roots st) then (st, [''that root is already trusted''])
                else (st\<lparr>ts_roots := AList.update (st_key_id s) key (ts_roots st)\<rparr>, []))
          else if st_key_id s \<in> fst ` set (ts_keys st)
          then (st, [''that key is already authorized (rotate to a new key instead)''])
          else case st_arg s of
                 None \<Rightarrow> (st, [''a key is authorized from a signer_seq of at least 1''])
               | Some n \<Rightarrow>
                   if n < 1 then (st, [''a key is authorized from a signer_seq of at least 1''])
                   else (st\<lparr>ts_keys := AList.update (st_key_id s)
                     \<lparr>ka_key = key, ka_from_seq = n, ka_stmt_seq = st_seq s, ka_cutoff = None\<rparr> (ts_keys st)\<rparr>, []))"

definition apply_revoke :: "trust_state \<Rightarrow> statement \<Rightarrow> trust_state \<times> string list" where
  "apply_revoke st s =
     (case map_of (ts_keys st) (st_key_id s) of
        None \<Rightarrow> (st, [''that key was never authorized''])
      | Some auth \<Rightarrow>
          (case st_arg s of
             None \<Rightarrow> (st, [''a revocation needs a cutoff signer_seq of at least 0''])
           | Some n \<Rightarrow>
               if n < 0 then (st, [''a revocation needs a cutoff signer_seq of at least 0''])
               else (st\<lparr>ts_keys := AList.update (st_key_id s)
                 (auth\<lparr>ka_cutoff := Some (case ka_cutoff auth of None \<Rightarrow> n | Some c \<Rightarrow> min c n)\<rparr>) (ts_keys st)\<rparr>, [])))"

definition apply_statement :: "trust_state \<Rightarrow> statement \<Rightarrow> trust_state \<times> string list" where
  "apply_statement st s =
     (if st_kind s = ''key'' \<or> st_kind s = ''root_add'' then apply_key st s
      else if st_kind s = ''revoke'' then apply_revoke st s
      else if st_kind s = ''void''
      then (if st_signed_by s \<noteq> st_key_id s then (st, [''a void names the root that made it as its key''])
            else case st_arg s of
              Some n \<Rightarrow>
                if n < 1 \<or> opt_text (st_subject_hash s) = []
                then (st, [''a void names the attestation's signer_seq and its attestation hash''])
                else (st\<lparr>ts_voids := AList.update n (opt_text (st_subject_hash s)) (ts_voids st)\<rparr>, [])
            | None \<Rightarrow> (st, [''a void names the attestation's signer_seq and its attestation hash'']))
      else if st_kind s = ''cosign''
      then (if st_signed_by s \<noteq> st_key_id s then (st, [''a cosignature names the root that made it as its key''])
            else case st_arg s of
              Some n \<Rightarrow>
                if n < 1 \<or> opt_text (st_subject_hash s) = []
                then (st, [''a cosignature names the checkpoint's signer_seq and its attestation hash''])
                else (st\<lparr>ts_cosigns := ts_cosigns st @ [\<lparr>co_checkpoint_seq = n, co_checkpoint_hash = opt_text (st_subject_hash s),
                  co_root_id = st_key_id s, co_stmt_seq = st_seq s\<rparr>]\<rparr>, [])
            | None \<Rightarrow> (st, [''a cosignature names the checkpoint's signer_seq and its attestation hash'']))
      else (st, [''unknown statement kind'']))"

definition statement_message :: "string \<Rightarrow> statement \<Rightarrow> attest_error + string" where
  "statement_message tenant s =
     trust_message (st_kind s) tenant (st_key_id s) (st_arg s) (st_subject_hash s) (st_seq s) (st_prev s)"

text \<open>Why a statement does not count before it is applied: position, link, text, hash; then the root signature.\<close>

definition statement_bad :: "sshlib \<Rightarrow> string \<Rightarrow> trust_state \<Rightarrow> int \<Rightarrow> string \<Rightarrow> statement \<Rightarrow> string list" where
  "statement_bad lib tenant st expected_seq last_hash s =
     (let bad = (if st_seq s \<noteq> expected_seq
                 then [''expected statement '' @ str_int expected_seq @ '' (a statement is missing or repeated)''] else [])
              @ (if st_prev s \<noteq> last_hash
                 then [''prev_hash does not match the previous statement (one was removed, reordered or altered)''] else [])
      in case statement_message tenant s of
           Inl e \<Rightarrow> bad @ [ae_message e]
         | Inr message \<Rightarrow>
             let bad' = bad @ (if statement_hash message (st_signed_by s) (st_signature s) \<noteq> st_hash s
                               then [''the stored statement hash does not match its contents''] else [])
             in if bad' \<noteq> [] then bad'
                else if st_signed_by s \<notin> fst ` set (ts_roots st)
                then [''signed by '' @ st_signed_by s @ '', which is not a root key'']
                else case verify_sshsig lib (st_signature s) message of
                       Inl exc \<Rightarrow> [''bad signature: '' @ exc]
                     | Inr signer \<Rightarrow>
                         if pk_id signer \<noteq> st_signed_by s
                         then [''the signature was made by a different key than the one named''] else [])"

definition trust_step :: "sshlib \<Rightarrow> string \<Rightarrow> trust_state \<times> int \<times> string \<Rightarrow> statement \<Rightarrow> trust_state \<times> int \<times> string" where
  "trust_step lib tenant acc s =
     (case acc of (st, expected_seq, last_hash) \<Rightarrow>
        let bad = statement_bad lib tenant st expected_seq last_hash s;
            (st', bad') = (if bad = [] then apply_statement st s else (st, bad));
            who = ''trust statement '' @ str_int (st_seq s)
        in (st'\<lparr>ts_problems := ts_problems st' @ map (mk_problem ''trust'' who) bad', ts_head_seq := st_seq s,
               ts_head_hash := st_hash s\<rparr>, st_seq s + 1, st_hash s))"

definition evaluate_trust :: "sshlib \<Rightarrow> string \<Rightarrow> (string \<times> public_key) list \<Rightarrow> statement list \<Rightarrow> trust_state" where
  "evaluate_trust lib tenant pinned_roots statements =
     fst (foldl (trust_step lib tenant) (trust_init pinned_roots, 1, GENESIS) (sort_key st_seq statements))"

section \<open>The attestation log\<close>

record attestation =
  at_seq :: int
  at_kind :: string
  at_subject :: string
  at_subject_hash :: string
  at_prev :: string
  at_key_id :: string
  at_signed_at :: string
  at_signature :: string
  at_hash :: string

text \<open>The protocol \<open>Truth\<close>: a block's hash, and what is wrong with a receipt (\<open>None\<close>: nothing).\<close>

record truth =
  tr_block_hash :: "int \<Rightarrow> string option"
  tr_receipt_problem :: "string \<Rightarrow> string option"

definition dict_truth :: "(int \<times> string) list \<Rightarrow> (string \<times> string option) list \<Rightarrow> truth" where
  "dict_truth bs rs =
     \<lparr>tr_block_hash = map_of bs,
      tr_receipt_problem = (\<lambda>i. case map_of rs i of None \<Rightarrow> Some (''receipt '' @ i @ '' does not exist'') | Some p \<Rightarrow> p)\<rparr>"

record att_summary =
  as_count :: nat
  as_head_seq :: int
  as_head_hash :: string
  as_blocks :: "int set"
  as_receipts :: "string set"
  as_newest_checkpoint :: int
  as_cosigned_checkpoint :: int
  as_keys_used :: "string set"
  as_voided :: "int list"
  as_bad_seqs :: "int set"
  as_block_seq :: "(int \<times> int) list"
  as_block_subject_hash :: "(int \<times> string) list"
  as_receipt_seq :: "(string \<times> int) list"
  as_valid_checkpoints :: "(int \<times> int) list"
  as_cosigned_checkpoints :: "int list"

definition summary_init :: att_summary where
  "summary_init = \<lparr>as_count = 0, as_head_seq = 0, as_head_hash = GENESIS, as_blocks = {}, as_receipts = {},
     as_newest_checkpoint = 0, as_cosigned_checkpoint = 0, as_keys_used = {}, as_voided = [], as_bad_seqs = {},
     as_block_seq = [], as_block_subject_hash = [], as_receipt_seq = [], as_valid_checkpoints = [],
     as_cosigned_checkpoints = []\<rparr>"

definition att_message :: "string \<Rightarrow> attestation \<Rightarrow> attest_error + string" where
  "att_message tenant a =
     attestation_message (at_kind a) tenant (at_subject a) (at_subject_hash a) (at_seq a) (at_prev a) (at_signed_at a)"

definition check_checkpoint :: "string \<Rightarrow> attestation \<Rightarrow> (int \<Rightarrow> attestation option) \<Rightarrow> truth \<Rightarrow> string list" where
  "check_checkpoint tenant a by_seq truth =
     (case parse_checkpoint_subject (at_subject a) of
        None \<Rightarrow> [''a checkpoint's subject looks like checkpoint:<seq>:<head>:<tip height>:<tip hash>'']
      | Some (covered_seq, covered_head, tip_height, tip_hash) \<Rightarrow>
          (if covered_seq \<noteq> at_seq a - 1 then [''a checkpoint covers the log up to the attestation just before it''] else [])
          @ (if covered_seq = 0
             then (if covered_head \<noteq> GENESIS then [''the covered head of an empty log is all zeros''] else [])
             else if map_option at_hash (by_seq covered_seq) \<noteq> Some covered_head
             then [''the covered head is not the attestation log's actual head at that point''] else [])
          @ (if tip_height = 0
             then (if tip_hash \<noteq> GENESIS then [''with no block the tip hash is all zeros''] else [])
             else if tr_block_hash truth tip_height \<noteq> Some tip_hash
             then [''the tip block '' @ str_int tip_height @ '' is not what the checkpoint says''] else [])
          @ (if checkpoint_hash tenant covered_seq covered_head tip_height tip_hash \<noteq> at_subject_hash a
             then [''the checkpoint's hash does not match its subject''] else []))"

definition check_subject :: "string \<Rightarrow> attestation \<Rightarrow> (int \<Rightarrow> attestation option) \<Rightarrow> truth \<Rightarrow> string list" where
  "check_subject tenant a by_seq truth =
     (if at_kind a = ''block'' then
        (case parse_block_subject (at_subject a) of
           None \<Rightarrow> [''a block attestation's subject looks like block:<height>'']
         | Some h \<Rightarrow>
             (case tr_block_hash truth h of
                None \<Rightarrow> [''block '' @ str_int h @ '' does not exist'']
              | Some actual \<Rightarrow>
                  if actual = at_subject_hash a then []
                  else [''it attests block '' @ str_int h @ '' with hash '' @ take 16 (at_subject_hash a)
                    @ ''..., but the block's hash is '' @ take 16 actual @ ''...'']))
      else if at_kind a = ''receipt'' then
        (if \<not> starts_with ''eo:sha256:'' (at_subject a) \<or> at_subject a \<noteq> ''eo:sha256:'' @ at_subject_hash a
         then [''a receipt attestation's subject is the receipt's evidence id, and its hash is the same 64 hex characters'']
         else case tr_receipt_problem truth (at_subject a) of None \<Rightarrow> [] | Some p \<Rightarrow> if p = [] then [] else [p])
      else check_checkpoint tenant a by_seq truth)"

text \<open>The key must be authorized at this position, and the signature must be its own.\<close>

definition check_key :: "sshlib \<Rightarrow> trust_state \<Rightarrow> attestation \<Rightarrow> string \<Rightarrow> string list" where
  "check_key lib trust a message =
     (case map_of (ts_keys trust) (at_key_id a) of
        None \<Rightarrow> [''signed by '' @ at_key_id a @ '', which no root authorized'']
      | Some auth \<Rightarrow>
          (if at_seq a < ka_from_seq auth
           then [''key '' @ at_key_id a @ '' was not authorized until attestation '' @ str_int (ka_from_seq auth)] else [])
          @ (case ka_cutoff auth of
               None \<Rightarrow> []
             | Some c \<Rightarrow> if at_seq a > c
                 then [''key '' @ at_key_id a @ '' was revoked with a cutoff of '' @ str_int c @ ''; this attestation is after it and untrusted'']
                 else [])
          @ (case verify_sshsig lib (at_signature a) message of
               Inl exc \<Rightarrow> [''bad signature: '' @ exc]
             | Inr signer \<Rightarrow> if pk_id signer \<noteq> at_key_id a
                 then [''the signature was made by a different key than the one named''] else []))"

record att_loop =
  al_problems :: "problem list"
  al_summary :: att_summary
  al_expected :: int
  al_last :: string
  al_seen :: "string \<times> string \<Rightarrow> attestation option"
  al_by_seq :: "int \<Rightarrow> attestation option"

text \<open>The list \<open>bad\<close> up to the check for a prior attestation, and whether a root voided the row.\<close>

definition att_bad :: "sshlib \<Rightarrow> string \<Rightarrow> trust_state \<Rightarrow> truth \<Rightarrow> att_loop \<Rightarrow> attestation \<Rightarrow> string list \<times> bool" where
  "att_bad lib tenant trust truth l a =
     (let bad = (if at_seq a \<noteq> al_expected l
                 then [''expected attestation '' @ str_int (al_expected l) @ '' (one is missing or repeated)''] else [])
              @ (if at_prev a \<noteq> al_last l
                 then [''prev_hash does not match the previous attestation (one was removed, reordered or altered)''] else [])
      in case att_message tenant a of
           Inl e \<Rightarrow> (bad @ [ae_message e], False)
         | Inr message \<Rightarrow>
             let (hash_bad, voided) =
                   (if attestation_hash message (at_key_id a) (at_signature a) \<noteq> at_hash a
                    then ([''the stored attestation hash does not match its contents''], False)
                    else case map_of (ts_voids trust) (at_seq a) of
                           None \<Rightarrow> ([], False)
                         | Some v \<Rightarrow> if v = at_hash a then ([], True)
                             else ([''a root voided an attestation with this signer_seq but a different hash (the row was replaced)''], False))
             in (bad @ hash_bad @ (if voided then [] else check_key lib trust a message @ check_subject tenant a (al_by_seq l) truth),
                 voided))"

definition summary_add :: "attestation \<Rightarrow> att_summary \<Rightarrow> att_summary" where
  "summary_add a sm =
     (let sm = sm\<lparr>as_keys_used := insert (at_key_id a) (as_keys_used sm)\<rparr>
      in if at_kind a = ''block'' then
           (case parse_block_subject (at_subject a) of
              None \<Rightarrow> sm
            | Some h \<Rightarrow> sm\<lparr>as_blocks := insert h (as_blocks sm), as_block_seq := AList.update h (at_seq a) (as_block_seq sm),
                as_block_subject_hash := AList.update h (at_subject_hash a) (as_block_subject_hash sm)\<rparr>)
         else if at_kind a = ''receipt'' then
           sm\<lparr>as_receipts := insert (at_subject a) (as_receipts sm),
              as_receipt_seq := AList.update (at_subject a) (at_seq a) (as_receipt_seq sm)\<rparr>
         else
           let sm = sm\<lparr>as_newest_checkpoint := max (as_newest_checkpoint sm) (at_seq a)\<rparr>
           in case parse_checkpoint_subject (at_subject a) of
                None \<Rightarrow> sm
              | Some cp \<Rightarrow> sm\<lparr>as_valid_checkpoints := AList.update (at_seq a) (fst cp) (as_valid_checkpoints sm)\<rparr>)"

definition att_step :: "sshlib \<Rightarrow> string \<Rightarrow> trust_state \<Rightarrow> truth \<Rightarrow> att_loop \<Rightarrow> attestation \<Rightarrow> att_loop" where
  "att_step lib tenant trust truth l a =
     (let (bad0, voided) = att_bad lib tenant trust truth l a;
          prior = (if voided then None else al_seen l (at_kind a, at_subject a));
          bad = bad0 @ (case prior of None \<Rightarrow> []
            | Some p \<Rightarrow> [at_subject a @ '' was already attested at '' @ str_int (at_seq p)
                @ (if at_subject_hash p \<noteq> at_subject_hash a then '' with a DIFFERENT hash (equivocation)'' else [])]);
          seen = (if prior = None \<and> \<not> voided then (al_seen l)((at_kind a, at_subject a) \<mapsto> a) else al_seen l);
          sm1 = (if bad \<noteq> [] then (al_summary l)\<lparr>as_bad_seqs := insert (at_seq a) (as_bad_seqs (al_summary l))\<rparr> else al_summary l);
          sm2 = (if voided then sm1\<lparr>as_voided := as_voided sm1 @ [at_seq a]\<rparr>
                 else if bad = [] then summary_add a sm1 else sm1)
      in \<lparr>al_problems = al_problems l @ map (mk_problem ''attestation'' (''attestation '' @ str_int (at_seq a))) bad,
          al_summary = sm2\<lparr>as_count := as_count sm2 + 1, as_head_seq := at_seq a, as_head_hash := at_hash a\<rparr>,
          al_expected = at_seq a + 1, al_last = at_hash a, al_seen = seen,
          al_by_seq = (al_by_seq l)(at_seq a \<mapsto> a)\<rparr>)"

definition cosign_step :: "(int \<Rightarrow> attestation option) \<Rightarrow> problem list \<times> att_summary \<Rightarrow> cosign \<Rightarrow> problem list \<times> att_summary" where
  "cosign_step by_seq acc c =
     (case acc of (problems, sm) \<Rightarrow>
        if (case by_seq (co_checkpoint_seq c) of
              None \<Rightarrow> False
            | Some target \<Rightarrow> at_kind target = ''checkpoint'' \<and> at_hash target = co_checkpoint_hash c)
        then (problems, sm\<lparr>as_cosigned_checkpoint := max (as_cosigned_checkpoint sm) (co_checkpoint_seq c),
               as_cosigned_checkpoints := List.insert (co_checkpoint_seq c) (as_cosigned_checkpoints sm)\<rparr>)
        else (problems @ [mk_problem ''cosign'' (''trust statement '' @ str_int (co_stmt_seq c))
               (''the root '' @ co_root_id c @ '' cosigned checkpoint '' @ str_int (co_checkpoint_seq c) @ '' with hash ''
                @ take 16 (co_checkpoint_hash c) @ ''..., which is not what the log holds (a fork, or a rewritten log)'')], sm))"

definition att_init :: att_loop where
  "att_init = \<lparr>al_problems = [], al_summary = summary_init, al_expected = 1, al_last = GENESIS,
     al_seen = Map.empty, al_by_seq = Map.empty\<rparr>"

definition evaluate_attestations ::
  "sshlib \<Rightarrow> string \<Rightarrow> trust_state \<Rightarrow> attestation list \<Rightarrow> truth \<Rightarrow> problem list \<times> att_summary" where
  "evaluate_attestations lib tenant trust rows truth =
     (let l = foldl (att_step lib tenant trust truth) att_init (sort_key at_seq rows)
      in foldl (cosign_step (al_by_seq l)) (al_problems l, al_summary l) (ts_cosigns trust))"

section \<open>One tenant\<close>

datatype mode = Mode_off | Mode_warn | Mode_require

text \<open>\<open>signatures_mode\<close>: the environment variable, stripped and lower-cased; anything unknown is \<open>warn\<close>.\<close>

definition lower_ascii :: "string \<Rightarrow> string" where
  "lower_ascii s = map (\<lambda>c. if 65 \<le> (of_char c :: nat) \<and> (of_char c :: nat) \<le> 90 then char_of ((of_char c :: nat) + 32) else c) s"

definition signatures_mode :: "string option \<Rightarrow> mode" where
  "signatures_mode env =
     (let value = lower_ascii (strip (if opt_text env = [] then ''warn'' else opt_text env))
      in if value = ''off'' then Mode_off else if value = ''require'' then Mode_require else Mode_warn)"

record tenant_report =
  tp_problems :: "problem list"
  tp_warnings :: "string list"
  tp_notes :: "string list"
  tp_summary :: "att_summary option"

text \<open>
  \<open>verify_tenant\<close> on what its queries return: the statements, the attestations, the blocks with their
  hashes and sealing times and the receipts with their problem and creation time (times in microseconds,
  which Python compares as floating point hours). \<open>age_text\<close> renders the two numbers in
  \<^verbatim>\<open>{age:.0f}h old, grace {limit:g}h\<close>.
\<close>

definition unsigned_reports :: "mode \<Rightarrow> int \<Rightarrow> int \<Rightarrow> (int \<Rightarrow> string) \<Rightarrow> (string \<times> int) list \<Rightarrow> problem list \<times> string list" where
  "unsigned_reports mode now grace age_text pending =
     (let late = map (\<lambda>(label, stamp). (label, label @ '' is unsigned ('' @ age_text (now - stamp) @ '')''))
                   (filter (\<lambda>(label, stamp). now - stamp > grace) pending)
      in if mode = Mode_require then (map (\<lambda>(label, txt). mk_problem ''unsigned'' label txt) late, []) else ([], map snd late))"

definition or_none :: "int \<Rightarrow> string" where
  "or_none n = (if n = 0 then ''none'' else str_int n)"

definition verify_tenant ::
  "sshlib \<Rightarrow> string \<Rightarrow> mode \<Rightarrow> int \<Rightarrow> int \<Rightarrow> (int \<Rightarrow> string) \<Rightarrow> (string \<times> public_key) list \<Rightarrow> statement list \<Rightarrow> attestation list
     \<Rightarrow> (int \<times> string \<times> int) list \<Rightarrow> (string \<times> string option \<times> int) list \<Rightarrow> tenant_report" where
  "verify_tenant lib tenant mode now grace age_text roots statements attestations blocks receipts =
     (if mode = Mode_off then
        \<lparr>tp_problems = [], tp_warnings = [], tp_notes = [''signatures: checking is off (JARVIS_SIGNATURES=off)''], tp_summary = None\<rparr>
      else if statements = [] \<and> attestations = [] then
        \<lparr>tp_problems = [], tp_warnings = [], tp_notes = [''signatures: signing is not set up (no key authorized, nothing signed)''],
         tp_summary = None\<rparr>
      else if roots = [] then
        (let message = ''signatures not verified: no trust root is configured (JARVIS_TRUST_ROOTS_FILE), so '' @ dec_nat (length statements)
               @ '' statement(s) and '' @ dec_nat (length attestations) @ '' attestation(s) cannot be checked''
         in if mode = Mode_require
            then \<lparr>tp_problems = [mk_problem ''signatures'' ''trust roots'' message], tp_warnings = [], tp_notes = [], tp_summary = None\<rparr>
            else \<lparr>tp_problems = [], tp_warnings = [message], tp_notes = [], tp_summary = None\<rparr>)
      else
        (let trust = evaluate_trust lib tenant roots statements;
             truth = dict_truth (map (\<lambda>(h, bh, _). (h, bh)) blocks) (map (\<lambda>(i, p, _). (i, p)) receipts);
             (problems, summary) = evaluate_attestations lib tenant trust attestations truth
         in if ts_keys trust = [] then
              \<lparr>tp_problems = ts_problems trust @ problems, tp_warnings = [],
               tp_notes = [''signatures: roots are configured but no signing key is authorized yet''], tp_summary = Some summary\<rparr>
            else
              (let pending = map (\<lambda>(h, _, sealed). (''block '' @ str_int h, sealed)) (filter (\<lambda>(h, _). h \<notin> as_blocks summary) blocks)
                     @ map (\<lambda>(i, _, created). (''receipt '' @ i, created)) (filter (\<lambda>(i, _). i \<notin> as_receipts summary) receipts);
                   (late_problems, late_warnings) = unsigned_reports mode now grace age_text pending
               in \<lparr>tp_problems = ts_problems trust @ problems @ late_problems, tp_warnings = late_warnings,
                   tp_notes = [''signatures: '' @ dec_nat (as_count summary) @ '' attestation(s) up to '' @ str_int (as_head_seq summary)
                     @ '', '' @ dec_nat (card (as_blocks summary)) @ '' block(s) and '' @ dec_nat (card (as_receipts summary))
                     @ '' receipt(s) signed, '' @ dec_nat (length pending) @ '' unsigned''
                     @ (if as_voided summary \<noteq> [] then '', '' @ dec_nat (length (as_voided summary)) @ '' voided by a root'' else [])
                     @ ''; newest checkpoint '' @ or_none (as_newest_checkpoint summary)
                     @ '', cosigned checkpoint '' @ or_none (as_cosigned_checkpoint summary)],
                   tp_summary = Some summary\<rparr>)))"

section \<open>Signature levels\<close>

definition attestation_level :: "att_summary \<Rightarrow> int option \<Rightarrow> nat" where
  "attestation_level sm signer_seq =
     (case signer_seq of
        None \<Rightarrow> 0
      | Some n \<Rightarrow>
          if list_ex (\<lambda>c. case map_of (as_valid_checkpoints sm) c of None \<Rightarrow> False | Some covered \<Rightarrow> covered \<ge> n)
               (as_cosigned_checkpoints sm)
          then 2 else 1)"

definition level_label :: "nat \<Rightarrow> string" where
  "level_label n = (if n = 0 then ''L0 unsigned'' else if n = 1 then ''L1 Mint-signed'' else ''L2 root-cosigned'')"

record sig_part =
  sp_name :: string
  sp_who :: string
  sp_subject :: string
  sp_level :: nat
  sp_seq :: "int option"

record sig_report =
  sr_verified :: bool
  sr_level :: "nat option"
  sr_label :: string
  sr_parts :: "sig_part list"
  sr_problems :: "problem list"
  sr_warnings :: "string list"

text \<open>The inner functions \<open>unsigned\<close> and \<open>finish\<close>.\<close>

definition note_unsigned :: "mode \<Rightarrow> string \<Rightarrow> string \<Rightarrow> sig_report \<Rightarrow> sig_report" where
  "note_unsigned mode txt subject r =
     (if mode = Mode_require then r\<lparr>sr_problems := sr_problems r @ [mk_problem ''signatures'' subject txt]\<rparr>
      else r\<lparr>sr_warnings := sr_warnings r @ [txt]\<rparr>)"

definition finish_report :: "sig_report \<Rightarrow> sig_report" where
  "finish_report r =
     (let level = (if sr_parts r = [] then 0 else Min (set (map sp_level (sr_parts r))))
      in r\<lparr>sr_level := Some level, sr_label := level_label level @ (if sr_verified r then [] else '' (not verified)'')\<rparr>)"

text \<open>\<^verbatim>\<open>int(p["subject"].split()[-1])\<close> on the subjects \<open>evaluate_attestations\<close> writes: their number.\<close>

definition last_number :: "string \<Rightarrow> int" where
  "last_number subject =
     (let digits = rev (takeWhile is_digit (rev subject))
      in if take 1 (drop (length digits) (rev subject)) = ''-'' then - int (dec_value digits) else int (dec_value digits))"

definition sig_block_part :: "att_summary \<Rightarrow> int \<Rightarrow> string option \<Rightarrow> sig_part \<times> problem list" where
  "sig_block_part sm height block_hash =
     (let seq = map_of (as_block_seq sm) height;
          differs = (seq \<noteq> None \<and> block_hash \<noteq> None \<and> map_of (as_block_subject_hash sm) height \<noteq> block_hash);
          seq' = (if differs then None else seq)
      in (\<lparr>sp_name = ''block'', sp_who = ''block '' @ str_int height, sp_subject = ''block:'' @ str_int height,
           sp_level = attestation_level sm seq', sp_seq = seq'\<rparr>,
          if differs then [mk_problem ''signatures'' (''block '' @ str_int height) ''the attestation names a different block hash than the block's'']
          else []))"

definition signature_report ::
  "sshlib \<Rightarrow> string \<Rightarrow> mode \<Rightarrow> (string \<times> public_key) list \<Rightarrow> statement list \<Rightarrow> attestation list \<Rightarrow> truth
     \<Rightarrow> int option \<Rightarrow> string option \<Rightarrow> string option \<Rightarrow> sig_report" where
  "signature_report lib tenant mode roots statements attestations truth block_height block_hash receipt_id =
     (let block0 = (case block_height of None \<Rightarrow> [] | Some h \<Rightarrow>
            [\<lparr>sp_name = ''block'', sp_who = ''block '' @ str_int h, sp_subject = ''block:'' @ str_int h, sp_level = 0, sp_seq = None\<rparr>]);
          receipt0 = (if opt_text receipt_id = [] then [] else
            [\<lparr>sp_name = ''receipt'', sp_who = ''receipt '' @ opt_text receipt_id, sp_subject = opt_text receipt_id, sp_level = 0, sp_seq = None\<rparr>]);
          r0 = \<lparr>sr_verified = False, sr_level = None, sr_label = ''not checked (JARVIS_SIGNATURES=off)'', sr_parts = block0 @ receipt0,
                sr_problems = [], sr_warnings = []\<rparr>
      in if mode = Mode_off then r0\<lparr>sr_parts := []\<rparr>
         else if roots = [] then
           finish_report (note_unsigned mode
             ''signatures not verified: no trust root is configured (JARVIS_TRUST_ROOTS_FILE), so nothing can be checked and nothing is called signed''
             ''trust roots'' r0)
         else if statements = [] \<and> attestations = [] then
           finish_report (foldl (\<lambda>r p. note_unsigned mode (sp_who p @ '' is unsigned: signing is not set up (no key authorized, nothing signed)'')
             (sp_subject p) r) (r0\<lparr>sr_verified := True\<rparr>) (sr_parts r0))
         else
           (let trust = evaluate_trust lib tenant roots statements;
                (log_problems, sm) = evaluate_attestations lib tenant trust attestations truth;
                subject_of = map_of (map (\<lambda>a. (at_seq a, at_subject a)) (rev attestations));
                wanted = map sp_subject (sr_parts r0);
                is_mine = (\<lambda>p. case subject_of (last_number (p_subject p)) of None \<Rightarrow> False | Some sbj \<Rightarrow> sbj \<in> set wanted);
                mine = filter is_mine log_problems;
                others = filter (\<lambda>p. p \<notin> set mine) log_problems @ ts_problems trust;
                r1 = r0\<lparr>sr_verified := True, sr_problems := map (\<lambda>p. mk_problem ''signatures'' (p_subject p) (p_problem p)) mine\<rparr>;
                r2 = (if others = [] then r1 else note_unsigned mode
                   (''the signing logs have '' @ dec_nat (length others) @ '' other problem(s) (first: '' @ p_subject (hd others) @ '': ''
                    @ p_problem (hd others) @ ''); see /api/jarvis/attestations/verify'') ''signing log'' r1);
                (block_parts, block_problems) = (case block_height of None \<Rightarrow> ([], [])
                   | Some h \<Rightarrow> (case sig_block_part sm h block_hash of (p, ps) \<Rightarrow> ([p], ps)));
                receipt_parts = map (\<lambda>p. p\<lparr>sp_seq := map_of (as_receipt_seq sm) (sp_subject p),
                   sp_level := attestation_level sm (map_of (as_receipt_seq sm) (sp_subject p))\<rparr>) receipt0;
                r3 = r2\<lparr>sr_problems := sr_problems r2 @ block_problems, sr_parts := block_parts @ receipt_parts\<rparr>;
                voided_subjects = map (\<lambda>n. subject_of n) (as_voided sm);
                r4 = foldl (\<lambda>r p. if sp_level p = 0
                   then note_unsigned mode (if Some (sp_subject p) \<in> set voided_subjects
                       then sp_who p @ '' is unsigned: its attestation was voided by a root'' else sp_who p @ '' is unsigned'') (sp_subject p) r
                   else r) r3 (sr_parts r3);
                r5 = (case (block_parts, receipt_parts) of
                   ([b], [rc]) \<Rightarrow> if sp_level rc > 0 \<and> sp_level b = 0
                      then note_unsigned mode (''the receipt is signed but its '' @ sp_who b @ '' is not; the receipt is only as signed as its block'') (sp_who b) r4
                      else r4
                 | _ \<Rightarrow> r4)
            in finish_report r5))"

end
