(* ===== verification/Sshsig_Theorems.thy ===== *)
theory Sshsig_Theorems
  imports Sshsig
begin

text \<open>
  What \<open>Sshsig\<close> promises: every key that any parser returns is a well-formed Ed25519 key and its id
  determines it, a key line and an armoured signature parse back to what was written, and a signature is
  accepted only for the message, the namespace and the hash it was made with.
\<close>

section \<open>White space\<close>

definition graphic :: "char \<Rightarrow> bool" where
  "graphic c \<longleftrightarrow> 33 \<le> (of_char c :: nat) \<and> (of_char c :: nat) \<le> 126"

lemma WS_not_graphic: "list_all (\<lambda>p. p \<noteq> [] \<and> \<not> graphic (hd p) \<and> \<not> graphic (last p)) WS"
  by code_simp

lemma starting_other: "list_all (\<lambda>p. p \<noteq> [] \<and> hd p \<noteq> c) ps \<Longrightarrow> starting ps (c # s) = None"
  by (auto simp: starting_def starts_with_def find_None_iff list_all_iff neq_Nil_conv)

lemma starting_Nil [simp]: "starting ps [] = None"
  by (auto simp: starting_def starts_with_def find_None_iff)

lemma starting_WS_graphic: "graphic c \<Longrightarrow> starting WS (c # s) = None"
  using WS_not_graphic by (intro starting_other) (auto simp: list_all_iff)

lemma starting_WS_rev_graphic: "graphic c \<Longrightarrow> starting (map rev WS) (c # s) = None"
  using WS_not_graphic by (intro starting_other) (auto simp: list_all_iff hd_rev)

lemma lstrip_graphic: "graphic c \<Longrightarrow> lstrip (c # s) = c # s"
  by (simp add: lstrip_def strip_front.simps starting_WS_graphic)

lemma rstrip_graphic: "graphic c \<Longrightarrow> rstrip (s @ [c]) = s @ [c]"
  by (simp add: rstrip_def strip_front.simps starting_WS_rev_graphic)

lemma lstrip_Nil [simp]: "lstrip [] = []"
  by (simp add: lstrip_def strip_front.simps)

lemma strip_graphic: "graphic c \<Longrightarrow> graphic d \<Longrightarrow> strip (c # s @ [d]) = c # s @ [d]"
  using rstrip_graphic [of d "c # s"] by (simp add: strip_def lstrip_graphic)

lemma strip_ends: "s \<noteq> [] \<Longrightarrow> graphic (hd s) \<Longrightarrow> graphic (last s) \<Longrightarrow> strip s = s"
  using rstrip_graphic [of "last s" "butlast s"] lstrip_graphic [of "hd s" "tl s"] by (simp add: strip_def)

lemma strip_empty [simp]: "strip [] = []"
  using starting_Nil [of "map rev WS"] by (simp add: strip_def rstrip_def strip_front.simps)

lemma WS_space: "WS = take 9 WS @ '' '' # drop 10 WS" "list_all (\<lambda>p. p \<noteq> [] \<and> hd p \<noteq> CHR '' '') (take 9 WS)"
  by code_simp+

lemma starting_WS_space: "starting WS (CHR '' '' # s) = Some '' ''"
proof -
  have "starting (take 9 WS) (CHR '' '' # s) = None" using WS_space(2) by (rule starting_other)
  then have "starting (take 9 WS @ '' '' # drop 10 WS) (CHR '' '' # s) = Some '' ''"
    by (simp add: starting_def starts_with_def find_append)
  then show ?thesis by (simp only: WS_space(1) [symmetric])
qed

lemma word_of_text_graphic: "list_all graphic w \<Longrightarrow> starting WS r \<noteq> None \<or> r = [] \<Longrightarrow> word_of_text (w @ r) = (w, r)"
proof (induction w)
  case Nil
  then show ?case by (cases r) auto
qed (simp add: starting_WS_graphic)

lemma lstrip_space: "lstrip (CHR '' '' # s) = lstrip s"
  unfolding lstrip_def by (subst strip_front.simps) (simp add: starting_WS_space)

lemma split_ws2_words:
  assumes "list_all graphic w1" "list_all graphic w2" "w1 \<noteq> []" "w2 \<noteq> []"
  shows "split_ws2 (w1 @ CHR '' '' # w2) = [w1, w2]"
    "lstrip c = c \<Longrightarrow> c \<noteq> [] \<Longrightarrow> split_ws2 (w1 @ CHR '' '' # w2 @ CHR '' '' # c) = [w1, w2, c]"
proof -
  have l: "lstrip (w @ r) = w @ r" if "list_all graphic w" "w \<noteq> []" for w r
    using that by (cases w) (simp_all add: lstrip_graphic)
  show "split_ws2 (w1 @ CHR '' '' # w2) = [w1, w2]"
    using assms l [of w1 "CHR '' '' # w2"] l [of w2 "[]"] word_of_text_graphic [of w1 "CHR '' '' # w2"] word_of_text_graphic [of w2 "[]"]
    by (simp add: split_ws2_def starting_WS_space lstrip_space)
  show "split_ws2 (w1 @ CHR '' '' # w2 @ CHR '' '' # c) = [w1, w2, c]" if "lstrip c = c" "c \<noteq> []"
    using assms that l [of w1 "CHR '' '' # w2 @ CHR '' '' # c"] l [of w2 "CHR '' '' # c"]
      word_of_text_graphic [of w1 "CHR '' '' # w2 @ CHR '' '' # c"] word_of_text_graphic [of w2 "CHR '' '' # c"]
    by (simp add: split_ws2_def starting_WS_space lstrip_space)
qed

section \<open>Base64 texts\<close>

definition b64_text :: "string \<Rightarrow> bool" where
  "b64_text s \<longleftrightarrow> list_all (\<lambda>c. b64_val c \<noteq> None \<or> c = CHR ''='') s"

lemma b64_text_encode: "b64_text (b64encode bs)"
proof -
  have "b64_val (b64_char n) \<noteq> None" for n by (cases "n < 64") (auto simp: b64_val_char b64_char_def b64_val_def Let_def)
  then show ?thesis by (induction bs rule: b64encode.induct) (simp_all add: b64_text_def Let_def del: not_None_eq)
qed

lemma b64_graphic: "b64_text s \<Longrightarrow> list_all graphic s"
  by (auto simp: b64_text_def b64_val_def list_all_iff graphic_def Let_def split: if_splits)

lemma b64encode_Nil [simp]: "b64encode bs = [] \<longleftrightarrow> bs = []"
  by (cases bs rule: b64encode.cases) (simp_all add: Let_def)

lemma b64encode_inj: "b64encode a = b64encode b \<longleftrightarrow> a = b"
  by (metis b64decode_encode option.inject)

section \<open>The wire format, both ways\<close>

lemma be32_of_value: "length b = 4 \<Longrightarrow> be32 (be32_value b) = b"
proof -
  assume "length b = 4"
  then obtain p q r s where b: "b = [p, q, r, s]" by (auto simp: length_Suc_conv numeral_eq_Suc)
  have lt: "(of_char c :: nat) < 256" for c :: char by (rule of_char_less_256)
  have d: "(v * 256 + of_char c) div 256 = v" "(v * 256 + of_char c) mod 256 = of_char c" for v :: nat and c :: char
    using lt [of c] by simp_all
  let ?v = "((of_char p * 256 + of_char q) * 256 + of_char r) * 256 + (of_char s :: nat)"
  have v: "be32_value b = ?v" by (simp add: b be32_value_def)
  have c: "(char_of (m mod 256) :: char) = char_of m" for m :: nat by simp
  have pw: "(2 :: nat) ^ 8 = 256" "(2 :: nat) ^ 16 = 256 * 256" "(2 :: nat) ^ 24 = 256 * 256 * 256" by simp_all
  have e: "?v div 2 ^ 8 = (of_char p * 256 + of_char q) * 256 + of_char r"
    and e2: "?v div 2 ^ 16 = of_char p * 256 + of_char q" and e3: "?v div 2 ^ 24 = of_char p"
    by (simp_all only: pw div_mult2_eq d)
  have k: "char_of (v * 256 + of_char c) = c" for v :: nat and c
    using c [of "v * 256 + of_char c"] d(2) [of v c] by (simp del: char_of_mod_256)
  show ?thesis unfolding v be32_def by (simp only: b list.map e e2 e3 k power_0 div_by_1) simp
qed

lemma be32_value_less: "length b = 4 \<Longrightarrow> be32_value b < 2 ^ 32"
proof -
  assume "length b = 4"
  then obtain p q r s where b: "b = [p, q, r, s]" by (auto simp: length_Suc_conv numeral_eq_Suc)
  have lt: "(of_char c :: nat) < 256" for c :: char by (rule of_char_less_256)
  have "of_char p \<le> (255 :: nat)" "of_char q \<le> (255 :: nat)" "of_char r \<le> (255 :: nat)" "of_char s \<le> (255 :: nat)"
    using lt [of p] lt [of q] lt [of r] lt [of s] by linarith+
  then show ?thesis by (simp add: b be32_value_def)
qed

lemma read_string_wire:
  assumes "read_string buf off = Some (d, off')"
  shows "drop off buf = wire_string d @ drop off' buf \<and> off' \<le> length buf \<and> length d < 2 ^ 32"
proof -
  define n where "n = be32_value (take 4 (drop off buf))"
  have le: "off + 4 + n \<le> length buf" and d: "d = take n (drop (off + 4) buf)" and o': "off' = off + 4 + n"
    using assms by (auto simp: read_string_def n_def Let_def split: if_splits)
  have four: "length (take 4 (drop off buf)) = 4" using le by simp
  have ld: "length d = n" using d le by simp
  have "drop off buf = take 4 (drop off buf) @ take n (drop 4 (drop off buf)) @ drop n (drop 4 (drop off buf))"
    by (metis append_take_drop_id)
  also have "take 4 (drop off buf) = be32 n" using be32_of_value [OF four] by (simp add: n_def)
  finally show ?thesis using le ld d o' be32_value_less [OF four] by (simp add: wire_string_def n_def add_ac)
qed

lemma read_wire_string0: "length d < 2 ^ 32 \<Longrightarrow> read_string (wire_string d @ post) 0 = Some (d, 4 + length d)"
  using read_wire_string [of d "[]" post] by simp

lemma length_wire_string [simp]: "length (wire_string d) = 4 + length d"
  by (simp add: wire_string_def)

lemma wire_string_split:
  assumes "wire_string a @ x = wire_string b @ y" "length a < 2 ^ 32" "length b < 2 ^ 32"
  shows "a = b \<and> x = y"
proof -
  have "be32 (length a) = be32 (length b)" and r: "a @ x = b @ y"
    using assms(1) by (simp_all add: wire_string_def append_eq_length)
  then have "length a = length b" using be32_value_be32 assms(2,3) by metis
  then show ?thesis using r by simp
qed

fun wire_strings :: "bytes list \<Rightarrow> bytes" where
  "wire_strings [] = []"
| "wire_strings (d # ds) = wire_string d @ wire_strings ds"

lemma read_wire_strings:
  "\<forall>d \<in> set ds. length d < 2 ^ 32 \<Longrightarrow> read_strings (length ds) (pre @ wire_strings ds @ post) (length pre) =
     Some (ds, length pre + length (wire_strings ds))"
proof (induction ds arbitrary: pre)
  case (Cons d ds)
  have "read_strings (length ds) ((pre @ wire_string d) @ wire_strings ds @ post) (length (pre @ wire_string d)) =
      Some (ds, length (pre @ wire_string d) + length (wire_strings ds))" using Cons.prems by (intro Cons.IH) simp
  moreover have "read_string (pre @ wire_string d @ wire_strings ds @ post) (length pre) = Some (d, length pre + 4 + length d)"
    using Cons.prems by (intro read_wire_string) simp
  ultimately show ?case by (simp add: add_ac)
qed simp

section \<open>Keys\<close>

text \<open>An Ed25519 key: its blob is exactly the two wire strings, and its id is the blob's fingerprint.\<close>

definition pk_wf :: "public_key \<Rightarrow> bool" where
  "pk_wf k \<longleftrightarrow> pk_blob k = wire_string ''ssh-ed25519'' @ wire_string (pk_raw k) \<and> length (pk_raw k) = 32 \<and>
     pk_id k = fingerprint (pk_blob k)"

lemma public_key_from_blob_wf:
  assumes "public_key_from_blob blob c = Inr k"
  shows "pk_wf k \<and> pk_comment k = c \<and> pk_blob k = blob"
proof -
  obtain kind off raw off' where r1: "read_string blob 0 = Some (kind, off)" and r2: "read_string blob off = Some (raw, off')"
    and c: "kind = ''ssh-ed25519''" "length raw = 32" "off' = length blob"
    and k: "k = \<lparr>pk_blob = blob, pk_raw = raw, pk_id = fingerprint blob, pk_comment = c\<rparr>"
    using assms by (auto simp: public_key_from_blob_def split: option.splits prod.splits if_splits)
  have "blob = wire_string kind @ wire_string raw"
    using read_string_wire [OF r1] read_string_wire [OF r2] c(3) by simp
  with k c show ?thesis by (simp add: pk_wf_def)
qed

lemma public_key_from_blob_Inr:
  assumes "pk_wf k" "pk_comment k = c"
  shows "public_key_from_blob (pk_blob k) c = Inr k"
proof -
  have "read_string (wire_string ''ssh-ed25519'' @ wire_string (pk_raw k)) (length (wire_string ''ssh-ed25519'')) =
      Some (pk_raw k, length (wire_string ''ssh-ed25519'') + 4 + length (pk_raw k))"
    using read_wire_string [of "pk_raw k" "wire_string ''ssh-ed25519''" "[]"] assms(1) by (simp add: pk_wf_def)
  moreover have "read_string (wire_string ''ssh-ed25519'' @ wire_string (pk_raw k)) 0 = Some (''ssh-ed25519'', 15)"
    using read_wire_string0 [of "''ssh-ed25519''"] by simp
  ultimately show ?thesis using assms by (simp add: public_key_from_blob_def pk_wf_def)
qed

lemma parse_public_key_wf: "parse_public_key t = Inr k \<Longrightarrow> pk_wf k"
  using public_key_from_blob_wf by (auto simp: parse_public_key_def Let_def split: if_splits option.splits)

lemma set_update_cases: "x \<in> set (AList.update k v al) \<Longrightarrow> x = (k, v) \<or> x \<in> set al"
  by (induction al) (auto split: if_splits)

lemma roots_loop_wf:
  assumes "roots_loop n ls roots = Inr roots'" "distinct (map fst roots)" "\<forall>(i, k) \<in> set roots. pk_wf k \<and> i = pk_id k"
  shows "distinct (map fst roots') \<and> (\<forall>(i, k) \<in> set roots'. pk_wf k \<and> i = pk_id k)"
  using assms
proof (induction n ls roots rule: roots_loop.induct)
  case (2 n l ls roots)
  show ?case
  proof (cases "strip l = [] \<or> starts_with ''#'' (strip l)")
    case True
    with 2 show ?thesis by (simp add: Let_def)
  next
    case False
    with "2.prems"(1) obtain key where key: "parse_public_key (strip l) = Inr key"
      and go: "roots_loop (Suc n) ls (AList.update (pk_id key) key roots) = Inr roots'"
      by (auto simp: Let_def split: sum.splits if_splits)
    have "\<forall>(i, k) \<in> set (AList.update (pk_id key) key roots). pk_wf k \<and> i = pk_id k"
      using "2.prems"(3) parse_public_key_wf [OF key] by (fastforce dest: set_update_cases)
    with 2(2) [OF refl _ key go] False "2.prems"(2) show ?thesis by (simp add: distinct_update)
  qed
qed simp

lemma load_roots_wf:
  "load_roots p read = Inr roots \<Longrightarrow> distinct (map fst roots) \<and> (\<forall>(i, k) \<in> set roots. pk_wf k \<and> i = pk_id k)"
  using roots_loop_wf by (auto simp: load_roots_def split: option.splits if_splits sum.splits)

lemma parse_blob_wf: "parse_blob blob = Inr p \<Longrightarrow> pk_wf (ps_key p)"
  using public_key_from_blob_wf
  by (auto simp: parse_blob_def Let_def split: if_splits option.splits prod.splits list.splits sum.splits)

lemma verify_sshsig_wf: "verify_sshsig lib a m = Inr k \<Longrightarrow> pk_wf k"
  using parse_blob_wf
  by (auto simp: verify_sshsig_def parse_sshsig_def Let_def res_bind_Inr_iff split: if_splits option.splits)

text \<open>C11: every key any reader returns is a well-formed Ed25519 key whose id is the fingerprint of its blob:
  a key line, every entry of the pinned roots file (whose ids are distinct and name their own keys), and
  the key a verified signature is attributed to.\<close>

theorem keys_well_formed:
  "(parse_public_key t = Inr k \<longrightarrow> pk_wf k) \<and>
   (load_roots p read = Inr roots \<longrightarrow> distinct (map fst roots) \<and> (\<forall>(i, k') \<in> set roots. pk_wf k' \<and> i = pk_id k')) \<and>
   (verify_sshsig lib a m = Inr k \<longrightarrow> pk_wf k)"
  using parse_public_key_wf load_roots_wf verify_sshsig_wf by blast

definition sample_key :: public_key where
  "sample_key = (let blob = wire_string ''ssh-ed25519'' @ wire_string (replicate 32 (CHR ''k''))
     in \<lparr>pk_blob = blob, pk_raw = replicate 32 (CHR ''k''), pk_id = fingerprint blob, pk_comment = ''root''\<rparr>)"

lemma sample_key_wf: "pk_wf sample_key"
  by (simp add: sample_key_def pk_wf_def Let_def)

lemma parse_key_line:
  assumes "pk_wf k" "pk_comment k = [] \<or> graphic (hd (pk_comment k)) \<and> graphic (last (pk_comment k))"
  shows "parse_public_key (pk_text k) = Inr k"
proof -
  let ?b = "b64encode (pk_blob k)"
  have ne: "?b \<noteq> []" using assms(1) by (simp add: pk_wf_def wire_string_def be32_def)
  have g: "list_all graphic ?b" by (rule b64_graphic [OF b64_text_encode])
  have s: "list_all graphic ''ssh-ed25519''" "graphic (CHR ''s'')" by (simp_all add: graphic_def)
  show ?thesis
  proof (cases "pk_comment k = []")
    case True
    have l: "graphic (last ?b)" using g ne by (simp add: list_all_iff)
    have t: "pk_text k = CHR ''s'' # (''sh-ed25519 '' @ butlast ?b) @ [last ?b]"
      using True ne by (simp add: pk_text_def)
    have "strip (pk_text k) = pk_text k" using strip_graphic [OF s(2) l, of "''sh-ed25519 '' @ butlast ?b"] t by simp
    moreover have "split_ws2 (pk_text k) = [''ssh-ed25519'', ?b]"
      using split_ws2_words(1) [OF s(1) g _ ne] True by (simp add: pk_text_def)
    ultimately show ?thesis
      using public_key_from_blob_Inr [OF assms(1) True] by (simp add: parse_public_key_def Let_def b64decode_encode)
  next
    case False
    then obtain c cs where c: "pk_comment k = c # cs" by (cases "pk_comment k") auto
    have gc: "graphic c" "graphic (last (c # cs))" using assms(2) c by simp_all
    have lc: "lstrip (pk_comment k) = pk_comment k" using gc(1) by (simp add: c lstrip_graphic)
    have t: "pk_text k = CHR ''s'' # (''sh-ed25519 '' @ ?b @ '' '' @ butlast (c # cs)) @ [last (c # cs)]"
      using False c append_butlast_last_id [of "c # cs"] by (simp add: pk_text_def)
    have "strip (pk_text k) = pk_text k"
      using strip_graphic [OF s(2) gc(2), of "''sh-ed25519 '' @ ?b @ '' '' @ butlast (c # cs)"] by (simp only: t)
    moreover have "split_ws2 (pk_text k) = [''ssh-ed25519'', ?b, pk_comment k]"
      using split_ws2_words(2) [OF s(1) g _ ne lc False] False by (simp add: pk_text_def)
    ultimately show ?thesis
      using public_key_from_blob_Inr [OF assms(1) refl] by (simp add: parse_public_key_def Let_def b64decode_encode)
  qed
qed

theorem keys_well_formed_witness: "parse_public_key (pk_text sample_key) = Inr sample_key \<and> pk_wf sample_key"
proof -
  have "parse_public_key (pk_text sample_key) = Inr sample_key"
    by (rule parse_key_line [OF sample_key_wf]) (simp add: sample_key_def graphic_def Let_def)
  then show ?thesis using keys_well_formed [of "pk_text sample_key" sample_key] by blast
qed

text \<open>A key line round trip: the line \<open>text()\<close> writes for a key, with or without a comment, parses back to
  the same key, comment included.\<close>

lemma key_line_roundtrip:
  assumes "pk_wf k" "pk_comment k = [] \<or> graphic (hd (pk_comment k)) \<and> graphic (last (pk_comment k))"
  shows "parse_public_key (pk_text k) = Inr k"
  using assms by (rule parse_key_line)

lemma key_line_roundtrip_witness: "parse_public_key (pk_text (sample_key\<lparr>pk_comment := ''op of ledger''\<rparr>)) =
    Inr (sample_key\<lparr>pk_comment := ''op of ledger''\<rparr>)"
  by (rule key_line_roundtrip) (use sample_key_wf in \<open>simp_all add: pk_wf_def graphic_def\<close>)

lemma b64_char_not_eq: "b64_char n \<noteq> CHR ''=''"
proof (cases "n < 64")
  case True
  then show ?thesis using b64_val_char [OF True] b64_char_not_pad by auto
qed (simp add: b64_char_def)

lemma b64encode_one_pad: "length bs mod 3 = 2 \<Longrightarrow> \<exists>w. b64encode bs = w @ ''='' \<and> CHR ''='' \<notin> set w"
proof (induction bs rule: b64encode.induct)
  case (3 x y)
  show ?case
    by (rule exI [of _ "butlast (b64encode [x, y])"]) (simp add: Let_def b64_char_not_eq b64_char_not_eq [symmetric])
next
  case (4 x y z r)
  then obtain w where "b64encode r = w @ ''=''" "CHR ''='' \<notin> set w" using "4.IH" [OF refl refl refl] by auto
  then show ?case
    by (intro exI [of _ "take 4 (b64encode (x # y # z # r)) @ w"]) (simp add: Let_def b64_char_not_eq b64_char_not_eq [symmetric])
qed simp_all

lemma fingerprint_eq: "fingerprint a = fingerprint b \<longleftrightarrow> sha256 a = sha256 b"
proof
  assume e: "fingerprint a = fingerprint b"
  obtain v w where v: "b64encode (sha256 a) = v @ ''=''" "CHR ''='' \<notin> set v" and w: "b64encode (sha256 b) = w @ ''=''" "CHR ''='' \<notin> set w"
    using b64encode_one_pad [of "sha256 a"] b64encode_one_pad [of "sha256 b"] by auto
  have d: "rev (dropWhile (\<lambda>c. c = CHR ''='') (rev (u @ ''=''))) = u" if "CHR ''='' \<notin> set u" for u
    using that by (cases "rev u") (auto simp: dropWhile_append)
  from e have "v = w" using d [OF v(2)] d [OF w(2)] by (simp add: fingerprint_def v(1) w(1))
  with v w show "sha256 a = sha256 b" by (metis b64encode_inj)
qed (simp add: fingerprint_def)

text \<open>A key id names one key: two well-formed keys with the same id are the same Ed25519 key, unless
  their blobs are a SHA-256 collision.\<close>

lemma key_id_binding:
  assumes "pk_wf k" "pk_wf k'" "pk_id k = pk_id k'" "inj_on sha256 {pk_blob k, pk_blob k'}"
  shows "pk_raw k = pk_raw k'"
proof -
  have "pk_blob k = pk_blob k'" using assms by (auto simp: pk_wf_def fingerprint_eq dest: inj_onD)
  with assms(1,2) have "wire_string (pk_raw k) = wire_string (pk_raw k')" by (simp add: pk_wf_def)
  then show ?thesis using wire_string_split [of "pk_raw k" "[]" "pk_raw k'" "[]"] assms(1,2) by (simp add: pk_wf_def)
qed

lemma key_id_binding_witness: "pk_raw sample_key = pk_raw (sample_key\<lparr>pk_comment := ''other''\<rparr>)"
  by (rule key_id_binding) (use sample_key_wf in \<open>simp_all add: pk_wf_def\<close>)

section \<open>Signatures\<close>

text \<open>The SSHSIG blob and its armour, in lines of any length, as \<^verbatim>\<open>ssh-keygen -Y sign\<close> writes them.\<close>

definition sig_blob :: "bytes \<Rightarrow> bytes \<Rightarrow> bytes \<Rightarrow> bytes \<Rightarrow> bytes" where
  "sig_blob pub namespace algorithm sig_raw =
     ''SSHSIG'' @ be32 1 @ wire_strings [pub, namespace, [], algorithm, wire_strings [''ssh-ed25519'', sig_raw]]"

fun join_lf :: "string list \<Rightarrow> string" where
  "join_lf [] = []"
| "join_lf [l] = l"
| "join_lf (l # ls) = l @ CHR 0x0A # join_lf ls"

definition armored_text :: "string list \<Rightarrow> string" where
  "armored_text ls = join_lf (ARMOR_BEGIN # ls @ [ARMOR_END])"

lemma split_on_id: "c \<notin> set l \<Longrightarrow> split_on c l = [l]"
  by (induction l) auto

lemma split_on_append: "c \<notin> set l \<Longrightarrow> split_on c (l @ c # r) = l # split_on c r"
  by (induction l) (auto split: list.split)

lemma split_join: "ls \<noteq> [] \<Longrightarrow> \<forall>l \<in> set ls. CHR 0x0A \<notin> set l \<Longrightarrow> split_on (CHR 0x0A) (join_lf ls) = ls"
  by (induction ls rule: join_lf.induct) (auto simp: split_on_id split_on_append)

lemma set_join_lf: "set (join_lf ls) \<subseteq> insert (CHR 0x0A) (\<Union> (set ` set ls))"
  by (induction ls rule: join_lf.induct) auto

lemma replace_crlf_id: "CHR 0x0D \<notin> set s \<Longrightarrow> replace_crlf s = s"
  by (induction s rule: replace_crlf.induct) auto

lemma replace_cr_id: "CHR 0x0D \<notin> set s \<Longrightarrow> replace_cr s = s"
  by (induction s) (auto simp: replace_cr_def)

lemma join_lf_snoc: "ls \<noteq> [] \<Longrightarrow> join_lf (ls @ [l]) = join_lf ls @ CHR 0x0A # l"
  by (induction ls rule: join_lf.induct) auto

lemma graphic_dash: "graphic (CHR ''-'')"
  by (simp add: graphic_def)

lemma normalize_armored:
  assumes "\<forall>l \<in> set ls. list_all graphic l"
  shows "normalize_signature (armored_text ls) = armored_text ls"
proof -
  have "CHR 0x0D \<notin> set (armored_text ls)"
    using assms set_join_lf [of "ARMOR_BEGIN # ls @ [ARMOR_END]"]
    by (force simp: armored_text_def list_all_iff graphic_def ARMOR_BEGIN_def ARMOR_END_def)
  moreover have "armored_text ls = CHR ''-'' # (tl (join_lf (ARMOR_BEGIN # ls)) @ CHR 0x0A # butlast ARMOR_END) @ [CHR ''-'']"
    using join_lf_snoc [of "ARMOR_BEGIN # ls" ARMOR_END]
    by (cases ls) (simp_all add: armored_text_def ARMOR_BEGIN_def ARMOR_END_def)
  then have "strip (armored_text ls) = armored_text ls"
    using strip_graphic [of "CHR ''-''" "CHR ''-''"] by (metis graphic_dash)
  ultimately show ?thesis by (simp add: normalize_signature_def replace_crlf_id replace_cr_id)
qed

lemma parse_sig_blob:
  assumes "pk_wf k" "length sig_raw = 64" "length ns < 2 ^ 32" "length alg < 2 ^ 32"
  shows "parse_blob (sig_blob (pk_blob k) ns alg sig_raw) =
    Inr \<lparr>ps_key = k\<lparr>pk_comment := []\<rparr>, ps_namespace = ns, ps_algorithm = alg, ps_signature = sig_raw\<rparr>"
proof -
  let ?s = "wire_strings [''ssh-ed25519'', sig_raw]"
  let ?ds = "[pk_blob k, ns, [], alg, ?s]"
  have len: "length (pk_blob k) = 51" "length ?s = 83" using assms(1,2) by (simp_all add: pk_wf_def)
  have one: "be32_value (be32 1) = 1" by (rule be32_value_be32) simp
  have "read_strings (length ?ds) ((''SSHSIG'' @ be32 1) @ wire_strings ?ds @ []) (length (''SSHSIG'' @ be32 1)) =
      Some (?ds, length (''SSHSIG'' @ be32 1) + length (wire_strings ?ds))"
    using len assms(3,4) by (intro read_wire_strings) (simp del: wire_strings.simps)
  moreover have "length ?ds = 5" "length (''SSHSIG'' @ be32 1) = 10"
    "(''SSHSIG'' @ be32 1) @ wire_strings ?ds @ [] = sig_blob (pk_blob k) ns alg sig_raw"
    "10 + length (wire_strings ?ds) = length (sig_blob (pk_blob k) ns alg sig_raw)"
    by (simp_all add: sig_blob_def)
  ultimately have five: "read_strings 5 (sig_blob (pk_blob k) ns alg sig_raw) 10 = Some (?ds, length (sig_blob (pk_blob k) ns alg sig_raw))"
    by (simp only:)
  have "read_strings (length [''ssh-ed25519'', sig_raw]) ([] @ ?s @ []) (length ([] :: bytes)) =
      Some ([''ssh-ed25519'', sig_raw], length ([] :: bytes) + length ?s)"
    using assms(2) by (intro read_wire_strings) simp
  then have two: "read_strings 2 ?s 0 = Some ([''ssh-ed25519'', sig_raw], length ?s)"
    by (simp add: numeral_2_eq_2 del: wire_strings.simps read_strings.simps)
  have key: "public_key_from_blob (pk_blob k) [] = Inr (k\<lparr>pk_comment := []\<rparr>)"
    using public_key_from_blob_Inr [of "k\<lparr>pk_comment := []\<rparr>" "[]"] assms(1) by (simp add: pk_wf_def)
  have hd: "starts_with ''SSHSIG'' (sig_blob (pk_blob k) ns alg sig_raw)" "\<not> length (sig_blob (pk_blob k) ns alg sig_raw) < 10"
    "be32_value (take 4 (drop 6 (sig_blob (pk_blob k) ns alg sig_raw))) = 1"
    using one by (simp_all add: starts_with_def sig_blob_def)
  show ?thesis
    unfolding parse_blob_def by (simp add: hd five two key assms(2) del: wire_strings.simps read_strings.simps)
qed

lemma parse_armored:
  assumes "pk_wf k" "length sig_raw = 64" "length ns < 2 ^ 32" "length alg < 2 ^ 32"
    and "concat ls = b64encode (sig_blob (pk_blob k) ns alg sig_raw)"
  shows "parse_sshsig (armored_text ls) =
    Inr \<lparr>ps_key = k\<lparr>pk_comment := []\<rparr>, ps_namespace = ns, ps_algorithm = alg, ps_signature = sig_raw\<rparr>"
    "normalize_signature (armored_text ls) = armored_text ls"
proof -
  have g: "\<forall>l \<in> set ls. list_all graphic l"
    using b64_graphic [OF b64_text_encode, of "sig_blob (pk_blob k) ns alg sig_raw"]
    unfolding assms(5) [symmetric] by (auto simp: list_all_iff)
  have ne: "ls \<noteq> []" using assms(5) by (auto simp: sig_blob_def)
  have lf: "\<forall>l \<in> set (ARMOR_BEGIN # ls @ [ARMOR_END]). CHR 0x0A \<notin> set l"
    using g by (fastforce simp: list_all_iff graphic_def ARMOR_BEGIN_def ARMOR_END_def)
  show norm: "normalize_signature (armored_text ls) = armored_text ls" by (rule normalize_armored [OF g])
  have "split_on (CHR 0x0A) (normalize_signature (armored_text ls)) = ARMOR_BEGIN # ls @ [ARMOR_END]"
    unfolding norm using split_join [OF _ lf] by (simp add: armored_text_def)
  then show "parse_sshsig (armored_text ls) =
    Inr \<lparr>ps_key = k\<lparr>pk_comment := []\<rparr>, ps_namespace = ns, ps_algorithm = alg, ps_signature = sig_raw\<rparr>"
    using ne by (simp add: parse_sshsig_def Let_def assms(5) b64decode_encode parse_sig_blob [OF assms(1-4)]
        butlast_append Suc_le_eq numeral_3_eq_3)
qed

text \<open>C12: a signature round trip: whatever \<^verbatim>\<open>ssh-keygen\<close> writes for a key, a namespace, a hash and a raw
  signature, with the Base64 body broken into lines in any way, parses back to exactly these, and the
  canonical text stored for it is the text itself.\<close>

theorem sshsig_roundtrip:
  assumes "pk_wf k" "length sig_raw = 64" "length ns < 2 ^ 32" "length alg < 2 ^ 32"
    and "concat ls = b64encode (sig_blob (pk_blob k) ns alg sig_raw)"
  shows "parse_sshsig (armored_text ls) =
      Inr \<lparr>ps_key = k\<lparr>pk_comment := []\<rparr>, ps_namespace = ns, ps_algorithm = alg, ps_signature = sig_raw\<rparr> \<and>
    normalize_signature (armored_text ls) = armored_text ls"
  using parse_armored [OF assms] by blast

definition sample_sig :: "bytes \<Rightarrow> string" where
  "sample_sig alg = armored_text [b64encode (sig_blob (pk_blob sample_key) NAMESPACE alg (replicate 64 (CHR ''s'')))]"

theorem sshsig_roundtrip_witness:
  "parse_sshsig (sample_sig ''sha512'') = Inr \<lparr>ps_key = sample_key\<lparr>pk_comment := []\<rparr>, ps_namespace = NAMESPACE,
     ps_algorithm = ''sha512'', ps_signature = replicate 64 (CHR ''s'')\<rparr>"
  using sshsig_roundtrip [OF sample_key_wf, of "replicate 64 (CHR ''s'')" NAMESPACE "''sha512''"
      "[b64encode (sig_blob (pk_blob sample_key) NAMESPACE ''sha512'' (replicate 64 (CHR ''s'')))]"]
  by (simp add: sample_sig_def NAMESPACE_def)

lemma eight_primes: "8 \<le> length first_primes"
proof -
  have a: "first_primes = filter prime_by_trial [2..<20] @ filter prime_by_trial [20..<410]"
    using upt_add_eq_append [of 2 20 390] by (simp add: first_primes_def)
  have b: "length (filter prime_by_trial [2..<20]) = 8" by code_simp
  show ?thesis by (metis a b length_append le_add1)
qed

lemma length_sha512: "length (sha512 m) = 64"
proof -
  have l: "length (blocks512 n b v) = 8" if "length v = 8" for n b v
  proof -
    have r: "length (foldl round512 v ks) = 8" if "length v = 8" for v ks
      using that by (induction ks arbitrary: v) (simp_all add: round512_def Let_def)
    then show ?thesis using that by (induction n arbitrary: b v) simp_all
  qed
  have "length H512 = 8" using eight_primes by (simp add: H512_def)
  then show ?thesis
    using l by (simp add: sha512_def Let_def length_concat comp_def sum_list_triv)
qed

definition digest_of :: "bytes \<Rightarrow> bytes \<Rightarrow> bytes" where
  "digest_of alg m = (if alg = ''sha512'' then sha512 m else sha256 m)"

lemma signed_data_inj:
  assumes "signed_data ns alg d = signed_data ns' alg' d'"
    "length ns < 2 ^ 32" "length ns' < 2 ^ 32" "length alg < 2 ^ 32" "length alg' < 2 ^ 32"
    "length d < 2 ^ 32" "length d' < 2 ^ 32"
  shows "ns = ns' \<and> alg = alg' \<and> d = d'"
proof -
  have a: "wire_string ns @ wire_string [] @ wire_string alg @ wire_string d @ [] =
      wire_string ns' @ wire_string [] @ wire_string alg' @ wire_string d' @ []"
    using assms(1) by (simp add: signed_data_def)
  from wire_string_split [OF a assms(2,3)] have n: "ns = ns'" and b: "wire_string alg @ wire_string d @ [] = wire_string alg' @ wire_string d' @ []"
    using append_eq_length [of "wire_string []" "wire_string []"] by simp_all
  from wire_string_split [OF b assms(4,5)] have "alg = alg'" and c: "wire_string d @ [] = wire_string d' @ []" by simp_all
  with n wire_string_split [OF c assms(6,7)] show ?thesis by simp
qed

text \<open>C13: no signature travels: suppose the holder of a key only ever signed the messages of a list, each in
  its namespace with its hash, and that nobody else can make a signature the Ed25519 check accepts under
  the key. Then a signature verified here under that key was made for exactly this message and in this
  program's namespace: one made for another message or by another program's namespace is refused, barring a
  collision of the hash named in it.\<close>

theorem signature_is_for_this_message:
  assumes "verify_sshsig lib armored m = Inr k"
    and "\<forall>s d. ed25519 lib (pk_raw k) s d \<longrightarrow> (\<exists>(ns, alg, msg) \<in> made. d = signed_data ns alg (digest_of alg msg))"
    and "\<forall>(ns, alg, msg) \<in> made. length ns < 2 ^ 32 \<and> length alg < 2 ^ 32"
    and "inj_on (\<lambda>(alg, msg). (alg, digest_of alg msg)) (insert (''sha512'', m) (insert (''sha256'', m) ((\<lambda>(ns, alg, msg). (alg, msg)) ` made)))"
  shows "\<exists>alg. (NAMESPACE, alg, m) \<in> made \<and> alg \<in> {''sha512'', ''sha256''}"
proof -
  obtain p where pp: "parse_sshsig armored = Inr p" using assms(1) by (auto simp: verify_sshsig_def res_bind_Inr_iff)
  with assms(1) have p: "ps_namespace p = NAMESPACE" "ps_algorithm p = ''sha512'' \<or> ps_algorithm p = ''sha256''" "k = ps_key p"
    and e: "ed25519 lib (pk_raw k) (ps_signature p) (signed_data NAMESPACE (ps_algorithm p) (digest_of (ps_algorithm p) m))"
    by (auto simp: verify_sshsig_def Let_def digest_of_def split: if_splits)
  obtain ns alg msg where s: "(ns, alg, msg) \<in> made"
    "signed_data NAMESPACE (ps_algorithm p) (digest_of (ps_algorithm p) m) = signed_data ns alg (digest_of alg msg)"
    using assms(2) e by blast
  have d: "length (digest_of a x) < 2 ^ 32" for a x by (simp add: digest_of_def length_sha512)
  have "length ns < 2 ^ 32" "length alg < 2 ^ 32" using s(1) assms(3) by auto
  from signed_data_inj [OF s(2) _ this(1) _ this(2) d d] p(2)
  have eq: "NAMESPACE = ns" "ps_algorithm p = alg" "digest_of (ps_algorithm p) m = digest_of alg msg"
    by (auto simp: NAMESPACE_def)
  have "(alg, m) = (alg, msg)"
    by (rule inj_onD [OF assms(4)]) (use eq p(2) s(1) in force)+
  with s(1) eq p(2) show ?thesis by auto
qed

definition sample_lib :: "bytes \<Rightarrow> sshlib" where
  "sample_lib m = \<lparr>ed25519 = (\<lambda>raw s d. raw = pk_raw sample_key \<and> d = signed_data NAMESPACE ''sha512'' (sha512 m)), shown = (\<lambda>b. b)\<rparr>"

lemma sample_sig_verifies: "verify_sshsig (sample_lib m) (sample_sig ''sha512'') m = Inr (sample_key\<lparr>pk_comment := []\<rparr>)"
  using sshsig_roundtrip_witness by (simp add: verify_sshsig_def sample_lib_def)

theorem signature_is_for_this_message_witness:
  "\<exists>k. verify_sshsig (sample_lib ''attest'') (sample_sig ''sha512'') ''attest'' = Inr k \<and>
     (\<exists>alg. (NAMESPACE, alg, ''attest'') \<in> {(NAMESPACE, ''sha512'', ''attest'')})"
proof -
  have "\<exists>alg. (NAMESPACE, alg, ''attest'') \<in> {(NAMESPACE, ''sha512'', ''attest'')} \<and> alg \<in> {''sha512'', ''sha256''}"
    by (rule signature_is_for_this_message [OF sample_sig_verifies])
      (simp_all add: sample_lib_def digest_of_def NAMESPACE_def inj_on_def)
  then show ?thesis using sample_sig_verifies by blast
qed

end
