(* ===== verification/Attest_Trust.thy ===== *)
theory Attest_Trust
  imports Attest Sshsig_Theorems
begin

text \<open>
  What the replay of the trust log guarantees: every root, key, cosignature and void it believes is
  backed by a statement that a trusted root signed (the chain of roots ends in the pinned ones), and
  revocations are permanent: a longer log never widens what a key may sign.
\<close>

section \<open>The effect of one statement\<close>

definition endorsed :: "sshlib \<Rightarrow> string \<Rightarrow> statement \<Rightarrow> bool" where
  "endorsed lib tenant s \<longleftrightarrow>
     (\<exists>m k. statement_message tenant s = Inr m \<and> verify_sshsig lib (st_signature s) m = Inr k \<and> pk_id k = st_signed_by s)"

lemma statement_bad_Nil:
  "statement_bad lib tenant st e p s = [] \<longleftrightarrow>
     st_seq s = e \<and> st_prev s = p \<and> st_signed_by s \<in> fst ` set (ts_roots st) \<and> endorsed lib tenant s \<and>
     (\<exists>m. statement_message tenant s = Inr m \<and> statement_hash m (st_signed_by s) (st_signature s) = st_hash s)"
  by (auto simp: statement_bad_def endorsed_def Let_def split: sum.splits if_splits)

lemma fst_set_update: "fst ` set (AList.update k v al) = insert k (fst ` set al)"
  using dom_update [of k v al] by (simp add: dom_map_of_conv_image_fst [symmetric])

lemma apply_statement_cases:
  assumes "apply_statement st s = (st', b)"
  obtains (same) "st' = st"
  | (add_root) key where "st_kind s = ''root_add''" "pk_id key = st_key_id s" "pk_wf key" "st_key_id s \<notin> fst ` set (ts_roots st)"
      "st' = st\<lparr>ts_roots := AList.update (st_key_id s) key (ts_roots st)\<rparr>" "b = []"
  | (add_key) key n where "st_kind s = ''key''" "pk_id key = st_key_id s" "pk_wf key" "st_arg s = Some n" "1 \<le> n"
      "st_key_id s \<notin> fst ` set (ts_keys st)"
      "st' = st\<lparr>ts_keys := AList.update (st_key_id s) \<lparr>ka_key = key, ka_from_seq = n, ka_stmt_seq = st_seq s, ka_cutoff = None\<rparr> (ts_keys st)\<rparr>" "b = []"
  | (revoke) auth n where "st_kind s = ''revoke''" "map_of (ts_keys st) (st_key_id s) = Some auth" "st_arg s = Some n" "0 \<le> n"
      "st' = st\<lparr>ts_keys := AList.update (st_key_id s)
         (auth\<lparr>ka_cutoff := Some (case ka_cutoff auth of None \<Rightarrow> n | Some c \<Rightarrow> min c n)\<rparr>) (ts_keys st)\<rparr>" "b = []"
  | (void) n where "st_kind s = ''void''" "st_signed_by s = st_key_id s" "st_arg s = Some n" "1 \<le> n"
      "st' = st\<lparr>ts_voids := AList.update n (opt_text (st_subject_hash s)) (ts_voids st)\<rparr>" "b = []"
  | (cosign) n where "st_kind s = ''cosign''" "st_signed_by s = st_key_id s" "st_arg s = Some n" "1 \<le> n"
      "st' = st\<lparr>ts_cosigns := ts_cosigns st @ [\<lparr>co_checkpoint_seq = n, co_checkpoint_hash = opt_text (st_subject_hash s),
         co_root_id = st_key_id s, co_stmt_seq = st_seq s\<rparr>]\<rparr>" "b = []"
proof -
  consider "st_kind s = ''key'' \<or> st_kind s = ''root_add''" | "st_kind s = ''revoke''" | "st_kind s = ''void''"
    | "st_kind s = ''cosign''" | "st_kind s \<notin> {''key'', ''root_add'', ''revoke'', ''void'', ''cosign''}" by auto
  then show ?thesis
  proof cases
    case 1
    show ?thesis
    proof (cases "st' = st")
      case False
      then obtain key where k: "parse_public_key (opt_text (st_pubkey s)) = Inr key" "pk_id key = st_key_id s"
        using assms 1 by (auto simp: apply_statement_def apply_key_def split: if_splits sum.splits)
      have wf: "pk_wf key" by (rule parse_public_key_wf [OF k(1)])
      show ?thesis
      proof (cases "st_kind s = ''root_add''")
        case True
        then show ?thesis using add_root [of key] False k wf assms
          by (auto simp: apply_statement_def apply_key_def split: if_splits)
      next
        case nr: False
        then show ?thesis using add_key [of key] False k wf assms 1
          by (auto simp: apply_statement_def apply_key_def split: if_splits option.splits)
      qed
    qed (rule same)
  next
    case 2
    then show ?thesis using assms same revoke
      by (auto simp: apply_statement_def apply_revoke_def split: if_splits option.splits)
  next
    case 3
    then show ?thesis using assms same void by (auto simp: apply_statement_def split: if_splits option.splits)
  next
    case 4
    then show ?thesis using assms same cosign by (auto simp: apply_statement_def split: if_splits option.splits)
  next
    case 5
    then show ?thesis using assms same by (auto simp: apply_statement_def)
  qed
qed

text \<open>A step either changes nothing that is believed, or applies a statement that counts.\<close>

definition same_trust :: "trust_state \<Rightarrow> trust_state \<Rightarrow> bool" where
  "same_trust st st' \<longleftrightarrow> ts_roots st' = ts_roots st \<and> ts_keys st' = ts_keys st \<and> ts_cosigns st' = ts_cosigns st \<and> ts_voids st' = ts_voids st"

lemma trust_step_cases:
  assumes "trust_step lib tenant (st, e, p) s = (st', e', p')"
  shows "e' = st_seq s + 1 \<and> p' = st_hash s \<and>
    (same_trust st st' \<or>
     statement_bad lib tenant st e p s = [] \<and> same_trust (fst (apply_statement st s)) st')"
proof -
  have "same_trust (fst (apply_statement st s)) st'" if "statement_bad lib tenant st e p s = []"
    using assms that by (auto simp: trust_step_def Let_def same_trust_def split: prod.splits)
  moreover have "same_trust st st'" if "statement_bad lib tenant st e p s \<noteq> []"
    using assms that by (auto simp: trust_step_def Let_def same_trust_def)
  ultimately show ?thesis using assms by (auto simp: trust_step_def Let_def split: prod.splits)
qed

section \<open>Everything believed goes back to a pinned root\<close>

inductive trusted_root :: "sshlib \<Rightarrow> string \<Rightarrow> (string \<times> public_key) list \<Rightarrow> statement list \<Rightarrow> string \<Rightarrow> bool"
  for lib tenant pinned stmts where
  pinned: "i \<in> fst ` set pinned \<Longrightarrow> trusted_root lib tenant pinned stmts i"
| added: "s \<in> set stmts \<Longrightarrow> st_kind s = ''root_add'' \<Longrightarrow> trusted_root lib tenant pinned stmts (st_signed_by s) \<Longrightarrow>
    endorsed lib tenant s \<Longrightarrow> trusted_root lib tenant pinned stmts (st_key_id s)"

text \<open>A statement of the log that a trusted root signed.\<close>

definition backed :: "sshlib \<Rightarrow> string \<Rightarrow> (string \<times> public_key) list \<Rightarrow> statement list \<Rightarrow> statement \<Rightarrow> bool" where
  "backed lib tenant pinned stmts s \<longleftrightarrow>
     s \<in> set stmts \<and> endorsed lib tenant s \<and> trusted_root lib tenant pinned stmts (st_signed_by s)"

definition grant_backed :: "sshlib \<Rightarrow> string \<Rightarrow> (string \<times> public_key) list \<Rightarrow> statement list \<Rightarrow> string \<Rightarrow> int \<Rightarrow> bool" where
  "grant_backed lib tenant pinned stmts i n \<longleftrightarrow>
     (\<exists>s. backed lib tenant pinned stmts s \<and> st_kind s = ''key'' \<and> st_key_id s = i \<and> st_arg s = Some n)"

definition cutoff_backed :: "sshlib \<Rightarrow> string \<Rightarrow> (string \<times> public_key) list \<Rightarrow> statement list \<Rightarrow> string \<Rightarrow> int \<Rightarrow> bool" where
  "cutoff_backed lib tenant pinned stmts i c \<longleftrightarrow>
     (\<exists>s. backed lib tenant pinned stmts s \<and> st_kind s = ''revoke'' \<and> st_key_id s = i \<and> st_arg s = Some c)"

definition key_backed :: "sshlib \<Rightarrow> string \<Rightarrow> (string \<times> public_key) list \<Rightarrow> statement list \<Rightarrow> string \<Rightarrow> key_auth \<Rightarrow> bool" where
  "key_backed lib tenant pinned stmts i a \<longleftrightarrow>
     pk_id (ka_key a) = i \<and> pk_wf (ka_key a) \<and> 1 \<le> ka_from_seq a \<and> grant_backed lib tenant pinned stmts i (ka_from_seq a) \<and>
     (\<forall>c. ka_cutoff a = Some c \<longrightarrow> cutoff_backed lib tenant pinned stmts i c)"

definition believed :: "sshlib \<Rightarrow> string \<Rightarrow> (string \<times> public_key) list \<Rightarrow> statement list \<Rightarrow> trust_state \<Rightarrow> bool" where
  "believed lib tenant pinned stmts st \<longleftrightarrow>
     (\<forall>i \<in> fst ` set (ts_roots st). trusted_root lib tenant pinned stmts i) \<and>
     (\<forall>(i, a) \<in> set (ts_keys st). key_backed lib tenant pinned stmts i a) \<and>
     (\<forall>(n, h) \<in> set (ts_voids st). \<exists>s. backed lib tenant pinned stmts s \<and> st_kind s = ''void'' \<and> st_arg s = Some n \<and>
        opt_text (st_subject_hash s) = h) \<and>
     (\<forall>c \<in> set (ts_cosigns st). \<exists>s. backed lib tenant pinned stmts s \<and> st_kind s = ''cosign'' \<and> st_arg s = Some (co_checkpoint_seq c) \<and>
        opt_text (st_subject_hash s) = co_checkpoint_hash c \<and> st_signed_by s = co_root_id c)"

lemma believed_same: "same_trust st st' \<Longrightarrow> believed lib tenant pinned stmts st \<Longrightarrow> believed lib tenant pinned stmts st'"
  by (simp add: same_trust_def believed_def)

lemma believed_apply:
  assumes "believed lib tenant pinned stmts st" "backed lib tenant pinned stmts s" "apply_statement st s = (st', b)"
  shows "believed lib tenant pinned stmts st'"
  using assms(3)
proof (cases rule: apply_statement_cases)
  case same
  with assms(1) show ?thesis by simp
next
  case (add_root key)
  with assms(2) have "trusted_root lib tenant pinned stmts (st_key_id s)"
    by (auto simp: backed_def intro: added)
  with add_root assms(1) show ?thesis by (simp add: believed_def fst_set_update)
next
  case (add_key key n)
  let ?a = "\<lparr>ka_key = key, ka_from_seq = n, ka_stmt_seq = st_seq s, ka_cutoff = None\<rparr>"
  have "key_backed lib tenant pinned stmts (st_key_id s) ?a"
    using add_key assms(2) unfolding key_backed_def grant_backed_def by auto
  with assms(1) have "\<forall>(i, a) \<in> set (ts_keys st'). key_backed lib tenant pinned stmts i a"
    using add_key(7) by (auto simp: believed_def dest!: set_update_cases)
  with assms(1) add_key(7) show ?thesis by (simp add: believed_def)
next
  case (revoke auth n)
  have m: "(st_key_id s, auth) \<in> set (ts_keys st)" using revoke(2) by (rule map_of_SomeD)
  define auth' where "auth' = auth\<lparr>ka_cutoff := Some (case ka_cutoff auth of None \<Rightarrow> n | Some c \<Rightarrow> min c n)\<rparr>"
  have keys: "\<forall>(i, a) \<in> set (ts_keys st'). (i, a) = (st_key_id s, auth') \<or> (i, a) \<in> set (ts_keys st)"
    using revoke(5) by (auto simp: auth'_def dest: set_update_cases)
  have old: "key_backed lib tenant pinned stmts i a" if "(i, a) \<in> set (ts_keys st)" for i a
    using assms(1) that by (auto simp: believed_def)
  have cut: "cutoff_backed lib tenant pinned stmts (st_key_id s) c" if "ka_cutoff auth' = Some c" for c
  proof (cases "c = n")
    case True
    with assms(2) revoke show ?thesis unfolding cutoff_backed_def by blast
  next
    case False
    with that have "ka_cutoff auth = Some c" by (auto simp: auth'_def min_def split: option.splits if_splits)
    with old [OF m] show ?thesis by (simp add: key_backed_def)
  qed
  have "key_backed lib tenant pinned stmts (st_key_id s) auth'"
    using cut old [OF m] unfolding key_backed_def by (simp add: auth'_def)
  with old keys have "\<forall>(i, a) \<in> set (ts_keys st'). key_backed lib tenant pinned stmts i a" by auto
  with assms(1) revoke(5) show ?thesis by (simp add: believed_def)
next
  case (void n)
  have "\<forall>(k, h) \<in> set (ts_voids st'). (k, h) = (n, opt_text (st_subject_hash s)) \<or> (k, h) \<in> set (ts_voids st)"
    using void(5) by (auto dest: set_update_cases)
  with assms(1,2) void show ?thesis unfolding believed_def by fastforce
next
  case (cosign n)
  with assms show ?thesis by (auto simp: believed_def)
qed

lemma believed_fold:
  assumes "set ss \<subseteq> set stmts" "believed lib tenant pinned stmts st"
  shows "believed lib tenant pinned stmts (fst (foldl (trust_step lib tenant) (st, e, p) ss))"
  using assms
proof (induction ss arbitrary: st e p)
  case (Cons s ss)
  obtain st' e' p' where step: "trust_step lib tenant (st, e, p) s = (st', e', p')" by (metis prod.exhaust)
  have "believed lib tenant pinned stmts st'"
  proof (cases "same_trust st st'")
    case True
    with Cons.prems(2) show ?thesis by (rule believed_same [rotated])
  next
    case False
    with trust_step_cases [OF step] have ok: "statement_bad lib tenant st e p s = []" and sm: "same_trust (fst (apply_statement st s)) st'" by auto
    have "backed lib tenant pinned stmts s"
      using ok Cons.prems by (auto simp: statement_bad_Nil backed_def believed_def)
    from believed_apply [OF Cons.prems(2) this prod.collapse [symmetric]] show ?thesis by (rule believed_same [OF sm])
  qed
  then show ?case using Cons by (simp add: step)
qed simp

lemma believed_init: "believed lib tenant pinned stmts (trust_init pinned)"
  by (auto simp: believed_def trust_init_def intro: trusted_root.pinned)

lemma evaluate_trust_believed:
  "believed lib tenant pinned stmts (evaluate_trust lib tenant pinned stmts)"
  unfolding evaluate_trust_def by (rule believed_fold [OF _ believed_init]) simp

text \<open>C14: nothing is trusted without a root: every root the trust log adds descends from a pinned one through
  statements signed by roots trusted before; every key that may sign is a well-formed Ed25519 key that such a root
  authorized, from exactly the position its statement names; every cutoff, void and cosignature was
  signed by a trusted root with exactly its number and hash. Whoever can only write the database can add nothing.\<close>

theorem trust_backed:
  "(\<forall>i \<in> fst ` set (ts_roots (evaluate_trust lib tenant pinned stmts)). trusted_root lib tenant pinned stmts i) \<and>
   (\<forall>(i, a) \<in> set (ts_keys (evaluate_trust lib tenant pinned stmts)). key_backed lib tenant pinned stmts i a) \<and>
   (\<forall>(n, h) \<in> set (ts_voids (evaluate_trust lib tenant pinned stmts)). \<exists>s. backed lib tenant pinned stmts s \<and>
      st_kind s = ''void'' \<and> st_arg s = Some n \<and> opt_text (st_subject_hash s) = h) \<and>
   (\<forall>c \<in> set (ts_cosigns (evaluate_trust lib tenant pinned stmts)). \<exists>s. backed lib tenant pinned stmts s \<and>
      st_kind s = ''cosign'' \<and> st_arg s = Some (co_checkpoint_seq c) \<and>
      opt_text (st_subject_hash s) = co_checkpoint_hash c \<and> st_signed_by s = co_root_id c)"
  using evaluate_trust_believed [of lib tenant pinned stmts] unfolding believed_def by blast

section \<open>Revocation is permanent\<close>

definition may_sign :: "trust_state \<Rightarrow> string \<Rightarrow> int \<Rightarrow> bool" where
  "may_sign st i n \<longleftrightarrow>
     (case map_of (ts_keys st) i of
        None \<Rightarrow> False
      | Some a \<Rightarrow> ka_from_seq a \<le> n \<and> (case ka_cutoff a of None \<Rightarrow> True | Some c \<Rightarrow> n \<le> c))"

definition narrows :: "trust_state \<Rightarrow> trust_state \<Rightarrow> bool" where
  "narrows st st' \<longleftrightarrow>
     (\<forall>i. i \<in> fst ` set (ts_keys st) \<longrightarrow> i \<in> fst ` set (ts_keys st') \<and> (\<forall>n. may_sign st' i n \<longrightarrow> may_sign st i n)) \<and>
     fst ` set (ts_roots st) \<subseteq> fst ` set (ts_roots st') \<and> (\<exists>cs. ts_cosigns st' = ts_cosigns st @ cs)"

lemma narrows_refl: "same_trust st st' \<Longrightarrow> narrows st st'"
  by (simp add: same_trust_def narrows_def may_sign_def)

lemma narrows_trans:
  assumes "narrows a b" "narrows b c"
  shows "narrows a c"
proof -
  have "\<exists>cs. ts_cosigns b = ts_cosigns a @ cs" "\<exists>ds. ts_cosigns c = ts_cosigns b @ ds"
    using assms by (simp_all only: narrows_def)
  then obtain cs ds where "ts_cosigns b = ts_cosigns a @ cs" "ts_cosigns c = ts_cosigns b @ ds" by blast
  then have "ts_cosigns c = ts_cosigns a @ (cs @ ds)" by simp
  then have "\<exists>es. ts_cosigns c = ts_cosigns a @ es" by (rule exI)
  moreover have "i \<in> fst ` set (ts_keys c) \<and> (\<forall>n. may_sign c i n \<longrightarrow> may_sign a i n)" if "i \<in> fst ` set (ts_keys a)" for i
    using that assms unfolding narrows_def by simp
  moreover have "fst ` set (ts_roots a) \<subseteq> fst ` set (ts_roots c)"
    using assms unfolding narrows_def by (elim conjE) (rule subset_trans)
  ultimately show ?thesis unfolding narrows_def by simp
qed

lemma narrows_apply:
  assumes "apply_statement st s = (st', b)"
  shows "narrows st st'"
  using assms
proof (cases rule: apply_statement_cases)
  case same
  then show ?thesis by (simp add: narrows_refl same_trust_def)
next
  case (add_root key)
  then show ?thesis by (auto simp: narrows_def may_sign_def fst_set_update)
next
  case (add_key key n)
  have "may_sign st' i n = may_sign st i n" if "i \<in> fst ` set (ts_keys st)" for i n
  proof -
    have "i \<noteq> st_key_id s" using that add_key(6) by blast
    then show ?thesis by (simp add: may_sign_def map_of_update add_key(7))
  qed
  with add_key show ?thesis by (simp add: narrows_def fst_set_update)
next
  case (revoke auth n)
  have "may_sign st' i m \<Longrightarrow> may_sign st i m" for i m
    using revoke(2,5) by (auto simp: may_sign_def map_of_update split: option.splits if_splits)
  with revoke show ?thesis by (simp add: narrows_def fst_set_update)
next
  case (void n)
  then show ?thesis by (simp add: narrows_def may_sign_def)
next
  case (cosign n)
  then show ?thesis by (simp add: narrows_def may_sign_def)
qed

lemma narrows_fold: "narrows st (fst (foldl (trust_step lib tenant) (st, e, p) ss))"
proof (induction ss arbitrary: st e p)
  case (Cons s ss)
  obtain st' e' p' where step: "trust_step lib tenant (st, e, p) s = (st', e', p')" by (metis prod.exhaust)
  have "narrows st st'"
    using trust_step_cases [OF step] narrows_refl narrows_apply [OF prod.collapse [symmetric]] narrows_trans by blast
  with Cons [of st' e' p'] show ?case by (simp add: step narrows_trans)
qed (simp add: narrows_refl same_trust_def)

lemma sort_key_append:
  assumes "\<forall>x \<in> set xs. \<forall>y \<in> set ys. f x \<le> f y"
  shows "sort_key f (xs @ ys) = sort_key f xs @ sort_key f ys"
proof (rule properties_for_sort_key)
  show "sorted (map f (sort_key f xs @ sort_key f ys))" using assms by (auto simp: sorted_append)
  show "filter (\<lambda>x. f k = f x) (sort_key f xs @ sort_key f ys) = filter (\<lambda>x. f k = f x) (xs @ ys)" for k
    using sort_key_stable [of f "f k"] by (simp add: eq_commute)
qed simp

lemma evaluate_trust_append:
  assumes "\<forall>x \<in> set stmts. \<forall>y \<in> set newer. st_seq x \<le> st_seq y"
  shows "narrows (evaluate_trust lib tenant pinned stmts) (evaluate_trust lib tenant pinned (stmts @ newer))"
proof -
  obtain st e p where s: "foldl (trust_step lib tenant) (trust_init pinned, 1, GENESIS) (sort_key st_seq stmts) = (st, e, p)"
    by (metis prod.exhaust)
  then show ?thesis using narrows_fold [of st lib tenant e p "sort_key st_seq newer"]
    by (simp add: evaluate_trust_def sort_key_append [OF assms])
qed

text \<open>C15: revocation is permanent: whatever statements follow in the log (signed by whomever), a key that was
  authorized can afterwards sign at no position at which it could not sign before; no trusted root and no
  cosignature is ever lost.\<close>

theorem revocation_permanent:
  assumes "\<forall>x \<in> set stmts. \<forall>y \<in> set newer. st_seq x \<le> st_seq y"
    and "i \<in> fst ` set (ts_keys (evaluate_trust lib tenant pinned stmts))"
    and "may_sign (evaluate_trust lib tenant pinned (stmts @ newer)) i n"
  shows "may_sign (evaluate_trust lib tenant pinned stmts) i n \<and>
    fst ` set (ts_roots (evaluate_trust lib tenant pinned stmts)) \<subseteq> fst ` set (ts_roots (evaluate_trust lib tenant pinned (stmts @ newer)))"
  using evaluate_trust_append [OF assms(1), of lib tenant pinned] assms(2,3) unfolding narrows_def by blast

section \<open>A small trust log\<close>

definition lib_for :: "(public_key \<times> bytes) list \<Rightarrow> sshlib" where
  "lib_for ms = \<lparr>ed25519 = (\<lambda>raw s d. list_ex (\<lambda>(k, m). raw = pk_raw k \<and> d = signed_data NAMESPACE ''sha512'' (sha512 m)) ms), shown = (\<lambda>b. b)\<rparr>"

definition sig_of :: "public_key \<Rightarrow> string" where
  "sig_of k = armored_text [b64encode (sig_blob (pk_blob k) NAMESPACE ''sha512'' (replicate 64 (CHR ''s'')))]"

lemma sig_of_parse:
  assumes "pk_wf k"
  shows "parse_sshsig (sig_of k) = Inr \<lparr>ps_key = k\<lparr>pk_comment := []\<rparr>, ps_namespace = NAMESPACE,
      ps_algorithm = ''sha512'', ps_signature = replicate 64 (CHR ''s'')\<rparr>"
    "normalize_signature (sig_of k) = sig_of k"
  using parse_armored [OF assms, of "replicate 64 (CHR ''s'')" NAMESPACE "''sha512''"
      "[b64encode (sig_blob (pk_blob k) NAMESPACE ''sha512'' (replicate 64 (CHR ''s'')))]"]
  by (simp_all add: sig_of_def NAMESPACE_def)

lemma sig_of_verifies: "pk_wf k \<Longrightarrow> (k, m) \<in> set ms \<Longrightarrow> verify_sshsig (lib_for ms) (sig_of k) m = Inr (k\<lparr>pk_comment := []\<rparr>)"
  by (force simp: verify_sshsig_def sig_of_parse lib_for_def list_ex_iff)

definition mint_key :: public_key where
  "mint_key = (let blob = wire_string ''ssh-ed25519'' @ wire_string (replicate 32 (CHR ''m''))
     in \<lparr>pk_blob = blob, pk_raw = replicate 32 (CHR ''m''), pk_id = fingerprint blob, pk_comment = ''mint''\<rparr>)"

lemma mint_key_wf: "pk_wf mint_key"
  by (simp add: mint_key_def pk_wf_def Let_def)

lemma parse_mint_key: "parse_public_key (pk_text mint_key) = Inr mint_key"
  by (rule parse_key_line [OF mint_key_wf]) (simp add: mint_key_def graphic_def Let_def)

definition grant_text :: string where
  "grant_text = trust_text ''key'' ''operator'' (pk_id mint_key) (Some 1) None 1 GENESIS"

definition grant :: statement where
  "grant = \<lparr>st_seq = 1, st_kind = ''key'', st_key_id = pk_id mint_key, st_pubkey = Some (pk_text mint_key), st_arg = Some 1,
     st_subject_hash = None, st_prev = GENESIS, st_signed_by = pk_id sample_key, st_signature = sig_of sample_key,
     st_hash = statement_hash grant_text (pk_id sample_key) (sig_of sample_key)\<rparr>"

definition pinned_root :: "(string \<times> public_key) list" where
  "pinned_root = [(pk_id sample_key, sample_key)]"

lemma grant_message: "statement_message ''operator'' grant = Inr grant_text"
  by (simp add: statement_message_def grant_def trust_message_def TRUST_KINDS_def opt_text_def grant_text_def)

lemma grant_trust:
  assumes "(sample_key, grant_text) \<in> set ms"
  shows "ts_keys (evaluate_trust (lib_for ms) ''operator'' pinned_root [grant]) =
      [(pk_id mint_key, \<lparr>ka_key = mint_key, ka_from_seq = 1, ka_stmt_seq = 1, ka_cutoff = None\<rparr>)]"
    "ts_problems (evaluate_trust (lib_for ms) ''operator'' pinned_root [grant]) = []"
    "ts_voids (evaluate_trust (lib_for ms) ''operator'' pinned_root [grant]) = []"
    "ts_cosigns (evaluate_trust (lib_for ms) ''operator'' pinned_root [grant]) = []"
proof -
  let ?t = "trust_init pinned_root"
  have "verify_sshsig (lib_for ms) (st_signature grant) grant_text = Inr (sample_key\<lparr>pk_comment := []\<rparr>)"
    using sig_of_verifies [OF sample_key_wf assms] by (simp add: grant_def)
  then have e: "endorsed (lib_for ms) ''operator'' grant"
    using grant_message by (simp add: endorsed_def) (simp add: grant_def)
  have b: "statement_bad (lib_for ms) ''operator'' ?t 1 GENESIS grant = []"
    using e grant_message by (simp add: statement_bad_Nil) (simp add: grant_def trust_init_def pinned_root_def)
  have a: "apply_statement ?t grant = (?t\<lparr>ts_keys := [(pk_id mint_key, \<lparr>ka_key = mint_key, ka_from_seq = 1, ka_stmt_seq = 1, ka_cutoff = None\<rparr>)]\<rparr>, [])"
    by (simp add: apply_statement_def apply_key_def grant_def opt_text_def parse_mint_key trust_init_def) (simp add: pk_text_def)
  show "ts_keys (evaluate_trust (lib_for ms) ''operator'' pinned_root [grant]) =
      [(pk_id mint_key, \<lparr>ka_key = mint_key, ka_from_seq = 1, ka_stmt_seq = 1, ka_cutoff = None\<rparr>)]"
    "ts_problems (evaluate_trust (lib_for ms) ''operator'' pinned_root [grant]) = []"
    "ts_voids (evaluate_trust (lib_for ms) ''operator'' pinned_root [grant]) = []"
    "ts_cosigns (evaluate_trust (lib_for ms) ''operator'' pinned_root [grant]) = []"
    by (simp_all add: evaluate_trust_def trust_step_def b a Let_def) (simp_all add: trust_init_def)
qed

theorem trust_backed_witness:
  "\<exists>a. ts_keys (evaluate_trust (lib_for [(sample_key, grant_text)]) ''operator'' pinned_root [grant]) = [(pk_id mint_key, a)] \<and>
     key_backed (lib_for [(sample_key, grant_text)]) ''operator'' pinned_root [grant] (pk_id mint_key) a"
  using grant_trust(1) [of "[(sample_key, grant_text)]"]
    trust_backed [of "lib_for [(sample_key, grant_text)]" "''operator''" pinned_root "[grant]"] by simp

theorem revocation_permanent_witness:
  "may_sign (evaluate_trust (lib_for [(sample_key, grant_text)]) ''operator'' pinned_root [grant]) (pk_id mint_key) 5"
proof -
  have k: "ts_keys (evaluate_trust (lib_for [(sample_key, grant_text)]) ''operator'' pinned_root [grant]) =
      [(pk_id mint_key, \<lparr>ka_key = mint_key, ka_from_seq = 1, ka_stmt_seq = 1, ka_cutoff = None\<rparr>)]"
    by (rule grant_trust(1)) simp
  have "may_sign (evaluate_trust (lib_for [(sample_key, grant_text)]) ''operator'' pinned_root [grant]) (pk_id mint_key) 5 \<and>
      fst ` set (ts_roots (evaluate_trust (lib_for [(sample_key, grant_text)]) ''operator'' pinned_root [grant])) \<subseteq>
      fst ` set (ts_roots (evaluate_trust (lib_for [(sample_key, grant_text)]) ''operator'' pinned_root ([grant] @ [])))"
    by (rule revocation_permanent) (simp_all add: k may_sign_def)
  then show ?thesis by blast
qed

end
