(* ===== verification/Attest_Log.thy ===== *)
theory Attest_Log
  imports Attest_Trust
begin

text \<open>
  What the check of the attestation log guarantees: an attestation that counts was signed, over its exact
  text, by a key authorized at its position and names the truth; a log without problems is gapless and
  hash-linked (the contract of \<open>hash_chain\<close>, interpreted here), so its head fixes it; and a signature
  report that calls a block or a receipt signed rests on such an attestation.
\<close>

section \<open>One attestation\<close>

definition subject_true :: "string \<Rightarrow> truth \<Rightarrow> attestation \<Rightarrow> bool" where
  "subject_true tenant truth a \<longleftrightarrow>
     (if at_kind a = ''block'' then
        (\<exists>h. parse_block_subject (at_subject a) = Some h \<and> tr_block_hash truth h = Some (at_subject_hash a))
      else if at_kind a = ''receipt'' then
        at_subject a = ''eo:sha256:'' @ at_subject_hash a \<and> tr_receipt_problem truth (at_subject a) \<in> {None, Some []}
      else (\<exists>n hd th tip. parse_checkpoint_subject (at_subject a) = Some (n, hd, th, tip) \<and> n = at_seq a - 1 \<and>
        at_subject_hash a = checkpoint_hash tenant n hd th tip \<and> (th \<noteq> 0 \<longrightarrow> tr_block_hash truth th = Some tip)))"

definition valid_att :: "sshlib \<Rightarrow> string \<Rightarrow> trust_state \<Rightarrow> truth \<Rightarrow> attestation \<Rightarrow> bool" where
  "valid_att lib tenant trust truth a \<longleftrightarrow>
     (\<exists>m k. att_message tenant a = Inr m \<and> attestation_hash m (at_key_id a) (at_signature a) = at_hash a \<and>
        verify_sshsig lib (at_signature a) m = Inr k \<and> pk_id k = at_key_id a) \<and>
     may_sign trust (at_key_id a) (at_seq a) \<and> subject_true tenant truth a"

definition voided_att :: "string \<Rightarrow> trust_state \<Rightarrow> attestation \<Rightarrow> bool" where
  "voided_att tenant trust a \<longleftrightarrow>
     (\<exists>m. att_message tenant a = Inr m \<and> attestation_hash m (at_key_id a) (at_signature a) = at_hash a) \<and>
     map_of (ts_voids trust) (at_seq a) = Some (at_hash a)"

lemma check_key_Nil:
  "check_key lib trust a m = [] \<longleftrightarrow>
     may_sign trust (at_key_id a) (at_seq a) \<and> (\<exists>k. verify_sshsig lib (at_signature a) m = Inr k \<and> pk_id k = at_key_id a)"
  by (auto simp: check_key_def may_sign_def not_less split: option.splits sum.splits)

lemma check_subject_Nil: "check_subject tenant a by_seq truth = [] \<Longrightarrow> subject_true tenant truth a"
  by (auto simp: check_subject_def subject_true_def check_checkpoint_def split: option.splits if_splits)

lemma att_bad_valid:
  "att_bad lib tenant trust truth l a = ([], False) \<Longrightarrow>
     at_seq a = al_expected l \<and> at_prev a = al_last l \<and> valid_att lib tenant trust truth a"
  by (auto simp: att_bad_def Let_def valid_att_def check_key_Nil dest!: check_subject_Nil
      split: sum.splits if_splits option.splits)

lemma att_bad_voided:
  "att_bad lib tenant trust truth l a = (b, True) \<Longrightarrow> voided_att tenant trust a"
  "att_bad lib tenant trust truth l a = ([], True) \<Longrightarrow> at_seq a = al_expected l \<and> at_prev a = al_last l"
  by (auto simp: att_bad_def Let_def voided_att_def split: sum.splits if_splits option.splits)

section \<open>The loop\<close>

definition run :: "sshlib \<Rightarrow> string \<Rightarrow> trust_state \<Rightarrow> truth \<Rightarrow> attestation list \<Rightarrow> att_loop" where
  "run lib tenant trust truth xs = foldl (att_step lib tenant trust truth) att_init xs"

lemma run_Nil [simp]: "run lib tenant trust truth [] = att_init"
  by (simp add: run_def)

lemma run_snoc [simp]: "run lib tenant trust truth (xs @ [a]) = att_step lib tenant trust truth (run lib tenant trust truth xs) a"
  by (simp add: run_def)

lemma run_position:
  "al_expected (run lib tenant trust truth xs) = (if xs = [] then 1 else at_seq (last xs) + 1)"
  "al_last (run lib tenant trust truth xs) = (if xs = [] then GENESIS else at_hash (last xs))"
  "as_head_hash (al_summary (run lib tenant trust truth xs)) = (if xs = [] then GENESIS else at_hash (last xs))"
  by (cases xs rule: rev_cases; simp add: att_init_def summary_init_def att_step_def Let_def split: prod.split)+

lemma run_by_seq: "al_by_seq (run lib tenant trust truth xs) n = Some a \<Longrightarrow> a \<in> set xs \<and> at_seq a = n"
  by (induction xs rule: rev_induct)
    (auto simp: att_init_def att_step_def Let_def split: prod.splits if_splits)

text \<open>What the summary vouches for.\<close>

definition vouched :: "sshlib \<Rightarrow> string \<Rightarrow> trust_state \<Rightarrow> truth \<Rightarrow> attestation list \<Rightarrow> att_summary \<Rightarrow> bool" where
  "vouched lib tenant trust truth xs sm \<longleftrightarrow>
     (\<forall>h \<in> as_blocks sm. \<exists>n. map_of (as_block_seq sm) h = Some n) \<and>
     (\<forall>h n. map_of (as_block_seq sm) h = Some n \<longrightarrow>
        (\<exists>a \<in> set xs. at_seq a = n \<and> at_kind a = ''block'' \<and> valid_att lib tenant trust truth a \<and>
           parse_block_subject (at_subject a) = Some h \<and> map_of (as_block_subject_hash sm) h = Some (at_subject_hash a))) \<and>
     (\<forall>i \<in> as_receipts sm. \<exists>n. map_of (as_receipt_seq sm) i = Some n) \<and>
     (\<forall>i n. map_of (as_receipt_seq sm) i = Some n \<longrightarrow>
        (\<exists>a \<in> set xs. at_seq a = n \<and> at_kind a = ''receipt'' \<and> valid_att lib tenant trust truth a \<and> at_subject a = i)) \<and>
     (\<forall>n c. map_of (as_valid_checkpoints sm) n = Some c \<longrightarrow>
        (\<exists>a \<in> set xs. at_seq a = n \<and> at_kind a = ''checkpoint'' \<and> valid_att lib tenant trust truth a \<and> c = n - 1))"

lemma valid_att_kind: "valid_att lib tenant trust truth a \<Longrightarrow> at_kind a \<in> {''block'', ''receipt'', ''checkpoint''}"
  by (auto simp: valid_att_def att_message_def attestation_message_def ATTEST_KINDS_def split: if_splits)

lemma vouched_mono: "vouched lib tenant trust truth xs sm \<Longrightarrow> set xs \<subseteq> set ys \<Longrightarrow> vouched lib tenant trust truth ys sm"
  unfolding vouched_def by (meson subsetD)

lemma vouched_add:
  assumes v: "vouched lib tenant trust truth xs sm" and a: "a \<in> set xs" "valid_att lib tenant trust truth a"
  shows "vouched lib tenant trust truth xs (summary_add a sm)"
proof -
  have st: "subject_true tenant truth a" using a(2) by (simp add: valid_att_def)
  consider "at_kind a = ''block''" | "at_kind a = ''receipt''" | "at_kind a = ''checkpoint''" using valid_att_kind [OF a(2)] by auto
  then show ?thesis
  proof cases
    case 1
    with st obtain h where h: "parse_block_subject (at_subject a) = Some h" by (auto simp: subject_true_def)
    show ?thesis using v a 1 unfolding vouched_def summary_add_def Let_def by (auto simp: h map_of_update)
  next
    case 2
    then show ?thesis using v a unfolding vouched_def summary_add_def Let_def by (auto simp: map_of_update)
  next
    case 3
    with st obtain n hd th tip where h: "parse_checkpoint_subject (at_subject a) = Some (n, hd, th, tip)" "n = at_seq a - 1"
      by (auto simp: subject_true_def)
    show ?thesis using v a 3 unfolding vouched_def summary_add_def Let_def by (auto simp: h map_of_update)
  qed
qed

lemma vouched_same:
  assumes "vouched lib tenant trust truth xs sm"
    "as_blocks sm' = as_blocks sm" "as_block_seq sm' = as_block_seq sm" "as_block_subject_hash sm' = as_block_subject_hash sm"
    "as_receipts sm' = as_receipts sm" "as_receipt_seq sm' = as_receipt_seq sm" "as_valid_checkpoints sm' = as_valid_checkpoints sm"
  shows "vouched lib tenant trust truth xs sm'"
  using assms by (simp add: vouched_def)

lemma run_vouched: "vouched lib tenant trust truth xs (al_summary (run lib tenant trust truth xs))"
proof (induction xs rule: rev_induct)
  case Nil
  show ?case by (simp add: vouched_def att_init_def summary_init_def)
next
  case (snoc a xs)
  let ?l = "run lib tenant trust truth xs"
  have v: "vouched lib tenant trust truth (xs @ [a]) (al_summary ?l)" by (rule vouched_mono [OF snoc]) auto
  obtain b v0 where b: "att_bad lib tenant trust truth ?l a = (b, v0)" by (cases "att_bad lib tenant trust truth ?l a") auto
  show ?case
  proof (cases "b = [] \<and> \<not> v0 \<and> al_seen ?l (at_kind a, at_subject a) = None")
    case True
    then have "valid_att lib tenant trust truth a" using b att_bad_valid by simp
    with v have "vouched lib tenant trust truth (xs @ [a]) (summary_add a (al_summary ?l))" by (intro vouched_add) simp_all
    then show ?thesis
      using True b by (simp add: att_step_def Let_def) (erule vouched_same, simp_all)
  next
    case False
    then show ?thesis
      using b by (auto simp: att_step_def Let_def split: option.splits intro!: vouched_same [OF v])
  qed
qed

lemma cosign_fold:
  "vouched lib tenant trust truth xs sm \<Longrightarrow> vouched lib tenant trust truth xs (snd (foldl (cosign_step by_seq) (ps, sm) cs))"
  "as_head_hash (snd (foldl (cosign_step by_seq) (ps, sm) cs)) = as_head_hash sm"
  "as_voided (snd (foldl (cosign_step by_seq) (ps, sm) cs)) = as_voided sm"
proof (induction cs arbitrary: ps sm)
  case (Cons c cs)
  {
    case 1
    then have "vouched lib tenant trust truth xs (snd (cosign_step by_seq (ps, sm) c))"
      by (auto simp: cosign_step_def split: option.splits elim: vouched_same)
    then show ?case using Cons.IH(1) by (metis foldl_Cons prod.collapse)
  next
    case 2
    show ?case using Cons.IH(2) by (auto simp: cosign_step_def split: option.splits)
  next
    case 3
    show ?case using Cons.IH(3) by (auto simp: cosign_step_def split: option.splits)
  }
qed simp_all

lemma cosign_fold_problems:
  "fst (foldl (cosign_step by_seq) (ps, sm) cs) = [] \<Longrightarrow>
     ps = [] \<and> (\<forall>c \<in> set cs. \<exists>t. by_seq (co_checkpoint_seq c) = Some t \<and> at_kind t = ''checkpoint'' \<and> at_hash t = co_checkpoint_hash c)"
proof (induction cs arbitrary: ps sm)
  case (Cons c cs)
  obtain ps' sm' where s: "cosign_step by_seq (ps, sm) c = (ps', sm')" by fastforce
  with Cons have n: "ps' = []" "\<forall>c \<in> set cs. \<exists>t. by_seq (co_checkpoint_seq c) = Some t \<and> at_kind t = ''checkpoint'' \<and> at_hash t = co_checkpoint_hash c"
    by simp_all
  with s show ?case by (auto simp: cosign_step_def split: if_splits option.splits)
qed simp

lemma cosigned_fold:
  "c \<in> set (as_cosigned_checkpoints (snd (foldl (cosign_step by_seq) (ps, sm) cs))) \<Longrightarrow>
     c \<in> set (as_cosigned_checkpoints sm) \<or>
     (\<exists>co \<in> set cs. \<exists>t. by_seq c = Some t \<and> co_checkpoint_seq co = c \<and> at_kind t = ''checkpoint'' \<and> at_hash t = co_checkpoint_hash co)"
proof (induction cs arbitrary: ps sm)
  case (Cons co cs)
  obtain ps' sm' where s: "cosign_step by_seq (ps, sm) co = (ps', sm')" by fastforce
  from Cons have "c \<in> set (as_cosigned_checkpoints sm') \<or>
     (\<exists>co \<in> set cs. \<exists>t. by_seq c = Some t \<and> co_checkpoint_seq co = c \<and> at_kind t = ''checkpoint'' \<and> at_hash t = co_checkpoint_hash co)"
    by (simp add: s)
  with s show ?case by (auto simp: cosign_step_def split: if_splits option.splits)
qed simp

lemma run_cosigned: "as_cosigned_checkpoints (al_summary (run lib tenant trust truth xs)) = []"
proof (induction xs rule: rev_induct)
  case (snoc a xs)
  have "as_cosigned_checkpoints (summary_add a sm) = as_cosigned_checkpoints sm" for sm
    by (simp add: summary_add_def Let_def split: option.split)
  with snoc show ?case by (simp add: att_step_def Let_def split: prod.split)
qed (simp add: att_init_def summary_init_def)

section \<open>What counts as signed\<close>

lemma evaluate_vouched: "vouched lib tenant trust truth rows (snd (evaluate_attestations lib tenant trust rows truth))"
proof -
  have "vouched lib tenant trust truth (sort_key at_seq rows) (snd (evaluate_attestations lib tenant trust rows truth))"
    unfolding evaluate_attestations_def Let_def run_def [symmetric] by (rule cosign_fold(1) [OF run_vouched])
  then show ?thesis by (rule vouched_mono) simp
qed

text \<open>C16: only valid signatures count: every block or receipt that the check counts as signed has an attestation in
  the log whose stored hash is right, whose key the trust log authorizes at exactly that position, whose
  signature verifies over exactly its text under that key, and which names the hash the block really has (an
  intact receipt, respectively).\<close>

theorem attested_is_valid:
  assumes "evaluate_attestations lib tenant trust rows truth = (ps, sm)"
  shows "(\<forall>h \<in> as_blocks sm. \<exists>a \<in> set rows. at_kind a = ''block'' \<and> valid_att lib tenant trust truth a \<and>
      parse_block_subject (at_subject a) = Some h \<and> tr_block_hash truth h = Some (at_subject_hash a)) \<and>
    (\<forall>i \<in> as_receipts sm. \<exists>a \<in> set rows. at_kind a = ''receipt'' \<and> valid_att lib tenant trust truth a \<and>
      at_subject a = i \<and> i = ''eo:sha256:'' @ at_subject_hash a \<and> tr_receipt_problem truth i \<in> {None, Some []})"
proof -
  have v: "vouched lib tenant trust truth rows sm"
    using evaluate_vouched [of lib tenant trust truth rows] assms by simp
  have "\<exists>a \<in> set rows. at_kind a = ''block'' \<and> valid_att lib tenant trust truth a \<and>
      parse_block_subject (at_subject a) = Some h \<and> tr_block_hash truth h = Some (at_subject_hash a)" if "h \<in> as_blocks sm" for h
  proof -
    from that v obtain n where "map_of (as_block_seq sm) h = Some n" unfolding vouched_def by blast
    with v obtain a where a: "a \<in> set rows" "at_kind a = ''block''" "valid_att lib tenant trust truth a" "parse_block_subject (at_subject a) = Some h"
      unfolding vouched_def by blast
    then have "tr_block_hash truth h = Some (at_subject_hash a)" by (simp add: valid_att_def subject_true_def)
    with a show ?thesis by blast
  qed
  moreover have "\<exists>a \<in> set rows. at_kind a = ''receipt'' \<and> valid_att lib tenant trust truth a \<and>
      at_subject a = i \<and> i = ''eo:sha256:'' @ at_subject_hash a \<and> tr_receipt_problem truth i \<in> {None, Some []}" if "i \<in> as_receipts sm" for i
  proof -
    from that v obtain n where "map_of (as_receipt_seq sm) i = Some n" unfolding vouched_def by blast
    with v obtain a where a: "a \<in> set rows" "at_kind a = ''receipt''" "valid_att lib tenant trust truth a" "at_subject a = i"
      unfolding vouched_def by blast
    then have "i = ''eo:sha256:'' @ at_subject_hash a \<and> tr_receipt_problem truth i \<in> {None, Some []}"
      by (auto simp: valid_att_def subject_true_def)
    with a show ?thesis by blast
  qed
  ultimately show ?thesis by blast
qed

section \<open>Clean logs\<close>

text \<open>What the table's \<open>CHECK\<close> constraints guarantee of a stored row (\<open>Attest_Store\<close> proves that they do).\<close>

definition key_id_ok :: "string \<Rightarrow> bool" where
  "key_id_ok i \<longleftrightarrow> length i = 50 \<and> starts_with ''SHA256:'' i \<and> list_all (\<lambda>c. b64_val c \<noteq> None) (drop 7 i)"

definition att_row_ok :: "attestation \<Rightarrow> bool" where
  "att_row_ok a \<longleftrightarrow> signed_at_strict (at_signed_at a) \<and> key_id_ok (at_key_id a) \<and> normalize_signature (at_signature a) = at_signature a"

definition att_text :: "string \<Rightarrow> attestation \<Rightarrow> bytes" where
  "att_text tenant a =
     attestation_text (at_kind a) tenant (at_subject a) (at_subject_hash a) (at_seq a) (at_prev a) (at_signed_at a)
       @ LF @ at_key_id a @ LF @ at_signature a"

definition att_ok :: "string \<Rightarrow> attestation \<Rightarrow> bool" where
  "att_ok tenant a \<longleftrightarrow> att_row_ok a \<and>
     (\<exists>m. att_message tenant a = Inr m \<and> attestation_hash m (at_key_id a) (at_signature a) = at_hash a)"

lemma att_message_Inr:
  "att_message tenant a = Inr m \<longleftrightarrow>
     at_kind a \<in> set ATTEST_KINDS \<and> match_hex64 (at_subject_hash a) \<and> match_hex64 (at_prev a) \<and> match_signed_at (at_signed_at a) \<and>
     CHR ''|'' \<notin> set (at_subject a) \<and> CHR 0x0A \<notin> set (at_subject a) \<and> CHR 0x0D \<notin> set (at_subject a) \<and>
     m = attestation_text (at_kind a) tenant (at_subject a) (at_subject_hash a) (at_seq a) (at_prev a) (at_signed_at a)"
  by (auto simp: att_message_def attestation_message_def clean_def res_bind_def)

lemma signed_at_strict_length: "signed_at_strict s \<Longrightarrow> length s = 20"
  by (auto simp: signed_at_strict_def dest!: list_all2_lengthD)

lemma b64_val_LF: "b64_val (CHR 0x0A) = None"
  by (simp add: b64_val_def)

lemma key_id_no_LF: "key_id_ok i \<Longrightarrow> CHR 0x0A \<notin> set i"
proof
  assume k: "key_id_ok i" and "CHR 0x0A \<in> set i"
  then have "CHR 0x0A \<in> set (take 7 i) \<or> CHR 0x0A \<in> set (drop 7 i)" by (metis Un_iff append_take_drop_id set_append)
  moreover have "take 7 i = ''SHA256:''" using k by (simp add: key_id_ok_def starts_with_def eval_nat_numeral)
  ultimately show False using k b64_val_LF by (auto simp: key_id_ok_def list_all_iff)
qed

lemma kind_no_sep: "k \<in> set ATTEST_KINDS \<Longrightarrow> CHR ''|'' \<notin> set k"
  by (auto simp: ATTEST_KINDS_def)

lemma attestation_text_inj:
  assumes "attestation_text k t s h n p d @ x = attestation_text k' t s' h' n' p' d' @ x'"
    "k \<in> set ATTEST_KINDS" "k' \<in> set ATTEST_KINDS" "match_hex64 h" "match_hex64 h'" "match_hex64 p" "match_hex64 p'"
    "CHR ''|'' \<notin> set s" "CHR ''|'' \<notin> set s'" "length d = length d'"
  shows "k = k' \<and> s = s' \<and> h = h' \<and> n = n' \<and> p = p' \<and> d = d' \<and> x = x'"
  using assms(1) kind_no_sep [OF assms(2)] kind_no_sep [OF assms(3)] sep_not_match_hex64 [OF assms(4)] sep_not_match_hex64 [OF assms(5)]
    sep_not_match_hex64 [OF assms(6)] sep_not_match_hex64 [OF assms(7)] assms(8-)
  by (simp add: attestation_text_def tenant_part_def delim_split str_int_inj append_eq_length)

definition att_shape :: "attestation \<Rightarrow> bool" where
  "att_shape a \<longleftrightarrow> at_kind a \<in> set ATTEST_KINDS \<and> match_hex64 (at_subject_hash a) \<and> match_hex64 (at_prev a) \<and>
     CHR ''|'' \<notin> set (at_subject a) \<and> signed_at_strict (at_signed_at a) \<and> key_id_ok (at_key_id a)"

lemma att_text_fields:
  assumes "att_shape a" "att_shape b" "att_text tenant a = att_text tenant b" "at_hash a = at_hash b"
  shows "a = b"
proof -
  have l: "length (at_signed_at a) = length (at_signed_at b)"
    using assms(1,2) by (simp add: att_shape_def signed_at_strict_length)
  have f: "at_kind a = at_kind b \<and> at_subject a = at_subject b \<and> at_subject_hash a = at_subject_hash b \<and> at_seq a = at_seq b \<and>
      at_prev a = at_prev b \<and> at_signed_at a = at_signed_at b \<and> LF @ at_key_id a @ LF @ at_signature a = LF @ at_key_id b @ LF @ at_signature b"
    using assms(1-3) l by (intro attestation_text_inj) (auto simp: att_shape_def att_text_def)
  then have "at_key_id a = at_key_id b \<and> at_signature a = at_signature b"
    using key_id_no_LF assms(1,2) by (simp add: LF_def att_shape_def delim_split)
  then show ?thesis using f assms(4) by (auto intro: attestation.equality)
qed

lemma att_ok_shape: "att_ok tenant a \<Longrightarrow> att_shape a"
  by (auto simp: att_ok_def att_row_ok_def att_shape_def att_message_Inr)

lemma att_ok_hash: "att_ok tenant a \<Longrightarrow> at_hash a = sha256_hex (att_text tenant a)"
  by (auto simp: att_ok_def att_row_ok_def att_message_Inr att_text_def attestation_hash_def)

interpretation att: hash_chain GENESIS at_seq at_prev at_hash "att_text tenant" "att_ok tenant" for tenant
  by unfold_locales (auto simp: att_ok_hash intro: att_text_fields att_ok_shape)

lemma run_clean:
  assumes "al_problems (run lib tenant trust truth xs) = []"
  shows "\<forall>a \<in> set xs. valid_att lib tenant trust truth a \<or> voided_att tenant trust a"
    "list_all att_row_ok xs \<Longrightarrow> att.linked tenant 1 GENESIS xs"
proof -
  have "(\<forall>a \<in> set xs. valid_att lib tenant trust truth a \<or> voided_att tenant trust a) \<and>
      (list_all att_row_ok xs \<longrightarrow> att.linked tenant 1 GENESIS xs)"
    using assms
  proof (induction xs rule: rev_induct)
    case (snoc a xs)
    let ?l = "run lib tenant trust truth xs"
    obtain b v where b: "att_bad lib tenant trust truth ?l a = (b, v)" by fastforce
    from snoc.prems b have "al_problems ?l = []" and n: "b = []"
      by (auto simp: att_step_def Let_def split: option.splits if_splits)
    note IH = snoc.IH [OF this(1)]
    have "at_seq a = al_expected ?l \<and> at_prev a = al_last ?l \<and> (valid_att lib tenant trust truth a \<or> voided_att tenant trust a)"
      using b n att_bad_valid [of lib tenant trust truth ?l a] att_bad_voided [of lib tenant trust truth ?l a] by (cases v) auto
    then have pos: "at_seq a = al_expected ?l" "at_prev a = al_last ?l"
      and va: "valid_att lib tenant trust truth a \<or> voided_att tenant trust a" by blast+
    have ok: "att_ok tenant a" if "att_row_ok a"
      using va that by (auto simp: att_ok_def valid_att_def voided_att_def)
    have len: "at_seq (last xs) = int (length xs)" if "xs \<noteq> []" "att.linked tenant 1 GENESIS xs"
      using att.linked_snoc_pos [of tenant 1 GENESIS "butlast xs" "last xs"] that by (cases xs) simp_all
    have "att.linked tenant 1 GENESIS (xs @ [a])" if "list_all att_row_ok (xs @ [a])"
    proof (cases "xs = []")
      case True
      with pos ok that show ?thesis by (simp add: att_init_def)
    next
      case False
      with pos ok that IH len show ?thesis by (simp add: run_position att.linked_append)
    qed
    with va IH show ?case by simp
  qed simp
  then show "\<forall>a \<in> set xs. valid_att lib tenant trust truth a \<or> voided_att tenant trust a"
    "list_all att_row_ok xs \<Longrightarrow> att.linked tenant 1 GENESIS xs" by blast+
qed

text \<open>A clean signing log is complete: if the check reports nothing, every row is a valid attestation or one that a
  root voided under its exact hash, every cosignature of a root names a checkpoint the log holds, and the
  rows as stored form one gapless, hash-linked log from the first attestation on.\<close>

lemma clean_attestation_log:
  assumes "fst (evaluate_attestations lib tenant trust rows truth) = []" "list_all att_row_ok rows"
  shows "(\<forall>a \<in> set rows. valid_att lib tenant trust truth a \<or> voided_att tenant trust a) \<and>
    (\<forall>c \<in> set (ts_cosigns trust). \<exists>a \<in> set rows. at_seq a = co_checkpoint_seq c \<and> at_kind a = ''checkpoint'' \<and> at_hash a = co_checkpoint_hash c) \<and>
    att.linked tenant 1 GENESIS (sort_key at_seq rows)"
proof -
  let ?l = "run lib tenant trust truth (sort_key at_seq rows)"
  have p: "al_problems ?l = []" and c: "\<forall>c \<in> set (ts_cosigns trust). \<exists>t. al_by_seq ?l (co_checkpoint_seq c) = Some t \<and>
      at_kind t = ''checkpoint'' \<and> at_hash t = co_checkpoint_hash c"
    using cosign_fold_problems assms(1) unfolding evaluate_attestations_def Let_def run_def by blast+
  have "\<exists>a \<in> set rows. at_seq a = co_checkpoint_seq c \<and> at_kind a = ''checkpoint'' \<and> at_hash a = co_checkpoint_hash c"
    if "c \<in> set (ts_cosigns trust)" for c
    using c that run_by_seq [of lib tenant trust truth "sort_key at_seq rows"] by fastforce
  then show ?thesis using run_clean [OF p] assms(2) by (simp add: list_all_iff)
qed

text \<open>The head of the signing log fixes the log: two clean logs that end in the same attestation hash are the
  same log, row by row, whatever the trust state and the truth they were checked against; so an attestation that
  was removed, replaced or reordered after somebody noted the head cannot stay unnoticed (barring a collision
  of SHA-256 on the rows' texts).\<close>

lemma attestation_head_fixes_log:
  assumes "fst (evaluate_attestations lib tenant trust rows truth) = []" "fst (evaluate_attestations lib tenant trust' rows' truth') = []"
    "list_all att_row_ok rows" "list_all att_row_ok rows'" "rows \<noteq> []" "rows' \<noteq> []"
    "as_head_hash (snd (evaluate_attestations lib tenant trust rows truth)) =
       as_head_hash (snd (evaluate_attestations lib tenant trust' rows' truth'))"
    "inj_on sha256 (att_text tenant ` (set rows \<union> set rows'))"
  shows "sort_key at_seq rows = sort_key at_seq rows'"
proof -
  have head: "as_head_hash (snd (evaluate_attestations lib tenant tr rs th)) = at_hash (last (sort_key at_seq rs))" if "rs \<noteq> []" for rs tr th
  proof -
    have "sort_key at_seq rs \<noteq> []" using that by (metis set_empty set_sort)
    then show ?thesis
      unfolding evaluate_attestations_def Let_def run_def [symmetric] cosign_fold(2) by (simp add: run_position)
  qed
  have l: "att.linked tenant 1 GENESIS (sort_key at_seq rows)" "att.linked tenant 1 GENESIS (sort_key at_seq rows')"
    using clean_attestation_log [OF assms(1,3)] clean_attestation_log [OF assms(2,4)] by blast+
  have ne: "sort_key at_seq rows \<noteq> []" "sort_key at_seq rows' \<noteq> []" using assms(5,6) by (metis set_empty set_sort)+
  then obtain es e fs f where es: "sort_key at_seq rows = es @ [e]" and fs: "sort_key at_seq rows' = fs @ [f]"
    by (metis rev_exhaust)
  have "at_hash e = at_hash f" using assms(7) head [OF assms(5)] head [OF assms(6)] es fs by simp
  moreover have "set (es @ [e]) = set rows" "set (fs @ [f]) = set rows'" by (metis es set_sort, metis fs set_sort)
  ultimately have "es @ [e] = fs @ [f]"
    using l assms(8) unfolding es fs by (intro att.same_head_same_log [of tenant]) simp_all
  then show ?thesis by (simp add: es fs)
qed

section \<open>Signature reports\<close>

lemma note_unsigned_parts [simp]: "sr_parts (note_unsigned mode txt subject r) = sr_parts r"
  by (simp add: note_unsigned_def)

lemma finish_report_parts [simp]: "sr_parts (finish_report r) = sr_parts r"
  by (simp add: finish_report_def Let_def)

lemma foldl_parts: "(\<And>r p. sr_parts (h r p) = sr_parts r) \<Longrightarrow> sr_parts (foldl h r ps) = sr_parts r"
  by (induction ps arbitrary: r) simp_all

lemma report_parts:
  assumes "p \<in> set (sr_parts (signature_report lib tenant mode roots stmts atts truth bh bhash rid))" "1 \<le> sp_level p"
  defines "sm \<equiv> snd (evaluate_attestations lib tenant (evaluate_trust lib tenant roots stmts) atts truth)"
  shows "(\<exists>h. bh = Some h \<and> p = fst (sig_block_part sm h bhash)) \<or>
    (sp_name p = ''receipt'' \<and> rid = Some (sp_subject p) \<and> sp_seq p = map_of (as_receipt_seq sm) (sp_subject p) \<and>
       sp_level p = attestation_level sm (map_of (as_receipt_seq sm) (sp_subject p)))"
proof -
  obtain ps where ev: "evaluate_attestations lib tenant (evaluate_trust lib tenant roots stmts) atts truth = (ps, sm)"
    unfolding sm_def by (metis prod.collapse)
  show ?thesis
    using assms(1,2)
    by (cases bh; cases rid)
      (auto simp: signature_report_def Let_def ev foldl_parts split_def opt_text_def split: if_splits)
qed

lemma level_none: "attestation_level sm None = 0"
  by (simp add: attestation_level_def)

lemma level_two:
  assumes "2 \<le> attestation_level sm (Some n)"
  shows "\<exists>c covered. c \<in> set (as_cosigned_checkpoints sm) \<and> map_of (as_valid_checkpoints sm) c = Some covered \<and> covered \<ge> n"
  using assms by (auto simp: attestation_level_def list_ex_iff split: if_splits option.splits)

lemma level_two_cosigned:
  assumes "distinct (map at_seq atts)" and ev: "evaluate_attestations lib tenant (evaluate_trust lib tenant roots stmts) atts truth = (ps, sm)"
    and "2 \<le> attestation_level sm (Some n)"
  shows "\<exists>cp \<in> set atts. at_kind cp = ''checkpoint'' \<and> valid_att lib tenant (evaluate_trust lib tenant roots stmts) truth cp \<and>
    n < at_seq cp \<and> (\<exists>s. backed lib tenant roots stmts s \<and> st_kind s = ''cosign'' \<and> st_arg s = Some (at_seq cp) \<and>
      opt_text (st_subject_hash s) = at_hash cp)"
proof -
  let ?t = "evaluate_trust lib tenant roots stmts"
  let ?l = "run lib tenant ?t truth (sort_key at_seq atts)"
  from level_two [OF assms(3)] obtain c covered where c: "c \<in> set (as_cosigned_checkpoints sm)"
    "map_of (as_valid_checkpoints sm) c = Some covered" "covered \<ge> n" by blast
  have "vouched lib tenant ?t truth atts sm" using evaluate_vouched [of lib tenant ?t truth atts] ev by simp
  then obtain a where a: "a \<in> set atts" "at_seq a = c" "at_kind a = ''checkpoint''" "valid_att lib tenant ?t truth a" "covered = c - 1"
    using c(2) unfolding vouched_def by blast
  have "sm = snd (foldl (cosign_step (al_by_seq ?l)) (al_problems ?l, al_summary ?l) (ts_cosigns ?t))"
    using ev unfolding evaluate_attestations_def Let_def run_def by (metis snd_conv)
  with c(1) cosigned_fold [of c "al_by_seq ?l" "al_problems ?l" "al_summary ?l" "ts_cosigns ?t"] run_cosigned
  obtain co t where co: "co \<in> set (ts_cosigns ?t)" "al_by_seq ?l c = Some t" "co_checkpoint_seq co = c" "at_hash t = co_checkpoint_hash co"
    by auto
  have "t \<in> set atts" "at_seq t = c" using run_by_seq [OF co(2)] by simp_all
  with a(1,2) assms(1) have "t = a" by (metis distinct_map inj_onD)
  moreover obtain s where "backed lib tenant roots stmts s" "st_kind s = ''cosign''" "st_arg s = Some (co_checkpoint_seq co)"
    "opt_text (st_subject_hash s) = co_checkpoint_hash co"
    using evaluate_trust_believed [of lib tenant roots stmts] co(1) unfolding believed_def by blast
  ultimately show ?thesis using a c(3) co by (intro bexI [OF _ a(1)]) auto
qed

text \<open>C17: a signature report can be taken at its word: a part of level one or two (a block or a receipt) has an attestation in
  the log that is valid under the pinned roots, for exactly the block height and hash asked about (or the receipt
  asked about); level two means, besides, that a later checkpoint of the log is valid and that a trusted root
  cosigned exactly that checkpoint's hash.\<close>

theorem signature_report_sound:
  assumes "p \<in> set (sr_parts (signature_report lib tenant mode roots stmts atts truth bh bhash rid))" "1 \<le> sp_level p"
    and "distinct (map at_seq atts)"
  shows "\<exists>a \<in> set atts. sp_seq p = Some (at_seq a) \<and> valid_att lib tenant (evaluate_trust lib tenant roots stmts) truth a \<and>
    (sp_name p = ''block'' \<and> at_kind a = ''block'' \<and> bh \<noteq> None \<and> parse_block_subject (at_subject a) = bh \<and> bhash \<in> {None, Some (at_subject_hash a)} \<or>
     sp_name p = ''receipt'' \<and> at_kind a = ''receipt'' \<and> rid = Some (at_subject a)) \<and>
    (2 \<le> sp_level p \<longrightarrow> (\<exists>cp \<in> set atts. at_kind cp = ''checkpoint'' \<and>
       valid_att lib tenant (evaluate_trust lib tenant roots stmts) truth cp \<and> at_seq a < at_seq cp \<and>
       (\<exists>s. backed lib tenant roots stmts s \<and> st_kind s = ''cosign'' \<and> st_arg s = Some (at_seq cp) \<and>
          opt_text (st_subject_hash s) = at_hash cp)))"
proof -
  let ?t = "evaluate_trust lib tenant roots stmts"
  obtain ps sm where ev: "evaluate_attestations lib tenant ?t atts truth = (ps, sm)" by fastforce
  have v: "vouched lib tenant ?t truth atts sm" using evaluate_vouched [of lib tenant ?t truth atts] ev by simp
  have two: "2 \<le> attestation_level sm (Some n) \<Longrightarrow> \<exists>cp \<in> set atts. at_kind cp = ''checkpoint'' \<and> valid_att lib tenant ?t truth cp \<and>
    n < at_seq cp \<and> (\<exists>s. backed lib tenant roots stmts s \<and> st_kind s = ''cosign'' \<and> st_arg s = Some (at_seq cp) \<and>
      opt_text (st_subject_hash s) = at_hash cp)" for n
    by (rule level_two_cosigned [OF assms(3) ev])
  from report_parts [OF assms(1,2)] ev consider
    (block) h where "bh = Some h" "p = fst (sig_block_part sm h bhash)"
  | (receipt) "sp_name p = ''receipt''" "rid = Some (sp_subject p)" "sp_seq p = map_of (as_receipt_seq sm) (sp_subject p)"
      "sp_level p = attestation_level sm (map_of (as_receipt_seq sm) (sp_subject p))" by auto
  then show ?thesis
  proof cases
    case block
    let ?seq = "map_of (as_block_seq sm) h"
    let ?differs = "?seq \<noteq> None \<and> bhash \<noteq> None \<and> map_of (as_block_subject_hash sm) h \<noteq> bhash"
    have "sp_level p = attestation_level sm (if ?differs then None else ?seq)" "sp_seq p = (if ?differs then None else ?seq)" "sp_name p = ''block''"
      using block(2) by (simp_all add: sig_block_part_def Let_def)
    with assms(2) obtain n where n: "\<not> ?differs" "?seq = Some n" "sp_seq p = Some n" "sp_level p = attestation_level sm (Some n)" "sp_name p = ''block''"
      by (cases ?seq) (auto simp: level_none split: if_splits)
    with v obtain a where a: "a \<in> set atts" "at_seq a = n" "at_kind a = ''block''" "valid_att lib tenant ?t truth a"
      "parse_block_subject (at_subject a) = Some h" "map_of (as_block_subject_hash sm) h = Some (at_subject_hash a)"
      unfolding vouched_def by blast
    with n two [of n] block(1) show ?thesis by (intro bexI [OF _ a(1)]) auto
  next
    case receipt
    with assms(2) obtain n where n: "map_of (as_receipt_seq sm) (sp_subject p) = Some n"
      by (cases "map_of (as_receipt_seq sm) (sp_subject p)") (auto simp: level_none)
    with v obtain a where a: "a \<in> set atts" "at_seq a = n" "at_kind a = ''receipt''" "valid_att lib tenant ?t truth a" "at_subject a = sp_subject p"
      unfolding vouched_def by blast
    with n two [of n] receipt show ?thesis by (intro bexI [OF _ a(1)]) auto
  qed
qed

section \<open>A small attestation log\<close>

lemma length_b64encode: "length (b64encode bs) = 4 * ((length bs + 2) div 3)"
proof (induction bs rule: b64encode.induct)
  case (4 x y z r)
  have "(length r + 2 + 3) div 3 = (length r + 2) div 3 + 1" by simp
  then have "(length (x # y # z # r) + 2) div 3 = (length r + 2) div 3 + 1" by (simp only: list.size add_Suc_right add_Suc Suc_eq_plus1 add.assoc one_add_one numeral_plus_numeral numeral_plus_one one_plus_numeral add_0_right semiring_norm)
  with "4.IH" [OF refl refl refl] show ?case by (simp only: b64encode.simps Let_def list.size) simp
qed (simp_all add: Let_def)

lemma fingerprint_key_id: "key_id_ok (fingerprint b)"
proof -
  obtain w where w: "b64encode (sha256 b) = w @ ''=''" "CHR ''='' \<notin> set w"
    using b64encode_one_pad [of "sha256 b"] by auto
  have "length (w @ ''='') = 44" unfolding w(1) [symmetric] by (simp add: length_b64encode)
  moreover have "list_all (\<lambda>c. b64_val c \<noteq> None) w"
    using b64_text_encode [of "sha256 b"] w by (auto simp: b64_text_def list_all_iff)
  moreover have "fingerprint b = ''SHA256:'' @ w"
    using w(2) by (cases "rev w") (auto simp: fingerprint_def w(1) dropWhile_append)
  ultimately show ?thesis by (simp add: key_id_ok_def starts_with_def)
qed

definition block_att_text :: string where
  "block_att_text = attestation_text ''block'' ''operator'' ''block:1'' zeros64 1 GENESIS ''2026-10-07T12:00:00Z''"

definition block_att :: attestation where
  "block_att = \<lparr>at_seq = 1, at_kind = ''block'', at_subject = ''block:1'', at_subject_hash = zeros64, at_prev = GENESIS,
     at_key_id = pk_id mint_key, at_signed_at = ''2026-10-07T12:00:00Z'', at_signature = sig_of mint_key,
     at_hash = attestation_hash block_att_text (pk_id mint_key) (sig_of mint_key)\<rparr>"

definition sample_att_lib :: sshlib where
  "sample_att_lib = lib_for [(sample_key, grant_text), (mint_key, block_att_text)]"

definition sample_truth :: truth where
  "sample_truth = dict_truth [(1, zeros64)] []"

definition sample_trust :: trust_state where
  "sample_trust = evaluate_trust sample_att_lib ''operator'' pinned_root [grant]"

lemma sample_trust_simps:
  "ts_keys sample_trust = [(pk_id mint_key, \<lparr>ka_key = mint_key, ka_from_seq = 1, ka_stmt_seq = 1, ka_cutoff = None\<rparr>)]"
  "ts_voids sample_trust = []" "ts_cosigns sample_trust = []"
  by (simp_all add: sample_trust_def sample_att_lib_def grant_trust)

lemma block_att_message: "att_message ''operator'' block_att = Inr block_att_text"
  by (simp add: att_message_Inr block_att_def ATTEST_KINDS_def GENESIS_def match_signed_at_def signed_at_strict_def
      is_digit_def block_att_text_def)

lemma block_att_row_ok: "att_row_ok block_att"
proof -
  have "pk_id mint_key = fingerprint (pk_blob mint_key)" using mint_key_wf by (simp add: pk_wf_def)
  then show ?thesis
    using fingerprint_key_id sig_of_parse(2) [OF mint_key_wf]
    by (simp add: att_row_ok_def block_att_def signed_at_strict_def is_digit_def)
qed

lemma block_att_bad: "att_bad sample_att_lib ''operator'' sample_trust sample_truth att_init block_att = ([], False)"
proof -
  have v: "verify_sshsig sample_att_lib (sig_of mint_key) block_att_text = Inr (mint_key\<lparr>pk_comment := []\<rparr>)"
    unfolding sample_att_lib_def by (rule sig_of_verifies [OF mint_key_wf]) simp
  have "check_key sample_att_lib sample_trust block_att block_att_text = []"
    using v by (simp add: check_key_Nil may_sign_def sample_trust_simps) (simp add: block_att_def)
  moreover have "parse_block_subject ''block:1'' = Some 1"
    by (simp add: parse_block_subject_def starts_with_def all_digits_def is_digit_def dec_value_def digit_val_def)
  then have "check_subject ''operator'' block_att (al_by_seq att_init) sample_truth = []"
    by (simp add: check_subject_def block_att_def sample_truth_def dict_truth_def)
  ultimately show ?thesis
    by (simp add: att_bad_def block_att_message sample_trust_simps Let_def) (simp add: block_att_def att_init_def)
qed

lemma block_att_step:
  "\<exists>sm. evaluate_attestations sample_att_lib ''operator'' sample_trust [block_att] sample_truth = ([], sm) \<and>
     as_blocks sm = {1} \<and> map_of (as_block_seq sm) 1 = Some 1 \<and> map_of (as_block_subject_hash sm) 1 = Some zeros64 \<and>
     as_cosigned_checkpoints sm = []"
proof -
  have "parse_block_subject ''block:1'' = Some 1"
    by (simp add: parse_block_subject_def starts_with_def all_digits_def is_digit_def dec_value_def digit_val_def)
  then show ?thesis
    by (simp add: evaluate_attestations_def sample_trust_simps att_step_def block_att_bad Let_def)
      (simp add: att_init_def summary_init_def summary_add_def block_att_def)
qed

theorem attested_is_valid_witness:
  "valid_att sample_att_lib ''operator'' sample_trust sample_truth block_att"
proof -
  obtain sm where sm: "evaluate_attestations sample_att_lib ''operator'' sample_trust [block_att] sample_truth = ([], sm)" "as_blocks sm = {1}"
    using block_att_step by blast
  have one: "1 \<in> as_blocks sm" by (simp add: sm(2))
  obtain a where "a \<in> set [block_att]" "valid_att sample_att_lib ''operator'' sample_trust sample_truth a"
    using attested_is_valid [OF sm(1)] one by blast
  then show ?thesis by simp
qed

lemma clean_attestation_log_witness:
  "att.linked ''operator'' 1 GENESIS [block_att]"
proof -
  have c: "fst (evaluate_attestations sample_att_lib ''operator'' sample_trust [block_att] sample_truth) = []"
    using block_att_step by auto
  have "att.linked ''operator'' 1 GENESIS (sort_key at_seq [block_att])"
    using clean_attestation_log [OF c] block_att_row_ok by (simp del: att.linked.simps)
  then show ?thesis by (simp del: att.linked.simps)
qed

lemma attestation_head_fixes_log_witness:
  "sort_key at_seq [block_att] = sort_key at_seq [block_att]"
proof -
  have c: "fst (evaluate_attestations sample_att_lib ''operator'' sample_trust [block_att] sample_truth) = []"
    using block_att_step by auto
  show ?thesis
    by (rule attestation_head_fixes_log [OF c c]) (simp_all add: block_att_row_ok)
qed

theorem signature_report_sound_witness:
  "\<exists>p \<in> set (sr_parts (signature_report sample_att_lib ''operator'' Mode_require pinned_root [grant] [block_att] sample_truth (Some 1) (Some zeros64) None)).
     sp_level p = 1 \<and> valid_att sample_att_lib ''operator'' sample_trust sample_truth block_att"
proof -
  obtain sm where sm: "evaluate_attestations sample_att_lib ''operator'' sample_trust [block_att] sample_truth = ([], sm)"
    "map_of (as_block_seq sm) 1 = Some 1" "map_of (as_block_subject_hash sm) 1 = Some zeros64" "as_cosigned_checkpoints sm = []"
    using block_att_step by blast
  let ?p = "fst (sig_block_part sm 1 (Some zeros64))"
  have ne: "pinned_root \<noteq> []" by (simp add: pinned_root_def)
  have p: "?p \<in> set (sr_parts (signature_report sample_att_lib ''operator'' Mode_require pinned_root [grant] [block_att] sample_truth (Some 1) (Some zeros64) None))"
    using sm(1) by (simp add: signature_report_def Let_def sample_trust_def [symmetric] foldl_parts split_def opt_text_def ne)
  have l: "sp_level ?p = 1"
    by (simp add: sig_block_part_def Let_def sm attestation_level_def)
  from signature_report_sound [OF p] l have "valid_att sample_att_lib ''operator'' (evaluate_trust sample_att_lib ''operator'' pinned_root [grant]) sample_truth block_att"
    by simp
  then show ?thesis using p l by (auto simp: sample_trust_def)
qed

end
