(* ===== verification/Attest_Store.thy ===== *)
theory Attest_Store
  imports Attest_Log Block_Store
begin

text \<open>
  The two signing tables of migration 7 (\<^verbatim>\<open>app/pg_schema.py\<close>) with their \<open>CHECK\<close> constraints, immutability
  triggers and store functions, and the store operations of \<^verbatim>\<open>app/pg_store.py\<close> on them. A statement of
  any session is a \<open>sig_step\<close>: the tables only ever grow, and stay gapless and hash-linked per tenant.
\<close>

section \<open>The tables\<close>

record sig_db =
  sd_atts :: "(string \<times> attestation) list"
  sd_stmts :: "(string \<times> statement) list"

definition tenant_atts :: "sig_db \<Rightarrow> string \<Rightarrow> attestation list" where
  "tenant_atts db t = sort_key at_seq (map snd (filter (\<lambda>r. fst r = t) (sd_atts db)))"

definition tenant_stmts :: "sig_db \<Rightarrow> string \<Rightarrow> statement list" where
  "tenant_stmts db t = sort_key st_seq (map snd (filter (\<lambda>r. fst r = t) (sd_stmts db)))"

text \<open>\<open>[|[:cntrl:]]\<close>, the control characters of ASCII.\<close>

definition bar_or_control :: "char \<Rightarrow> bool" where
  "bar_or_control c \<longleftrightarrow> c = CHR ''|'' \<or> (of_char c :: nat) < 32 \<or> (of_char c :: nat) = 127"

definition BTRIM :: "string list" where
  "BTRIM = ['' '', [CHR 0x0A], [CHR 0x0D], [CHR 0x09]]"

definition signature_check :: "string \<Rightarrow> bool" where
  "signature_check sig \<longleftrightarrow> 100 \<le> char_length sig \<and> char_length sig \<le> 4000 \<and>
     rev (strip_front BTRIM (rev (strip_front BTRIM sig))) = sig \<and> CHR 0x0D \<notin> set sig"

definition attestation_checks :: "string \<Rightarrow> attestation \<Rightarrow> bool" where
  "attestation_checks t a \<longleftrightarrow> t \<noteq> [] \<and> at_seq a \<ge> 1 \<and> at_kind a \<in> {''block'', ''receipt'', ''checkpoint''} \<and>
     1 \<le> char_length (at_subject a) \<and> char_length (at_subject a) \<le> 300 \<and> list_all (\<lambda>c. \<not> bar_or_control c) (at_subject a) \<and>
     hex64 (at_subject_hash a) \<and> hex64 (at_prev a) \<and> key_id_ok (at_key_id a) \<and> signed_at_strict (at_signed_at a) \<and>
     signature_check (at_signature a) \<and> hex64 (at_hash a)"

definition statement_checks :: "string \<Rightarrow> statement \<Rightarrow> bool" where
  "statement_checks t s \<longleftrightarrow> t \<noteq> [] \<and> st_seq s \<ge> 1 \<and> st_kind s \<in> {''key'', ''revoke'', ''root_add'', ''cosign'', ''void''} \<and>
     key_id_ok (st_key_id s) \<and>
     (case st_pubkey s of None \<Rightarrow> True | Some p \<Rightarrow> 50 \<le> char_length p \<and> char_length p \<le> 600) \<and>
     (case st_arg s of None \<Rightarrow> True | Some n \<Rightarrow> n \<ge> 0) \<and>
     (case st_subject_hash s of None \<Rightarrow> True | Some h \<Rightarrow> hex64 h) \<and>
     hex64 (st_prev s) \<and> key_id_ok (st_signed_by s) \<and> signature_check (st_signature s) \<and> hex64 (st_hash s)"

section \<open>The SQL functions\<close>

definition jarvis_attestation_message :: "string \<Rightarrow> string \<Rightarrow> string \<Rightarrow> string \<Rightarrow> int \<Rightarrow> string \<Rightarrow> string \<Rightarrow> string" where
  "jarvis_attestation_message kind tenant subject subject_hash signer_seq prev_hash signed_at =
     ''jarvis-attest|v1|'' @ kind @ ''|'' @ dec_nat (length tenant) @ '':'' @ tenant @ ''|'' @
     subject @ ''|'' @ subject_hash @ ''|'' @ str_int signer_seq @ ''|'' @ prev_hash @ ''|'' @ signed_at"

definition jarvis_trust_message :: "string \<Rightarrow> string \<Rightarrow> string \<Rightarrow> int option \<Rightarrow> string option \<Rightarrow> int \<Rightarrow> string \<Rightarrow> string" where
  "jarvis_trust_message kind tenant key_id arg subject_hash stmt_seq prev_hash =
     ''jarvis-trust|v1|'' @ kind @ ''|'' @ dec_nat (length tenant) @ '':'' @ tenant @ ''|'' @
     key_id @ ''|'' @ (case arg of None \<Rightarrow> [] | Some n \<Rightarrow> str_int n) @ ''|'' @
     (case subject_hash of None \<Rightarrow> [] | Some h \<Rightarrow> h) @ ''|'' @ str_int stmt_seq @ ''|'' @ prev_hash"

definition jarvis_signed_hash :: "string \<Rightarrow> string \<Rightarrow> string \<Rightarrow> string" where
  "jarvis_signed_hash message key_id signature = hex (sha256 (message @ [CHR 0x0A] @ key_id @ [CHR 0x0A] @ signature))"

text \<open>\<open>Chain_moved\<close> is SQLSTATE JA001.\<close>

datatype sig_error = Chain_moved string | Sig_sql sql_error

definition jarvis_store_attestation ::
  "session \<Rightarrow> string \<Rightarrow> string \<Rightarrow> string \<Rightarrow> string \<Rightarrow> int \<Rightarrow> string \<Rightarrow> string \<Rightarrow> string \<Rightarrow> string \<Rightarrow> sig_db
     \<Rightarrow> sig_error + (int \<times> string) \<times> sig_db" where
  "jarvis_store_attestation s t kind subject subject_hash signer_seq prev_hash key_id signed_at signature db =
     (if s_tenant s \<noteq> t then Inl (Sig_sql (Raised (''jarvis_store_attestation: tenant '' @ t @ '' is not the session tenant'')))
      else let rows = tenant_atts db t;
               (last_seq, last_hash) = (if rows = [] then (0, zeros64) else (at_seq (last rows), at_hash (last rows)))
           in if signer_seq \<noteq> last_seq + 1
              then Inl (Chain_moved (''signer_seq must be '' @ str_int (last_seq + 1) @ '' (the log head is '' @ str_int last_seq @ '')''))
              else if prev_hash \<noteq> last_hash
              then Inl (Chain_moved (''prev_hash is not the hash of attestation '' @ str_int last_seq))
              else let h = jarvis_signed_hash (jarvis_attestation_message kind t subject subject_hash signer_seq prev_hash signed_at) key_id signature;
                       row = \<lparr>at_seq = signer_seq, at_kind = kind, at_subject = subject, at_subject_hash = subject_hash,
                         at_prev = prev_hash, at_key_id = key_id, at_signed_at = signed_at, at_signature = signature, at_hash = h\<rparr>
                   in if \<not> attestation_checks t row then Inl (Sig_sql Check_violation)
                      else if signer_seq \<in> at_seq ` set rows then Inl (Sig_sql Unique_violation)
                      else Inr ((signer_seq, h), db\<lparr>sd_atts := sd_atts db @ [(t, row)]\<rparr>))"

definition jarvis_store_trust_statement ::
  "session \<Rightarrow> string \<Rightarrow> string \<Rightarrow> string \<Rightarrow> string option \<Rightarrow> int option \<Rightarrow> string option \<Rightarrow> int \<Rightarrow> string \<Rightarrow> string \<Rightarrow> string
     \<Rightarrow> sig_db \<Rightarrow> sig_error + (int \<times> string) \<times> sig_db" where
  "jarvis_store_trust_statement s t kind key_id pubkey arg subject_hash stmt_seq prev_hash signed_by signature db =
     (if s_tenant s \<noteq> t then Inl (Sig_sql (Raised (''jarvis_store_trust_statement: tenant '' @ t @ '' is not the session tenant'')))
      else let rows = tenant_stmts db t;
               (last_seq, last_hash) = (if rows = [] then (0, zeros64) else (st_seq (last rows), st_hash (last rows)))
           in if stmt_seq \<noteq> last_seq + 1
              then Inl (Chain_moved (''stmt_seq must be '' @ str_int (last_seq + 1) @ '' (the log head is '' @ str_int last_seq @ '')''))
              else if prev_hash \<noteq> last_hash
              then Inl (Chain_moved (''prev_hash is not the hash of statement '' @ str_int last_seq))
              else let h = jarvis_signed_hash (jarvis_trust_message kind t key_id arg subject_hash stmt_seq prev_hash) signed_by signature;
                       row = \<lparr>st_seq = stmt_seq, st_kind = kind, st_key_id = key_id, st_pubkey = pubkey, st_arg = arg,
                         st_subject_hash = subject_hash, st_prev = prev_hash, st_signed_by = signed_by, st_signature = signature, st_hash = h\<rparr>
                   in if \<not> statement_checks t row then Inl (Sig_sql Check_violation)
                      else if stmt_seq \<in> st_seq ` set rows then Inl (Sig_sql Unique_violation)
                      else Inr ((stmt_seq, h), db\<lparr>sd_stmts := sd_stmts db @ [(t, row)]\<rparr>))"

text \<open>Any \<open>UPDATE\<close>, \<open>DELETE\<close> or \<open>TRUNCATE\<close> that reaches a row raises.\<close>

datatype sig_table = Attestations | Trust_statements

definition jarvis_signatures_immutable :: "sig_table \<Rightarrow> sql_error" where
  "jarvis_signatures_immutable tbl =
     Raised ((case tbl of Attestations \<Rightarrow> ''attestations'' | Trust_statements \<Rightarrow> ''trust_statements'') @ '' is append-only'')"

definition sql_change_signatures :: "session \<Rightarrow> sig_table \<Rightarrow> (int \<Rightarrow> bool) \<Rightarrow> sig_db \<Rightarrow> sig_error + sig_db" where
  "sql_change_signatures s tbl seqs db =
     (let hit = (case tbl of
            Attestations \<Rightarrow> list_ex (\<lambda>a. seqs (at_seq a)) (tenant_atts db (s_tenant s))
          | Trust_statements \<Rightarrow> list_ex (\<lambda>x. seqs (st_seq x)) (tenant_stmts db (s_tenant s)))
      in if hit then Inl (Sig_sql (jarvis_signatures_immutable tbl)) else Inr db)"

inductive sig_step :: "session \<Rightarrow> sig_db \<Rightarrow> sig_db \<Rightarrow> bool" where
  step_attest: "jarvis_store_attestation s t kind subject subject_hash signer_seq prev_hash key_id signed_at signature db = Inr (r, db') \<Longrightarrow>
    sig_step s db db'"
| step_trust: "jarvis_store_trust_statement s t kind key_id pubkey arg subject_hash stmt_seq prev_hash signed_by signature db = Inr (r, db') \<Longrightarrow>
    sig_step s db db'"
| step_change: "sql_change_signatures s tbl seqs db = Inr db' \<Longrightarrow> sig_step s db db'"

inductive sig_reachable :: "sig_db \<Rightarrow> bool" where
  sig_init: "sig_reachable \<lparr>sd_atts = [], sd_stmts = []\<rparr>"
| sig_more: "sig_reachable db \<Longrightarrow> sig_step s db db' \<Longrightarrow> sig_reachable db'"

section \<open>The store operations\<close>

datatype store_exc = Attest_exc attest_error | Sig_exc sig_error

record attestation_body =
  ab_kind :: string
  ab_subject :: string
  ab_subject_hash :: string
  ab_signer_seq :: int
  ab_prev_hash :: string
  ab_key_id :: string
  ab_signed_at :: string
  ab_signature :: string

definition attest_exc :: "string \<Rightarrow> string \<Rightarrow> int \<Rightarrow> store_exc" where
  "attest_exc code message status = Attest_exc (Attest_error code message status)"

fun contained_in :: "string \<Rightarrow> string \<Rightarrow> bool" where
  "contained_in p [] \<longleftrightarrow> p = []"
| "contained_in p (c # s) \<longleftrightarrow> starts_with p (c # s) \<or> contained_in p s"

fun join_semicolon :: "string list \<Rightarrow> string" where
  "join_semicolon [] = []"
| "join_semicolon [x] = x"
| "join_semicolon (x # xs) = x @ ''; '' @ join_semicolon xs"

definition store_attestation ::
  "sshlib \<Rightarrow> (string \<times> public_key) list \<Rightarrow> truth \<Rightarrow> session \<Rightarrow> attestation_body \<Rightarrow> sig_db
     \<Rightarrow> store_exc + (int \<times> string \<times> string) \<times> sig_db" where
  "store_attestation lib roots truth s body db =
     (let sig = normalize_signature (ab_signature body); t = s_tenant s
      in if roots = [] then Inl (attest_exc ''no_trust_root''
           ''no trust root is configured (JARVIS_TRUST_ROOTS_FILE); nothing can be verified, so nothing is stored'' 409)
         else let trust = evaluate_trust lib t roots (tenant_stmts db t);
                  existing = tenant_atts db t;
                  last_seq = (if existing = [] then 0 else at_seq (last existing));
                  last_hash = (if existing = [] then GENESIS else at_hash (last existing));
                  seq = ab_signer_seq body; prev = ab_prev_hash body
              in if seq \<noteq> last_seq + 1 \<or> prev \<noteq> last_hash
                 then Inl (attest_exc ''attestation_out_of_order'' (''the next attestation is '' @ str_int (last_seq + 1) @ '' and must name '' @ last_hash @ '' as prev_hash'') 409)
                 else case attestation_message (ab_kind body) t (ab_subject body) (ab_subject_hash body) seq prev (ab_signed_at body) of
                   Inl e \<Rightarrow> Inl (Attest_exc e)
                 | Inr message \<Rightarrow>
                     let row = \<lparr>at_seq = seq, at_kind = ab_kind body, at_subject = ab_subject body, at_subject_hash = ab_subject_hash body,
                           at_prev = prev, at_key_id = ab_key_id body, at_signed_at = ab_signed_at body, at_signature = sig,
                           at_hash = attestation_hash message (ab_key_id body) sig\<rparr>;
                         problems = fst (evaluate_attestations lib t trust (existing @ [row]) truth);
                         mine = map p_problem (filter (\<lambda>p. p_subject p = ''attestation '' @ str_int seq) problems)
                     in if mine \<noteq> []
                        then (let code = (if list_ex (contained_in ''already attested'') mine then ''already_attested'' else ''attestation_invalid'')
                              in Inl (attest_exc code (join_semicolon mine) (if code = ''already_attested'' then 409 else 422)))
                        else case jarvis_store_attestation s t (ab_kind body) (ab_subject body) (ab_subject_hash body) seq prev
                               (ab_key_id body) (ab_signed_at body) sig db of
                          Inl (Chain_moved m) \<Rightarrow> Inl (attest_exc ''attestation_out_of_order'' m 409)
                        | Inl e \<Rightarrow> Inl (Sig_exc e)
                        | Inr ((n, h), db') \<Rightarrow> Inr ((n, h, ab_key_id body), db'))"

record statement_body =
  sb_kind :: string
  sb_key_id :: string
  sb_pubkey :: "string option"
  sb_arg :: "int option"
  sb_subject_hash :: "string option"
  sb_stmt_seq :: int
  sb_prev_hash :: string
  sb_signed_by :: string
  sb_signature :: string

text \<open>\<^verbatim>\<open>x or None\<close>\<close>

definition none_if_empty :: "string option \<Rightarrow> string option" where
  "none_if_empty v = (if opt_text v = [] then None else v)"

definition store_trust_statement ::
  "sshlib \<Rightarrow> (string \<times> public_key) list \<Rightarrow> session \<Rightarrow> statement_body \<Rightarrow> sig_db \<Rightarrow> store_exc + (int \<times> string) \<times> sig_db" where
  "store_trust_statement lib roots s body db =
     (let sig = normalize_signature (sb_signature body); t = s_tenant s
      in if roots = [] then Inl (attest_exc ''no_trust_root''
           ''no trust root is configured (JARVIS_TRUST_ROOTS_FILE); no statement can be verified, so none is stored'' 409)
         else let existing = tenant_stmts db t;
                  last_seq = (if existing = [] then 0 else st_seq (last existing));
                  last_hash = (if existing = [] then GENESIS else st_hash (last existing));
                  seq = sb_stmt_seq body; prev = sb_prev_hash body; arg = sb_arg body; shash = none_if_empty (sb_subject_hash body)
              in if seq \<noteq> last_seq + 1 \<or> prev \<noteq> last_hash
                 then Inl (attest_exc ''statement_out_of_order'' (''the next statement is '' @ str_int (last_seq + 1) @ '' and must name '' @ last_hash @ '' as prev_hash'') 409)
                 else case trust_message (sb_kind body) t (sb_key_id body) arg shash seq prev of
                   Inl e \<Rightarrow> Inl (Attest_exc e)
                 | Inr message \<Rightarrow>
                     let row = \<lparr>st_seq = seq, st_kind = sb_kind body, st_key_id = sb_key_id body, st_pubkey = none_if_empty (sb_pubkey body),
                           st_arg = arg, st_subject_hash = shash, st_prev = prev, st_signed_by = sb_signed_by body, st_signature = sig,
                           st_hash = statement_hash message (sb_signed_by body) sig\<rparr>;
                         target = (\<lambda>check. find (\<lambda>a. Some (at_seq a) = arg \<and> check a) (tenant_atts db t))
                     in if sb_kind body = ''cosign'' \<and> (shash = None \<or> map_option at_hash (target (\<lambda>a. at_kind a = ''checkpoint'')) \<noteq> shash)
                        then Inl (attest_exc ''cosign_unknown_checkpoint'' ''there is no checkpoint attestation with that signer_seq and hash to cosign'' 422)
                        else if sb_kind body = ''void'' \<and> (shash = None \<or> map_option at_hash (target (\<lambda>a. True)) \<noteq> shash)
                        then Inl (attest_exc ''void_unknown_attestation'' ''there is no attestation with that signer_seq and hash to void'' 422)
                        else let trust = evaluate_trust lib t roots (existing @ [row]);
                                 mine = map p_problem (filter (\<lambda>p. p_subject p = ''trust statement '' @ str_int seq) (ts_problems trust))
                             in if mine \<noteq> [] then Inl (attest_exc ''statement_invalid'' (join_semicolon mine) 422)
                                else case jarvis_store_trust_statement s t (sb_kind body) (sb_key_id body) (st_pubkey row) arg shash seq prev
                                       (sb_signed_by body) sig db of
                                  Inl (Chain_moved m) \<Rightarrow> Inl (attest_exc ''statement_out_of_order'' m 409)
                                | Inl e \<Rightarrow> Inl (Sig_exc e)
                                | Inr (r, db') \<Rightarrow> Inr (r, db'))"

record sig_head =
  hd_head_seq :: int
  hd_head_hash :: string
  hd_next_signer_seq :: int
  hd_trust_head_seq :: int
  hd_trust_head_hash :: string
  hd_next_stmt_seq :: int
  hd_tip_height :: int
  hd_tip_hash :: string

definition attestation_head :: "sig_db \<Rightarrow> ledger_db \<Rightarrow> string \<Rightarrow> sig_head" where
  "attestation_head db ldb t =
     (let rows = tenant_atts db t; stmts = tenant_stmts db t;
          n = (if rows = [] then 0 else at_seq (last rows)); m = (if stmts = [] then 0 else st_seq (last stmts))
      in \<lparr>hd_head_seq = n, hd_head_hash = (if rows = [] then GENESIS else at_hash (last rows)), hd_next_signer_seq = n + 1,
          hd_trust_head_seq = m, hd_trust_head_hash = (if stmts = [] then GENESIS else st_hash (last stmts)), hd_next_stmt_seq = m + 1,
          hd_tip_height = (case tip_block ldb t of None \<Rightarrow> 0 | Some b \<Rightarrow> b_height b),
          hd_tip_hash = (case tip_block ldb t of None \<Rightarrow> GENESIS | Some b \<Rightarrow> b_hash b)\<rparr>)"

definition clamp_page :: "int \<Rightarrow> nat" where
  "clamp_page limit = nat (max 1 (min limit 1000))"

definition list_attestations :: "sig_db \<Rightarrow> string \<Rightarrow> int \<Rightarrow> int \<Rightarrow> attestation list" where
  "list_attestations db t after_seq limit = take (clamp_page limit) (filter (\<lambda>a. at_seq a > max 0 after_seq) (tenant_atts db t))"

definition list_trust_statements :: "sig_db \<Rightarrow> string \<Rightarrow> int \<Rightarrow> int \<Rightarrow> statement list" where
  "list_trust_statements db t after_seq limit = take (clamp_page limit) (filter (\<lambda>x. st_seq x > max 0 after_seq) (tenant_stmts db t))"

text \<open>What has no attestation yet: the blocks (height, hash) and the receipts, in the order \<open>load_truth\<close> reads them.\<close>

definition pending_attestations ::
  "sig_db \<Rightarrow> string \<Rightarrow> (int \<times> string) list \<Rightarrow> string list \<Rightarrow> (int \<times> string) list \<times> string list" where
  "pending_attestations db t bs rids =
     (let done = at_subject ` set (tenant_atts db t)
      in (filter (\<lambda>(h, _). ''block:'' @ str_int h \<notin> done) bs, filter (\<lambda>i. i \<notin> done) rids))"

text \<open>\<open>_block_signature\<close>\<close>

definition block_signature :: "sig_report \<Rightarrow> bool \<times> nat option" where
  "block_signature r =
     (case sr_level r of
        None \<Rightarrow> (False, None)
      | Some _ \<Rightarrow> (case find (\<lambda>p. sp_name p = ''block'') (sr_parts r) of
                    None \<Rightarrow> (False, None)
                  | Some b \<Rightarrow> (sr_verified r \<and> sp_level b \<ge> 1, Some (sp_level b))))"

section \<open>The SQL functions hash what Python hashes\<close>

lemma strip_front_idem: "strip_front ps (strip_front ps s) = strip_front ps s"
proof (induction ps s rule: strip_front.induct)
  case (1 ps s)
  show ?case
  proof (cases "starting ps s")
    case None
    then show ?thesis by (simp add: strip_front.simps)
  next
    case (Some p)
    with 1 [OF Some] show ?thesis by (simp add: strip_front.simps [of ps s])
  qed
qed

lemma strip_front_starting: "starting ps (strip_front ps s) = None"
proof (induction ps s rule: strip_front.induct)
  case (1 ps s)
  then show ?case by (cases "starting ps s") (simp_all add: strip_front.simps [of ps s])
qed

lemma strip_front_suffix: "\<exists>u. s = u @ strip_front ps s"
proof (induction ps s rule: strip_front.induct)
  case (1 ps s)
  show ?case
  proof (cases "starting ps s")
    case None
    then show ?thesis by (intro exI [of _ "[]"]) (simp add: strip_front.simps)
  next
    case (Some p)
    with 1 [OF Some] obtain u where "drop (length p) s = u @ strip_front ps (drop (length p) s)" by blast
    then have "s = take (length p) s @ u @ strip_front ps (drop (length p) s)" by (metis append_take_drop_id)
    then show ?thesis using Some by (intro exI [of _ "take (length p) s @ u"]) (simp add: strip_front.simps [of ps s])
  qed
qed

lemma rstrip_prefix: "\<exists>u. s = rstrip s @ u"
  using strip_front_suffix [of "rev s" "map rev WS"] unfolding rstrip_def by (metis rev_append rev_rev_ident)

lemma starting_prefix: "starting ps (r @ u) = None \<Longrightarrow> starting ps r = None"
  by (auto simp: starting_def starts_with_def find_None_iff)

lemma strip_idem: "strip (strip s) = strip s"
proof -
  obtain u where u: "lstrip s = rstrip (lstrip s) @ u" using rstrip_prefix by blast
  have "starting WS (lstrip s) = None" by (simp add: lstrip_def strip_front_starting)
  then have "starting WS (rstrip (lstrip s) @ u) = None" using u by simp
  then have "lstrip (rstrip (lstrip s)) = rstrip (lstrip s)"
    unfolding lstrip_def by (subst strip_front.simps) (simp add: starting_prefix)
  moreover have "rstrip (rstrip (lstrip s)) = rstrip (lstrip s)" by (simp add: rstrip_def strip_front_idem)
  ultimately show ?thesis by (simp add: strip_def)
qed

lemma set_strip: "set (strip s) \<subseteq> set s"
proof -
  obtain u where u: "lstrip s = rstrip (lstrip s) @ u" using rstrip_prefix by blast
  obtain v where v: "s = v @ lstrip s" using strip_front_suffix unfolding lstrip_def by blast
  have "set (rstrip (lstrip s)) \<subseteq> set (lstrip s)" by (subst (2) u) simp
  also have "\<dots> \<subseteq> set s" by (subst (2) v) simp
  finally show ?thesis by (simp add: strip_def)
qed

lemma normalize_idem: "normalize_signature (normalize_signature s) = normalize_signature s"
proof -
  have "CHR 0x0D \<notin> set (replace_cr x)" for x by (auto simp: replace_cr_def)
  then have "CHR 0x0D \<notin> set (normalize_signature s)" using set_strip unfolding normalize_signature_def by blast
  then have "normalize_signature (normalize_signature s) = strip (normalize_signature s)"
    by (simp add: normalize_signature_def [of "normalize_signature s"] replace_crlf_id replace_cr_id)
  then show ?thesis by (simp add: normalize_signature_def strip_idem)
qed

text \<open>The database and the application agree on what is signed and stored: the SQL functions build exactly the
  messages the Python functions build (whenever Python accepts the fields), and the stored hash of a signature in
  canonical form is the hash every verifier recomputes.\<close>

lemma sql_hash_is_python_hash:
  assumes "attestation_message k t sb h n p d = Inr m" "trust_message k' t i arg sh n' p' = Inr m'"
    and "normalize_signature sig = sig"
  shows "jarvis_attestation_message k t sb h n p d = m \<and> jarvis_trust_message k' t i arg sh n' p' = m' \<and>
    jarvis_signed_hash m key_id sig = attestation_hash m key_id sig \<and> jarvis_signed_hash m' key_id sig = statement_hash m' key_id sig"
  using assms
  by (auto simp: attestation_message_def trust_message_def clean_def res_bind_def jarvis_attestation_message_def jarvis_trust_message_def
      attestation_text_def trust_text_def tenant_part_def opt_int_text_def opt_text_def jarvis_signed_hash_def attestation_hash_def
      statement_hash_def sha256_hex_def LF_def split: if_splits)

lemma sql_hash_is_python_hash_witness:
  "jarvis_attestation_message ''block'' ''operator'' ''block:1'' zeros64 1 GENESIS ''2026-10-07T12:00:00Z'' = block_att_text"
proof -
  have "attestation_message ''block'' ''operator'' ''block:1'' zeros64 1 GENESIS ''2026-10-07T12:00:00Z'' = Inr block_att_text"
    using block_att_message by (simp add: att_message_def block_att_def)
  moreover have "trust_message ''key'' ''operator'' (pk_id mint_key) (Some 1) None 1 GENESIS = Inr grant_text"
    using grant_message by (simp add: statement_message_def grant_def)
  ultimately show ?thesis using sql_hash_is_python_hash [where sig = "[]"] by (simp add: normalize_signature_def strip_def rstrip_def replace_cr_def strip_front.simps)
qed

end
