(* ===== verification/Attest_Store_Theorems.thy ===== *)
theory Attest_Store_Theorems
  imports Attest_Store
begin

text \<open>
  The signing tables keep their contract: after any statements of any sessions both logs of every tenant
  are gapless and hash-linked (two interpretations of \<open>hash_chain\<close>), they only grow, and what the application
  stores is valid and keeps a clean log clean.
\<close>

section \<open>The logs are linked\<close>

definition stored_att_ok :: "string \<Rightarrow> attestation \<Rightarrow> bool" where
  "stored_att_ok t a \<longleftrightarrow> attestation_checks t a \<and>
     at_hash a = jarvis_signed_hash (jarvis_attestation_message (at_kind a) t (at_subject a) (at_subject_hash a) (at_seq a)
       (at_prev a) (at_signed_at a)) (at_key_id a) (at_signature a)"

lemma stored_att_hash: "stored_att_ok t a \<Longrightarrow> at_hash a = sha256_hex (att_text t a)"
  by (simp add: stored_att_ok_def jarvis_signed_hash_def jarvis_attestation_message_def att_text_def attestation_text_def
      tenant_part_def sha256_hex_def LF_def)

lemma stored_att_shape: "stored_att_ok t a \<Longrightarrow> att_shape a"
  by (auto simp: stored_att_ok_def attestation_checks_def att_shape_def ATTEST_KINDS_def list_all_iff bar_or_control_def)

interpretation stored_att: hash_chain GENESIS at_seq at_prev at_hash "att_text t" "stored_att_ok t" for t
  by unfold_locales (auto simp: stored_att_hash intro: att_text_fields stored_att_shape)

text \<open>The text of a statement does not contain the public key (its fingerprint, the key id, stands for it).\<close>

definition stmt_text :: "string \<Rightarrow> statement \<Rightarrow> bytes" where
  "stmt_text t s =
     trust_text (st_kind s) t (st_key_id s) (st_arg s) (st_subject_hash s) (st_seq s) (st_prev s) @ LF @ st_signed_by s @ LF @ st_signature s"

definition stored_stmt_ok :: "string \<Rightarrow> statement \<Rightarrow> bool" where
  "stored_stmt_ok t s \<longleftrightarrow> statement_checks t s \<and> st_pubkey s = None \<and> st_hash s = sha256_hex (stmt_text t s)"

lemma stored_stmt_hash: "stored_stmt_ok t s \<Longrightarrow> st_hash s = sha256_hex (stmt_text t s)"
  by (simp add: stored_stmt_ok_def)

lemma key_id_chars: "key_id_ok i \<Longrightarrow> CHR ''|'' \<notin> set i"
proof
  assume k: "key_id_ok i" and "CHR ''|'' \<in> set i"
  then have "CHR ''|'' \<in> set (take 7 i) \<or> CHR ''|'' \<in> set (drop 7 i)" by (metis Un_iff append_take_drop_id set_append)
  moreover have "take 7 i = ''SHA256:''" using k by (simp add: key_id_ok_def starts_with_def eval_nat_numeral)
  moreover have "b64_val (CHR ''|'') = None" by (simp add: b64_val_def)
  ultimately show False using k by (auto simp: key_id_ok_def list_all_iff)
qed

lemma opt_int_text_inj: "opt_int_text a = opt_int_text b \<longleftrightarrow> a = b"
  by (auto simp: opt_int_text_def str_int_inj str_int_nonempty [symmetric] split: option.splits)

lemma opt_int_text_sep: "CHR ''|'' \<notin> set (opt_int_text a)"
  by (simp add: opt_int_text_def split: option.split)

lemma trust_text_inj:
  assumes "trust_text k t i a h n p @ x = trust_text k' t i' a' h' n' p' @ x'"
    "CHR ''|'' \<notin> set k" "CHR ''|'' \<notin> set k'" "CHR ''|'' \<notin> set i" "CHR ''|'' \<notin> set i'"
    "CHR ''|'' \<notin> set (opt_text h)" "CHR ''|'' \<notin> set (opt_text h')" "length p = length p'"
  shows "k = k' \<and> i = i' \<and> a = a' \<and> opt_text h = opt_text h' \<and> n = n' \<and> p = p' \<and> x = x'"
  using assms by (simp add: trust_text_def tenant_part_def delim_split str_int_inj append_eq_length opt_int_text_sep opt_int_text_inj)

lemma stmt_text_inj: "stored_stmt_ok t a \<Longrightarrow> stored_stmt_ok t b \<Longrightarrow> stmt_text t a = stmt_text t b \<Longrightarrow> a = b"
proof -
  assume a: "stored_stmt_ok t a" and b: "stored_stmt_ok t b" and e: "stmt_text t a = stmt_text t b"
  have kind: "CHR ''|'' \<notin> set (st_kind s)" and hs: "CHR ''|'' \<notin> set (opt_text (st_subject_hash s))"
    and ks: "key_id_ok (st_key_id s)" "key_id_ok (st_signed_by s)" and pr: "length (st_prev s) = 64"
    and hx: "\<And>h. st_subject_hash s = Some h \<Longrightarrow> h \<noteq> []"
    if "stored_stmt_ok t s" for s
    using that by (auto simp: stored_stmt_ok_def statement_checks_def opt_text_def hex64_def list_all_iff is_hex_def Let_def split: option.splits)
  have f: "st_kind a = st_kind b \<and> st_key_id a = st_key_id b \<and> st_arg a = st_arg b \<and> opt_text (st_subject_hash a) = opt_text (st_subject_hash b) \<and>
      st_seq a = st_seq b \<and> st_prev a = st_prev b \<and> LF @ st_signed_by a @ LF @ st_signature a = LF @ st_signed_by b @ LF @ st_signature b"
    using e kind [OF a] kind [OF b] hs [OF a] hs [OF b] key_id_chars [OF ks(1) [OF a]] key_id_chars [OF ks(1) [OF b]] pr [OF a] pr [OF b]
    by (intro trust_text_inj) (simp_all add: stmt_text_def)
  then have "st_subject_hash a = st_subject_hash b"
    using hx [OF a] hx [OF b] by (cases "st_subject_hash a"; cases "st_subject_hash b") (auto simp: opt_text_def)
  moreover have "st_signed_by a = st_signed_by b \<and> st_signature a = st_signature b"
    using f key_id_no_LF [OF ks(2) [OF a]] key_id_no_LF [OF ks(2) [OF b]] by (simp add: LF_def delim_split)
  moreover have "st_hash a = st_hash b" using a b e by (simp add: stored_stmt_ok_def)
  ultimately show "a = b" using f a b by (auto simp: stored_stmt_ok_def intro: statement.equality)
qed

interpretation stored_stmt: hash_chain GENESIS st_seq st_prev st_hash "stmt_text t" "stored_stmt_ok t" for t
  by unfold_locales (auto simp: stored_stmt_hash intro: stmt_text_inj)

definition no_pubkey :: "statement \<Rightarrow> statement" where
  "no_pubkey s = s\<lparr>st_pubkey := None\<rparr>"

definition sig_inv :: "sig_db \<Rightarrow> bool" where
  "sig_inv db \<longleftrightarrow>
     (\<forall>t. stored_att.linked t 1 GENESIS (tenant_atts db t) \<and> stored_stmt.linked t 1 GENESIS (map no_pubkey (tenant_stmts db t)))"

lemma linked_bound:
  assumes "stored_att.linked t 1 GENESIS rows" "rows \<noteq> []"
  shows "\<forall>a \<in> set rows. at_seq a \<le> at_seq (last rows)" "at_seq (last rows) = int (length rows)"
proof -
  have pos: "at_seq (rows ! i) = 1 + int i" if "i < length rows" for i
    by (rule stored_att.linked_pos [OF assms(1) that])
  have "1 \<le> length rows" using assms(2) by (cases rows) auto
  then show l: "at_seq (last rows) = int (length rows)"
    using pos [of "length rows - 1"] assms(2) by (simp add: last_conv_nth of_nat_diff)
  show "\<forall>a \<in> set rows. at_seq a \<le> at_seq (last rows)"
    unfolding l by (auto simp: in_set_conv_nth pos)
qed

lemma linked_bound_stmt:
  assumes "stored_stmt.linked t 1 GENESIS (map no_pubkey rows)" "rows \<noteq> []"
  shows "\<forall>a \<in> set rows. st_seq a \<le> st_seq (last rows)" "st_seq (last rows) = int (length rows)"
proof -
  have pos: "st_seq (rows ! i) = 1 + int i" if "i < length rows" for i
    using stored_stmt.linked_pos [OF assms(1), of i] that by (simp add: no_pubkey_def)
  have "1 \<le> length rows" using assms(2) by (cases rows) auto
  then show l: "st_seq (last rows) = int (length rows)"
    using pos [of "length rows - 1"] assms(2) by (simp add: last_conv_nth of_nat_diff)
  show "\<forall>a \<in> set rows. st_seq a \<le> st_seq (last rows)"
    unfolding l by (auto simp: in_set_conv_nth pos)
qed

lemma sort_key_snoc_max: "\<forall>x \<in> set xs. f x \<le> f y \<Longrightarrow> sort_key f (xs @ [y]) = sort_key f xs @ [y]"
  using sort_key_append [of xs "[y]" f] by simp

lemma tenant_atts_append:
  "tenant_atts (db\<lparr>sd_atts := sd_atts db @ [(t, row)]\<rparr>) u =
     (if u = t then sort_key at_seq (map snd (filter (\<lambda>r. fst r = t) (sd_atts db)) @ [row]) else tenant_atts db u)"
  "tenant_stmts (db\<lparr>sd_atts := sd_atts db @ [(t, row)]\<rparr>) u = tenant_stmts db u"
  by (auto simp: tenant_atts_def tenant_stmts_def)

lemma tenant_stmts_append:
  "tenant_stmts (db\<lparr>sd_stmts := sd_stmts db @ [(t, st)]\<rparr>) u =
     (if u = t then sort_key st_seq (map snd (filter (\<lambda>r. fst r = t) (sd_stmts db)) @ [st]) else tenant_stmts db u)"
  "tenant_atts (db\<lparr>sd_stmts := sd_stmts db @ [(t, st)]\<rparr>) u = tenant_atts db u"
  by (auto simp: tenant_atts_def tenant_stmts_def)

text \<open>What a successful call of the database function does.\<close>

lemma db_attestation_stored:
  assumes inv: "sig_inv db"
    and ok: "jarvis_store_attestation s t k sb h n p i d g db = Inr ((n', h'), db')"
  defines "row \<equiv> \<lparr>at_seq = n, at_kind = k, at_subject = sb, at_subject_hash = h, at_prev = p, at_key_id = i, at_signed_at = d,
      at_signature = g, at_hash = h'\<rparr>"
  shows "s_tenant s = t \<and> n' = n \<and> stored_att_ok t row \<and> tenant_atts db' t = tenant_atts db t @ [row] \<and>
    (\<forall>u. u \<noteq> t \<longrightarrow> tenant_atts db' u = tenant_atts db u) \<and> (\<forall>u. tenant_stmts db' u = tenant_stmts db u) \<and>
    n = (if tenant_atts db t = [] then 0 else at_seq (last (tenant_atts db t))) + 1 \<and>
    p = (if tenant_atts db t = [] then GENESIS else at_hash (last (tenant_atts db t))) \<and> sig_inv db'"
proof -
  let ?rows = "tenant_atts db t"
  have lk: "stored_att.linked t 1 GENESIS ?rows" using inv by (simp add: sig_inv_def)
  have c: "s_tenant s = t" "n = (if ?rows = [] then 0 else at_seq (last ?rows)) + 1"
    "p = (if ?rows = [] then GENESIS else at_hash (last ?rows))" "attestation_checks t row" "n' = n"
    "h' = jarvis_signed_hash (jarvis_attestation_message k t sb h n p d) i g"
    and db': "db' = db\<lparr>sd_atts := sd_atts db @ [(t, row)]\<rparr>"
    using ok by (auto simp: jarvis_store_attestation_def Let_def row_def GENESIS_def split: if_splits)
  have sok: "stored_att_ok t row" using c by (simp add: stored_att_ok_def row_def)
  have le: "\<forall>x \<in> set ?rows. at_seq x \<le> at_seq row"
  proof (cases "?rows = []")
    case False
    with linked_bound(1) [OF lk] c(2) show ?thesis by (auto simp: row_def)
  qed simp
  have app: "tenant_atts db' t = ?rows @ [row]"
  proof -
    let ?raw = "map snd (filter (\<lambda>r. fst r = t) (sd_atts db))"
    have "\<forall>x \<in> set ?raw. at_seq x \<le> at_seq row" using le by (simp add: tenant_atts_def)
    then have "sort_key at_seq (?raw @ [row]) = sort_key at_seq ?raw @ [row]" by (rule sort_key_snoc_max)
    then show ?thesis unfolding db' tenant_atts_append(1) by (simp add: tenant_atts_def)
  qed
  have len: "at_seq (last ?rows) = int (length ?rows)" if "?rows \<noteq> []" by (rule linked_bound(2) [OF lk that])
  have seqrow: "at_seq row = n" "at_prev row = p" by (simp_all add: row_def)
  have "stored_att.linked t 1 GENESIS (?rows @ [row])"
    unfolding stored_att.linked_append using lk sok c(2,3) len by (simp add: seqrow)
  moreover have others: "\<forall>u. u \<noteq> t \<longrightarrow> tenant_atts db' u = tenant_atts db u" "\<forall>u. tenant_stmts db' u = tenant_stmts db u"
    by (simp_all add: db' tenant_atts_append)
  ultimately have "sig_inv db'" using inv app unfolding sig_inv_def by metis
  with c sok app others show ?thesis by blast
qed

lemma db_statement_stored:
  assumes inv: "sig_inv db"
    and ok: "jarvis_store_trust_statement s t k i pk a h n p sb g db = Inr ((n', h'), db')"
  defines "row \<equiv> \<lparr>st_seq = n, st_kind = k, st_key_id = i, st_pubkey = pk, st_arg = a, st_subject_hash = h, st_prev = p,
      st_signed_by = sb, st_signature = g, st_hash = h'\<rparr>"
  shows "s_tenant s = t \<and> n' = n \<and> stored_stmt_ok t (no_pubkey row) \<and> tenant_stmts db' t = tenant_stmts db t @ [row] \<and>
    (\<forall>u. u \<noteq> t \<longrightarrow> tenant_stmts db' u = tenant_stmts db u) \<and> (\<forall>u. tenant_atts db' u = tenant_atts db u) \<and>
    n = (if tenant_stmts db t = [] then 0 else st_seq (last (tenant_stmts db t))) + 1 \<and>
    p = (if tenant_stmts db t = [] then GENESIS else st_hash (last (tenant_stmts db t))) \<and> sig_inv db'"
proof -
  let ?rows = "tenant_stmts db t"
  have lk: "stored_stmt.linked t 1 GENESIS (map no_pubkey ?rows)" using inv by (simp add: sig_inv_def)
  have c: "s_tenant s = t" "n = (if ?rows = [] then 0 else st_seq (last ?rows)) + 1"
    "p = (if ?rows = [] then GENESIS else st_hash (last ?rows))" "statement_checks t row" "n' = n"
    "h' = jarvis_signed_hash (jarvis_trust_message k t i a h n p) sb g"
    and db': "db' = db\<lparr>sd_stmts := sd_stmts db @ [(t, row)]\<rparr>"
    using ok by (auto simp: jarvis_store_trust_statement_def Let_def row_def GENESIS_def split: if_splits)
  have "h' = sha256_hex (stmt_text t (no_pubkey row))"
    unfolding c(6) by (simp add: row_def no_pubkey_def stmt_text_def trust_text_def tenant_part_def jarvis_signed_hash_def
        jarvis_trust_message_def sha256_hex_def LF_def opt_int_text_def opt_text_def split: option.splits)
  moreover have "statement_checks t (no_pubkey row)" using c(4) by (simp add: statement_checks_def no_pubkey_def)
  ultimately have sok: "stored_stmt_ok t (no_pubkey row)" by (simp add: stored_stmt_ok_def no_pubkey_def row_def)
  have le: "\<forall>x \<in> set ?rows. st_seq x \<le> st_seq row"
  proof (cases "?rows = []")
    case False
    with linked_bound_stmt(1) [OF lk] c(2) show ?thesis by (auto simp: row_def)
  qed simp
  have app: "tenant_stmts db' t = ?rows @ [row]"
  proof -
    let ?raw = "map snd (filter (\<lambda>r. fst r = t) (sd_stmts db))"
    have "\<forall>x \<in> set ?raw. st_seq x \<le> st_seq row" using le by (simp add: tenant_stmts_def)
    then have "sort_key st_seq (?raw @ [row]) = sort_key st_seq ?raw @ [row]" by (rule sort_key_snoc_max)
    then show ?thesis unfolding db' tenant_stmts_append(1) by (simp add: tenant_stmts_def)
  qed
  have len: "st_seq (last ?rows) = int (length ?rows)" if "?rows \<noteq> []" by (rule linked_bound_stmt(2) [OF lk that])
  have seqrow: "st_seq (no_pubkey row) = n" "st_prev (no_pubkey row) = p" "st_hash (no_pubkey (last ?rows)) = st_hash (last ?rows)"
    by (simp_all add: row_def no_pubkey_def)
  have "stored_stmt.linked t 1 GENESIS (map no_pubkey ?rows @ [no_pubkey row])"
    unfolding stored_stmt.linked_append using lk sok c(2,3) len by (simp add: seqrow last_map)
  moreover have others: "\<forall>u. u \<noteq> t \<longrightarrow> tenant_stmts db' u = tenant_stmts db u" "\<forall>u. tenant_atts db' u = tenant_atts db u"
    by (simp_all add: db' tenant_stmts_append)
  ultimately have "sig_inv db'" using inv app unfolding sig_inv_def by (metis list.simps(8,9) map_append)
  with c sok app others show ?thesis by blast
qed

section \<open>Every reachable state\<close>

lemma sig_step_inv:
  assumes "sig_step s db db'" "sig_inv db"
  shows "sig_inv db' \<and> (\<forall>t. \<exists>xs. tenant_atts db' t = tenant_atts db t @ xs) \<and> (\<forall>t. \<exists>xs. tenant_stmts db' t = tenant_stmts db t @ xs) \<and>
    (\<forall>t. t \<noteq> s_tenant s \<longrightarrow> tenant_atts db' t = tenant_atts db t \<and> tenant_stmts db' t = tenant_stmts db t)"
  using assms(1)
proof cases
  case (step_attest t k sb h n p i d g r)
  obtain n' h' where r: "r = (n', h')" by (cases r)
  have "s_tenant s = t \<and> (\<exists>row. tenant_atts db' t = tenant_atts db t @ [row]) \<and>
    (\<forall>u. u \<noteq> t \<longrightarrow> tenant_atts db' u = tenant_atts db u) \<and> (\<forall>u. tenant_stmts db' u = tenant_stmts db u) \<and> sig_inv db'"
    using db_attestation_stored [OF assms(2) step_attest [unfolded r]] by blast
  then show ?thesis by (metis append_Nil2)
next
  case (step_trust t k i pk a h n p sb g r)
  obtain n' h' where r: "r = (n', h')" by (cases r)
  have "s_tenant s = t \<and> (\<exists>row. tenant_stmts db' t = tenant_stmts db t @ [row]) \<and>
    (\<forall>u. u \<noteq> t \<longrightarrow> tenant_stmts db' u = tenant_stmts db u) \<and> (\<forall>u. tenant_atts db' u = tenant_atts db u) \<and> sig_inv db'"
    using db_statement_stored [OF assms(2) step_trust [unfolded r]] by blast
  then show ?thesis by (metis append_Nil2)
next
  case (step_change tbl seqs)
  then have "db' = db" by (auto simp: sql_change_signatures_def Let_def split: if_splits)
  with assms(2) show ?thesis by simp
qed

lemma sig_reachable_inv: "sig_reachable db \<Longrightarrow> sig_inv db"
proof (induction rule: sig_reachable.induct)
  case sig_init
  show ?case by (simp add: sig_inv_def tenant_atts_def tenant_stmts_def)
next
  case (sig_more db s db')
  then show ?case using sig_step_inv by blast
qed

text \<open>C18: the signing tables are two append-only hash chains per tenant: after any statements of any sessions (stores
  through the database functions with any arguments, attempted updates and deletes), the attestations and the
  trust statements of every tenant are numbered from one without a gap, each names its predecessor's hash, and
  every stored hash is the SHA-256 of the row's text; the next statement of a session appends to its own tenant's
  logs at most.\<close>

theorem signing_logs_linked:
  assumes "sig_reachable db" "sig_step s db db'"
  shows "stored_att.linked t 1 GENESIS (tenant_atts db' t) \<and> stored_stmt.linked t 1 GENESIS (map no_pubkey (tenant_stmts db' t)) \<and>
    (\<exists>xs. tenant_atts db' t = tenant_atts db t @ xs) \<and> (\<exists>xs. tenant_stmts db' t = tenant_stmts db t @ xs) \<and>
    (t \<noteq> s_tenant s \<longrightarrow> tenant_atts db' t = tenant_atts db t \<and> tenant_stmts db' t = tenant_stmts db t)"
  using sig_step_inv [OF assms(2) sig_reachable_inv [OF assms(1)]] unfolding sig_inv_def by blast

section \<open>What the application stores\<close>

lemma run_append_problems:
  "al_problems (att_step lib t trust truth l a) = al_problems l @
     map (mk_problem ''attestation'' (''attestation '' @ str_int (at_seq a)))
       (fst (att_bad lib t trust truth l a) @ (case (if snd (att_bad lib t trust truth l a) then None else al_seen l (at_kind a, at_subject a)) of
          None \<Rightarrow> []
        | Some p \<Rightarrow> [at_subject a @ '' was already attested at '' @ str_int (at_seq p)
            @ (if at_subject_hash p \<noteq> at_subject_hash a then '' with a DIFFERENT hash (equivocation)'' else [])]))"
  by (simp add: att_step_def Let_def split_def)

lemma problem_kept: "p \<in> set (al_problems l) \<Longrightarrow> p \<in> set (fst (foldl (cosign_step by_seq) (al_problems l, sm) cs))"
proof -
  have "p \<in> set ps \<Longrightarrow> p \<in> set (fst (foldl (cosign_step by_seq) (ps, sm) cs))" for ps sm
  proof (induction cs arbitrary: ps sm)
    case (Cons c cs)
    have "p \<in> set (fst (cosign_step by_seq (ps, sm) c))" using Cons.prems by (auto simp: cosign_step_def split: option.splits)
    with Cons.IH show ?case by (metis foldl_Cons prod.collapse)
  qed simp
  then show "p \<in> set (al_problems l) \<Longrightarrow> p \<in> set (fst (foldl (cosign_step by_seq) (al_problems l, sm) cs))" .
qed

lemma cosign_problems_clean:
  assumes "\<forall>c \<in> set cs. \<exists>a. by_seq (co_checkpoint_seq c) = Some a \<and> at_kind a = ''checkpoint'' \<and> at_hash a = co_checkpoint_hash c"
  shows "fst (foldl (cosign_step by_seq) (ps, sm) cs) = ps"
  using assms
proof (induction cs arbitrary: ps sm)
  case (Cons c cs)
  obtain sm' where "cosign_step by_seq (ps, sm) c = (ps, sm')" using Cons.prems by (auto simp: cosign_step_def)
  with Cons show ?case by simp
qed simp

lemma att_message_body:
  "attestation_message k t sb h n p d = Inr m \<Longrightarrow>
     m = jarvis_attestation_message k t sb h n p d"
  by (auto simp: attestation_message_def clean_def res_bind_def jarvis_attestation_message_def attestation_text_def tenant_part_def split: if_splits)

lemma store_attestation_cases:
  assumes "store_attestation lib roots truth s body db = Inr ((n, h, k), db')"
  obtains row m where
    "row = \<lparr>at_seq = ab_signer_seq body, at_kind = ab_kind body, at_subject = ab_subject body, at_subject_hash = ab_subject_hash body,
       at_prev = ab_prev_hash body, at_key_id = ab_key_id body, at_signed_at = ab_signed_at body, at_signature = normalize_signature (ab_signature body),
       at_hash = attestation_hash m (ab_key_id body) (normalize_signature (ab_signature body))\<rparr>"
    "att_message (s_tenant s) row = Inr m"
    "filter (\<lambda>p. p_subject p = ''attestation '' @ str_int (at_seq row)) (fst (evaluate_attestations lib (s_tenant s)
       (evaluate_trust lib (s_tenant s) roots (tenant_stmts db (s_tenant s))) (tenant_atts db (s_tenant s) @ [row]) truth)) = []"
    "jarvis_store_attestation s (s_tenant s) (at_kind row) (at_subject row) (at_subject_hash row) (at_seq row) (at_prev row)
       (at_key_id row) (at_signed_at row) (at_signature row) db = Inr ((n, h), db')"
proof -
  obtain m where m: "attestation_message (ab_kind body) (s_tenant s) (ab_subject body) (ab_subject_hash body) (ab_signer_seq body)
      (ab_prev_hash body) (ab_signed_at body) = Inr m"
    using assms by (auto simp: store_attestation_def Let_def split: if_splits sum.splits)
  define row where "row = \<lparr>at_seq = ab_signer_seq body, at_kind = ab_kind body, at_subject = ab_subject body, at_subject_hash = ab_subject_hash body,
       at_prev = ab_prev_hash body, at_key_id = ab_key_id body, at_signed_at = ab_signed_at body, at_signature = normalize_signature (ab_signature body),
       at_hash = attestation_hash m (ab_key_id body) (normalize_signature (ab_signature body))\<rparr>"
  show ?thesis
  proof (rule that [OF row_def])
    show "att_message (s_tenant s) row = Inr m" using m by (simp add: att_message_def row_def)
    show "filter (\<lambda>p. p_subject p = ''attestation '' @ str_int (at_seq row)) (fst (evaluate_attestations lib (s_tenant s)
       (evaluate_trust lib (s_tenant s) roots (tenant_stmts db (s_tenant s))) (tenant_atts db (s_tenant s) @ [row]) truth)) = []"
      using assms m by (auto simp: store_attestation_def Let_def row_def split: if_splits)
    show "jarvis_store_attestation s (s_tenant s) (at_kind row) (at_subject row) (at_subject_hash row) (at_seq row) (at_prev row)
       (at_key_id row) (at_signed_at row) (at_signature row) db = Inr ((n, h), db')"
      using assms m by (auto simp: store_attestation_def Let_def row_def split: if_splits sum.splits sig_error.splits prod.splits)
  qed
qed

text \<open>The check of a log with one more row, in terms of the run over the log without it.\<close>

lemma evaluate_snoc:
  assumes "sort_key at_seq (rows @ [row]) = rows @ [row]"
  shows "fst (evaluate_attestations lib t trust (rows @ [row]) truth) =
    (let step = att_step lib t trust truth (run lib t trust truth rows) row
     in fst (foldl (cosign_step (al_by_seq step)) (al_problems step, al_summary step) (ts_cosigns trust)))"
  unfolding evaluate_attestations_def Let_def run_def [symmetric] assms run_snoc ..

lemma accepted_row:
  assumes srt: "sort_key at_seq (rows @ [row]) = rows @ [row]"
    and mine: "filter (\<lambda>p. p_subject p = ''attestation '' @ str_int (at_seq row)) (fst (evaluate_attestations lib t trust (rows @ [row]) truth)) = []"
  shows "al_problems (att_step lib t trust truth (run lib t trust truth rows) row) = al_problems (run lib t trust truth rows)"
    "valid_att lib t trust truth row \<or> voided_att t trust row"
proof -
  define l where "l = run lib t trust truth rows"
  let ?pr = "if snd (att_bad lib t trust truth l row) then None else al_seen l (at_kind row, at_subject row)"
  let ?lab = "mk_problem ''attestation'' (''attestation '' @ str_int (at_seq row))"
  have none: "p \<notin> set (fst (evaluate_attestations lib t trust (rows @ [row]) truth))" if "p_subject p = ''attestation '' @ str_int (at_seq row)" for p
    using mine that by (auto simp: filter_empty_conv)
  have good: "fst (att_bad lib t trust truth l row) = [] \<and> ?pr = None"
  proof (rule ccontr)
    assume "\<not> ?thesis"
    then obtain b where "?lab b \<in> set (al_problems (att_step lib t trust truth l row))"
      unfolding run_append_problems by (cases ?pr; cases "fst (att_bad lib t trust truth l row)") (auto simp del: if_split_asm)
    then have "?lab b \<in> set (fst (evaluate_attestations lib t trust (rows @ [row]) truth))"
      unfolding evaluate_snoc [OF srt] Let_def l_def by (rule problem_kept)
    with none [of "?lab b"] show False by (simp add: mk_problem_def)
  qed
  then show "al_problems (att_step lib t trust truth (run lib t trust truth rows) row) = al_problems (run lib t trust truth rows)"
    unfolding l_def [symmetric] run_append_problems by simp
  show "valid_att lib t trust truth row \<or> voided_att t trust row"
    using good att_bad_valid [of lib t trust truth l row] att_bad_voided(1) [of lib t trust truth l row]
    by (cases "att_bad lib t trust truth l row"; cases "snd (att_bad lib t trust truth l row)") auto
qed

lemma still_clean:
  assumes srt: "sort_key at_seq rows = rows" "sort_key at_seq (rows @ [row]) = rows @ [row]"
    and same: "al_problems (att_step lib t trust truth (run lib t trust truth rows) row) = al_problems (run lib t trust truth rows)"
    and fresh: "\<And>a. a \<in> set rows \<Longrightarrow> at_seq row \<noteq> at_seq a"
    and clean: "fst (evaluate_attestations lib t trust rows truth) = []"
  shows "fst (evaluate_attestations lib t trust (rows @ [row]) truth) = []"
proof -
  define l where "l = run lib t trust truth rows"
  have e: "al_problems l = []" "\<forall>c \<in> set (ts_cosigns trust). \<exists>a. al_by_seq l (co_checkpoint_seq c) = Some a \<and> at_kind a = ''checkpoint'' \<and> at_hash a = co_checkpoint_hash c"
    using clean cosign_fold_problems unfolding evaluate_attestations_def Let_def run_def [symmetric] srt(1) l_def [symmetric] by blast+
  have "al_by_seq (att_step lib t trust truth l row) = (al_by_seq l)(at_seq row \<mapsto> row)"
    by (simp add: att_step_def Let_def split_def)
  moreover have "al_by_seq l n = Some a \<Longrightarrow> n \<noteq> at_seq row" for n a
    using run_by_seq [of lib t trust truth rows n a] fresh [of a] unfolding l_def by metis
  ultimately have "\<forall>c \<in> set (ts_cosigns trust). \<exists>a. al_by_seq (att_step lib t trust truth l row) (co_checkpoint_seq c) = Some a \<and>
      at_kind a = ''checkpoint'' \<and> at_hash a = co_checkpoint_hash c"
    using e(2) by (metis fun_upd_other)
  then show ?thesis unfolding evaluate_snoc [OF srt(2)] Let_def l_def [symmetric]
    by (simp add: cosign_problems_clean same [folded l_def] e(1))
qed

text \<open>C19: what the application stores is right: on a reachable database, if \<open>store_attestation\<close> succeeds, exactly one row is
  appended to the session tenant's log, with the sequence number, hash and key it reports; that row is a valid
  attestation under the pinned roots (or one a root has already voided), and a log that was clean before is clean
  afterwards (so in a clean log no row that counts had attested the same subject); the logs of the other tenants and
  the trust statements are as before.\<close>

theorem store_attestation_sound:
  assumes "sig_reachable db" "store_attestation lib roots truth s body db = Inr ((n, h, k), db')"
  defines "trust \<equiv> evaluate_trust lib (s_tenant s) roots (tenant_stmts db (s_tenant s))"
  shows "\<exists>row. tenant_atts db' (s_tenant s) = tenant_atts db (s_tenant s) @ [row] \<and> n = at_seq row \<and> h = at_hash row \<and> k = at_key_id row \<and>
    (valid_att lib (s_tenant s) trust truth row \<or> voided_att (s_tenant s) trust row) \<and>
    (fst (evaluate_attestations lib (s_tenant s) trust (tenant_atts db (s_tenant s)) truth) = [] \<longrightarrow>
       fst (evaluate_attestations lib (s_tenant s) trust (tenant_atts db' (s_tenant s)) truth) = []) \<and>
    (\<forall>u. u \<noteq> s_tenant s \<longrightarrow> tenant_atts db' u = tenant_atts db u) \<and> (\<forall>u. tenant_stmts db' u = tenant_stmts db u)"
proof -
  let ?t = "s_tenant s" and ?rows = "tenant_atts db (s_tenant s)"
  have inv: "sig_inv db" by (rule sig_reachable_inv [OF assms(1)])
  obtain row m where row: "row = \<lparr>at_seq = ab_signer_seq body, at_kind = ab_kind body, at_subject = ab_subject body, at_subject_hash = ab_subject_hash body,
       at_prev = ab_prev_hash body, at_key_id = ab_key_id body, at_signed_at = ab_signed_at body, at_signature = normalize_signature (ab_signature body),
       at_hash = attestation_hash m (ab_key_id body) (normalize_signature (ab_signature body))\<rparr>"
    and m: "att_message ?t row = Inr m"
    and mine: "filter (\<lambda>p. p_subject p = ''attestation '' @ str_int (at_seq row)) (fst (evaluate_attestations lib ?t trust (?rows @ [row]) truth)) = []"
    and st: "jarvis_store_attestation s ?t (at_kind row) (at_subject row) (at_subject_hash row) (at_seq row) (at_prev row)
       (at_key_id row) (at_signed_at row) (at_signature row) db = Inr ((n, h), db')"
    unfolding trust_def by (rule store_attestation_cases [OF assms(2)])
  have k: "k = at_key_id row"
    using assms(2) by (auto simp: store_attestation_def Let_def row split: if_splits sum.splits sig_error.splits prod.splits)
  have hash: "attestation_hash m (at_key_id row) (at_signature row) = at_hash row"
    by (simp add: row)
  note D = db_attestation_stored [OF inv st]
  have "h = at_hash row"
  proof -
    have "h = jarvis_signed_hash (jarvis_attestation_message (at_kind row) ?t (at_subject row) (at_subject_hash row) (at_seq row) (at_prev row) (at_signed_at row))
        (at_key_id row) (at_signature row)" using D by (simp add: stored_att_ok_def)
    also have "jarvis_attestation_message (at_kind row) ?t (at_subject row) (at_subject_hash row) (at_seq row) (at_prev row) (at_signed_at row) = m"
      using m att_message_body unfolding att_message_def by simp
    also have "jarvis_signed_hash m (at_key_id row) (at_signature row) = at_hash row"
      by (simp add: row jarvis_signed_hash_def attestation_hash_def normalize_idem sha256_hex_def LF_def)
    finally show ?thesis .
  qed
  then have full: "\<lparr>at_seq = at_seq row, at_kind = at_kind row, at_subject = at_subject row, at_subject_hash = at_subject_hash row, at_prev = at_prev row,
      at_key_id = at_key_id row, at_signed_at = at_signed_at row, at_signature = at_signature row, at_hash = h\<rparr> = row" by (simp add: row)
  have app: "tenant_atts db' ?t = ?rows @ [row]" and n: "n = at_seq row"
    and frame: "\<forall>u. u \<noteq> ?t \<longrightarrow> tenant_atts db' u = tenant_atts db u" "\<forall>u. tenant_stmts db' u = tenant_stmts db u" and inv': "sig_inv db'"
    using D unfolding full by blast+
  have lk: "stored_att.linked ?t 1 GENESIS (?rows @ [row])" using inv' app unfolding sig_inv_def by metis
  have le: "\<forall>x \<in> set ?rows. at_seq x \<le> at_seq row" using linked_bound(1) [OF lk] by auto
  have srt: "sort_key at_seq ?rows = ?rows" by (simp add: tenant_atts_def sort_key_sorted_id)
  have srt': "sort_key at_seq (?rows @ [row]) = ?rows @ [row]" using sort_key_snoc_max [OF le] srt by simp
  have fresh: "at_seq row \<noteq> at_seq a" if "a \<in> set ?rows" for a
  proof -
    have "?rows \<noteq> []" using that by auto
    moreover have "stored_att.linked ?t 1 GENESIS ?rows" using inv unfolding sig_inv_def by blast
    with that calculation have "at_seq a \<le> at_seq (last ?rows)" using linked_bound(1) by blast
    moreover have "at_seq row = at_seq (last ?rows) + 1" using D calculation(1) by simp
    ultimately show ?thesis by simp
  qed
  note valid = accepted_row(2) [OF srt' mine] and clean = still_clean [OF srt srt' accepted_row(1) [OF srt' mine] fresh]
  show ?thesis
    using app n \<open>h = at_hash row\<close> k valid clean frame by (intro exI [of _ row]) simp
qed

section \<open>A small signing database\<close>

definition sig_session :: session where
  "sig_session = \<lparr>s_tenant = ''operator'', s_actor = ''signer'', s_history_op = [], s_now = 10\<rparr>"

definition grant_db :: sig_db where
  "grant_db = \<lparr>sd_atts = [], sd_stmts = [(''operator'', grant)]\<rparr>"

lemma char_length_ascii: "list_all (\<lambda>c. (of_char c :: nat) < 128) s \<Longrightarrow> char_length s = length s"
proof -
  assume a: "list_all (\<lambda>c. (of_char c :: nat) < 128) s"
  have "filter (\<lambda>c. (of_char c :: nat) div 64 \<noteq> 2) s = s"
    using a by (induction s) (auto simp: div_less_iff_less_mult less_mult_imp_div_less div_nat_eqI)
  then show ?thesis by (simp add: char_length_def)
qed

lemma char_length_append: "char_length (a @ b) = char_length a + char_length b"
  by (simp add: char_length_def)

lemma b64_ascii: "list_all (\<lambda>c. (of_char c :: nat) < 128) (b64encode b)"
  using b64_graphic [OF b64_text_encode [of b]] by (auto simp: list_all_iff graphic_def)

lemma btrim_dash: "strip_front BTRIM (CHR ''-'' # s) = CHR ''-'' # s"
  by (subst strip_front.simps) (simp add: starting_def starts_with_def BTRIM_def)

lemma sig_of_check: "pk_wf k \<Longrightarrow> signature_check (sig_of k)"
proof -
  assume k: "pk_wf k"
  let ?b = "b64encode (sig_blob (pk_blob k) NAMESPACE ''sha512'' (replicate 64 (CHR ''s'')))"
  have t: "sig_of k = ARMOR_BEGIN @ CHR 0x0A # ?b @ CHR 0x0A # ARMOR_END" by (simp add: sig_of_def armored_text_def)
  have "length (pk_blob k) = 51" using k by (simp add: pk_wf_def)
  then have "length ?b = 248" by (simp add: length_b64encode sig_blob_def NAMESPACE_def)
  moreover have "list_all (\<lambda>c. (of_char c :: nat) < 128) (sig_of k)" using b64_ascii by (simp add: t ARMOR_BEGIN_def ARMOR_END_def)
  ultimately have len: "char_length (sig_of k) = 306" by (simp add: char_length_ascii t) (simp add: ARMOR_BEGIN_def ARMOR_END_def)
  have "CHR 0x0D \<notin> set ?b" using b64_graphic [OF b64_text_encode] by (fastforce simp: list_all_iff graphic_def)
  then have cr: "CHR 0x0D \<notin> set (sig_of k)" by (simp add: t ARMOR_BEGIN_def ARMOR_END_def)
  have a: "sig_of k = CHR ''-'' # tl (sig_of k)" "rev (sig_of k) = CHR ''-'' # tl (rev (sig_of k))"
    by (simp_all add: t ARMOR_BEGIN_def ARMOR_END_def)
  have "strip_front BTRIM (sig_of k) = sig_of k" "strip_front BTRIM (rev (sig_of k)) = rev (sig_of k)"
    using btrim_dash by (metis a(1), metis a(2))
  with len cr show ?thesis by (simp add: signature_check_def)
qed

lemma sample_signatures_ok: "signature_check (sig_of sample_key)" "signature_check (sig_of mint_key)"
  by (simp_all add: sig_of_check sample_key_wf mint_key_wf)

lemma mint_text_length: "50 \<le> char_length (pk_text mint_key) \<and> char_length (pk_text mint_key) \<le> 600"
proof -
  have "length (pk_blob mint_key) = 51" using mint_key_wf by (simp add: pk_wf_def)
  then have "char_length (b64encode (pk_blob mint_key)) = 68" by (simp add: char_length_ascii [OF b64_ascii] length_b64encode)
  moreover have "char_length ''ssh-ed25519 '' = 12" "char_length '' mint'' = 5" by (simp_all add: char_length_def)
  moreover have "pk_text mint_key = ''ssh-ed25519 '' @ b64encode (pk_blob mint_key) @ '' mint''"
    by (simp add: pk_text_def) (simp add: mint_key_def Let_def)
  ultimately have "char_length (pk_text mint_key) = 12 + (68 + 5)" by (simp only: char_length_append)
  then show ?thesis by simp
qed

lemma wf_key_id: "pk_wf k \<Longrightarrow> key_id_ok (pk_id k)"
  by (simp add: pk_wf_def fingerprint_key_id)

lemma grant_hash: "st_hash grant = jarvis_signed_hash (jarvis_trust_message ''key'' ''operator'' (pk_id mint_key) (Some 1) None 1 zeros64)
    (pk_id sample_key) (sig_of sample_key)"
  by (simp add: grant_def statement_hash_def sig_of_parse [OF sample_key_wf] grant_text_def trust_text_def tenant_part_def
      jarvis_signed_hash_def jarvis_trust_message_def sha256_hex_def LF_def opt_int_text_def opt_text_def GENESIS_def)

lemma grant_checks: "statement_checks ''operator'' grant"
  using sample_signatures_ok mint_text_length wf_key_id [OF mint_key_wf] wf_key_id [OF sample_key_wf]
  by (simp add: statement_checks_def grant_def GENESIS_def statement_hash_def)

lemma grant_stored:
  "jarvis_store_trust_statement sig_session ''operator'' ''key'' (pk_id mint_key) (Some (pk_text mint_key)) (Some 1) None 1 GENESIS
     (pk_id sample_key) (sig_of sample_key) \<lparr>sd_atts = [], sd_stmts = []\<rparr> = Inr ((1, st_hash grant), grant_db)"
proof -
  have g: "grant = \<lparr>st_seq = 1, st_kind = ''key'', st_key_id = pk_id mint_key, st_pubkey = Some (pk_text mint_key), st_arg = Some 1,
     st_subject_hash = None, st_prev = zeros64, st_signed_by = pk_id sample_key, st_signature = sig_of sample_key,
     st_hash = jarvis_signed_hash (jarvis_trust_message ''key'' ''operator'' (pk_id mint_key) (Some 1) None 1 zeros64)
       (pk_id sample_key) (sig_of sample_key)\<rparr>"
    unfolding grant_hash [symmetric] by (simp add: grant_def GENESIS_def)
  have "tenant_stmts \<lparr>sd_atts = [], sd_stmts = []\<rparr> ''operator'' = []" by (simp add: tenant_stmts_def)
  then show ?thesis using grant_checks
    by (simp add: jarvis_store_trust_statement_def sig_session_def GENESIS_def Let_def grant_db_def g [symmetric])
      (simp add: grant_hash)
qed

lemma grant_db_reachable: "sig_reachable grant_db"
  by (rule sig_more [OF sig_init step_trust [OF grant_stored]])

theorem signing_logs_linked_witness:
  "stored_stmt.linked ''operator'' 1 GENESIS (map no_pubkey [grant])"
proof -
  have "stored_stmt.linked ''operator'' 1 GENESIS (map no_pubkey (tenant_stmts grant_db ''operator''))"
    using signing_logs_linked [OF sig_init step_trust [OF grant_stored], of "''operator''"] by blast
  then show ?thesis by (simp add: grant_db_def tenant_stmts_def del: stored_stmt.linked.simps)
qed

definition block_body :: attestation_body where
  "block_body = \<lparr>ab_kind = ''block'', ab_subject = ''block:1'', ab_subject_hash = zeros64, ab_signer_seq = 1, ab_prev_hash = GENESIS,
     ab_key_id = pk_id mint_key, ab_signed_at = ''2026-10-07T12:00:00Z'', ab_signature = sig_of mint_key\<rparr>"

lemma block_att_checks: "attestation_checks ''operator'' block_att"
  using sample_signatures_ok wf_key_id [OF mint_key_wf]
  by (simp add: attestation_checks_def block_att_def GENESIS_def attestation_hash_def char_length_def list_all_iff bar_or_control_def
      signed_at_strict_def is_digit_def)

lemma grant_db_tenant: "tenant_atts grant_db ''operator'' = []" "tenant_stmts grant_db ''operator'' = [grant]"
  by (simp_all add: grant_db_def tenant_atts_def tenant_stmts_def)

lemma block_stored:
  "store_attestation sample_att_lib pinned_root sample_truth sig_session block_body grant_db =
     Inr ((1, at_hash block_att, pk_id mint_key), grant_db\<lparr>sd_atts := [(''operator'', block_att)]\<rparr>)"
proof -
  obtain sm where ev: "evaluate_attestations sample_att_lib ''operator'' sample_trust [block_att] sample_truth = ([], sm)"
    using block_att_step by blast
  have msg: "attestation_message ''block'' ''operator'' ''block:1'' zeros64 1 GENESIS ''2026-10-07T12:00:00Z'' = Inr block_att_text"
    using block_att_message by (simp add: att_message_def block_att_def)
  have row: "\<lparr>at_seq = 1, at_kind = ''block'', at_subject = ''block:1'', at_subject_hash = zeros64, at_prev = GENESIS,
     at_key_id = pk_id mint_key, at_signed_at = ''2026-10-07T12:00:00Z'', at_signature = sig_of mint_key,
     at_hash = attestation_hash block_att_text (pk_id mint_key) (sig_of mint_key)\<rparr> = block_att" by (simp add: block_att_def)
  have h: "jarvis_signed_hash (jarvis_attestation_message ''block'' ''operator'' ''block:1'' zeros64 1 GENESIS ''2026-10-07T12:00:00Z'')
      (pk_id mint_key) (sig_of mint_key) = attestation_hash block_att_text (pk_id mint_key) (sig_of mint_key)"
    using att_message_body [OF msg] by (simp add: jarvis_signed_hash_def attestation_hash_def sig_of_parse [OF mint_key_wf] sha256_hex_def LF_def)
  have db: "jarvis_store_attestation sig_session ''operator'' ''block'' ''block:1'' zeros64 1 GENESIS (pk_id mint_key) ''2026-10-07T12:00:00Z''
      (sig_of mint_key) grant_db = Inr ((1, at_hash block_att), grant_db\<lparr>sd_atts := [(''operator'', block_att)]\<rparr>)"
    using block_att_checks
    by (simp add: jarvis_store_attestation_def sig_session_def grant_db_tenant GENESIS_def h [unfolded GENESIS_def]
        row [unfolded GENESIS_def] Let_def) (simp add: block_att_def grant_db_def)
  have ne: "pinned_root \<noteq> []" by (simp add: pinned_root_def)
  have st: "s_tenant sig_session = ''operator''" by (simp add: sig_session_def)
  show ?thesis
    unfolding store_attestation_def Let_def st grant_db_tenant sample_trust_def [symmetric]
    by (simp add: ne block_body_def msg row ev db sig_of_parse [OF mint_key_wf])
qed

theorem store_attestation_sound_witness:
  "\<exists>row. tenant_atts (grant_db\<lparr>sd_atts := [(''operator'', block_att)]\<rparr>) ''operator'' = [row] \<and> valid_att sample_att_lib ''operator'' sample_trust sample_truth row"
proof -
  have st: "s_tenant sig_session = ''operator''" by (simp add: sig_session_def)
  have nv: "\<not> voided_att ''operator'' sample_trust row" for row by (simp add: voided_att_def sample_trust_simps)
  show ?thesis
    using store_attestation_sound [OF grant_db_reachable block_stored, unfolded st grant_db_tenant sample_trust_def [symmetric]] nv by auto
qed

end
