(* ===== verification/Evidence.thy ===== *)
theory Evidence
  imports Ledger_Db Sshsig
begin

text \<open>
  Evidence Objects (\<^verbatim>\<open>app/evidence.py\<close>): JSON values and their canonical text, the content address,
  the minimal local CES checks, the build of a create request, the check of a stored object, evidence links,
  and the table \<^verbatim>\<open>evidence_objects\<close> with the store operations on it
  (\<^verbatim>\<open>app/pg_schema.py\<close> version 5, \<^verbatim>\<open>app/pg_store.py\<close>).

  A JSON object is the association list of its members in insertion order, with distinct keys. A finite
  float is its \<open>repr\<close>. What Python prints or accepts that is not written out is the parameter
  record \<open>pylib\<close>: \<open>repr\<close> of a string, what \<open>datetime.fromisoformat\<close> accepts, the
  text of a \<open>ValueError\<close>, \<open>str.lower\<close> on all of Unicode, the value of a JSON number with a fraction or an
  exponent, what \<open>pydantic\<close> accepts for a field of type \<open>int\<close>, the text of an instant and the instant a text
  stands for.
\<close>

section \<open>JSON values\<close>

datatype json =
    JNull
  | JBool bool
  | JInt int
  | JFloat string
  | JNan string
  | JStr string
  | JList "json list"
  | JObj "(string \<times> json) list"

type_synonym dict = "(string \<times> json) list"

record pylib =
  py_repr :: "string \<Rightarrow> string"
  py_iso :: "string \<Rightarrow> bool"
  py_value_error :: string
  py_lower :: "string \<Rightarrow> string"
  py_float :: "string \<Rightarrow> json"
  py_field_int :: "json \<Rightarrow> int option"
  py_time :: "int \<Rightarrow> string"
  py_instant :: "string \<Rightarrow> int"

text \<open>\<open>json.dumps(v, sort_keys=True, separators=(",", ":"), ensure_ascii=False)\<close>\<close>

definition json_char :: "char \<Rightarrow> string" where
  "json_char c =
     (if c = CHR 0x22 then [CHR 0x5C, CHR 0x22]
      else if c = CHR 0x5C then [CHR 0x5C, CHR 0x5C]
      else if c = CHR 0x0A then [CHR 0x5C, CHR ''n'']
      else if c = CHR 0x0D then [CHR 0x5C, CHR ''r'']
      else if c = CHR 0x09 then [CHR 0x5C, CHR ''t'']
      else if c = CHR 0x0C then [CHR 0x5C, CHR ''f'']
      else if c = CHR 0x08 then [CHR 0x5C, CHR ''b'']
      else if (of_char c :: nat) < 32 then [CHR 0x5C, CHR ''u'', CHR ''0'', CHR ''0''] @ hex_byte c
      else [c])"

definition json_string :: "string \<Rightarrow> string" where
  "json_string s = CHR 0x22 # concat (map json_char s) @ [CHR 0x22]"

fun join_with :: "string \<Rightarrow> string list \<Rightarrow> string" where
  "join_with sep [] = []"
| "join_with sep [x] = x"
| "join_with sep (x # y # xs) = x @ sep @ join_with sep (y # xs)"

definition json_member :: "string \<times> string \<Rightarrow> string" where
  "json_member kv = json_string (fst kv) @ '':'' @ snd kv"

primrec dumps :: "json \<Rightarrow> string" where
  "dumps JNull = ''null''"
| "dumps (JBool b) = (if b then ''true'' else ''false'')"
| "dumps (JInt i) = str_int i"
| "dumps (JFloat s) = s"
| "dumps (JNan s) = s"
| "dumps (JStr s) = json_string s"
| "dumps (JList vs) = ''['' @ join_with '','' (map dumps vs) @ '']''"
| "dumps (JObj kvs) =
     ''{'' @ join_with '','' (map json_member (sort_key fst (map (map_prod (\<lambda>k. k) dumps) kvs))) @ ''}''"

text \<open>\<open>allow_nan=False\<close> refuses a value that holds NaN or an infinity.\<close>

fun has_nan :: "json \<Rightarrow> bool" where
  "has_nan (JNan _) \<longleftrightarrow> True"
| "has_nan (JList vs) \<longleftrightarrow> (\<exists>v \<in> set vs. has_nan v)"
| "has_nan (JObj kvs) \<longleftrightarrow> (\<exists>kv \<in> set kvs. has_nan (snd kv))"
| "has_nan _ \<longleftrightarrow> False"

text \<open>\<open>d.get(k)\<close>\<close>

definition obj_get :: "dict \<Rightarrow> string \<Rightarrow> json" where
  "obj_get d k = (case map_of d k of None \<Rightarrow> JNull | Some v \<Rightarrow> v)"

section \<open>Errors\<close>

record ev_reason =
  rs_code :: string
  rs_ref :: "string option"
  rs_message :: string

datatype ev_exc =
    EvidenceError (ee_code: string) (ee_message: string) (ee_reasons: "ev_reason list") (ee_status: int)
  | Type_error
  | Value_error

definition plain_reason :: "string \<Rightarrow> string \<Rightarrow> ev_reason" where
  "plain_reason code message = \<lparr>rs_code = code, rs_ref = None, rs_message = message\<rparr>"

definition ref_reason :: "string \<Rightarrow> string \<Rightarrow> string \<Rightarrow> ev_reason" where
  "ref_reason code r message = \<lparr>rs_code = code, rs_ref = Some r, rs_message = message\<rparr>"

section \<open>Objects and requests\<close>

record evidence_object =
  eo_id :: string
  eo_schema :: string
  eo_payload :: dict
  eo_pointer :: "dict option"
  eo_size :: int
  eo_created :: int
  eo_by :: string

record evidence_create =
  ec_schema :: string
  ec_payload :: dict
  ec_pointer :: "dict option"
  ec_source :: string
  ec_id :: "string option"

record evidence_info =
  ei_id :: string
  ei_schema :: string

definition ID_PREFIX :: string where
  "ID_PREFIX = ''eo:sha256:''"

definition CES_DECISION :: string where
  "CES_DECISION = ''CES.Local.DecisionEvidence.v1''"

definition CES_FACT :: string where
  "CES_FACT = ''CES.Local.FactEvidence.v1''"

definition CES_REPLAY_RECEIPT :: string where
  "CES_REPLAY_RECEIPT = ''CES.Local.ReplayReceipt.v1''"

definition KNOWN_SCHEMAS :: "string list" where
  "KNOWN_SCHEMAS = [CES_DECISION, CES_FACT, CES_REPLAY_RECEIPT]"

definition FACT_METHODS :: "string list" where
  "FACT_METHODS = [''command'', ''commit'', ''doc'', ''document'', ''file'', ''issue'', ''log'', ''pr'', ''receipt'', ''test'', ''url'']"

definition INLINE_LIMIT_BYTES :: nat where
  "INLINE_LIMIT_BYTES = 64 * 1024"

definition MAX_DEPTH :: nat where
  "MAX_DEPTH = 8"

definition MAX_NODES :: nat where
  "MAX_NODES = 2000"

text \<open>\<^verbatim>\<open>ID_RE\<close> with \<open>match\<close>, whose \<open>$\<close> admits one final line feed.\<close>

definition match_id :: "string \<Rightarrow> bool" where
  "match_id s \<longleftrightarrow> starts_with ID_PREFIX s \<and> match_hex64 (drop (length ID_PREFIX) s)"

section \<open>Canonical form and hash\<close>

text \<open>\<open>_walk\<close>: the counter and the problems are threaded through.\<close>

type_synonym walk_state = "nat \<times> string list"

definition enter :: "nat \<Rightarrow> string \<Rightarrow> (walk_state \<Rightarrow> walk_state) \<Rightarrow> walk_state \<Rightarrow> walk_state" where
  "enter depth path body st =
     (if Suc (fst st) > MAX_NODES then (Suc (fst st), snd st @ [''payload has too many values''])
      else if depth > MAX_DEPTH then
        (Suc (fst st), snd st @ [path @ '': nested too deeply (limit '' @ dec_nat MAX_DEPTH @ '')''])
      else body (Suc (fst st), snd st))"

definition add_problem :: "string \<Rightarrow> walk_state \<Rightarrow> walk_state" where
  "add_problem p st = (fst st, snd st @ [p])"

type_synonym walker = "nat \<Rightarrow> string \<Rightarrow> walk_state \<Rightarrow> walk_state"

fun walk_items :: "nat \<Rightarrow> walker list \<Rightarrow> walker" where
  "walk_items i [] depth path st = st"
| "walk_items i (w # ws) depth path st = walk_items (Suc i) ws depth path (w depth (path @ ''['' @ dec_nat i @ '']'') st)"

fun walk_members :: "(string \<times> walker) list \<Rightarrow> walker" where
  "walk_members [] depth path st = st"
| "walk_members ((k, w) # ws) depth path st = walk_members ws depth path (w depth (path @ ''.'' @ k) st)"

primrec walk :: "json \<Rightarrow> walker" where
  "walk JNull = (\<lambda>depth path. enter depth path (\<lambda>st. st))"
| "walk (JBool b) = (\<lambda>depth path. enter depth path (\<lambda>st. st))"
| "walk (JStr s) = (\<lambda>depth path. enter depth path (\<lambda>st. st))"
| "walk (JInt i) = (\<lambda>depth path. enter depth path (\<lambda>st. st))"
| "walk (JFloat s) = (\<lambda>depth path. enter depth path
     (add_problem (path @ '': a floating-point number is not allowed (use a string or an integer so the hash is stable)'')))"
| "walk (JNan s) = (\<lambda>depth path. enter depth path
     (add_problem (path @ '': NaN/Infinity is not allowed (use a string or an integer so the hash is stable)'')))"
| "walk (JList vs) = (\<lambda>depth path. enter depth path (walk_items 0 (map walk vs) (Suc depth) path))"
| "walk (JObj kvs) = (\<lambda>depth path. enter depth path (walk_members (map (map_prod (\<lambda>k. k) walk) kvs) (Suc depth) path))"

definition envelope :: "string \<Rightarrow> dict \<Rightarrow> dict option \<Rightarrow> json" where
  "envelope schema payload pointer =
     JObj ([(''schema_id'', JStr schema), (''payload'', JObj payload)]
           @ (case pointer of None \<Rightarrow> [] | Some p \<Rightarrow> [(''pointer'', JObj p)]))"

definition canonical_bytes :: "string \<Rightarrow> dict \<Rightarrow> dict option \<Rightarrow> ev_exc + bytes" where
  "canonical_bytes schema payload pointer =
     (if has_nan (envelope schema payload pointer) then Inl Value_error
      else Inr (dumps (envelope schema payload pointer)))"

definition object_id :: "string \<Rightarrow> dict \<Rightarrow> dict option \<Rightarrow> ev_exc + string" where
  "object_id schema payload pointer =
     res_bind (canonical_bytes schema payload pointer) (\<lambda>d. Inr (ID_PREFIX @ sha256_hex d))"

section \<open>The minimal local CES\<close>

fun is_iso :: "pylib \<Rightarrow> json \<Rightarrow> bool" where
  "is_iso lib (JStr s) \<longleftrightarrow>
     s \<noteq> [] \<and> py_iso lib (concat (map (\<lambda>c. if c = CHR ''Z'' then ''+00:00'' else [c]) s))"
| "is_iso lib _ \<longleftrightarrow> False"

definition text_field :: "dict \<Rightarrow> string \<Rightarrow> nat \<Rightarrow> bool \<Rightarrow> string list" where
  "text_field payload key limit required =
     (case obj_get payload key of
        JNull \<Rightarrow> if required then [''payload.'' @ key @ '' is required''] else []
      | JStr s \<Rightarrow>
          if strip s = [] then [''payload.'' @ key @ '' must be a non-empty string'']
          else if char_length s > limit then [''payload.'' @ key @ '' is longer than '' @ dec_nat limit @ '' characters'']
          else []
      | _ \<Rightarrow> [''payload.'' @ key @ '' must be a non-empty string''])"

definition iso_field :: "pylib \<Rightarrow> dict \<Rightarrow> string \<Rightarrow> string list" where
  "iso_field lib payload key =
     (case map_of payload key of
        None \<Rightarrow> []
      | Some v \<Rightarrow> if is_iso lib v then [] else [''payload.'' @ key @ '' must be an ISO-8601 timestamp''])"

text \<open>
  \<open>method not in FACT_METHODS\<close> hashes the value: a list or an object raises \<open>TypeError\<close>.
\<close>

definition method_field :: "dict \<Rightarrow> ev_exc + string list" where
  "method_field payload =
     (let wrong = [''payload.method must be one of: '' @ join_with '', '' FACT_METHODS]
      in case obj_get payload ''method'' of
           JNull \<Rightarrow> Inr [''payload.method is required'']
         | JStr m \<Rightarrow> Inr (if m \<in> set FACT_METHODS then [] else wrong)
         | JList _ \<Rightarrow> Inl Type_error
         | JObj _ \<Rightarrow> Inl Type_error
         | _ \<Rightarrow> Inr wrong)"

definition int_field :: "dict \<Rightarrow> string \<times> int \<Rightarrow> string list" where
  "int_field payload kf =
     (let bad = [''payload.'' @ fst kf @ '' must be an integer of at least '' @ str_int (snd kf)]
      in case obj_get payload (fst kf) of JInt i \<Rightarrow> if i < snd kf then bad else [] | _ \<Rightarrow> bad)"

definition hex_field :: "dict \<Rightarrow> string \<Rightarrow> string list" where
  "hex_field payload key =
     (let bad = [''payload.'' @ key @ '' must be 64 lowercase hex characters'']
      in case obj_get payload key of JStr s \<Rightarrow> if match_hex64 s then [] else bad | _ \<Rightarrow> bad)"

definition receipt_ints :: "(string \<times> int) list" where
  "receipt_ints = [(''contract_version'', 1), (''at_seq'', 0), (''block_height'', 1), (''record_count'', 0), (''deleted_count'', 0)]"

definition receipt_fields :: "string list" where
  "receipt_fields = [''contract'', ''contract_version'', ''tenant'', ''at_seq'', ''block_height'', ''block_hash'', ''state_root'', ''record_count'', ''deleted_count'']"

definition extra_fields :: "string list \<Rightarrow> dict \<Rightarrow> string list" where
  "extra_fields known d = sort (filter (\<lambda>k. k \<notin> set known) (map fst d))"

definition validate_payload :: "pylib \<Rightarrow> string \<Rightarrow> dict \<Rightarrow> ev_exc + string list" where
  "validate_payload lib schema payload =
     (if schema = CES_DECISION then
        Inr (text_field payload ''statement'' 4000 True @ text_field payload ''authority'' 200 True
             @ text_field payload ''source'' 1000 True @ iso_field lib payload ''decided_at'')
      else if schema = CES_FACT then
        res_bind (method_field payload) (\<lambda>m. Inr
          (text_field payload ''observation'' 4000 True @ text_field payload ''source'' 1000 True
           @ text_field payload ''excerpt'' 4000 False @ m @ iso_field lib payload ''observed_at''))
      else if schema = CES_REPLAY_RECEIPT then
        Inr (text_field payload ''contract'' 64 True @ text_field payload ''tenant'' 128 True
             @ concat (map (int_field payload) receipt_ints)
             @ concat (map (hex_field payload) [''block_hash'', ''state_root''])
             @ (let extra = extra_fields receipt_fields payload
                in if extra = [] then []
                   else [''payload has fields a receipt does not have: '' @ join_with '', '' extra]))
      else Inr [''unknown schema_id '' @ py_repr lib schema])"

definition validate_pointer :: "dict \<Rightarrow> string list" where
  "validate_pointer pointer =
     map (\<lambda>k. ''pointer.'' @ k @ '' is not allowed'') (extra_fields [''uri'', ''sha256'', ''size_bytes'', ''media_type''] pointer)
     @ (case obj_get pointer ''uri'' of
          JStr s \<Rightarrow> if 1 \<le> char_length s \<and> char_length s \<le> 1000 then []
                   else [''pointer.uri must be a string of 1 to 1000 characters'']
        | _ \<Rightarrow> [''pointer.uri must be a string of 1 to 1000 characters''])
     @ (let bad = [''pointer.sha256 must be 64 lowercase hex characters (the hash of the external content)'']
        in case obj_get pointer ''sha256'' of JStr s \<Rightarrow> if match_hex64 s then [] else bad | _ \<Rightarrow> bad)
     @ (let bad = [''pointer.size_bytes must be an integer >= 0'']
        in case obj_get pointer ''size_bytes'' of JInt i \<Rightarrow> if i < 0 then bad else [] | _ \<Rightarrow> bad)
     @ (let bad = [''pointer.media_type must be a string of at most 200 characters'']
        in case obj_get pointer ''media_type'' of
             JNull \<Rightarrow> [] | JStr s \<Rightarrow> if char_length s > 200 then bad else [] | _ \<Rightarrow> bad)"

definition problem_reasons :: "string list \<Rightarrow> ev_reason list" where
  "problem_reasons ps = map (plain_reason ''evidence_payload_invalid'') ps"

definition pointer_list :: "(dict \<Rightarrow> 'a list) \<Rightarrow> dict option \<Rightarrow> 'a list" where
  "pointer_list f p = (case p of None \<Rightarrow> [] | Some d \<Rightarrow> f d)"

definition walk_problems :: "dict \<Rightarrow> string \<Rightarrow> string list" where
  "walk_problems d path = snd (walk (JObj d) 0 path (0, []))"

definition build_object :: "pylib \<Rightarrow> evidence_create \<Rightarrow> ev_exc + string \<times> bytes" where
  "build_object lib req =
     (if ec_schema req \<notin> set KNOWN_SCHEMAS then
        Inl (EvidenceError ''evidence_schema_unknown''
          (''unknown schema_id '' @ py_repr lib (ec_schema req) @ ''; known: '' @ join_with '', '' KNOWN_SCHEMAS) [] 422)
      else let problems = walk_problems (ec_payload req) ''payload''
                            @ pointer_list (\<lambda>p. walk_problems p ''pointer'') (ec_pointer req)
      in if problems \<noteq> [] then
        Inl (EvidenceError ''evidence_payload_invalid'' ''the payload cannot be hashed stably'' (problem_reasons problems) 422)
      else res_bind (validate_payload lib (ec_schema req) (ec_payload req)) (\<lambda>ps.
        let problems = ps @ pointer_list validate_pointer (ec_pointer req)
        in if problems \<noteq> [] then
          Inl (EvidenceError ''evidence_payload_invalid'' (''the payload does not satisfy '' @ ec_schema req)
            (problem_reasons problems) 422)
        else res_bind (canonical_bytes (ec_schema req) (ec_payload req) (ec_pointer req)) (\<lambda>data.
          if length data > INLINE_LIMIT_BYTES then
            Inl (EvidenceError ''evidence_too_large''
              (''the evidence is '' @ dec_nat (length data) @ '' bytes; the inline limit is '' @ dec_nat INLINE_LIMIT_BYTES
               @ ''. Record large content as a pointer: keep the description in the payload and give pointer.uri, pointer.sha256 and pointer.size_bytes.'') [] 413)
          else let oid = ID_PREFIX @ sha256_hex data
          in if ec_id req \<noteq> None \<and> ec_id req \<noteq> Some oid then
            Inl (EvidenceError ''evidence_hash_mismatch'' ''the id you supplied is not the hash of this content''
              [plain_reason ''evidence_hash_mismatch'' (''expected '' @ oid)] 422)
          else Inr (oid, data))))"

definition verify_stored :: "pylib \<Rightarrow> evidence_object \<Rightarrow> ev_exc + string list" where
  "verify_stored lib obj =
     (if \<not> match_id (eo_id obj) then Inr [''the id is not of the form eo:sha256:<64 hex>'']
      else let w = walk_problems (eo_payload obj) ''payload''
      in if w \<noteq> [] then Inr [''the stored payload cannot be canonicalised: '' @ join_with ''; '' w]
      else case object_id (eo_schema obj) (eo_payload obj) (eo_pointer obj) of
             Inl _ \<Rightarrow> Inr [''the stored content cannot be canonicalised ('' @ py_value_error lib @ '')'']
           | Inr recomputed \<Rightarrow>
               res_bind (validate_payload lib (eo_schema obj) (eo_payload obj)) (\<lambda>ps. Inr
                 ((if recomputed \<noteq> eo_id obj then [''hash mismatch: the content hashes to '' @ recomputed @ '', not '' @ eo_id obj] else [])
                  @ map (\<lambda>p. ''schema: '' @ p) ps
                  @ map (\<lambda>p. ''schema: '' @ p) (pointer_list validate_pointer (eo_pointer obj)))))"

section \<open>Links from records\<close>

text \<open>
  \<open>str.lower\<close> on ASCII: the source only compares the result with ASCII words that hold no \<open>k\<close>
  (the one letter a non-ASCII letter, the Kelvin sign, is lowered to).
\<close>

definition ascii_lower :: "string \<Rightarrow> string" where
  "ascii_lower s = map (\<lambda>c. if 65 \<le> (of_char c :: nat) \<and> (of_char c :: nat) \<le> 90 then char_of ((of_char c :: nat) + 32) else c) s"

definition link_kind :: "link \<Rightarrow> string" where
  "link_kind l = ascii_lower (strip (l_kind l))"

definition link_ref :: "link \<Rightarrow> string" where
  "link_ref l = strip (l_ref l)"

definition LINK_KIND :: string where
  "LINK_KIND = ''evidence-object''"

type_synonym resolver = "string \<Rightarrow> ev_exc + evidence_info option"

text \<open>\<open>ref[:120]\<close> of a Python string: the first 120 code points.\<close>

fun take_chars :: "nat \<Rightarrow> string \<Rightarrow> string" where
  "take_chars n [] = []"
| "take_chars n (c # s) =
     (if 128 \<le> (of_char c :: nat) \<and> (of_char c :: nat) < 192 then c # take_chars n s
      else case n of 0 \<Rightarrow> [] | Suc m \<Rightarrow> c # take_chars m s)"

fun link_reasons :: "resolver \<Rightarrow> link list \<Rightarrow> ev_exc + ev_reason list" where
  "link_reasons resolve [] = Inr []"
| "link_reasons resolve (l # ls) =
     (if link_kind l \<noteq> LINK_KIND then link_reasons resolve ls
      else let r = link_ref l
      in if \<not> match_id r then
        res_bind (link_reasons resolve ls) (\<lambda>rs. Inr
          (ref_reason ''evidence_object_unresolved'' (take_chars 120 r) ''not a valid evidence-object id (eo:sha256:<64 hex>)'' # rs))
      else case resolve r of
             Inl (EvidenceError code message reasons status) \<Rightarrow>
               res_bind (link_reasons resolve ls) (\<lambda>rs. Inr
                 ((if reasons \<noteq> [] then reasons else [ref_reason code r message]) @ rs))
           | Inl e \<Rightarrow> Inl e
           | Inr None \<Rightarrow>
               res_bind (link_reasons resolve ls) (\<lambda>rs. Inr
                 (ref_reason ''evidence_object_unresolved'' r ''no such evidence object in this ledger'' # rs))
           | Inr (Some _) \<Rightarrow> link_reasons resolve ls)"

definition check_links :: "link list \<Rightarrow> resolver \<Rightarrow> ev_exc + unit" where
  "check_links evidence resolve =
     res_bind (link_reasons resolve evidence) (\<lambda>reasons.
       if reasons \<noteq> [] then
         Inl (EvidenceError ''evidence_object_invalid'' ''an evidence link does not resolve to an intact evidence object'' reasons 422)
       else Inr ())"

definition counts_as_fact_evidence :: "link \<Rightarrow> resolver option \<Rightarrow> ev_exc + bool" where
  "counts_as_fact_evidence l resolve =
     (case resolve of
        None \<Rightarrow> Inr False
      | Some f \<Rightarrow>
          if link_kind l \<noteq> LINK_KIND then Inr False
          else (case f (link_ref l) of
                  Inl (EvidenceError _ _ _ _) \<Rightarrow> Inr False
                | Inl e \<Rightarrow> Inl e
                | Inr None \<Rightarrow> Inr False
                | Inr (Some info) \<Rightarrow> Inr (ei_schema info = CES_FACT)))"

end
