(* ===== verification/Evidence_Json.thy ===== *)
theory Evidence_Json
  imports Evidence
begin

text \<open>
  What the canonical JSON text determines: \<open>walk\<close> reports nothing exactly on small, shallow values
  without floats; on those the text is an injective code up to the order of object members
  (\<open>jnorm\<close>); and the \<open>jsonb\<close> column type keeps a value up to that order.
\<close>

section \<open>What the walk accepts\<close>

primrec nodes :: "json \<Rightarrow> nat" where
  "nodes JNull = 1" | "nodes (JBool b) = 1" | "nodes (JInt i) = 1" | "nodes (JFloat s) = 1"
| "nodes (JNan s) = 1" | "nodes (JStr s) = 1"
| "nodes (JList vs) = Suc (sum_list (map nodes vs))"
| "nodes (JObj kvs) = Suc (sum_list (map snd (map (map_prod (\<lambda>k. k) nodes) kvs)))"

primrec shallow :: "json \<Rightarrow> nat \<Rightarrow> bool" where
  "shallow JNull d \<longleftrightarrow> d \<le> MAX_DEPTH" | "shallow (JBool b) d \<longleftrightarrow> d \<le> MAX_DEPTH"
| "shallow (JInt i) d \<longleftrightarrow> d \<le> MAX_DEPTH" | "shallow (JFloat s) d \<longleftrightarrow> d \<le> MAX_DEPTH"
| "shallow (JNan s) d \<longleftrightarrow> d \<le> MAX_DEPTH" | "shallow (JStr s) d \<longleftrightarrow> d \<le> MAX_DEPTH"
| "shallow (JList vs) d \<longleftrightarrow> d \<le> MAX_DEPTH \<and> (\<forall>f \<in> set (map shallow vs). f (Suc d))"
| "shallow (JObj kvs) d \<longleftrightarrow> d \<le> MAX_DEPTH \<and> (\<forall>kf \<in> set (map (map_prod (\<lambda>k. k) shallow) kvs). snd kf (Suc d))"

primrec float_free :: "json \<Rightarrow> bool" where
  "float_free JNull = True" | "float_free (JBool b) = True" | "float_free (JInt i) = True"
| "float_free (JFloat s) = False" | "float_free (JNan s) = False" | "float_free (JStr s) = True"
| "float_free (JList vs) = list_all (\<lambda>b. b) (map float_free vs)"
| "float_free (JObj kvs) = list_all snd (map (map_prod (\<lambda>k. k) float_free) kvs)"

lemma float_free_list [simp]: "float_free (JList vs) \<longleftrightarrow> (\<forall>v \<in> set vs. float_free v)"
  by (auto simp: list_all_iff)

lemma float_free_obj [simp]: "float_free (JObj kvs) \<longleftrightarrow> (\<forall>kv \<in> set kvs. float_free (snd kv))"
  by (auto simp: list_all_iff)

declare float_free.simps(7,8) [simp del]

lemma nodes_pos [simp]: "0 < nodes v"
  by (cases v) simp_all

text \<open>What one walker does to the counter and the problems, given the size and whether it is acceptable.\<close>

definition walks :: "(walk_state \<Rightarrow> walk_state) \<Rightarrow> nat \<Rightarrow> bool \<Rightarrow> bool" where
  "walks w k ok \<longleftrightarrow>
     (\<forall>st. (\<exists>qs. snd (w st) = snd st @ qs) \<and> fst st \<le> fst (w st) \<and>
        (snd (w st) = snd st \<longleftrightarrow> ok \<and> (k = 0 \<or> fst st + k \<le> MAX_NODES)) \<and>
        (snd (w st) = snd st \<longrightarrow> fst (w st) = fst st + k))"

lemma walks_id: "walks (\<lambda>st. st) 0 True"
  by (simp add: walks_def)

lemma walks_problem: "walks (add_problem p) 0 False"
  by (simp add: walks_def add_problem_def)

lemma walks_comp:
  assumes "walks f m a" "walks g n b"
  shows "walks (\<lambda>st. g (f st)) (m + n) (a \<and> b)"
  unfolding walks_def
proof (intro allI conjI)
  fix st
  note F = assms(1) [unfolded walks_def, rule_format, of st]
  note G = assms(2) [unfolded walks_def, rule_format, of "f st"]
  obtain p q where p: "snd (f st) = snd st @ p" and q: "snd (g (f st)) = snd (f st) @ q" using F G by blast
  show "\<exists>qs. snd (g (f st)) = snd st @ qs" using p q by simp
  show "fst st \<le> fst (g (f st))" using F G by linarith
  have eq: "snd (g (f st)) = snd st \<longleftrightarrow> snd (f st) = snd st \<and> snd (g (f st)) = snd (f st)" using p q by simp
  show "snd (g (f st)) = snd st \<longrightarrow> fst (g (f st)) = fst st + (m + n)" using eq F G by auto
  show "(snd (g (f st)) = snd st) = ((a \<and> b) \<and> (m + n = 0 \<or> fst st + (m + n) \<le> MAX_NODES))"
    using eq F G by auto
qed

lemma walks_enter:
  assumes "walks body n ok"
  shows "walks (enter d path body) (Suc n) (d \<le> MAX_DEPTH \<and> ok)"
  unfolding walks_def
proof (intro allI)
  fix st
  note B = assms [unfolded walks_def, rule_format, of "(Suc (fst st), snd st)"]
  show "(\<exists>qs. snd (enter d path body st) = snd st @ qs) \<and> fst st \<le> fst (enter d path body st) \<and>
      (snd (enter d path body st) = snd st \<longleftrightarrow> (d \<le> MAX_DEPTH \<and> ok) \<and> (Suc n = 0 \<or> fst st + Suc n \<le> MAX_NODES)) \<and>
      (snd (enter d path body st) = snd st \<longrightarrow> fst (enter d path body st) = fst st + Suc n)"
    using B by (auto simp: enter_def)
qed

lemma walks_items:
  assumes "\<And>v path. v \<in> set vs \<Longrightarrow> walks (walk v d path) (nodes v) (shallow v d \<and> float_free v)"
  shows "walks (walk_items i (map walk vs) d path) (sum_list (map nodes vs)) (\<forall>v \<in> set vs. shallow v d \<and> float_free v)"
  using assms
proof (induction vs arbitrary: i)
  case Nil
  then show ?case using walks_id by (simp add: walks_def)
next
  case (Cons v vs)
  show ?case using walks_comp [OF Cons.prems [of v] Cons.IH [OF Cons.prems]] by (auto simp: walks_def)
qed

lemma walks_members:
  assumes "\<And>kv path. kv \<in> set kvs \<Longrightarrow> walks (walk (snd kv) d path) (nodes (snd kv)) (shallow (snd kv) d \<and> float_free (snd kv))"
  shows "walks (walk_members (map (map_prod (\<lambda>k. k) walk) kvs) d path)
           (sum_list (map snd (map (map_prod (\<lambda>k. k) nodes) kvs))) (\<forall>kv \<in> set kvs. shallow (snd kv) d \<and> float_free (snd kv))"
  using assms
proof (induction kvs)
  case Nil
  then show ?case using walks_id by (simp add: walks_def)
next
  case (Cons kv kvs)
  obtain k v where kv: "kv = (k, v)" by (cases kv)
  show ?case using walks_comp [OF Cons.prems [of kv] Cons.IH [OF Cons.prems]] by (auto simp: walks_def kv)
qed

lemma walk_walks: "walks (walk v d path) (nodes v) (shallow v d \<and> float_free v)"
proof (induction v arbitrary: d path)
  case (JList vs)
  have "walks (walk_items 0 (map walk vs) (Suc d) path) (sum_list (map nodes vs)) (\<forall>v \<in> set vs. shallow v (Suc d) \<and> float_free v)"
    by (rule walks_items) (rule JList)
  from walks_enter [OF this, of d path] show ?case by (simp add: conj_assoc ball_conj_distrib)
next
  case (JObj kvs)
  have "walks (walk_members (map (map_prod (\<lambda>k. k) walk) kvs) (Suc d) path)
     (sum_list (map snd (map (map_prod (\<lambda>k. k) nodes) kvs))) (\<forall>kv \<in> set kvs. shallow (snd kv) (Suc d) \<and> float_free (snd kv))"
    by (rule walks_members) (rule JObj, auto simp: snds.simps)
  from walks_enter [OF this, of d path] show ?case by (simp add: conj_assoc ball_conj_distrib)
next
  case (JFloat s)
  show ?case using walks_enter [OF walks_problem] by simp
next
  case (JNan s)
  show ?case using walks_enter [OF walks_problem] by simp
qed (use walks_enter [OF walks_id] in simp_all)

definition storable :: "dict \<Rightarrow> bool" where
  "storable d \<longleftrightarrow> float_free (JObj d) \<and> shallow (JObj d) 0 \<and> nodes (JObj d) \<le> MAX_NODES"

lemma walk_problems_iff: "walk_problems d path = [] \<longleftrightarrow> storable d"
  using walk_walks [of "JObj d" 0 path, unfolded walks_def, rule_format, of "(0, [])"]
  by (auto simp: walk_problems_def storable_def simp del: walk.simps nodes.simps shallow.simps)

lemma float_free_no_nan: "float_free v \<Longrightarrow> \<not> has_nan v"
  by (induction v rule: has_nan.induct) auto

section \<open>The text is a code\<close>

lemma hex_byte_inj: "hex_byte c = hex_byte d \<longleftrightarrow> c = d"
  using hex_inj [of "[c]" "[d]"] by (simp add: hex_def)

lemma length_hex_byte: "length (hex_byte c) = 2"
  by (simp add: hex_byte_def)

definition undo_char :: "string \<Rightarrow> char \<times> string" where
  "undo_char s =
     (if hd s \<noteq> CHR 0x5C then (hd s, tl s)
      else let e = hd (tl s); r = tl (tl s)
      in if e = CHR ''u'' then (hd (fromhex (take 2 (drop 2 r))), drop 4 r)
         else (if e = CHR ''n'' then CHR 0x0A else if e = CHR ''r'' then CHR 0x0D else if e = CHR ''t'' then CHR 0x09
               else if e = CHR ''f'' then CHR 0x0C else if e = CHR ''b'' then CHR 0x08 else e, r))"

lemma undo_json_char: "undo_char (json_char c @ u) = (c, u)"
proof -
  have h: "fromhex (hex_byte c) = [c]" "take 2 (hex_byte c @ u) = hex_byte c" "drop 2 (hex_byte c @ u) = u"
    using fromhex_hex [of "[c]"] length_hex_byte [of c] by (simp_all add: hex_def)
  consider "c \<in> {CHR 0x22, CHR 0x5C, CHR 0x0A, CHR 0x0D, CHR 0x09, CHR 0x0C, CHR 0x08}"
    | "c \<notin> {CHR 0x22, CHR 0x5C, CHR 0x0A, CHR 0x0D, CHR 0x09, CHR 0x0C, CHR 0x08}" "(of_char c :: nat) < 32"
    | "c \<notin> {CHR 0x22, CHR 0x5C, CHR 0x0A, CHR 0x0D, CHR 0x09, CHR 0x0C, CHR 0x08}" "\<not> (of_char c :: nat) < 32"
    by blast
  then show ?thesis
  proof cases
    case 1
    then show ?thesis by (elim insertE) (simp_all add: undo_char_def json_char_def)
  next
    case 2
    then have "json_char c @ u = [CHR 0x5C, CHR ''u'', CHR ''0'', CHR ''0''] @ hex_byte c @ u"
      by (simp add: json_char_def)
    with h show ?thesis by (simp add: undo_char_def eval_nat_numeral)
  next
    case 3
    then show ?thesis by (simp add: undo_char_def json_char_def)
  qed
qed

lemma json_char_prefix: "json_char c @ u = json_char d @ v \<longleftrightarrow> c = d \<and> u = v"
  by (metis Pair_inject undo_json_char)

lemma json_char_hd: "\<exists>a r. json_char c = a # r \<and> a \<noteq> CHR 0x22"
  by (auto simp: json_char_def)

lemma json_string_prefix: "json_string s @ x = json_string t @ y \<longleftrightarrow> s = t \<and> x = y"
proof -
  have "concat (map json_char s) @ CHR 0x22 # x = concat (map json_char t) @ CHR 0x22 # y \<Longrightarrow> s = t \<and> x = y"
  proof (induction s arbitrary: t)
    case Nil
    then show ?case using json_char_hd by (cases t) (auto, metis append_Cons list.inject)
  next
    case (Cons c s)
    show ?case
    proof (cases t)
      case Nil
      with Cons.prems json_char_hd [of c] show ?thesis by auto
    next
      case t: (Cons d t')
      with Cons.prems have "json_char c @ (concat (map json_char s) @ CHR 0x22 # x) = json_char d @ (concat (map json_char t') @ CHR 0x22 # y)"
        by simp
      with Cons.IH [of t'] t show ?thesis by (simp add: json_char_prefix del: append_assoc)
    qed
  qed
  then show ?thesis by (auto simp: json_string_def)
qed

text \<open>What may follow a value: nothing, a comma or a closing bracket.\<close>

definition ends :: "string \<Rightarrow> bool" where
  "ends x \<longleftrightarrow> x = [] \<or> hd x \<in> {CHR '','', CHR '']'', CHR ''}''}"

lemma ends_simps [simp]:
  "ends []" "ends (CHR '','' # x)" "ends (CHR '']'' # x)" "ends (CHR ''}'' # x)"
  by (simp_all add: ends_def)

lemma str_int_prefix:
  assumes "str_int i @ x = str_int j @ y" "ends x" "ends y"
  shows "i = j \<and> x = y"
proof -
  let ?P = "\<lambda>c. is_digit c \<or> c = CHR ''-''"
  have tw: "takeWhile ?P (str_int k @ z) = str_int k" if "ends z" for k z
  proof -
    have "takeWhile ?P (str_int k @ z) = str_int k @ takeWhile ?P z"
      using str_int_chars by (intro takeWhile_append2) blast
    moreover have "takeWhile ?P z = []" using that by (cases z) (auto simp: ends_def is_digit_def)
    ultimately show ?thesis by simp
  qed
  have "str_int i = str_int j" using assms tw by metis
  with assms(1) show ?thesis by (simp add: str_int_inj)
qed

lemma join_comma: "join_with sep (x # xs) = x @ concat (map (\<lambda>y. sep @ y) xs)"
  by (induction sep xs arbitrary: x rule: join_with.induct) auto

lemma insort_map_prod: "insort_key fst (map_prod (\<lambda>k. k) f x) (map (map_prod (\<lambda>k. k) f) ys) =
    map (map_prod (\<lambda>k. k) f) (insort_key fst x ys)"
  by (induction ys) auto

lemma sort_map_prod: "sort_key fst (map (map_prod (\<lambda>k. k) f) xs) = map (map_prod (\<lambda>k. k) f) (sort_key fst xs)"
  by (induction xs) (simp_all add: insort_map_prod)

primrec jnorm :: "json \<Rightarrow> json" where
  "jnorm JNull = JNull" | "jnorm (JBool b) = JBool b" | "jnorm (JInt i) = JInt i" | "jnorm (JFloat s) = JFloat s"
| "jnorm (JNan s) = JNan s" | "jnorm (JStr s) = JStr s"
| "jnorm (JList vs) = JList (map jnorm vs)"
| "jnorm (JObj kvs) = JObj (sort_key fst (map (map_prod (\<lambda>k. k) jnorm) kvs))"

definition member_text :: "string \<times> json \<Rightarrow> string" where
  "member_text kv = json_member (fst kv, dumps (snd kv))"

lemma json_member_dumps: "json_member (map_prod (\<lambda>k. k) dumps kv) = member_text kv"
  by (cases kv) (simp add: member_text_def)

lemma dumps_obj: "dumps (JObj kvs) = ''{'' @ join_with '','' (map member_text (sort_key fst kvs)) @ ''}''"
  by (simp add: sort_map_prod json_member_dumps comp_def)

lemma sort_key_idem: "sort_key f (sort_key f xs) = sort_key f xs"
  by (rule sort_key_id_if_sorted) (rule sorted_sort_key)

lemma dumps_jnorm: "dumps (jnorm v) = dumps v"
proof (induction v)
  case (JList vs)
  then show ?case by (simp cong: map_cong)
next
  case (JObj kvs)
  have "map (map_prod (\<lambda>k. k) dumps) (map (map_prod (\<lambda>k. k) jnorm) kvs) = map (map_prod (\<lambda>k. k) dumps) kvs"
    using JObj by (auto simp: snds.simps)
  then have "map (map_prod (\<lambda>k. k) dumps) (sort_key fst (sort_key fst (map (map_prod (\<lambda>k. k) jnorm) kvs))) =
      map (map_prod (\<lambda>k. k) dumps) (sort_key fst kvs)"
    unfolding sort_key_idem sort_map_prod [symmetric] by (rule arg_cong)
  then show ?case by (simp only: jnorm.simps dumps.simps sort_map_prod)
qed simp_all

text \<open>Lists of items, each of which is determined by its text.\<close>

lemma items_prefix:
  assumes "\<And>a b x y. a \<in> set as \<Longrightarrow> b \<in> set bs \<Longrightarrow> f a @ x = f b @ y \<Longrightarrow> ends x \<Longrightarrow> ends y \<Longrightarrow> g a = g b \<and> x = y"
    and "cl \<in> {CHR '']'', CHR ''}''}"
    and "concat (map (\<lambda>a. '','' @ f a) as) @ cl # x = concat (map (\<lambda>a. '','' @ f a) bs) @ cl # y"
  shows "map g as = map g bs \<and> x = y"
  using assms
proof (induction as arbitrary: bs)
  case Nil
  then show ?case by (cases bs) auto
next
  case (Cons a as)
  show ?case
  proof (cases bs)
    case Nil
    with Cons.prems show ?thesis by auto
  next
    case bs: (Cons b bs')
    have e: "ends (concat (map (\<lambda>a. '','' @ f a) zs) @ cl # z)" for zs z
      using Cons.prems(2) by (cases zs) auto
    from Cons.prems(3) bs have
      "f a @ (concat (map (\<lambda>a. '','' @ f a) as) @ cl # x) = f b @ (concat (map (\<lambda>a. '','' @ f a) bs') @ cl # y)" by simp
    from Cons.prems(1) [OF _ _ this e e] bs
    have "g a = g b" and r: "concat (map (\<lambda>a. '','' @ f a) as) @ cl # x = concat (map (\<lambda>a. '','' @ f a) bs') @ cl # y"
      by auto
    moreover have "map g as = map g bs' \<and> x = y"
      by (rule Cons.IH [OF _ Cons.prems(2) r]) (use Cons.prems(1) bs in auto)
    ultimately show ?thesis using bs by simp
  qed
qed

lemma joined_prefix:
  assumes inj: "\<And>a b x y. a \<in> set as \<Longrightarrow> b \<in> set bs \<Longrightarrow> f a @ x = f b @ y \<Longrightarrow> ends x \<Longrightarrow> ends y \<Longrightarrow> g a = g b \<and> x = y"
    and start: "\<And>a. a \<in> set as \<union> set bs \<Longrightarrow> f a \<noteq> [] \<and> hd (f a) \<noteq> cl"
    and cl: "cl \<in> {CHR '']'', CHR ''}''}"
    and eq: "join_with '','' (map f as) @ cl # x = join_with '','' (map f bs) @ cl # y"
  shows "map g as = map g bs \<and> x = y"
proof (cases "as = [] \<or> bs = []")
  case True
  have "hd (join_with '','' (map f zs) @ cl # z) = cl \<Longrightarrow> set zs \<subseteq> set as \<union> set bs \<Longrightarrow> zs = []" for zs z
    using start by (cases zs) (auto simp: join_comma)
  then have "as = []" "bs = []" using True eq by (metis append_Nil join_with.simps(1) list.sel(1) list.simps(8) sup_ge1 sup_ge2)+
  with eq show ?thesis by simp
next
  case False
  then obtain a as' b bs' where ab: "as = a # as'" "bs = b # bs'" by (meson neq_Nil_conv)
  with eq have "concat (map (\<lambda>a. '','' @ f a) as) @ cl # x = concat (map (\<lambda>a. '','' @ f a) bs) @ cl # y"
    by (simp add: join_comma comp_def)
  from items_prefix [OF inj cl this] show ?thesis by simp
qed

fun tag :: "json \<Rightarrow> nat" where
  "tag JNull = 0" | "tag (JBool True) = 1" | "tag (JBool False) = 2" | "tag (JInt _) = 3" | "tag (JStr _) = 4"
| "tag (JList _) = 5" | "tag (JObj _) = 6" | "tag _ = 7"

definition char_tag :: "char \<Rightarrow> nat" where
  "char_tag c = (if c = CHR ''n'' then 0 else if c = CHR ''t'' then 1 else if c = CHR ''f'' then 2
     else if c = CHR 0x22 then 4 else if c = CHR ''['' then 5 else if c = CHR ''{'' then 6 else 3)"

lemma dumps_tag: "float_free v \<Longrightarrow> dumps v \<noteq> [] \<and> char_tag (hd (dumps v)) = tag v \<and> hd (dumps v) \<notin> {CHR '']'', CHR ''}''}"
proof (induction v)
  case (JInt i)
  have "is_digit (hd (str_int i)) \<or> hd (str_int i) = CHR ''-''" by (rule str_int_chars [OF hd_in_set]) simp
  then show ?case by (auto simp: char_tag_def is_digit_def)
next
  case (JBool b)
  then show ?case by (cases b) (auto simp: char_tag_def)
qed (auto simp: char_tag_def json_string_def)

lemma dumps_prefix:
  "float_free v \<Longrightarrow> float_free w \<Longrightarrow> dumps v @ x = dumps w @ y \<Longrightarrow> ends x \<Longrightarrow> ends y \<Longrightarrow> jnorm v = jnorm w \<and> x = y"
proof (induction v arbitrary: w x y)
  case (JList vs)
  from JList.prems(3) have "hd (dumps (JList vs)) = hd (dumps w)"
    using dumps_tag [OF JList.prems(1)] dumps_tag [OF JList.prems(2)] by (metis hd_append2)
  then have "tag w = 5" using dumps_tag [OF JList.prems(1)] dumps_tag [OF JList.prems(2)] by simp
  then obtain ws where w: "w = JList ws" by (cases w rule: tag.cases) auto
  have "map jnorm vs = map jnorm ws \<and> x = y"
  proof (rule joined_prefix)
    show "join_with '','' (map dumps vs) @ CHR '']'' # x = join_with '','' (map dumps ws) @ CHR '']'' # y"
      using JList.prems(3) w by simp
    show "jnorm a = jnorm b \<and> x = y"
      if "a \<in> set vs" "b \<in> set ws" "dumps a @ x = dumps b @ y" "ends x" "ends y" for a b x y
      using JList.IH [OF that(1), of b x y] JList.prems(1,2) w that by simp
    show "dumps a \<noteq> [] \<and> hd (dumps a) \<noteq> CHR '']''" if "a \<in> set vs \<union> set ws" for a
      using dumps_tag [of a] JList.prems(1,2) w that by auto
  qed simp
  then show ?case by (simp add: w)
next
  case (JObj kvs)
  from JObj.prems(3) have "hd (dumps (JObj kvs)) = hd (dumps w)"
    using dumps_tag [OF JObj.prems(1)] dumps_tag [OF JObj.prems(2)] by (metis hd_append2)
  then have "tag w = 6" using dumps_tag [OF JObj.prems(1)] dumps_tag [OF JObj.prems(2)] by simp
  then obtain ws where w: "w = JObj ws" by (cases w rule: tag.cases) auto
  let ?g = "map_prod (\<lambda>k. k) jnorm"
  have "map ?g (sort_key fst kvs) = map ?g (sort_key fst ws) \<and> x = y"
  proof (rule joined_prefix)
    show "join_with '','' (map member_text (sort_key fst kvs)) @ CHR ''}'' # x
        = join_with '','' (map member_text (sort_key fst ws)) @ CHR ''}'' # y"
      using JObj.prems(3) unfolding w dumps_obj by simp
    show "?g a = ?g b \<and> x = y"
      if m: "a \<in> set (sort_key fst kvs)" "b \<in> set (sort_key fst ws)" "member_text a @ x = member_text b @ y" "ends x" "ends y" for a b x y
    proof -
      obtain k v l u where ab: "a = (k, v)" "b = (l, u)" by (meson surj_pair)
      from m(3) have "json_string k @ (CHR '':'' # dumps v @ x) = json_string l @ (CHR '':'' # dumps u @ y)"
        by (simp add: ab member_text_def json_member_def)
      then have kl: "k = l" and vu: "dumps v @ x = dumps u @ y" by (simp_all add: json_string_prefix)
      have ff: "float_free v" "float_free u" using JObj.prems(1,2) m(1,2) w by (auto simp: ab)
      have "jnorm v = jnorm u \<and> x = y"
        using JObj.IH [of a v u x y] m(1,4,5) ab vu ff by (auto simp: snds.simps)
      with kl show ?thesis by (simp add: ab)
    qed
    show "member_text a \<noteq> [] \<and> hd (member_text a) \<noteq> CHR ''}''" if "a \<in> set (sort_key fst kvs) \<union> set (sort_key fst ws)" for a
      by (simp add: member_text_def json_member_def json_string_def)
  qed simp
  then show ?case by (simp add: w sort_map_prod)
next
  case (JInt i)
  then have "hd (dumps (JInt i)) = hd (dumps w)"
    using dumps_tag [of "JInt i"] dumps_tag [of w] by (metis hd_append2)
  then have "tag w = 3" using dumps_tag [of "JInt i"] dumps_tag [of w] JInt by simp
  then obtain j where "w = JInt j" by (cases w rule: tag.cases) auto
  with JInt show ?case using str_int_prefix by auto
next
  case (JStr s)
  then have "hd (dumps (JStr s)) = hd (dumps w)"
    using dumps_tag [of "JStr s"] dumps_tag [of w] by (metis hd_append2)
  then have "tag w = 4" using dumps_tag [of "JStr s"] dumps_tag [of w] JStr by simp
  then obtain t where "w = JStr t" by (cases w rule: tag.cases) auto
  with JStr show ?case by (simp add: json_string_prefix)
next
  case JNull
  then have "hd (dumps JNull) = hd (dumps w)"
    using dumps_tag [of JNull] dumps_tag [of w] by (metis hd_append2)
  then have "tag w = 0" using dumps_tag [of JNull] dumps_tag [of w] JNull by simp
  then have "w = JNull" by (cases w rule: tag.cases) auto
  with JNull show ?case by simp
next
  case (JBool b)
  then have "hd (dumps (JBool b)) = hd (dumps w)"
    using dumps_tag [of "JBool b"] dumps_tag [of w] by (metis hd_append2)
  then have "tag w = tag (JBool b)" using dumps_tag [of "JBool b"] dumps_tag [of w] JBool by simp
  then have "w = JBool b" by (cases w rule: tag.cases; cases b) auto
  with JBool show ?case by simp
qed simp_all

lemma dumps_inj: "float_free v \<Longrightarrow> float_free w \<Longrightarrow> dumps v = dumps w \<longleftrightarrow> jnorm v = jnorm w"
  using dumps_prefix [of v w "[]" "[]"] dumps_jnorm [of v] dumps_jnorm [of w] by auto

section \<open>The column type \<open>jsonb\<close>\<close>

text \<open>
  PostgreSQL keeps the members of a \<open>jsonb\<close> object by length of the key, then by its bytes.
\<close>

definition jsonb_order :: "(string \<times> 'a) list \<Rightarrow> (string \<times> 'a) list" where
  "jsonb_order kvs = sort_key (\<lambda>kv. length (fst kv)) (sort_key fst kvs)"

primrec jsonb :: "json \<Rightarrow> json" where
  "jsonb JNull = JNull" | "jsonb (JBool b) = JBool b" | "jsonb (JInt i) = JInt i" | "jsonb (JFloat s) = JFloat s"
| "jsonb (JNan s) = JNan s" | "jsonb (JStr s) = JStr s"
| "jsonb (JList vs) = JList (map jsonb vs)"
| "jsonb (JObj kvs) = JObj (jsonb_order (map (map_prod (\<lambda>k. k) jsonb) kvs))"

definition jsonb_dict :: "dict \<Rightarrow> dict" where
  "jsonb_dict d = jsonb_order (map (map_prod (\<lambda>k. k) jsonb) d)"

text \<open>Python dictionaries have distinct keys.\<close>

primrec keyed :: "json \<Rightarrow> bool" where
  "keyed JNull = True" | "keyed (JBool b) = True" | "keyed (JInt i) = True" | "keyed (JFloat s) = True"
| "keyed (JNan s) = True" | "keyed (JStr s) = True"
| "keyed (JList vs) = list_all (\<lambda>b. b) (map keyed vs)"
| "keyed (JObj kvs) = (distinct (map fst kvs) \<and> list_all snd (map (map_prod (\<lambda>k. k) keyed) kvs))"

lemma jsonb_order_mset [simp]: "mset (jsonb_order kvs) = mset kvs"
  by (simp add: jsonb_order_def)

lemma jsonb_order_set [simp]: "set (jsonb_order kvs) = set kvs"
  by (simp add: jsonb_order_def)

lemma fst_map_prod [simp]: "map fst (map (map_prod (\<lambda>k. k) f) kvs) = map fst kvs"
  by (induction kvs) auto

lemma map_id_comp [simp]: "map ((\<lambda>k. k) \<circ> f) xs = map f xs"
  by (simp add: comp_def)

lemma jsonb_order_distinct [simp]: "distinct (map fst (jsonb_order kvs)) \<longleftrightarrow> distinct (map fst kvs)"
  by (simp add: jsonb_order_def)

lemma sort_jsonb_order: "distinct (map fst kvs) \<Longrightarrow> sort_key fst (map (map_prod (\<lambda>k. k) f) (jsonb_order kvs)) =
    sort_key fst (map (map_prod (\<lambda>k. k) f) kvs)"
proof (rule sort_key_inj_perm)
  assume d: "distinct (map fst kvs)"
  show "mset (map (map_prod (\<lambda>k. k) f) (jsonb_order kvs)) = mset (map (map_prod (\<lambda>k. k) f) kvs)"
    by (simp only: mset_map jsonb_order_mset)
  from d show "inj_on fst (set (map (map_prod (\<lambda>k. k) f) (jsonb_order kvs)))"
    by (auto simp: distinct_map inj_on_def)
qed

lemma jnorm_jsonb: "keyed v \<Longrightarrow> jnorm (jsonb v) = jnorm v"
proof (induction v)
  case (JList vs)
  then show ?case by (auto simp: list_all_iff)
next
  case (JObj kvs)
  have "map (map_prod (\<lambda>k. k) jnorm) (map (map_prod (\<lambda>k. k) jsonb) kvs) = map (map_prod (\<lambda>k. k) jnorm) kvs"
    using JObj by (auto simp: snds.simps list_all_iff)
  moreover have "distinct (map fst (map (map_prod (\<lambda>k. k) jsonb) kvs))" using JObj.prems by simp
  from sort_jsonb_order [OF this, of jnorm] calculation
  show ?case by (simp only: jnorm.simps jsonb.simps)
qed simp_all

lemma float_free_jsonb [simp]: "float_free (jsonb v) \<longleftrightarrow> float_free v"
  by (induction v) (auto simp: snds.simps)

lemma has_nan_jsonb: "has_nan (jsonb v) \<longleftrightarrow> has_nan v"
  by (induction v) (auto simp: snds.simps)

lemma shallow_jsonb: "shallow (jsonb v) d \<longleftrightarrow> shallow v d"
  by (induction v arbitrary: d) (auto simp: snds.simps)

lemma sum_map_mset: "mset xs = mset ys \<Longrightarrow> sum_list (map f xs) = sum_list (map (f :: 'a \<Rightarrow> nat) ys)"
proof -
  assume "mset xs = mset ys"
  then have "sum_mset (mset (map f xs)) = sum_mset (mset (map f ys))" by simp
  then show ?thesis by (simp only: sum_mset_sum_list)
qed

lemma nodes_jsonb: "nodes (jsonb v) = nodes v"
proof (induction v)
  case (JList vs)
  then show ?case by (simp add: comp_def cong: map_cong)
next
  case (JObj kvs)
  have "sum_list (map (\<lambda>kv. nodes (snd kv)) (jsonb_order (map (map_prod (\<lambda>k. k) jsonb) kvs))) =
      sum_list (map (\<lambda>kv. nodes (snd kv)) (map (map_prod (\<lambda>k. k) jsonb) kvs))"
    by (rule sum_map_mset) simp
  also have "\<dots> = sum_list (map (\<lambda>kv. nodes (snd kv)) kvs)"
    using JObj by (auto simp: comp_def snds.simps intro!: arg_cong [where f = sum_list])
  finally show ?case by (simp add: comp_def)
qed simp_all

lemma jsonb_JObj: "jsonb (JObj d) = JObj (jsonb_dict d)"
  by (simp add: jsonb_dict_def)

lemma storable_jsonb: "storable (jsonb_dict d) \<longleftrightarrow> storable d"
  by (simp only: storable_def jsonb_JObj [symmetric] float_free_jsonb shallow_jsonb nodes_jsonb)

lemma map_of_jsonb_order: "distinct (map fst kvs) \<Longrightarrow> map_of (jsonb_order kvs) = map_of kvs"
  by (simp add: jsonb_order_def)

lemma map_of_jsonb_dict: "distinct (map fst d) \<Longrightarrow> map_of (jsonb_dict d) k = map_option jsonb (map_of d k)"
proof -
  have "map_of (map (map_prod (\<lambda>k. k) jsonb) d) k = map_option jsonb (map_of d k)" by (induction d) auto
  then show "distinct (map fst d) \<Longrightarrow> ?thesis" by (simp add: jsonb_dict_def map_of_jsonb_order [of "map (map_prod (\<lambda>k. k) jsonb) d"])
qed

lemma obj_get_jsonb: "distinct (map fst d) \<Longrightarrow> obj_get (jsonb_dict d) k = jsonb (obj_get d k)"
  by (simp add: obj_get_def map_of_jsonb_dict split: option.split)

lemma jsonb_cases [simp]:
  "(case jsonb v of JNull \<Rightarrow> a | JBool b \<Rightarrow> fb b | JInt i \<Rightarrow> fi i | JFloat s \<Rightarrow> ff s | JNan s \<Rightarrow> fn s | JStr s \<Rightarrow> fs s
     | JList vs \<Rightarrow> c | JObj kvs \<Rightarrow> e) =
   (case v of JNull \<Rightarrow> a | JBool b \<Rightarrow> fb b | JInt i \<Rightarrow> fi i | JFloat s \<Rightarrow> ff s | JNan s \<Rightarrow> fn s | JStr s \<Rightarrow> fs s
     | JList vs \<Rightarrow> c | JObj kvs \<Rightarrow> e)"
  by (cases v) simp_all

lemma extra_fields_jsonb: "extra_fields known (jsonb_dict d) = extra_fields known d"
proof -
  have "mset (map fst (jsonb_dict d)) = mset (map fst d)"
    by (simp add: jsonb_dict_def flip: mset_map) (metis fst_map_prod jsonb_order_mset mset_map)
  then have "mset (filter (\<lambda>k. k \<notin> set known) (map fst (jsonb_dict d))) = mset (filter (\<lambda>k. k \<notin> set known) (map fst d))"
    by (metis mset_filter)
  then show ?thesis by (simp add: extra_fields_def properties_for_sort)
qed

lemma is_iso_jsonb: "is_iso lib (jsonb v) = is_iso lib v"
  by (cases v) simp_all

lemmas field_defs = text_field_def iso_field_def method_field_def int_field_def hex_field_def

lemma fields_jsonb:
  assumes "distinct (map fst d)"
  shows "text_field (jsonb_dict d) = text_field d" "iso_field lib (jsonb_dict d) = iso_field lib d"
    "method_field (jsonb_dict d) = method_field d" "int_field (jsonb_dict d) = int_field d"
    "hex_field (jsonb_dict d) = hex_field d"
  by (simp_all add: field_defs obj_get_jsonb [OF assms] map_of_jsonb_dict [OF assms] is_iso_jsonb fun_eq_iff Let_def
      split: option.split)

lemma validate_payload_jsonb: "distinct (map fst d) \<Longrightarrow> validate_payload lib schema (jsonb_dict d) = validate_payload lib schema d"
  by (simp add: validate_payload_def fields_jsonb extra_fields_jsonb)

lemma validate_pointer_jsonb: "distinct (map fst d) \<Longrightarrow> validate_pointer (jsonb_dict d) = validate_pointer d"
  by (simp add: validate_pointer_def obj_get_jsonb extra_fields_jsonb Let_def)

end
