(* ===== verification/Clause_V.thy ===== *)
theory Clause_V
  imports Evidence_Json
begin

text \<open>
  The requests and records of \<^verbatim>\<open>app/models.py\<close>, the text hash of \<^verbatim>\<open>app/continuity.py\<close> and
  the write gate \<^verbatim>\<open>app/clause_v.py\<close>. What the three regular expressions of the soft rules find is the
  parameter record \<open>soft_rules\<close>; the two environment variables are the record \<open>clause_env\<close> (an
  unset variable is the empty string). The context variable that carries the warnings is returned.
\<close>

section \<open>Requests\<close>

record memory_create =
  mc_content :: string
  mc_source :: string
  mc_session :: string
  mc_type :: string
  mc_confidence :: rat
  mc_evidence :: "link list"
  mc_supersedes :: "string option"
  mc_status :: string
  mc_subject :: "string option"
  mc_tags :: "string list"

record memory_update =
  mu_content :: "string option"
  mu_source :: "string option"
  mu_session :: "string option"
  mu_type :: "string option"
  mu_confidence :: "rat option"
  mu_evidence :: "link list option"
  mu_supersedes :: "string option"
  mu_status :: "string option"
  mu_subject :: "string option"
  mu_tags :: "string list option"
  mu_expected_version :: "int option"

section \<open>Content hash\<close>

lemma strip_front_length: "length (strip_front ps s) \<le> length s"
proof (induction ps s rule: strip_front.induct)
  case (1 ps s)
  show ?case
  proof (cases "starting ps s")
    case (Some p)
    with 1 [OF Some] show ?thesis by (subst strip_front.simps) simp
  qed (subst strip_front.simps, simp)
qed

lemma strip_front_shorter: "starting ps s = Some p \<Longrightarrow> length (strip_front ps s) < length s"
  using starting_shorter [of ps s p] strip_front_length [of ps "drop (length p) s"]
  by (subst strip_front.simps) simp

text \<open>\<^verbatim>\<open>re.sub(r"\s+", " ", text)\<close>: the white space of \<open>re\<close> is that of \<open>strip\<close>.\<close>

function collapse :: "string \<Rightarrow> string" where
  "collapse [] = []"
| "collapse (c # s) =
     (if starting WS (c # s) = None then c # collapse s else CHR '' '' # collapse (lstrip (c # s)))"
  by pat_completeness auto
termination
  by (relation "measure length") (auto simp: lstrip_def dest: strip_front_shorter)

definition normalize_content :: "pylib \<Rightarrow> string \<Rightarrow> string" where
  "normalize_content lib text = collapse (py_lower lib (strip text))"

definition content_sha256 :: "pylib \<Rightarrow> string \<Rightarrow> string" where
  "content_sha256 lib text = sha256_hex (normalize_content lib text)"

section \<open>Reasons\<close>

record reason =
  cr_code :: string
  cr_message :: string
  cr_field :: string
  cr_hard :: bool

datatype store_exc =
    Evidence_exc ev_exc
  | Clause_violation "reason list"
  | Bad_value string
  | Store_unavailable string
  | Version_conflict string
  | Invalid_input string
  | File_error

record soft_rules =
  sr_emotion :: "string \<Rightarrow> bool"
  sr_transient :: "string \<Rightarrow> bool"
  sr_transcript :: "string \<Rightarrow> bool"

record clause_env =
  ce_hard :: string
  ce_soft :: string

definition ALLOWED_TYPES :: "string list" where
  "ALLOWED_TYPES = [''architecture'', ''decision'', ''fact'', ''research'']"

definition EVIDENCE_KINDS :: "string list" where
  "EVIDENCE_KINDS = [''command'', ''commit'', ''doc'', ''document'', ''file'', ''issue'', ''log'', ''pr'', ''receipt'', ''test'', ''url'']"

definition hard_mode :: "clause_env \<Rightarrow> string" where
  "hard_mode env = (if ascii_lower (strip (ce_hard env)) = ''off'' then ''off'' else ''enforce'')"

definition soft_mode :: "clause_env \<Rightarrow> string" where
  "soft_mode env =
     (let v = ascii_lower (strip (ce_soft env)) in if v \<in> {''warn'', ''enforce'', ''off''} then v else ''warn'')"

definition hard_reason :: "string \<Rightarrow> string \<Rightarrow> string \<Rightarrow> reason" where
  "hard_reason code message field = \<lparr>cr_code = code, cr_message = message, cr_field = field, cr_hard = True\<rparr>"

section \<open>Evaluation\<close>

text \<open>\<open>any(...)\<close> over calls that may raise.\<close>

fun any_res :: "('a \<Rightarrow> 'e + bool) \<Rightarrow> 'a list \<Rightarrow> 'e + bool" where
  "any_res f [] = Inr False"
| "any_res f (x # xs) = res_bind (f x) (\<lambda>b. if b then Inr True else any_res f xs)"

definition evidence_reason :: "string \<Rightarrow> link list \<Rightarrow> resolver option \<Rightarrow> ev_exc + reason option" where
  "evidence_reason mem_type links resolve =
     (if mem_type = ''decision'' then
        Inr (if list_ex (\<lambda>e. link_ref e \<noteq> []) links then None
             else Some (hard_reason ''clause_v_evidence_required''
               ''A decision needs at least one evidence link (a user-request link is accepted).'' ''evidence''))
      else if list_ex (\<lambda>e. link_kind e \<in> set EVIDENCE_KINDS \<and> link_ref e \<noteq> []) links then Inr None
      else res_bind (any_res (\<lambda>e. counts_as_fact_evidence e resolve) links) (\<lambda>b. Inr
        (if b then None
         else Some (hard_reason ''clause_v_evidence_required''
           (''A '' @ mem_type @ '' needs at least one checkable evidence link (kind one of: '' @ join_with '', '' EVIDENCE_KINDS
            @ '', or an evidence-object link to an intact '' @ CES_FACT @ '' object). A chat message is not evidence.'') ''evidence''))))"

definition type_reasons :: "pylib \<Rightarrow> string \<Rightarrow> reason list" where
  "type_reasons lib t =
     (if t = ''preference'' then [hard_reason ''clause_v_preference''
        ''Preferences are memory, not evidence (Clause V). Record a decision or an architecture note instead.'' ''type'']
      else if t = ''task'' then [hard_reason ''clause_v_transient_state''
        ''Tasks are transient state (Clause V); they do not belong in the ledger.'' ''type'']
      else if t = ''external_context'' then [hard_reason ''clause_v_external_context''
        ''External context is ungoverned context (Clause V). Record a decision that cites it as evidence.'' ''type'']
      else if t \<notin> set ALLOWED_TYPES then [hard_reason ''clause_v_type_not_allowed''
        (''Type '' @ py_repr lib t @ '' is not allowed on the constitutional path (allowed: '' @ join_with '', '' ALLOWED_TYPES @ '').'') ''type'']
      else [])"

definition hard_reasons :: "pylib \<Rightarrow> string \<Rightarrow> link list \<Rightarrow> resolver option \<Rightarrow> ev_exc + reason list" where
  "hard_reasons lib t evidence resolve =
     res_bind (evidence_reason t evidence resolve) (\<lambda>er. Inr
       (type_reasons lib t @ (case er of None \<Rightarrow> [] | Some r \<Rightarrow> [r])))"

definition opt_text :: "string option \<Rightarrow> string" where
  "opt_text s = (case s of None \<Rightarrow> [] | Some t \<Rightarrow> t)"

definition soft_reasons :: "soft_rules \<Rightarrow> string \<Rightarrow> string option \<Rightarrow> string list \<Rightarrow> reason list" where
  "soft_reasons rules content subject tags =
     (let text = join_with '' '' [content, opt_text subject, join_with '' '' tags];
          soft = (\<lambda>code message. \<lparr>cr_code = code, cr_message = message, cr_field = ''content'', cr_hard = False\<rparr>)
      in (if sr_emotion rules text then [soft ''clause_v_emotion'' ''Reads like a reaction, praise or a feeling (Clause V excludes emotion).''] else [])
         @ (if sr_transient rules content then [soft ''clause_v_transient_state'' ''Reads like transient state, not a lasting fact (Clause V).''] else [])
         @ (if sr_transcript rules content then [soft ''clause_v_transcript_dump'' ''Looks like a chat transcript dump (Clause V).''] else []))"

section \<open>The gate\<close>

type_synonym warnings = "reason list option"

definition take_warnings :: "warnings \<Rightarrow> reason list \<times> warnings" where
  "take_warnings w = ((case w of None \<Rightarrow> [] | Some rs \<Rightarrow> rs), None)"

record judged =
  j_type :: string
  j_content :: string
  j_subject :: "string option"
  j_tags :: "string list"
  j_evidence :: "link list"

text \<open>Warnings are reset first; a refusal leaves them reset.\<close>

definition judge :: "pylib \<Rightarrow> soft_rules \<Rightarrow> clause_env \<Rightarrow> bool \<Rightarrow> bool \<Rightarrow> judged \<Rightarrow> resolver option \<Rightarrow> store_exc + warnings" where
  "judge lib rules env check_hard check_soft w resolve =
     (if hard_mode env = ''off'' then Inr None
      else case (if check_hard then hard_reasons lib (j_type w) (j_evidence w) resolve else Inr []) of
        Inl e \<Rightarrow> Inl (Evidence_exc e)
      | Inr hard \<Rightarrow>
        (let soft = (if soft_mode env = ''off'' \<or> \<not> check_soft then [] else soft_reasons rules (j_content w) (j_subject w) (j_tags w));
             reasons = (if soft \<noteq> [] \<and> soft_mode env = ''enforce'' then hard @ soft else hard);
             warn = (if soft \<noteq> [] \<and> soft_mode env = ''enforce'' then [] else soft)
         in if reasons \<noteq> [] then Inl (Clause_violation reasons)
            else Inr (if warn = [] then None else Some warn)))"

definition gate_create :: "pylib \<Rightarrow> soft_rules \<Rightarrow> clause_env \<Rightarrow> memory_create \<Rightarrow> resolver option \<Rightarrow> store_exc + warnings" where
  "gate_create lib rules env data resolve =
     judge lib rules env True True
       \<lparr>j_type = mc_type data, j_content = mc_content data, j_subject = mc_subject data, j_tags = mc_tags data,
        j_evidence = mc_evidence data\<rparr> resolve"

definition pick :: "'a option \<Rightarrow> 'a \<Rightarrow> 'a" where
  "pick new old = (case new of None \<Rightarrow> old | Some v \<Rightarrow> v)"

definition gate_update :: "pylib \<Rightarrow> soft_rules \<Rightarrow> clause_env \<Rightarrow> mem_row \<Rightarrow> memory_update \<Rightarrow> resolver option \<Rightarrow> store_exc + warnings" where
  "gate_update lib rules env old u resolve =
     (let status = pick (mu_status u) (r_status old);
          mem_type = pick (mu_type u) (r_type old);
          evidence = pick (mu_evidence u) (r_evidence old);
          subject = (case mu_subject u of None \<Rightarrow> r_subject old | Some s \<Rightarrow> Some s);
          admits = (status = ''verified''
                    \<or> (mu_type u \<noteq> None \<and> mu_type u \<noteq> Some (r_type old))
                    \<or> mu_evidence u \<noteq> None
                    \<or> (r_status old = ''archived'' \<and> status \<noteq> ''archived''));
          text_changed = (mu_content u \<noteq> None \<or> mu_subject u \<noteq> None \<or> mu_tags u \<noteq> None)
      in judge lib rules env (admits \<and> status \<noteq> ''archived'') (text_changed \<and> status \<noteq> ''archived'')
           \<lparr>j_type = mem_type, j_content = pick (mu_content u) (r_content old), j_subject = subject,
            j_tags = pick (mu_tags u) (r_tags old), j_evidence = evidence\<rparr> resolve)"

section \<open>What passes the gate\<close>

definition constitutional :: "string \<Rightarrow> link list \<Rightarrow> resolver option \<Rightarrow> bool" where
  "constitutional t evidence resolve \<longleftrightarrow> t \<in> set ALLOWED_TYPES \<and> evidence_reason t evidence resolve = Inr None"

lemma type_reasons_Nil: "type_reasons lib t = [] \<longleftrightarrow> t \<in> set ALLOWED_TYPES"
  by (auto simp: type_reasons_def ALLOWED_TYPES_def)

lemma hard_reasons_Nil: "hard_reasons lib t evidence resolve = Inr [] \<longleftrightarrow> constitutional t evidence resolve"
  by (auto simp: hard_reasons_def constitutional_def res_bind_Inr_iff type_reasons_Nil split: option.splits)

lemma judge_constitutional:
  "judge lib rules env True check_soft w resolve = Inr warn \<Longrightarrow> hard_mode env = ''enforce'' \<Longrightarrow>
     constitutional (j_type w) (j_evidence w) resolve"
  by (auto simp: judge_def Let_def intro: hard_reasons_Nil [THEN iffD1] split: sum.splits if_splits)

lemma gate_create_constitutional:
  "gate_create lib rules env data resolve = Inr warn \<Longrightarrow> hard_mode env = ''enforce'' \<Longrightarrow>
     constitutional (mc_type data) (mc_evidence data) resolve"
  unfolding gate_create_def by (drule judge_constitutional) simp_all

lemma gate_update_constitutional:
  "gate_update lib rules env old u resolve = Inr warn \<Longrightarrow> hard_mode env = ''enforce'' \<Longrightarrow>
     pick (mu_status u) (r_status old) = ''verified'' \<Longrightarrow>
     constitutional (pick (mu_type u) (r_type old)) (pick (mu_evidence u) (r_evidence old)) resolve"
  using judge_constitutional [where w = "\<lparr>j_type = pick (mu_type u) (r_type old), j_content = c, j_subject = sb, j_tags = tg,
      j_evidence = pick (mu_evidence u) (r_evidence old)\<rparr>" for c sb tg]
  by (auto simp: gate_update_def Let_def split del: option.split)

end
