(* ===== verification/Row_Store.thy ===== *)
theory Row_Store
  imports Clause_V Ledger_Steps
begin

text \<open>
  The write side of the per-tenant store (\<^verbatim>\<open>PostgresRowStore\<close> in \<^verbatim>\<open>app/pg_store.py\<close>): the
  table \<^verbatim>\<open>evidence_objects\<close>, the evidence operations, and \<open>create_memory\<close>, \<open>update_memory\<close> and
  \<open>delete_memory\<close> over the ledger tables.

  One transaction is one function on the state; what other sessions commit meanwhile is an argument:
  a function on the state applied where the code lets other sessions run. The random record ids and the
  clock are arguments too. An exception leaves a transaction without effect.
\<close>

section \<open>Tables\<close>

type_synonym evidence_table = "(string \<times> evidence_object) list"

record store_db =
  st_ledger :: ledger_db
  st_evidence :: evidence_table

text \<open>Text with a zero byte, which PostgreSQL cannot hold.\<close>

definition nul :: "string \<Rightarrow> bool" where
  "nul s \<longleftrightarrow> CHR 0x00 \<in> set s"

primrec json_nul :: "json \<Rightarrow> bool" where
  "json_nul JNull = False" | "json_nul (JBool b) = False" | "json_nul (JInt i) = False" | "json_nul (JFloat s) = False"
| "json_nul (JNan s) = False" | "json_nul (JStr s) = nul s"
| "json_nul (JList vs) = list_ex (\<lambda>b. b) (map json_nul vs)"
| "json_nul (JObj kvs) = list_ex (\<lambda>kb. nul (fst kb) \<or> snd kb) (map (map_prod (\<lambda>k. k) json_nul) kvs)"

definition link_nul :: "link \<Rightarrow> bool" where
  "link_nul l \<longleftrightarrow> nul (l_kind l) \<or> nul (l_ref l) \<or> nul (l_note l)"

text \<open>The column checks of \<^verbatim>\<open>evidence_objects\<close>.\<close>

definition evidence_checks :: "evidence_object \<Rightarrow> bool" where
  "evidence_checks obj \<longleftrightarrow>
     starts_with ID_PREFIX (eo_id obj) \<and> hex64 (drop (length ID_PREFIX) (eo_id obj)) \<and>
     1 \<le> char_length (eo_schema obj) \<and> char_length (eo_schema obj) \<le> 128 \<and>
     1 \<le> eo_size obj \<and> eo_size obj \<le> 65536 \<and>
     1 \<le> char_length (eo_by obj) \<and> char_length (eo_by obj) \<le> 128"

datatype evidence_change = Ev_update | Ev_delete | Ev_truncate

text \<open>\<open>jarvis_evidence_immutable\<close> on the three triggers.\<close>

definition jarvis_evidence_immutable :: "evidence_change \<Rightarrow> evidence_table \<Rightarrow> sql_error + evidence_table" where
  "jarvis_evidence_immutable op tab = Inl (Raised ''evidence_objects is append-only'')"

section \<open>Transactions\<close>

text \<open>What can leave the body of a transaction, and what \<open>_tx\<close> turns it into.\<close>

datatype py_exc = Sql sql_error | Bad_jsonb | Nul_text | Exc store_exc

fun tx_exit :: "py_exc \<Rightarrow> py_exc" where
  "tx_exit (Exc e) = Exc e"
| "tx_exit Nul_text = Exc (Invalid_input ''a text value contains a NUL (0x00) byte, which the ledger cannot store'')"
| "tx_exit Bad_jsonb = Exc (Store_unavailable ''Ledger database error'')"
| "tx_exit (Sql _) = Exc (Store_unavailable ''Ledger database error'')"

definition tx :: "py_exc + 'a \<Rightarrow> py_exc + 'a" where
  "tx r = (case r of Inl e \<Rightarrow> Inl (tx_exit e) | Inr a \<Rightarrow> Inr a)"

text \<open>What a caller sees of an exception that nothing handled (after \<open>tx\<close> it is always an \<open>Exc\<close>).\<close>

fun uncaught :: "py_exc \<Rightarrow> store_exc" where
  "uncaught (Exc e) = e"
| "uncaught Nul_text = Invalid_input []"
| "uncaught _ = Store_unavailable []"

definition tenant_session :: "string \<Rightarrow> int \<Rightarrow> session" where
  "tenant_session t now = \<lparr>s_tenant = t, s_actor = t, s_history_op = [], s_now = now\<rparr>"

section \<open>Evidence Objects\<close>

definition find_evidence :: "string \<Rightarrow> string \<Rightarrow> evidence_table \<Rightarrow> evidence_object option" where
  "find_evidence t oid tab = map_option snd (find (\<lambda>r. (fst r, eo_id (snd r)) = (t, oid)) tab)"

definition insert_evidence :: "string \<Rightarrow> evidence_object \<Rightarrow> evidence_table \<Rightarrow> py_exc + bool \<times> evidence_table" where
  "insert_evidence t obj tab =
     (if nul (eo_schema obj) \<or> nul (eo_by obj) then Inl Nul_text
      else if json_nul (JObj (eo_payload obj)) \<or> (case eo_pointer obj of None \<Rightarrow> False | Some p \<Rightarrow> json_nul (JObj p)) then Inl Bad_jsonb
      else if \<not> evidence_checks obj then Inl (Sql Check_violation)
      else if find_evidence t (eo_id obj) tab \<noteq> None then Inr (False, tab)
      else Inr (True, tab @ [(t, obj\<lparr>eo_payload := jsonb_dict (eo_payload obj), eo_pointer := map_option jsonb_dict (eo_pointer obj)\<rparr>)]))"

definition new_object :: "evidence_create \<Rightarrow> string \<Rightarrow> bytes \<Rightarrow> int \<Rightarrow> evidence_object" where
  "new_object req oid data now =
     \<lparr>eo_id = oid, eo_schema = ec_schema req, eo_payload = ec_payload req, eo_pointer = ec_pointer req,
      eo_size = int (length data), eo_created = now, eo_by = ec_source req\<rparr>"

definition put_evidence_object ::
  "pylib \<Rightarrow> string \<Rightarrow> int \<Rightarrow> evidence_create \<Rightarrow> evidence_table \<Rightarrow> store_exc + (evidence_object \<times> bool) \<times> evidence_table" where
  "put_evidence_object lib t now req tab =
     (case build_object lib req of
        Inl e \<Rightarrow> Inl (Evidence_exc e)
      | Inr (oid, data) \<Rightarrow>
          case tx (insert_evidence t (new_object req oid data now) tab) of
            Inl e \<Rightarrow> Inl (uncaught e)
          | Inr (created, tab') \<Rightarrow>
              case find_evidence t oid tab' of
                None \<Rightarrow> Inl (Store_unavailable [])
              | Some obj \<Rightarrow> Inr ((obj, created), tab'))"

definition get_evidence_object :: "string \<Rightarrow> string \<Rightarrow> evidence_table \<Rightarrow> evidence_object option" where
  "get_evidence_object t oid tab = find_evidence t oid tab"

definition all_evidence_objects :: "string \<Rightarrow> evidence_table \<Rightarrow> evidence_object list" where
  "all_evidence_objects t tab = sort_key eo_created (sort_key eo_id (map snd (filter (\<lambda>r. fst r = t) tab)))"

definition resolve_evidence :: "pylib \<Rightarrow> string \<Rightarrow> evidence_table \<Rightarrow> resolver" where
  "resolve_evidence lib t tab r =
     (case find_evidence t r tab of
        None \<Rightarrow> Inr None
      | Some obj \<Rightarrow>
          res_bind (verify_stored lib obj) (\<lambda>problems.
            if problems \<noteq> [] then
              Inl (EvidenceError ''evidence_object_invalid'' ''the stored evidence object is damaged''
                [ref_reason ''evidence_object_hash_mismatch'' r (List.hd problems)] 422)
            else Inr (Some \<lparr>ei_id = eo_id obj, ei_schema = eo_schema obj\<rparr>)))"

section \<open>Creating a record\<close>

definition supersedes_exists :: "ledger_db \<Rightarrow> string \<Rightarrow> string \<Rightarrow> bool" where
  "supersedes_exists db t target \<longleftrightarrow> find_row db t target \<noteq> None"

definition supersedes_missing :: "string \<Rightarrow> store_exc" where
  "supersedes_missing target = Bad_value (''supersedes target not found: '' @ target)"

definition non_empty :: "string option \<Rightarrow> string option" where
  "non_empty s = (if s = Some [] then None else s)"

definition new_row :: "pylib \<Rightarrow> string \<Rightarrow> string \<Rightarrow> int \<Rightarrow> memory_create \<Rightarrow> mem_row" where
  "new_row lib t rid now data =
     \<lparr>r_tenant = t, r_id = rid, r_version = 1, r_content = mc_content data, r_sha = content_sha256 lib (mc_content data),
      r_created = now, r_updated = now, r_source = mc_source data, r_session = mc_session data, r_type = mc_type data,
      r_status = mc_status data, r_confidence = mc_confidence data, r_subject = mc_subject data,
      r_supersedes = non_empty (mc_supersedes data), r_tags = mc_tags data, r_evidence = mc_evidence data\<rparr>"

definition row_text_nul :: "mem_row \<Rightarrow> bool" where
  "row_text_nul r \<longleftrightarrow> list_ex nul ([r_tenant r, r_id r, r_content r, r_sha r, r_source r, r_session r, r_type r, r_status r,
     opt_text (r_subject r), opt_text (r_supersedes r)] @ r_tags r)"

text \<open>One statement that writes a row: psycopg encodes the texts, the server parses the JSON and then runs.\<close>

definition write_row :: "mem_row \<Rightarrow> sql_error + 'a \<Rightarrow> py_exc + 'a" where
  "write_row r res =
     (if row_text_nul r then Inl Nul_text
      else if list_ex link_nul (r_evidence r) then Inl Bad_jsonb
      else case res of
             Inl Foreign_key_violation \<Rightarrow> Inl (Exc (supersedes_missing (opt_text (r_supersedes r))))
           | Inl e \<Rightarrow> Inl (Sql e)
           | Inr a \<Rightarrow> Inr a)"

definition missing_target :: "string option \<Rightarrow> string \<Rightarrow> ledger_db \<Rightarrow> string option" where
  "missing_target target t db =
     (case target of None \<Rightarrow> None | Some m \<Rightarrow> if supersedes_exists db t m then None else Some m)"

definition create_attempt ::
  "pylib \<Rightarrow> (mem_row \<Rightarrow> string) \<Rightarrow> string \<Rightarrow> int \<Rightarrow> memory_create \<Rightarrow> (store_db \<Rightarrow> store_db) \<Rightarrow> string \<Rightarrow> store_db
     \<Rightarrow> (py_exc + mem_row) \<times> store_db" where
  "create_attempt lib jtext t now data others rid db =
     (case missing_target (non_empty (mc_supersedes data)) t (st_ledger db) of
        Some target \<Rightarrow> (Inl (Exc (supersedes_missing target)), db)
      | None \<Rightarrow>
          (let db = others db; row = new_row lib t rid now data
           in case write_row row (sql_insert jtext (tenant_session t now) row (st_ledger db)) of
                Inl e \<Rightarrow> (Inl e, db)
              | Inr l \<Rightarrow> (Inr row, db\<lparr>st_ledger := l\<rparr>)))"

fun create_loop ::
  "pylib \<Rightarrow> (mem_row \<Rightarrow> string) \<Rightarrow> string \<Rightarrow> int \<Rightarrow> memory_create \<Rightarrow> (store_db \<Rightarrow> store_db) \<Rightarrow> string list \<Rightarrow> store_db
     \<Rightarrow> (store_exc + mem_row) \<times> store_db" where
  "create_loop lib jtext t now data others [] db = (Inl (Store_unavailable ''Could not allocate a unique memory id''), db)"
| "create_loop lib jtext t now data others (rid # rids) db =
     (case create_attempt lib jtext t now data others rid db of
        (r, db') \<Rightarrow>
          (case tx r of
             Inr row \<Rightarrow> (Inr row, db')
           | Inl (Sql Unique_violation) \<Rightarrow> create_loop lib jtext t now data others rids db'
           | Inl e \<Rightarrow> (Inl (uncaught e), db')))"

definition create_memory ::
  "pylib \<Rightarrow> soft_rules \<Rightarrow> clause_env \<Rightarrow> (mem_row \<Rightarrow> string) \<Rightarrow> string \<Rightarrow> int \<Rightarrow> (store_db \<Rightarrow> store_db) \<Rightarrow> string list
     \<Rightarrow> memory_create \<Rightarrow> store_db \<Rightarrow> (store_exc + mem_row) \<times> store_db" where
  "create_memory lib rules env jtext t now others rids data db =
     (let resolve = resolve_evidence lib t (st_evidence db)
      in case check_links (mc_evidence data) resolve of
           Inl e \<Rightarrow> (Inl (Evidence_exc e), db)
         | Inr _ \<Rightarrow>
             case gate_create lib rules env data (Some resolve) of
               Inl e \<Rightarrow> (Inl e, db)
             | Inr _ \<Rightarrow> create_loop lib jtext t now data others (take 3 rids) db)"

section \<open>Updating a record\<close>

definition MAX_UPDATE_ATTEMPTS :: nat where
  "MAX_UPDATE_ATTEMPTS = 5"

definition merge_update :: "pylib \<Rightarrow> mem_row \<Rightarrow> memory_update \<Rightarrow> int \<Rightarrow> mem_row" where
  "merge_update lib old u now =
     old\<lparr>r_content := pick (mu_content u) (r_content old),
         r_sha := (case mu_content u of None \<Rightarrow> r_sha old | Some c \<Rightarrow> content_sha256 lib c),
         r_updated := now,
         r_source := pick (mu_source u) (r_source old),
         r_session := pick (mu_session u) (r_session old),
         r_type := pick (mu_type u) (r_type old),
         r_status := pick (mu_status u) (r_status old),
         r_confidence := pick (mu_confidence u) (r_confidence old),
         r_subject := (case mu_subject u of None \<Rightarrow> r_subject old | Some s \<Rightarrow> Some s),
         r_supersedes := non_empty (case mu_supersedes u of None \<Rightarrow> r_supersedes old | Some s \<Rightarrow> Some s),
         r_tags := pick (mu_tags u) (r_tags old),
         r_evidence := pick (mu_evidence u) (r_evidence old)\<rparr>"

text \<open>The columns the \<open>UPDATE\<close> sets.\<close>

definition set_columns :: "mem_row \<Rightarrow> mem_row \<Rightarrow> mem_row" where
  "set_columns new r =
     r\<lparr>r_content := r_content new, r_sha := r_sha new, r_updated := r_updated new, r_source := r_source new,
       r_session := r_session new, r_type := r_type new, r_status := r_status new, r_confidence := r_confidence new,
       r_subject := r_subject new, r_supersedes := r_supersedes new, r_tags := r_tags new, r_evidence := r_evidence new\<rparr>"

definition version_conflict :: "int \<Rightarrow> int \<Rightarrow> store_exc" where
  "version_conflict expected current =
     Version_conflict (''version conflict: expected '' @ str_int expected @ '', current '' @ str_int current)"

datatype attempt = Finished "store_exc + mem_row option" | Retry

record interference =
  after_read :: "nat \<Rightarrow> store_db \<Rightarrow> store_db"
  before_write :: "nat \<Rightarrow> store_db \<Rightarrow> store_db"

text \<open>The checks between reading the row and writing it; \<open>None\<close> is a pass.\<close>

definition update_refusal ::
  "pylib \<Rightarrow> soft_rules \<Rightarrow> clause_env \<Rightarrow> string \<Rightarrow> mem_row \<Rightarrow> memory_update \<Rightarrow> mem_row \<Rightarrow> store_db \<Rightarrow> store_exc option" where
  "update_refusal lib rules env t old u new db =
     (let resolve = resolve_evidence lib t (st_evidence db)
      in case (case mu_evidence u of None \<Rightarrow> Inr () | Some links \<Rightarrow> check_links links resolve) of
           Inl e \<Rightarrow> Some (Evidence_exc e)
         | Inr _ \<Rightarrow>
             case gate_update lib rules env old u (Some resolve) of
               Inl e \<Rightarrow> Some e
             | Inr _ \<Rightarrow>
                 map_option supersedes_missing (missing_target (r_supersedes new) t (st_ledger db)))"

definition update_attempt ::
  "pylib \<Rightarrow> soft_rules \<Rightarrow> clause_env \<Rightarrow> (mem_row \<Rightarrow> string) \<Rightarrow> string \<Rightarrow> interference \<Rightarrow> (nat \<Rightarrow> int) \<Rightarrow> nat \<Rightarrow> string
     \<Rightarrow> memory_update \<Rightarrow> store_db \<Rightarrow> attempt \<times> store_db" where
  "update_attempt lib rules env jtext t others clock i m u db =
     (case find_row (st_ledger db) t m of
        None \<Rightarrow> (Finished (Inr None), db)
      | Some old \<Rightarrow>
          if mu_expected_version u \<noteq> None \<and> mu_expected_version u \<noteq> Some (r_version old) then
            (Finished (Inl (version_conflict (the (mu_expected_version u)) (r_version old))), db)
          else
            (let db1 = after_read others i db; new = merge_update lib old u (clock i)
             in case update_refusal lib rules env t old u new db1 of
                  Some e \<Rightarrow> (Finished (Inl e), db1)
                | None \<Rightarrow>
                    let db2 = before_write others i db1
                    in case tx (write_row new (sql_update jtext (tenant_session t (clock i)) m (r_version old) (set_columns new) (st_ledger db2))) of
                         Inl e \<Rightarrow> (Finished (Inl (uncaught e)), db2)
                       | Inr (Some row, l) \<Rightarrow> (Finished (Inr (Some row)), db2\<lparr>st_ledger := l\<rparr>)
                       | Inr (None, l) \<Rightarrow>
                           if mu_expected_version u \<noteq> None then
                             (Finished (Inl (Version_conflict ''version conflict: record changed during update'')), db2)
                           else (Retry, db2)))"

fun update_loop ::
  "pylib \<Rightarrow> soft_rules \<Rightarrow> clause_env \<Rightarrow> (mem_row \<Rightarrow> string) \<Rightarrow> string \<Rightarrow> interference \<Rightarrow> (nat \<Rightarrow> int) \<Rightarrow> nat list \<Rightarrow> string
     \<Rightarrow> memory_update \<Rightarrow> store_db \<Rightarrow> (store_exc + mem_row option) \<times> store_db" where
  "update_loop lib rules env jtext t others clock [] m u db =
     (Inl (Version_conflict ''version conflict: too much concurrent modification, retry''), db)"
| "update_loop lib rules env jtext t others clock (i # is) m u db =
     (case update_attempt lib rules env jtext t others clock i m u db of
        (Finished r, db') \<Rightarrow> (r, db')
      | (Retry, db') \<Rightarrow> update_loop lib rules env jtext t others clock is m u db')"

definition update_memory ::
  "pylib \<Rightarrow> soft_rules \<Rightarrow> clause_env \<Rightarrow> (mem_row \<Rightarrow> string) \<Rightarrow> string \<Rightarrow> interference \<Rightarrow> (nat \<Rightarrow> int) \<Rightarrow> string
     \<Rightarrow> memory_update \<Rightarrow> store_db \<Rightarrow> (store_exc + mem_row option) \<times> store_db" where
  "update_memory lib rules env jtext t others clock m u db =
     update_loop lib rules env jtext t others clock [0..<MAX_UPDATE_ATTEMPTS] m u db"

section \<open>Deleting a record\<close>

definition delete_memory :: "(mem_row \<Rightarrow> string) \<Rightarrow> string \<Rightarrow> int \<Rightarrow> string \<Rightarrow> store_db \<Rightarrow> bool \<times> store_db" where
  "delete_memory jtext t now m db =
     (case sql_delete jtext (tenant_session t now) m (st_ledger db) of
        (found, l) \<Rightarrow> (found, db\<lparr>st_ledger := l\<rparr>))"

end
