(* ===== verification/Evidence_Theorems.thy ===== *)
theory Evidence_Theorems
  imports Evidence_Json
begin

text \<open>
  What an evidence id and an accepted request guarantee: the id commits to the content up to the order of
  object members, the outcomes of \<open>build_object\<close> and when each occurs, the bounds of what it accepts, and
  that an accepted object re-verifies after its trip through the \<open>jsonb\<close> columns.
\<close>

section \<open>Canonical text of an envelope\<close>

lemma envelope_jnorm:
  "jnorm (envelope s p q) = jnorm (envelope s' p' q') \<longleftrightarrow>
     s = s' \<and> jnorm (JObj p) = jnorm (JObj p') \<and> map_option (\<lambda>d. jnorm (JObj d)) q = map_option (\<lambda>d. jnorm (JObj d)) q'"
proof -
  have e: "jnorm (envelope s p q) = JObj ((''payload'', jnorm (JObj p)) #
      (case q of None \<Rightarrow> [] | Some d \<Rightarrow> [(''pointer'', jnorm (JObj d))]) @ [(''schema_id'', JStr s)])" for s p q
    by (cases q) (simp_all add: envelope_def less_eq_char_def less_char_def)
  show ?thesis unfolding e by (cases q; cases q') (auto simp del: jnorm.simps(8))
qed

lemma dumps_envelope_cong: "dumps (JObj p) = dumps (JObj p') \<Longrightarrow> dumps (envelope s p None) = dumps (envelope s p' None)"
  unfolding envelope_def option.case append_Nil2
  by (subst dumps.simps(8), subst dumps.simps(8), simp only: list.map map_prod_simp)

lemma jnorm_jsonb_dict: "keyed (JObj d) \<Longrightarrow> jnorm (JObj (jsonb_dict d)) = jnorm (JObj d)"
  using jnorm_jsonb [of "JObj d"] by (simp only: jsonb_JObj)

lemma has_nan_envelope: "has_nan (envelope s p q) \<longleftrightarrow> has_nan (JObj p) \<or> (\<exists>d. q = Some d \<and> has_nan (JObj d))"
  by (cases q) (auto simp: envelope_def)

definition keyed_opt :: "dict option \<Rightarrow> bool" where
  "keyed_opt q \<longleftrightarrow> (\<forall>d. q = Some d \<longrightarrow> keyed (JObj d))"

lemma canonical_jsonb:
  assumes "keyed (JObj p)" "keyed_opt q"
  shows "canonical_bytes s (jsonb_dict p) (map_option jsonb_dict q) = canonical_bytes s p q"
proof -
  have "jnorm (envelope s (jsonb_dict p) (map_option jsonb_dict q)) = jnorm (envelope s p q)"
    unfolding envelope_jnorm using assms by (cases q) (auto simp: jnorm_jsonb_dict keyed_opt_def simp del: jnorm.simps(8))
  then have "dumps (envelope s (jsonb_dict p) (map_option jsonb_dict q)) = dumps (envelope s p q)"
    by (metis dumps_jnorm)
  moreover have "has_nan (JObj (jsonb_dict d)) = has_nan (JObj d)" for d
    using has_nan_jsonb [of "JObj d"] by (simp only: jsonb_JObj)
  ultimately show ?thesis by (cases q) (auto simp: canonical_bytes_def has_nan_envelope simp del: has_nan.simps)
qed

section \<open>Outcomes of a build\<close>

definition pointer_storable :: "dict option \<Rightarrow> bool" where
  "pointer_storable q \<longleftrightarrow> (\<forall>d. q = Some d \<longrightarrow> storable d)"

lemma walks_Nil:
  "walk_problems p a @ pointer_list (\<lambda>p. walk_problems p b) q = [] \<longleftrightarrow> storable p \<and> pointer_storable q"
  by (cases q) (auto simp: walk_problems_iff pointer_list_def pointer_storable_def)

lemma storable_no_nan: "storable p \<Longrightarrow> pointer_storable q \<Longrightarrow> canonical_bytes s p q = Inr (dumps (envelope s p q))"
proof -
  assume "storable p" "pointer_storable q"
  then have "\<not> has_nan (envelope s p q)"
    unfolding has_nan_envelope storable_def pointer_storable_def by (metis float_free_no_nan)
  then show ?thesis by (simp add: canonical_bytes_def)
qed

text \<open>The text a request is hashed to, and the id it gets.\<close>

definition request_text :: "evidence_create \<Rightarrow> bytes" where
  "request_text req = dumps (envelope (ec_schema req) (ec_payload req) (ec_pointer req))"

definition request_id :: "evidence_create \<Rightarrow> string" where
  "request_id req = ID_PREFIX @ sha256_hex (request_text req)"

definition request_storable :: "evidence_create \<Rightarrow> bool" where
  "request_storable req \<longleftrightarrow> ec_schema req \<in> set KNOWN_SCHEMAS \<and> storable (ec_payload req) \<and> pointer_storable (ec_pointer req)"

definition request_valid :: "pylib \<Rightarrow> evidence_create \<Rightarrow> bool" where
  "request_valid lib req \<longleftrightarrow> validate_payload lib (ec_schema req) (ec_payload req) = Inr [] \<and>
     pointer_list validate_pointer (ec_pointer req) = []"

lemma build_object_storable:
  "request_storable req \<Longrightarrow> build_object lib req =
     res_bind (validate_payload lib (ec_schema req) (ec_payload req)) (\<lambda>ps.
       let problems = ps @ pointer_list validate_pointer (ec_pointer req)
       in if problems \<noteq> [] then
         Inl (EvidenceError ''evidence_payload_invalid'' (''the payload does not satisfy '' @ ec_schema req) (problem_reasons problems) 422)
       else if length (request_text req) > INLINE_LIMIT_BYTES then
         Inl (EvidenceError ''evidence_too_large''
              (''the evidence is '' @ dec_nat (length (request_text req)) @ '' bytes; the inline limit is '' @ dec_nat INLINE_LIMIT_BYTES
               @ ''. Record large content as a pointer: keep the description in the payload and give pointer.uri, pointer.sha256 and pointer.size_bytes.'') [] 413)
       else if ec_id req \<noteq> None \<and> ec_id req \<noteq> Some (request_id req) then
         Inl (EvidenceError ''evidence_hash_mismatch'' ''the id you supplied is not the hash of this content''
              [plain_reason ''evidence_hash_mismatch'' (''expected '' @ request_id req)] 422)
       else Inr (request_id req, request_text req))"
proof -
  assume r: "request_storable req"
  then have w: "walk_problems (ec_payload req) ''payload'' = []" "pointer_list (\<lambda>p. walk_problems p ''pointer'') (ec_pointer req) = []"
    using walks_Nil [of "ec_payload req" "''payload''" "''pointer''" "ec_pointer req"] by (simp_all add: request_storable_def)
  have c: "canonical_bytes (ec_schema req) (ec_payload req) (ec_pointer req) = Inr (request_text req)"
    using r by (simp add: request_storable_def storable_no_nan request_text_def)
  show ?thesis
    using r unfolding build_object_def w c res_bind_simps Let_def request_id_def
    by (simp add: request_storable_def)
qed

lemma build_object_not_storable:
  "\<not> request_storable req \<Longrightarrow> \<exists>c m rs. build_object lib req = Inl (EvidenceError c m rs 422)"
  unfolding request_storable_def
  using walks_Nil [of "ec_payload req" "''payload''" "''pointer''" "ec_pointer req"]
  by (auto simp: build_object_def Let_def)

lemma build_object_Inr:
  "build_object lib req = Inr (oid, data) \<longleftrightarrow>
     request_storable req \<and> request_valid lib req \<and> length (request_text req) \<le> INLINE_LIMIT_BYTES \<and>
     (ec_id req = None \<or> ec_id req = Some (request_id req)) \<and> oid = request_id req \<and> data = request_text req"
proof (cases "request_storable req")
  case True
  then show ?thesis
    by (cases "validate_payload lib (ec_schema req) (ec_payload req)")
      (auto simp: build_object_storable request_valid_def Let_def)
next
  case False
  then show ?thesis using build_object_not_storable [OF False, of lib] by auto
qed

lemma validate_payload_Inl: "validate_payload lib schema p = Inl e \<longleftrightarrow>
    e = Type_error \<and> schema = CES_FACT \<and> (\<exists>vs. obj_get p ''method'' = JList vs \<or> (\<exists>kvs. obj_get p ''method'' = JObj kvs))"
  by (cases "obj_get p ''method''")
    (auto simp: validate_payload_def method_field_def Let_def CES_DECISION_def CES_FACT_def CES_REPLAY_RECEIPT_def)

text \<open>Every outcome of a create request: it succeeds exactly when the schema is known, the values can be hashed
  stably, payload and pointer satisfy the schema, the canonical text is at most 64 KB and the expected id (if
  given) is the real one, and then the result is the content address and the canonical text; a refusal has
  status 413 exactly when the text is too large and 422 otherwise; and a FactEvidence payload whose method
  is a list or an object is not refused but raises \<open>TypeError\<close>.\<close>

lemma build_object_outcomes:
  "case build_object lib req of
     Inr (oid, data) \<Rightarrow> request_storable req \<and> request_valid lib req \<and> length (request_text req) \<le> INLINE_LIMIT_BYTES \<and>
       (ec_id req = None \<or> ec_id req = Some (request_id req)) \<and> oid = request_id req \<and> data = request_text req
   | Inl (EvidenceError code message reasons status) \<Rightarrow>
       (status = 413 \<and> code = ''evidence_too_large'' \<and> request_storable req \<and> request_valid lib req \<and> length (request_text req) > INLINE_LIMIT_BYTES)
       \<or> (status = 422 \<and>
           (\<not> request_storable req \<or> \<not> request_valid lib req \<or>
            code = ''evidence_hash_mismatch'' \<and> ec_id req \<noteq> None \<and> ec_id req \<noteq> Some (request_id req)))
   | Inl Type_error \<Rightarrow> request_storable req \<and> ec_schema req = CES_FACT \<and>
       (\<exists>vs kvs. obj_get (ec_payload req) ''method'' \<in> {JList vs, JObj kvs})
   | Inl Value_error \<Rightarrow> False"
proof (cases "request_storable req")
  case True
  show ?thesis
  proof (cases "validate_payload lib (ec_schema req) (ec_payload req)")
    case (Inl e)
    then have b: "build_object lib req = Inl Type_error" using validate_payload_Inl [THEN iffD1, OF Inl]
      by (simp add: build_object_storable [OF True])
    from validate_payload_Inl [THEN iffD1, OF Inl] True show ?thesis unfolding b by auto
  next
    case (Inr ps)
    then show ?thesis using True
      by (auto simp: build_object_storable [OF True] request_valid_def Let_def split: if_splits)
  qed
next
  case False
  then obtain c m rs where "build_object lib req = Inl (EvidenceError c m rs 422)"
    using build_object_not_storable by blast
  with False show ?thesis by simp
qed

section \<open>The id binds the content\<close>

text \<open>Content addressing: two contents without floats have the same id only if they have the same
  schema and the same payload and pointer up to the order of object members, when SHA-256 does not collide on
  the two canonical texts; and the order of members never changes the id.\<close>

lemma object_id_binding:
  assumes "float_free (envelope s p q)" and "float_free (envelope s' p' q')"
    and "inj_on sha256 {dumps (envelope s p q), dumps (envelope s' p' q')}"
  shows "object_id s p q = object_id s' p' q' \<longleftrightarrow>
    s = s' \<and> jnorm (JObj p) = jnorm (JObj p') \<and>
    map_option (\<lambda>d. jnorm (JObj d)) q = map_option (\<lambda>d. jnorm (JObj d)) q'"
proof -
  have "object_id s p q = object_id s' p' q' \<longleftrightarrow> sha256 (dumps (envelope s p q)) = sha256 (dumps (envelope s' p' q'))"
    using assms(1,2) [THEN float_free_no_nan] by (simp add: object_id_def canonical_bytes_def sha256_hex_def hex_inj)
  also have "\<dots> \<longleftrightarrow> dumps (envelope s p q) = dumps (envelope s' p' q')" by (rule inj_on_eq_iff [OF assms(3)]) simp_all
  also have "\<dots> \<longleftrightarrow> jnorm (envelope s p q) = jnorm (envelope s' p' q')" by (rule dumps_inj [OF assms(1,2)])
  finally show ?thesis by (simp only: envelope_jnorm)
qed

definition sample_payload :: dict where
  "sample_payload = [(''statement'', JStr ''use rows''), (''authority'', JStr ''op''), (''source'', JStr ''doc'')]"

definition sample_request :: evidence_create where
  "sample_request = \<lparr>ec_schema = CES_DECISION, ec_payload = sample_payload, ec_pointer = None, ec_source = ''op'', ec_id = None\<rparr>"

lemma object_id_binding_witness:
  "object_id CES_DECISION sample_payload None = object_id CES_DECISION (rev sample_payload) None"
proof -
  have s: "sort_key fst (map (map_prod (\<lambda>k. k) f) sample_payload) = sort_key fst (map (map_prod (\<lambda>k. k) f) (rev sample_payload))" for f
    by (rule sort_key_inj_perm) (simp_all add: sample_payload_def)
  have "dumps (JObj sample_payload) = dumps (JObj (rev sample_payload))" by (simp only: dumps.simps(8) s)
  then have d: "dumps (envelope CES_DECISION sample_payload None) = dumps (envelope CES_DECISION (rev sample_payload) None)"
    by (rule dumps_envelope_cong)
  have n: "jnorm (JObj sample_payload) = jnorm (JObj (rev sample_payload))" by (simp only: jnorm.simps(8) s)
  show ?thesis
    by (rule object_id_binding [THEN iffD2]) (simp_all only: d n, simp_all add: envelope_def sample_payload_def)
qed

section \<open>Accepted objects\<close>

lemma match_id_hash: "match_id (ID_PREFIX @ sha256_hex d)"
  by (simp add: match_id_def starts_with_def)

lemma keyed_distinct: "keyed (JObj d) \<Longrightarrow> distinct (map fst d)"
  by simp

lemma verify_stored_Nil:
  "verify_stored lib obj = Inr [] \<longleftrightarrow>
     match_id (eo_id obj) \<and> storable (eo_payload obj) \<and>
     object_id (eo_schema obj) (eo_payload obj) (eo_pointer obj) = Inr (eo_id obj) \<and>
     validate_payload lib (eo_schema obj) (eo_payload obj) = Inr [] \<and>
     pointer_list validate_pointer (eo_pointer obj) = []"
  by (auto simp: verify_stored_def Let_def walk_problems_iff res_bind_Inr_iff split: sum.splits if_splits)

lemma stored_verifies:
  assumes "build_object lib req = Inr (oid, data)" "keyed (JObj (ec_payload req))" "keyed_opt (ec_pointer req)"
    and "eo_id obj = oid" "eo_schema obj = ec_schema req" "eo_payload obj = jsonb_dict (ec_payload req)"
    and "eo_pointer obj = map_option jsonb_dict (ec_pointer req)"
  shows "verify_stored lib obj = Inr []"
proof -
  note b = assms(1) [unfolded build_object_Inr]
  have "canonical_bytes (ec_schema req) (ec_payload req) (ec_pointer req) = Inr (request_text req)"
    using b by (simp add: request_storable_def storable_no_nan request_text_def)
  moreover have "pointer_list validate_pointer (map_option jsonb_dict (ec_pointer req)) = pointer_list validate_pointer (ec_pointer req)"
    using assms(3) by (cases "ec_pointer req") (auto simp: pointer_list_def keyed_opt_def validate_pointer_jsonb)
  ultimately show ?thesis
    unfolding verify_stored_Nil using b assms(2-)
    by (auto simp: object_id_def canonical_jsonb request_id_def match_id_hash storable_jsonb request_storable_def request_valid_def
        validate_payload_jsonb)
qed

lemma request_text_nonempty: "request_text req \<noteq> []"
  by (simp add: request_text_def envelope_def)

end
