(* ===== verification/Row_Store_Theorems.thy ===== *)
theory Row_Store_Theorems
  imports Row_Store Evidence_Theorems
begin

text \<open>
  What the store operations guarantee together, however the sessions interleave: they only take ledger
  steps, stored evidence always re-verifies, and no verified record escapes Clause V.
\<close>

section \<open>The evidence table\<close>

definition ev_key :: "string \<times> evidence_object \<Rightarrow> string \<times> string" where
  "ev_key r = (fst r, eo_id (snd r))"

definition intact :: "pylib \<Rightarrow> evidence_object \<Rightarrow> bool" where
  "intact lib obj \<longleftrightarrow> verify_stored lib obj = Inr [] \<and> 1 \<le> eo_size obj \<and> eo_size obj \<le> 65536 \<and>
     (\<exists>data. canonical_bytes (eo_schema obj) (eo_payload obj) (eo_pointer obj) = Inr data \<and>
        eo_size obj = int (length data) \<and> eo_id obj = ID_PREFIX @ sha256_hex data)"

definition ev_inv :: "pylib \<Rightarrow> evidence_table \<Rightarrow> bool" where
  "ev_inv lib tab \<longleftrightarrow> distinct (map ev_key tab) \<and> (\<forall>r \<in> set tab. intact lib (snd r))"

lemma find_evidence_alt: "find_evidence t oid tab = map_option snd (find (\<lambda>r. ev_key r = (t, oid)) tab)"
  by (simp add: find_evidence_def ev_key_def)

lemma find_evidence_None: "find_evidence t oid tab = None \<longleftrightarrow> (t, oid) \<notin> ev_key ` set tab"
  by (simp add: find_evidence_alt find_key_None)

lemma find_in: "find P xs = Some x \<Longrightarrow> x \<in> set xs \<and> P x"
  by (induction xs) (auto split: if_splits)

lemma find_evidence_SomeD: "find_evidence t oid tab = Some obj \<Longrightarrow> (t, obj) \<in> set tab \<and> eo_id obj = oid"
  by (auto simp: find_evidence_def dest!: find_in)

lemma find_evidence_append:
  "find_evidence t oid (tab @ x) = (case find_evidence t oid tab of None \<Rightarrow> find_evidence t oid x | Some o' \<Rightarrow> Some o')"
  by (simp add: find_evidence_def find_append split: option.split)

lemma tx_Inr [simp]: "tx r = Inr a \<longleftrightarrow> r = Inr a"
  by (simp add: tx_def split: sum.split)

definition stored_form :: "evidence_object \<Rightarrow> evidence_object" where
  "stored_form obj = obj\<lparr>eo_payload := jsonb_dict (eo_payload obj), eo_pointer := map_option jsonb_dict (eo_pointer obj)\<rparr>"

lemma insert_evidence_Inr:
  "insert_evidence t obj tab = Inr (created, tab') \<longleftrightarrow>
     \<not> nul (eo_schema obj) \<and> \<not> nul (eo_by obj) \<and> \<not> json_nul (JObj (eo_payload obj)) \<and>
     (\<forall>p. eo_pointer obj = Some p \<longrightarrow> \<not> json_nul (JObj p)) \<and> evidence_checks obj \<and>
     created = (find_evidence t (eo_id obj) tab = None) \<and> tab' = (if created then tab @ [(t, stored_form obj)] else tab)"
  by (auto simp: insert_evidence_def stored_form_def split: option.splits)

lemma put_cases:
  assumes "put_evidence_object lib t now req tab = Inr ((obj, created), tab')"
  shows "build_object lib req = Inr (request_id req, request_text req)"
    and "created = (find_evidence t (request_id req) tab = None)"
    and "tab' = (if created then tab @ [(t, stored_form (new_object req (request_id req) (request_text req) now))] else tab)"
    and "find_evidence t (request_id req) tab' = Some obj"
    and "evidence_checks (new_object req (request_id req) (request_text req) now)"
proof -
  obtain oid data where b: "build_object lib req = Inr (oid, data)"
    using assms by (auto simp: put_evidence_object_def split: sum.splits)
  then have od: "oid = request_id req" "data = request_text req" by (simp_all add: build_object_Inr)
  from b show "build_object lib req = Inr (request_id req, request_text req)" by (simp add: od)
  let ?n = "new_object req (request_id req) (request_text req) now"
  from assms have i: "insert_evidence t ?n tab = Inr (created, tab')" and f: "find_evidence t (request_id req) tab' = Some obj"
    by (auto simp: put_evidence_object_def b od split: sum.splits option.splits)
  have n: "eo_id ?n = request_id req" by (simp add: new_object_def)
  show "find_evidence t (request_id req) tab' = Some obj" by (rule f)
  from i [unfolded insert_evidence_Inr n]
  show "created = (find_evidence t (request_id req) tab = None)"
    "tab' = (if created then tab @ [(t, stored_form ?n)] else tab)" "evidence_checks ?n" by blast+
qed

lemma intact_new:
  assumes b: "build_object lib req = Inr (request_id req, request_text req)"
    and k: "keyed (JObj (ec_payload req))" "keyed_opt (ec_pointer req)"
    and c: "evidence_checks (new_object req (request_id req) (request_text req) now)"
  shows "intact lib (stored_form (new_object req (request_id req) (request_text req) now))"
proof -
  have "canonical_bytes (ec_schema req) (ec_payload req) (ec_pointer req) = Inr (request_text req)"
    using b by (simp add: build_object_Inr request_storable_def storable_no_nan request_text_def)
  moreover have "verify_stored lib (stored_form (new_object req (request_id req) (request_text req) now)) = Inr []"
    by (rule stored_verifies [OF b k]) (simp_all add: stored_form_def new_object_def)
  ultimately show ?thesis
    using c k by (auto simp: intact_def stored_form_def new_object_def evidence_checks_def canonical_jsonb request_id_def
        simp del: keyed.simps)
qed

lemma put_inv:
  assumes "put_evidence_object lib t now req tab = Inr ((obj, created), tab')" "ev_inv lib tab"
    and "keyed (JObj (ec_payload req))" "keyed_opt (ec_pointer req)"
  shows "ev_inv lib tab' \<and> (\<exists>x. tab' = tab @ x)"
  using put_cases [OF assms(1)] intact_new [OF put_cases(1) [OF assms(1)] assms(3,4), of now] assms(2)
  by (auto simp: ev_inv_def find_evidence_None ev_key_def stored_form_def new_object_def)

lemma resolve_total:
  assumes "ev_inv lib tab"
  shows "resolve_evidence lib t tab r =
    Inr (map_option (\<lambda>obj. \<lparr>ei_id = eo_id obj, ei_schema = eo_schema obj\<rparr>) (find_evidence t r tab))"
proof (cases "find_evidence t r tab")
  case (Some obj)
  then have "verify_stored lib obj = Inr []" using assms find_evidence_SomeD [OF Some] by (auto simp: ev_inv_def intact_def)
  with Some show ?thesis by (simp add: resolve_evidence_def)
qed (simp add: resolve_evidence_def)

definition fact_link :: "string \<Rightarrow> evidence_table \<Rightarrow> link \<Rightarrow> bool" where
  "fact_link t tab l \<longleftrightarrow> link_kind l = LINK_KIND \<and> (\<exists>obj. find_evidence t (link_ref l) tab = Some obj \<and> eo_schema obj = CES_FACT)"

lemma counts_fact: "ev_inv lib tab \<Longrightarrow>
    counts_as_fact_evidence l (Some (resolve_evidence lib t tab)) = Inr (fact_link t tab l)"
  by (simp add: counts_as_fact_evidence_def resolve_total fact_link_def split: option.split)

lemma any_res_Inr: "any_res (\<lambda>x. Inr (P x)) xs = Inr (list_ex P xs)"
  by (induction xs) simp_all

text \<open>What Clause V asks of a record's type and evidence, given the evidence table.\<close>

definition backed :: "string \<Rightarrow> evidence_table \<Rightarrow> string \<Rightarrow> link list \<Rightarrow> bool" where
  "backed t tab mem_type links \<longleftrightarrow> mem_type \<in> set ALLOWED_TYPES \<and>
     (if mem_type = ''decision'' then \<exists>l \<in> set links. link_ref l \<noteq> []
      else \<exists>l \<in> set links. (link_kind l \<in> set EVIDENCE_KINDS \<and> link_ref l \<noteq> []) \<or> fact_link t tab l)"

lemma constitutional_backed:
  "ev_inv lib tab \<Longrightarrow> constitutional mt links (Some (resolve_evidence lib t tab)) \<longleftrightarrow> backed t tab mt links"
  by (auto simp: constitutional_def evidence_reason_def backed_def counts_fact any_res_Inr list_ex_iff)

lemma backed_mono: "backed t tab mt links \<Longrightarrow> backed t (tab @ x) mt links"
  by (auto simp: backed_def fact_link_def find_evidence_append split: if_splits)

section \<open>Runs\<close>

inductive store_run :: "pylib \<Rightarrow> soft_rules \<Rightarrow> clause_env \<Rightarrow> (mem_row \<Rightarrow> string) \<Rightarrow> store_db \<Rightarrow> store_db \<Rightarrow> bool"
  for lib rules env jtext where
  run_refl: "store_run lib rules env jtext db db"
| run_trans: "store_run lib rules env jtext a b \<Longrightarrow> store_run lib rules env jtext b c \<Longrightarrow> store_run lib rules env jtext a c"
| run_put: "keyed (JObj (ec_payload req)) \<Longrightarrow> keyed_opt (ec_pointer req) \<Longrightarrow>
    put_evidence_object lib t now req (st_evidence db) = Inr ((obj, created), tab) \<Longrightarrow>
    store_run lib rules env jtext db (db\<lparr>st_evidence := tab\<rparr>)"
| run_create: "(\<And>d. store_run lib rules env jtext d (others d)) \<Longrightarrow>
    create_memory lib rules env jtext t now others rids data db = (res, db') \<Longrightarrow> store_run lib rules env jtext db db'"
| run_update: "(\<And>i d. store_run lib rules env jtext d (after_read ifc i d)) \<Longrightarrow>
    (\<And>i d. store_run lib rules env jtext d (before_write ifc i d)) \<Longrightarrow>
    update_memory lib rules env jtext t ifc clock m u db = (upd, db') \<Longrightarrow> store_run lib rules env jtext db db'"
| run_delete: "delete_memory jtext t now m db = (found, db') \<Longrightarrow> store_run lib rules env jtext db db'"
| run_seal: "jarvis_seal_block s isolation t a (st_ledger db) = Inr (sr, l) \<Longrightarrow>
    store_run lib rules env jtext db (db\<lparr>st_ledger := l\<rparr>)"

definition empty_store :: store_db where
  "empty_store = \<lparr>st_ledger = empty_db, st_evidence = []\<rparr>"

section \<open>The invariant\<close>

definition verified_backed :: "evidence_table \<Rightarrow> ledger_db \<Rightarrow> bool" where
  "verified_backed tab db \<longleftrightarrow>
     (\<forall>r \<in> set (memories db). r_status r = ''verified'' \<longrightarrow> backed (r_tenant r) tab (r_type r) (r_evidence r))"

definition store_inv :: "pylib \<Rightarrow> clause_env \<Rightarrow> (mem_row \<Rightarrow> string) \<Rightarrow> store_db \<Rightarrow> bool" where
  "store_inv lib env jtext db \<longleftrightarrow> reachable jtext (st_ledger db) \<and> ev_inv lib (st_evidence db) \<and>
     (hard_mode env = ''enforce'' \<longrightarrow> verified_backed (st_evidence db) (st_ledger db))"

definition keeps :: "pylib \<Rightarrow> clause_env \<Rightarrow> (mem_row \<Rightarrow> string) \<Rightarrow> store_db \<Rightarrow> store_db \<Rightarrow> bool" where
  "keeps lib env jtext a b \<longleftrightarrow> store_inv lib env jtext a \<longrightarrow>
     store_inv lib env jtext b \<and> (\<exists>x. st_evidence b = st_evidence a @ x)"

lemma keeps_refl [simp]: "keeps lib env jtext a a"
  by (simp add: keeps_def)

lemma keeps_trans: "keeps lib env jtext a b \<Longrightarrow> keeps lib env jtext b c \<Longrightarrow> keeps lib env jtext a c"
  by (auto simp: keeps_def)

lemma memories_insert: "sql_insert jtext s row db = Inr db' \<Longrightarrow> memories db' = memories db @ [row]"
  by (auto simp: sql_insert_def Let_def jarvis_record_history_memories split: if_splits)

lemma insert_fresh:
  assumes "sql_insert jtext s row db = Inr l"
  shows "find_row db (r_tenant row) (r_id row) = None"
proof -
  have "row_key row \<notin> row_key ` set (memories db)" using assms by (auto simp: sql_insert_def split: if_splits)
  then show ?thesis unfolding row_key_def [of row] by (simp add: find_row_def find_key_None)
qed

lemma sql_update_Some:
  assumes "sql_update jtext s m v upd db = Inr (Some new, db')"
  shows "\<exists>old. find_row db (s_tenant s) m = Some old \<and> r_version old = v \<and> new = (upd old)\<lparr>r_version := v + 1\<rparr> \<and>
     r_tenant new = s_tenant s \<and> r_id new = m \<and> memories db' = replace_row new (memories db)"
  using assms
  by (auto simp: sql_update_def jarvis_bump_version_def write_update_def jarvis_record_history_memories res_bind_Inr_iff
      dest!: find_row_SomeD split: option.splits if_splits)

lemma sql_update_None: "sql_update jtext s m v upd db = Inr (None, db') \<Longrightarrow> db' = db"
  by (auto simp: sql_update_def res_bind_Inr_iff split: option.splits if_splits)

lemma set_replace_row: "r \<in> set (replace_row new rows) \<Longrightarrow> r = new \<or> r \<in> set rows"
  by (auto simp: replace_row_def split: if_splits)

definition same_claim :: "mem_row \<Rightarrow> mem_row \<Rightarrow> bool" where
  "same_claim a b \<longleftrightarrow> r_tenant a = r_tenant b \<and> r_type a = r_type b \<and> r_status a = r_status b \<and> r_evidence a = r_evidence b"

lemma ri_set_null_rows:
  "r \<in> set (memories (ri_set_null jtext s rs db)) \<Longrightarrow> \<exists>r' \<in> set (memories db) \<union> set rs. same_claim r r'"
proof (induction jtext s rs db rule: ri_set_null.induct)
  case (2 jtext s x xs db)
  then show ?case
    by (auto simp: write_update_def jarvis_record_history_memories same_claim_def dest!: set_replace_row)
qed (auto simp: same_claim_def)

lemma sql_delete_rows:
  assumes "sql_delete jtext s m db = (found, db')" "r \<in> set (memories db')"
  shows "\<exists>r' \<in> set (memories db). same_claim r r'"
proof (cases "find_row db (s_tenant s) m")
  case None
  with assms show ?thesis by (auto simp: sql_delete_def same_claim_def)
next
  case (Some old)
  with assms obtain cs where "r \<in> set (memories (ri_set_null jtext s cs (jarvis_record_history jtext s (On_delete old)
        (db\<lparr>memories := filter (\<lambda>r. row_key r \<noteq> row_key old) (memories db)\<rparr>))))"
    and cs: "set cs \<subseteq> set (memories db)"
    by (auto simp: sql_delete_def Let_def jarvis_record_history_memories)
  from ri_set_null_rows [OF this(1)] cs show ?thesis by (auto simp: jarvis_record_history_memories)
qed

lemma seal_memories: "jarvis_seal_block s isolation t a db = Inr (sr, l) \<Longrightarrow> memories l = memories db"
  by (auto dest!: seal_cases simp: insert_block_def)

lemma verified_backed_append: "verified_backed tab db \<Longrightarrow> verified_backed (tab @ x) db"
  by (auto simp: verified_backed_def intro: backed_mono)

lemma keeps_ledger:
  assumes "db_step jtext s (st_ledger db) l"
    and "verified_backed (st_evidence db) (st_ledger db) \<Longrightarrow> hard_mode env = ''enforce'' \<Longrightarrow> store_inv lib env jtext db \<Longrightarrow>
      verified_backed (st_evidence db) l"
  shows "keeps lib env jtext db (db\<lparr>st_ledger := l\<rparr>)"
  using assms by (auto simp: keeps_def store_inv_def intro: reach_step)

lemma keeps_put:
  assumes "put_evidence_object lib t now req (st_evidence db) = Inr ((obj, created), tab)"
    and "keyed (JObj (ec_payload req))" "keyed_opt (ec_pointer req)"
  shows "keeps lib env jtext db (db\<lparr>st_evidence := tab\<rparr>)"
  using put_inv [OF assms(1) _ assms(2,3)] by (auto simp: keeps_def store_inv_def verified_backed_append)

lemma keeps_delete:
  assumes "delete_memory jtext t now m db = (found, db')"
  shows "keeps lib env jtext db db'"
proof -
  obtain l where d: "sql_delete jtext (tenant_session t now) m (st_ledger db) = (found, l)" and db': "db' = db\<lparr>st_ledger := l\<rparr>"
    using assms by (auto simp: delete_memory_def split: prod.splits)
  show ?thesis
    unfolding db'
  proof (rule keeps_ledger [OF step_delete [OF d]])
    assume v: "verified_backed (st_evidence db) (st_ledger db)"
    show "verified_backed (st_evidence db) l"
      unfolding verified_backed_def
    proof (intro ballI impI)
      fix r assume "r \<in> set (memories l)" "r_status r = ''verified''"
      with sql_delete_rows [OF d] obtain r' where "r' \<in> set (memories (st_ledger db))" "same_claim r r'" by blast
      with v \<open>r_status r = ''verified''\<close> show "backed (r_tenant r) (st_evidence db) (r_type r) (r_evidence r)"
        by (auto simp: verified_backed_def same_claim_def)
    qed
  qed
qed

lemma keeps_seal:
  assumes "jarvis_seal_block s isolation t a (st_ledger db) = Inr (sr, l)"
  shows "keeps lib env jtext db (db\<lparr>st_ledger := l\<rparr>)"
  by (rule keeps_ledger [OF step_seal [OF assms]]) (simp add: verified_backed_def seal_memories [OF assms])

text \<open>Writing a row that Clause V let through.\<close>

lemma write_row_Inr: "write_row r res = Inr a \<Longrightarrow> res = Inr a"
  by (auto simp: write_row_def split: if_splits sum.splits sql_error.splits)

lemma keeps_create_attempt:
  assumes o': "\<And>d. keeps lib env jtext d (others d)"
    and g: "hard_mode env = ''enforce'' \<Longrightarrow> store_inv lib env jtext db \<Longrightarrow> backed t (st_evidence db) (mc_type data) (mc_evidence data)"
    and a: "create_attempt lib jtext t now data others rid db = (r, db')"
  shows "keeps lib env jtext db db'"
proof -
  consider "db' = db" | "db' = others db" | l where "db' = (others db)\<lparr>st_ledger := l\<rparr>"
      "sql_insert jtext (tenant_session t now) (new_row lib t rid now data) (st_ledger (others db)) = Inr l"
    using a by (auto simp: create_attempt_def Let_def dest!: write_row_Inr split: option.splits sum.splits)
  then show ?thesis
  proof cases
    case 3
    have "keeps lib env jtext db (others db)" by (rule o')
    show ?thesis
      unfolding keeps_def
    proof
      assume inv: "store_inv lib env jtext db"
      with o' obtain x where ev: "st_evidence (others db) = st_evidence db @ x" and inv': "store_inv lib env jtext (others db)"
        unfolding keeps_def by blast
      have "keeps lib env jtext (others db) db'"
        unfolding 3(1)
      proof (rule keeps_ledger [OF step_insert [OF 3(2)]])
        assume v: "verified_backed (st_evidence (others db)) (st_ledger (others db))" and e: "hard_mode env = ''enforce''"
        show "verified_backed (st_evidence (others db)) l"
          using v backed_mono [OF g [OF e inv], of x] by (auto simp: verified_backed_def memories_insert [OF 3(2)] new_row_def ev)
      qed
      with inv' ev show "store_inv lib env jtext db' \<and> (\<exists>x. st_evidence db' = st_evidence db @ x)"
        by (auto simp: keeps_def)
    qed
  qed (simp_all add: o')
qed

lemma keeps_create_loop:
  assumes o': "\<And>d. keeps lib env jtext d (others d)"
    and g: "hard_mode env = ''enforce'' \<Longrightarrow> store_inv lib env jtext db \<Longrightarrow> backed t (st_evidence db) (mc_type data) (mc_evidence data)"
    and "create_loop lib jtext t now data others rids db = (r, db')"
  shows "keeps lib env jtext db db'"
  using g assms(3)
proof (induction rids arbitrary: db)
  case Nil
  then show ?case by simp
next
  case (Cons rid rids)
  obtain r1 db1 where a: "create_attempt lib jtext t now data others rid db = (r1, db1)" by (meson surj_pair)
  have k: "keeps lib env jtext db db1" by (rule keeps_create_attempt [OF o' Cons.prems(1) a])
  show ?case
  proof (cases "tx r1 = Inl (Sql Unique_violation)")
    case False
    then have "db' = db1" using Cons.prems(2) by (auto simp: a split: sum.splits py_exc.splits sql_error.splits)
    with k show ?thesis by simp
  next
    case True
    then show ?thesis by (cases r1) (auto simp: tx_def elim: tx_exit.elims)
  qed
qed

lemma gate_backed:
  assumes "store_inv lib env jtext db" "hard_mode env = ''enforce''"
    and "gate_create lib rules env data (Some (resolve_evidence lib t (st_evidence db))) = Inr w"
  shows "backed t (st_evidence db) (mc_type data) (mc_evidence data)"
  using gate_create_constitutional [OF assms(3,2)] assms(1) by (simp add: store_inv_def constitutional_backed)

lemma keeps_create:
  assumes "\<And>d. keeps lib env jtext d (others d)" "create_memory lib rules env jtext t now others rids data db = (r, db')"
  shows "keeps lib env jtext db db'"
  using assms(2)
  by (auto simp: create_memory_def Let_def intro!: keeps_create_loop [OF assms(1)] gate_backed split: sum.splits)

section \<open>Updates\<close>

lemma merge_update_fields:
  "r_tenant (merge_update lib old u now) = r_tenant old" "r_type (merge_update lib old u now) = pick (mu_type u) (r_type old)"
  "r_status (merge_update lib old u now) = pick (mu_status u) (r_status old)"
  "r_evidence (merge_update lib old u now) = pick (mu_evidence u) (r_evidence old)"
  by (simp_all add: merge_update_def)

lemma set_columns_fields:
  "r_type (set_columns new r) = r_type new" "r_status (set_columns new r) = r_status new"
  "r_evidence (set_columns new r) = r_evidence new" "r_tenant (set_columns new r) = r_tenant r"
  by (simp_all add: set_columns_def)

definition too_much :: string where
  "too_much = ''version conflict: too much concurrent modification, retry''"

lemma tx_not_conflict: "tx (write_row r res) = Inl e \<Longrightarrow> uncaught e \<noteq> Version_conflict v"
  by (auto simp: tx_def write_row_def supersedes_missing_def split: sum.splits if_splits sql_error.splits)

lemma update_attempt_cases:
  assumes "update_attempt lib rules env jtext t others clock i m u db = (a, db')"
  shows "(a = Finished (Inr None) \<and> find_row (st_ledger db) t m = None \<and> db' = db) \<or>
    (\<exists>old. find_row (st_ledger db) t m = Some old \<and>
      ((mu_expected_version u \<noteq> None \<and> mu_expected_version u \<noteq> Some (r_version old) \<and> db' = db \<and>
         a = Finished (Inl (version_conflict (the (mu_expected_version u)) (r_version old)))) \<or>
       (mu_expected_version u \<in> {None, Some (r_version old)} \<and>
        (let db1 = after_read others i db; new = merge_update lib old u (clock i); db2 = before_write others i db1 in
         (\<exists>e. update_refusal lib rules env t old u new db1 = Some e \<and> a = Finished (Inl e) \<and> db' = db1) \<or>
         (update_refusal lib rules env t old u new db1 = None \<and>
          ((\<exists>e. a = Finished (Inl e) \<and> db' = db2 \<and> e \<noteq> Version_conflict too_much) \<or>
           (a = Retry \<and> db' = db2 \<and> mu_expected_version u = None \<and>
            sql_update jtext (tenant_session t (clock i)) m (r_version old) (set_columns new) (st_ledger db2) = Inr (None, st_ledger db2)) \<or>
           (\<exists>row l. a = Finished (Inr (Some row)) \<and> db' = db2\<lparr>st_ledger := l\<rparr> \<and>
              sql_update jtext (tenant_session t (clock i)) m (r_version old) (set_columns new) (st_ledger db2) = Inr (Some row, l))))))))"
proof (cases "find_row (st_ledger db) t m")
  case None
  with assms show ?thesis by (simp add: update_attempt_def)
next
  case (Some old)
  let ?db1 = "after_read others i db" and ?new = "merge_update lib old u (clock i)"
  let ?db2 = "before_write others i ?db1"
  let ?res = "sql_update jtext (tenant_session t (clock i)) m (r_version old) (set_columns ?new) (st_ledger ?db2)"
  show ?thesis
  proof (cases "mu_expected_version u \<noteq> None \<and> mu_expected_version u \<noteq> Some (r_version old)")
    case True
    with assms Some show ?thesis by (auto simp: update_attempt_def)
  next
    case ver: False
    show ?thesis
    proof (cases "update_refusal lib rules env t old u ?new ?db1")
      case (Some e)
      with ver assms \<open>find_row (st_ledger db) t m = Some old\<close> show ?thesis by (auto simp: update_attempt_def Let_def)
    next
      case None
      note common = ver None \<open>find_row (st_ledger db) t m = Some old\<close>
      have eq: "update_attempt lib rules env jtext t others clock i m u db =
          (case tx (write_row ?new ?res) of
             Inl e \<Rightarrow> (Finished (Inl (uncaught e)), ?db2)
           | Inr (Some row, l) \<Rightarrow> (Finished (Inr (Some row)), ?db2\<lparr>st_ledger := l\<rparr>)
           | Inr (None, l) \<Rightarrow>
               if mu_expected_version u \<noteq> None then
                 (Finished (Inl (Version_conflict ''version conflict: record changed during update'')), ?db2)
               else (Retry, ?db2))"
        unfolding update_attempt_def Let_def \<open>find_row (st_ledger db) t m = Some old\<close> None option.case if_not_P [OF ver] by (rule refl)
      show ?thesis
      proof (cases "tx (write_row ?new ?res)")
        case (Inl e)
        with assms eq have "a = Finished (Inl (uncaught e))" "db' = ?db2" by auto
        with common tx_not_conflict [OF Inl] show ?thesis by (auto simp: Let_def)
      next
        case (Inr p)
        then have res: "?res = Inr p" by (auto dest: write_row_Inr)
        obtain ro l where p: "p = (ro, l)" by (meson surj_pair)
        show ?thesis
        proof (cases ro)
          case None
          with res p have "l = st_ledger ?db2" using sql_update_None by auto
          with common assms [unfolded eq Inr p None] res p None show ?thesis by (auto simp: Let_def too_much_def split: if_splits)
        next
          case (Some row)
          with common assms [unfolded eq Inr p Some] res p Some show ?thesis by (auto simp: Let_def)
        qed
      qed
    qed
  qed
qed

lemma update_refusal_backed:
  assumes "update_refusal lib rules env t old u (merge_update lib old u now) db = None" "store_inv lib env jtext db"
    and "hard_mode env = ''enforce''" "pick (mu_status u) (r_status old) = ''verified''"
  shows "backed t (st_evidence db) (pick (mu_type u) (r_type old)) (pick (mu_evidence u) (r_evidence old))"
proof -
  obtain w where "gate_update lib rules env old u (Some (resolve_evidence lib t (st_evidence db))) = Inr w"
    using assms(1) by (auto simp: update_refusal_def Let_def split: sum.splits)
  from gate_update_constitutional [OF this assms(3,4)] assms(2) show ?thesis
    by (simp add: store_inv_def constitutional_backed)
qed

lemma keeps_update_attempt:
  assumes o1: "\<And>i d. keeps lib env jtext d (after_read others i d)" and o2: "\<And>i d. keeps lib env jtext d (before_write others i d)"
    and a: "update_attempt lib rules env jtext t others clock i m u db = (a, db')"
  shows "keeps lib env jtext db db'"
proof -
  let ?db1 = "after_read others i db"
  let ?db2 = "before_write others i ?db1"
  have k2: "keeps lib env jtext db ?db2" by (rule keeps_trans [OF o1 o2])
  from update_attempt_cases [OF a] consider "db' = db" | "db' = ?db1" | "db' = ?db2"
    | old row l where "update_refusal lib rules env t old u (merge_update lib old u (clock i)) ?db1 = None" "db' = ?db2\<lparr>st_ledger := l\<rparr>"
      "sql_update jtext (tenant_session t (clock i)) m (r_version old) (set_columns (merge_update lib old u (clock i))) (st_ledger ?db2) = Inr (Some row, l)"
    unfolding Let_def by blast
  then show ?thesis
  proof cases
    case 4
    show ?thesis
      unfolding keeps_def
    proof
      assume inv: "store_inv lib env jtext db"
      then have inv1: "store_inv lib env jtext ?db1" using o1 by (auto simp: keeps_def)
      then obtain x where inv2: "store_inv lib env jtext ?db2" and ev: "st_evidence ?db2 = st_evidence ?db1 @ x"
        using o2 unfolding keeps_def by blast
      from sql_update_Some [OF 4(3)] have row: "r_tenant row = t" "r_type row = pick (mu_type u) (r_type old)"
          "r_status row = pick (mu_status u) (r_status old)" "r_evidence row = pick (mu_evidence u) (r_evidence old)"
        and mem: "memories l = replace_row row (memories (st_ledger ?db2))"
        by (auto simp: tenant_session_def set_columns_fields merge_update_fields)
      have "keeps lib env jtext ?db2 db'"
        unfolding 4(2)
      proof (rule keeps_ledger [OF step_update [OF 4(3)]])
        assume v: "verified_backed (st_evidence ?db2) (st_ledger ?db2)" and e: "hard_mode env = ''enforce''"
        show "verified_backed (st_evidence ?db2) l"
          unfolding verified_backed_def
        proof (intro ballI impI)
          fix r assume "r \<in> set (memories l)" and st: "r_status r = ''verified''"
          then consider "r = row" | "r \<in> set (memories (st_ledger ?db2))" unfolding mem by (meson set_replace_row)
          then show "backed (r_tenant r) (st_evidence ?db2) (r_type r) (r_evidence r)"
          proof cases
            case 1
            with st have "backed t (st_evidence ?db1) (r_type row) (r_evidence row)"
              using update_refusal_backed [OF 4(1) inv1 e] by (simp add: row)
            with 1 show ?thesis by (simp add: ev row backed_mono)
          next
            case 2
            with v st show ?thesis by (simp add: verified_backed_def)
          qed
        qed
      qed
      with k2 inv show "store_inv lib env jtext db' \<and> (\<exists>x. st_evidence db' = st_evidence db @ x)"
        using keeps_trans unfolding keeps_def by blast
    qed
  qed (use k2 o1 in simp_all)
qed

lemma keeps_update_loop:
  assumes "\<And>i d. keeps lib env jtext d (after_read others i d)" "\<And>i d. keeps lib env jtext d (before_write others i d)"
    and "update_loop lib rules env jtext t others clock is m u db = (r, db')"
  shows "keeps lib env jtext db db'"
  using assms(3)
proof (induction "is" arbitrary: db)
  case Nil
  then show ?case by simp
next
  case (Cons i "is")
  obtain a db1 where a: "update_attempt lib rules env jtext t others clock i m u db = (a, db1)" by (meson surj_pair)
  have k: "keeps lib env jtext db db1" by (rule keeps_update_attempt [OF assms(1,2) a])
  show ?case
  proof (cases a)
    case (Finished x1)
    with Cons.prems a k show ?thesis by simp
  next
    case Retry
    with Cons.prems a have "update_loop lib rules env jtext t others clock is m u db1 = (r, db')" by simp
    from keeps_trans [OF k Cons.IH [OF this]] show ?thesis .
  qed
qed

lemma run_keeps: "store_run lib rules env jtext a b \<Longrightarrow> keeps lib env jtext a b"
proof (induction rule: store_run.induct)
  case (run_trans a b c)
  then show ?case using keeps_trans by blast
next
  case (run_update ifc t clock m u db upd db')
  show ?case
    by (rule keeps_update_loop [OF _ _ run_update.hyps(3) [unfolded update_memory_def]]) (rule run_update.IH)+
qed (auto intro: keeps_put keeps_create keeps_delete keeps_seal)

lemma empty_store_inv: "store_inv lib env jtext empty_store"
  by (simp add: store_inv_def empty_store_def reach_init ev_inv_def verified_backed_def empty_db_def reach_init [unfolded empty_db_def])

lemma store_run_inv: "store_run lib rules env jtext empty_store db \<Longrightarrow> store_inv lib env jtext db"
  using run_keeps empty_store_inv by (auto simp: keeps_def)

section \<open>Properties of runs\<close>

text \<open>C20: Clause V holds of the whole ledger: after any run of the store (objects put, records created, updated and
  deleted, blocks sealed, with other sessions' runs interleaved wherever the code lets them), when the gate is not
  switched off, every verified record has an allowed type and carries evidence: a decision at least one link with a
  reference, any other type a link of a checkable kind or a link to a stored FactEvidence object that re-verifies.\<close>

theorem clause_v_invariant:
  assumes "store_run lib rules env jtext empty_store db" and "hard_mode env = ''enforce''"
    and "r \<in> set (memories (st_ledger db))" and "r_status r = ''verified''"
  shows "r_type r \<in> {''architecture'', ''decision'', ''fact'', ''research''} \<and>
    (\<exists>l \<in> set (r_evidence r).
       (r_type r = ''decision'' \<and> link_ref l \<noteq> []) \<or>
       (link_kind l \<in> set EVIDENCE_KINDS \<and> link_ref l \<noteq> []) \<or>
       (link_kind l = LINK_KIND \<and> (\<exists>obj. get_evidence_object (r_tenant r) (link_ref l) (st_evidence db) = Some obj \<and>
          eo_schema obj = CES_FACT \<and> verify_stored lib obj = Inr [])))"
proof -
  have inv: "store_inv lib env jtext db" by (rule store_run_inv [OF assms(1)])
  then have b: "backed (r_tenant r) (st_evidence db) (r_type r) (r_evidence r)"
    using assms(2-4) by (auto simp: store_inv_def verified_backed_def)
  have "verify_stored lib obj = Inr []" if "find_evidence t' i (st_evidence db) = Some obj" for t' i obj
    using inv find_evidence_SomeD [OF that] by (auto simp: store_inv_def ev_inv_def intact_def)
  with b show ?thesis
    by (auto simp: backed_def ALLOWED_TYPES_def fact_link_def get_evidence_object_def split: if_splits)
qed

text \<open>C21: bounds and integrity of stored evidence: after any run of the store every stored object re-verifies, its id is
  the hash of its canonical text, its recorded size is the length of that text and lies between 1 and 65536 bytes,
  its payload has at most 2000 values nested at most 8 deep, and no id is stored twice for one tenant.\<close>

theorem stored_evidence_bounds:
  assumes "store_run lib rules env jtext empty_store db" and "(t, obj) \<in> set (st_evidence db)"
  shows "verify_stored lib obj = Inr [] \<and>
    (\<exists>text. canonical_bytes (eo_schema obj) (eo_payload obj) (eo_pointer obj) = Inr text \<and>
       eo_id obj = ID_PREFIX @ sha256_hex text \<and> eo_size obj = int (length text) \<and> 1 \<le> length text \<and> length text \<le> 65536) \<and>
    nodes (JObj (eo_payload obj)) \<le> 2000 \<and> shallow (JObj (eo_payload obj)) 0 \<and>
    get_evidence_object t (eo_id obj) (st_evidence db) = Some obj"
proof -
  have inv: "ev_inv lib (st_evidence db)" using store_run_inv [OF assms(1)] by (simp add: store_inv_def)
  with assms(2) have i: "intact lib obj" by (auto simp: ev_inv_def)
  then have "storable (eo_payload obj)" by (simp add: intact_def verify_stored_Nil)
  moreover have "get_evidence_object t (eo_id obj) (st_evidence db) = Some obj"
  proof -
    have "find (\<lambda>r. ev_key r = (t, eo_id obj)) (st_evidence db) = Some (t, obj)"
      using inv assms(2) by (subst find_key_Some) (auto simp: ev_inv_def ev_key_def)
    then show ?thesis by (simp add: get_evidence_object_def find_evidence_alt)
  qed
  ultimately show ?thesis using i unfolding intact_def storable_def MAX_NODES_def by auto
qed

text \<open>An object that was put can be got back: what the table returns has the id and the schema of the request and its
  payload and pointer up to the order of object members, it re-verifies and resolves as a link target, and
  putting the same content again creates nothing and returns the same object.\<close>

lemma put_get_roundtrip:
  assumes "put_evidence_object lib t now req tab = Inr ((obj, created), tab')" and "ev_inv lib tab"
    and "keyed (JObj (ec_payload req))" and "keyed_opt (ec_pointer req)" and "created"
  shows "get_evidence_object t (request_id req) tab' = Some obj \<and> eo_id obj = request_id req \<and> eo_schema obj = ec_schema req \<and>
    jnorm (JObj (eo_payload obj)) = jnorm (JObj (ec_payload req)) \<and>
    verify_stored lib obj = Inr [] \<and>
    resolve_evidence lib t tab' (request_id req) = Inr (Some \<lparr>ei_id = request_id req, ei_schema = ec_schema req\<rparr>) \<and>
    put_evidence_object lib t later req tab' = Inr ((obj, False), tab')"
proof -
  note c = put_cases [OF assms(1)]
  let ?n = "new_object req (request_id req) (request_text req) now"
  have inv: "ev_inv lib tab'" using put_inv [OF assms(1-4)] by blast
  have "find_evidence t (request_id req) tab = None" using c(2) assms(5) by simp
  with c(3,4) assms(5) have obj: "obj = stored_form ?n"
    by (simp add: find_evidence_append) (simp add: find_evidence_def stored_form_def new_object_def)
  have j: "jnorm (JObj (jsonb_dict (ec_payload req))) = jnorm (JObj (ec_payload req))" by (rule jnorm_jsonb_dict [OF assms(3)])
  have v: "verify_stored lib obj = Inr []" using inv find_evidence_SomeD [OF c(4)] by (auto simp: ev_inv_def intact_def)
  have "insert_evidence t ?n tab = Inr (created, tab')"
    using assms(1) by (auto simp: put_evidence_object_def c(1) split: sum.splits option.splits)
  then have ins: "insert_evidence t (new_object req (request_id req) (request_text req) later) tab' = Inr (False, tab')"
    unfolding insert_evidence_Inr using c(4) by (auto simp: new_object_def evidence_checks_def)
  have "put_evidence_object lib t later req tab' = Inr ((obj, False), tab')"
    by (simp add: put_evidence_object_def c(1) ins c(4) tx_def)
  with v c(4) j show ?thesis
    by (simp add: get_evidence_object_def resolve_total [OF inv] obj stored_form_def new_object_def del: jnorm.simps)
qed

section \<open>Creating\<close>

text \<open>C23: every outcome of creating a record without interference: either the evidence links resolved, Clause V let the
  request through, the row checks hold, and exactly the new row, version 1, was inserted under the first generated id,
  or there is an error and nothing changed; when the first generated id is taken it is an error (the loop over three ids
  never tries the second one, because the transaction wrapper has turned the unique violation into an outage).\<close>

theorem create_memory_outcome:
  assumes "create_memory lib rules env jtext t now (\<lambda>d. d) (rid # rids) data db = (res, db')"
  shows "(\<exists>w l. res = Inr (new_row lib t rid now data) \<and> db' = db\<lparr>st_ledger := l\<rparr> \<and>
      check_links (mc_evidence data) (resolve_evidence lib t (st_evidence db)) = Inr () \<and>
      gate_create lib rules env data (Some (resolve_evidence lib t (st_evidence db))) = Inr w \<and>
      sql_insert jtext (tenant_session t now) (new_row lib t rid now data) (st_ledger db) = Inr l \<and>
      memories l = memories (st_ledger db) @ [new_row lib t rid now data] \<and>
      find_row (st_ledger db) t rid = None) \<or>
    (\<exists>e. res = Inl e \<and> db' = db \<and> e \<noteq> Store_unavailable ''Could not allocate a unique memory id'')"
proof (cases "check_links (mc_evidence data) (resolve_evidence lib t (st_evidence db))")
  case (Inl e)
  with assms show ?thesis by (auto simp: create_memory_def)
next
  case links: (Inr u)
  let ?g = "gate_create lib rules env data (Some (resolve_evidence lib t (st_evidence db)))"
  show ?thesis
  proof (cases ?g)
    case (Inl e)
    then have "e \<noteq> Store_unavailable m" for m
      by (auto simp: gate_create_def judge_def Let_def split: if_splits sum.splits)
    moreover have "res = Inl e" "db' = db" using Inl links assms by (simp_all add: create_memory_def)
    ultimately show ?thesis by simp
  next
    case (Inr w)
    obtain r1 db1 where a: "create_attempt lib jtext t now data (\<lambda>d. d) rid db = (r1, db1)" by (meson surj_pair)
    have loop: "create_loop lib jtext t now data (\<lambda>d. d) (rid # take 2 rids) db = (res, db')"
      using assms links Inr by (simp add: create_memory_def)
    show ?thesis
    proof (cases r1)
      case (Inl e)
      then have d: "db1 = db" using a by (auto simp: create_attempt_def Let_def split: option.splits sum.splits)
      obtain e' where e': "tx_exit e = Exc e'" by (cases e) auto
      have "e' \<noteq> Store_unavailable ''Could not allocate a unique memory id''"
        using e' Inl a
        by (cases e) (auto simp: create_attempt_def write_row_def supersedes_missing_def Let_def
            split: option.splits sum.splits if_splits sql_error.splits)
      moreover have "res = Inl e'" "db' = db" using loop a Inl d e' by (simp_all add: tx_def)
      ultimately show ?thesis by simp
    next
      case row: (Inr row)
      with a obtain l where r: "row = new_row lib t rid now data" "db1 = db\<lparr>st_ledger := l\<rparr>"
          "sql_insert jtext (tenant_session t now) (new_row lib t rid now data) (st_ledger db) = Inr l"
        by (auto simp: create_attempt_def Let_def dest!: write_row_Inr split: option.splits sum.splits)
      have "find_row (st_ledger db) t rid = None"
        using insert_fresh [OF r(3)] by (simp add: new_row_def)
      moreover have "res = Inr row" "db' = db1" using loop a row by (simp_all add: tx_def)
      ultimately show ?thesis using r links Inr memories_insert [OF r(3)] by auto
    qed
  qed
qed

section \<open>Updating\<close>

lemma update_refusal_not_conflict: "update_refusal lib rules env t old u new db = Some e \<Longrightarrow> e \<noteq> Version_conflict v"
  by (auto simp: update_refusal_def Let_def gate_update_def judge_def supersedes_missing_def split: sum.splits if_splits)

lemma version_conflict_text: "version_conflict a b \<noteq> Version_conflict too_much"
  by (simp add: version_conflict_def too_much_def)

lemma s_tenant_session [simp]: "s_tenant (tenant_session t now) = t"
  by (simp add: tenant_session_def)

lemma sql_update_gone:
  "sql_update jtext (tenant_session t now) m v upd db = Inr (None, db') \<Longrightarrow> find_row db t m = Some cur \<Longrightarrow> r_version cur \<noteq> v"
  by (auto simp: sql_update_def tenant_session_def res_bind_Inr_iff split: if_splits)

text \<open>The store as it is when attempt \<open>i\<close> reads it, if every attempt before it found that its record had changed; what
  the attempt writes to is the store \<open>seen others (Suc i) db\<close>.\<close>

primrec seen :: "interference \<Rightarrow> nat \<Rightarrow> store_db \<Rightarrow> store_db" where
  "seen others 0 db = db"
| "seen others (Suc i) db = before_write others i (after_read others i (seen others i db))"

text \<open>Between its read and its write the record was changed or removed.\<close>

definition moved :: "string \<Rightarrow> string \<Rightarrow> interference \<Rightarrow> store_db \<Rightarrow> nat \<Rightarrow> bool" where
  "moved t m others db i \<longleftrightarrow> (\<exists>old. find_row (st_ledger (seen others i db)) t m = Some old \<and>
     (\<forall>cur. find_row (st_ledger (seen others (Suc i) db)) t m = Some cur \<longrightarrow> r_version cur \<noteq> r_version old))"

lemma retry_seen:
  assumes "update_attempt lib rules env jtext t others clock i m u (seen others i db) = (Retry, d')"
  shows "d' = seen others (Suc i) db \<and> mu_expected_version u = None \<and> moved t m others db i"
  using update_attempt_cases [OF assms] by (auto simp: Let_def moved_def dest: sql_update_gone)

lemma update_loop_seen:
  "update_loop lib rules env jtext t others clock [k..<n] m u (seen others k db) = (r, db') \<Longrightarrow> k \<le> n \<Longrightarrow>
     (\<exists>i. k \<le> i \<and> i < n \<and> update_attempt lib rules env jtext t others clock i m u (seen others i db) = (Finished r, db') \<and>
        (\<forall>j. k \<le> j \<and> j < i \<longrightarrow> mu_expected_version u = None \<and> moved t m others db j)) \<or>
     (r = Inl (Version_conflict too_much) \<and> db' = seen others n db \<and>
        (\<forall>j. k \<le> j \<and> j < n \<longrightarrow> mu_expected_version u = None \<and> moved t m others db j))"
proof (induction "n - k" arbitrary: k)
  case 0
  then have "n = k" by simp
  with 0 show ?case by (auto simp: too_much_def)
next
  case (Suc l)
  then have k: "k < n" "[k..<n] = k # [Suc k..<n]" by (simp_all add: upt_conv_Cons)
  obtain a d1 where a: "update_attempt lib rules env jtext t others clock k m u (seen others k db) = (a, d1)" by (meson surj_pair)
  show ?case
  proof (cases a)
    case (Finished x)
    with Suc.prems(1) a k show ?thesis by auto
  next
    case Retry
    note step = retry_seen [OF a [unfolded Retry]]
    from Suc.prems(1) a k Retry step
    have loop: "update_loop lib rules env jtext t others clock [Suc k..<n] m u (seen others (Suc k) db) = (r, db')"
      by (simp del: seen.simps)
    have l: "l = n - Suc k" "Suc k \<le> n" using Suc.hyps(2) k(1) by simp_all
    note Suc.hyps(1) [OF l(1) loop l(2)]
    moreover have from_k: "(\<forall>j. k \<le> j \<and> j < i \<longrightarrow> mu_expected_version u = None \<and> moved t m others db j)"
      if "\<forall>j. Suc k \<le> j \<and> j < i \<longrightarrow> mu_expected_version u = None \<and> moved t m others db j" for i
      using that step by (metis le_neq_implies_less Suc_leI)
    ultimately show ?thesis by (meson Suc_leD)
  qed
qed

text \<open>The retry loop of an update ends after at most five attempts, whatever the other sessions do, and it gives up with
  "too much concurrent modification" only when no version was expected and in each of the five attempts another
  session changed or removed the record between the read and the write; then it has changed nothing itself.\<close>

lemma update_gives_up:
  assumes "update_memory lib rules env jtext t others clock m u db = (Inl (Version_conflict too_much), db')"
  shows "mu_expected_version u = None \<and> db' = seen others 5 db \<and> (\<forall>i < 5. moved t m others db i)"
proof -
  have no: "update_attempt lib rules env jtext t others clock i m u d \<noteq> (Finished (Inl (Version_conflict too_much)), db')" for i d
    by (auto dest!: update_attempt_cases simp: Let_def version_conflict_text [symmetric] dest: update_refusal_not_conflict)
  have "update_loop lib rules env jtext t others clock [0..<5] m u (seen others 0 db) = (Inl (Version_conflict too_much), db')"
    using assms by (simp add: update_memory_def MAX_UPDATE_ATTEMPTS_def)
  from update_loop_seen [OF this] no have "db' = seen others 5 db \<and> (\<forall>j < 5. mu_expected_version u = None \<and> moved t m others db j)"
    by (auto simp del: seen.simps)
  moreover from this have "mu_expected_version u = None" by (metis zero_less_numeral)
  ultimately show ?thesis by blast
qed

text \<open>The other sessions never bring a version number of the record back with another content, as far as the attempts of
  the update see them.\<close>

definition versions_fresh :: "string \<Rightarrow> string \<Rightarrow> interference \<Rightarrow> store_db \<Rightarrow> bool" where
  "versions_fresh t m others db \<longleftrightarrow>
     (\<forall>i < 5. \<forall>a b. find_row (st_ledger (seen others i db)) t m = Some a \<and>
        find_row (st_ledger (seen others (Suc i) db)) t m = Some b \<and> r_version a = r_version b \<longrightarrow> a = b)"

lemma merge_after_set: "r_tenant new = r_tenant old \<Longrightarrow> new = merge_update lib old u now \<Longrightarrow> set_columns new old = merge_update lib old u now"
  by (cases old) (simp add: set_columns_def merge_update_def)

text \<open>C22: no update is lost: when an update succeeds, it did so in one of its five attempts, and the record it wrote is
  the row that the other sessions had left in the table when that attempt wrote, with exactly the given fields replaced,
  the content hash recomputed when the content was given, and the version raised by one; an expected version was the
  version of that row; the row is what the table then holds, everything else is as the other sessions left it, and every
  earlier attempt gave up because the record had changed under it. (The state an attempt writes to is a function of the
  first state and the other sessions. They are assumed not to bring a version number back with another content.)\<close>

theorem update_not_lost:
  assumes "update_memory lib rules env jtext t others clock m u db = (Inr (Some row), db')"
    and "versions_fresh t m others db"
  shows "\<exists>i < 5. \<exists>cur. find_row (st_ledger (seen others (Suc i) db)) t m = Some cur \<and>
     row = (merge_update lib cur u (clock i))\<lparr>r_version := r_version cur + 1\<rparr> \<and>
     mu_expected_version u \<in> {None, Some (r_version cur)} \<and>
     st_evidence db' = st_evidence (seen others (Suc i) db) \<and>
     memories (st_ledger db') = replace_row row (memories (st_ledger (seen others (Suc i) db))) \<and>
     find_row (st_ledger db') t m = Some row \<and>
     (\<forall>j < i. mu_expected_version u = None \<and> moved t m others db j)"
proof -
  have "update_loop lib rules env jtext t others clock [0..<5] m u (seen others 0 db) = (Inr (Some row), db')"
    using assms(1) by (simp add: update_memory_def MAX_UPDATE_ATTEMPTS_def)
  from update_loop_seen [OF this] obtain i where i: "i < 5"
    and a: "update_attempt lib rules env jtext t others clock i m u (seen others i db) = (Finished (Inr (Some row)), db')"
    and before: "\<forall>j < i. mu_expected_version u = None \<and> moved t m others db j" by auto
  let ?d = "seen others i db" and ?d2 = "seen others (Suc i) db"
  from update_attempt_cases [OF a] obtain old l where old: "find_row (st_ledger ?d) t m = Some old"
    and ver: "mu_expected_version u \<in> {None, Some (r_version old)}" and db': "db' = ?d2\<lparr>st_ledger := l\<rparr>"
    and up: "sql_update jtext (tenant_session t (clock i)) m (r_version old) (set_columns (merge_update lib old u (clock i))) (st_ledger ?d2) = Inr (Some row, l)"
    by (auto simp: Let_def)
  from sql_update_Some [OF up] obtain cur where cur: "find_row (st_ledger ?d2) t m = Some cur" "r_version cur = r_version old"
      "row = (set_columns (merge_update lib old u (clock i)) cur)\<lparr>r_version := r_version old + 1\<rparr>"
      "r_tenant row = t" "r_id row = m" "memories l = replace_row row (memories (st_ledger ?d2))"
    unfolding s_tenant_session by blast
  from assms(2) i old cur(1,2) have "cur = old" unfolding versions_fresh_def by metis
  moreover have "set_columns (merge_update lib old u (clock i)) old = merge_update lib old u (clock i)"
    by (rule merge_after_set) (simp_all add: merge_update_fields)
  ultimately have "row = (merge_update lib cur u (clock i))\<lparr>r_version := r_version cur + 1\<rparr>" using cur(2,3) by simp
  moreover have "find_row l t m = Some row"
  proof -
    have "(t, m) \<in> row_key ` set (memories (st_ledger ?d2))"
      using find_row_SomeD [OF cur(1)] by (auto simp: row_key_def image_iff intro!: bexI [of _ cur])
    then show ?thesis
      using cur(4,5,6) by (simp add: find_row_def replace_row_def find_key_map del: seen.simps) (auto simp: row_key_def)
  qed
  ultimately show ?thesis
    using i before cur(1,2,6) ver by (intro exI [of _ i] conjI exI [of _ cur]) (simp_all add: db' del: seen.simps)
qed

end
