(* ===== verification/Receipts.thy ===== *)
theory Receipts
  imports Row_Store_Theorems Replay_Theorems Attest_Log
begin

text \<open>
  Replay receipts and replay events (\<^verbatim>\<open>app/replay.py\<close> and \<^verbatim>\<open>PostgresRowStore\<close>): a receipt is an
  evidence object that says what the replay at a sealed point produced; it is a claim until it is re-derived,
  by the service (\<open>verify_replay_receipt\<close>) or offline from the raw entries (\<open>verify_receipt\<close>).

  The state of the signing logs at the time of a check is the record \<open>signing\<close>. A value of a payload is
  compared as JSON, as Python compares it.
\<close>

section \<open>Signatures of a result\<close>

record signing =
  sg_lib :: sshlib
  sg_mode :: mode
  sg_roots :: "(string \<times> public_key) list"
  sg_statements :: "statement list"
  sg_attestations :: "attestation list"
  sg_truth :: truth

definition report_of :: "signing \<Rightarrow> string \<Rightarrow> int option \<Rightarrow> string option \<Rightarrow> string option \<Rightarrow> sig_report" where
  "report_of sg t height hash rid =
     signature_report (sg_lib sg) t (sg_mode sg) (sg_roots sg) (sg_statements sg) (sg_attestations sg) (sg_truth sg) height hash rid"

record signed_result =
  sd_problems :: "problem list"
  sd_signatures :: "sig_report option"
  sd_block_signed :: "(bool \<times> nat option) option"

definition add_signatures :: "signing \<Rightarrow> string \<Rightarrow> (int \<times> string) option \<Rightarrow> problem list \<Rightarrow> string option \<Rightarrow> signed_result" where
  "add_signatures sg t block problems rid =
     (if sg_mode sg = Mode_off \<or> (block = None \<and> rid = None) then
        \<lparr>sd_problems = problems, sd_signatures = None, sd_block_signed = None\<rparr>
      else let rep = report_of sg t (map_option fst block) (map_option snd block) rid;
               part = find (\<lambda>p. sp_name p = ''block'') (sr_parts rep)
      in \<lparr>sd_problems = problems @ sr_problems rep, sd_signatures = Some rep,
          sd_block_signed = (case block of None \<Rightarrow> None
            | Some _ \<Rightarrow> Some (sr_verified rep \<and> (case part of None \<Rightarrow> False | Some p \<Rightarrow> sp_level p \<ge> 1), map_option sp_level part))\<rparr>)"

section \<open>Making a receipt\<close>

definition CONTRACT_ID :: string where
  "CONTRACT_ID = ''RC.Ledger.v1''"

definition CONTRACT_VERSION :: int where
  "CONTRACT_VERSION = 1"

datatype receipt_exc =
    Replay_exc replay_exc
  | Store_exc store_exc

text \<open>The field constraints of \<open>ReplayReceiptPayload\<close>; a violation is a \<open>ValueError\<close>.\<close>

definition payload_ok :: "int \<Rightarrow> int \<Rightarrow> string \<Rightarrow> string \<Rightarrow> bool" where
  "payload_ok asked_seq height hash rt \<longleftrightarrow> 0 \<le> asked_seq \<and> 1 \<le> height \<and> hex64 hash \<and> hex64 rt"

definition receipt_payload :: "string \<Rightarrow> replay_state \<Rightarrow> replay_exc + dict" where
  "receipt_payload t s =
     (case rs_block s of
        None \<Rightarrow> Inl (Replay_error ''replay_not_sealed''
          (''receipts are issued only at sealed points; the ledger is sealed through seq '' @ str_int (rs_sealed_seq s)) 422)
      | Some b \<Rightarrow>
          if \<not> payload_ok (rs_at_seq s) (b_height b) (b_hash b) (rs_root s) then Inl (Value_error [])
          else Inr
            [(''contract'', JStr CONTRACT_ID), (''contract_version'', JInt CONTRACT_VERSION), (''tenant'', JStr t),
             (''at_seq'', JInt (rs_at_seq s)), (''block_height'', JInt (b_height b)), (''block_hash'', JStr (b_hash b)),
             (''state_root'', JStr (rs_root s)), (''record_count'', JInt (int (rs_count s))), (''deleted_count'', JInt (int (rs_deleted s)))])"

definition create_replay_receipt ::
  "pylib \<Rightarrow> string \<Rightarrow> int \<Rightarrow> int option \<Rightarrow> int option \<Rightarrow> string \<Rightarrow> store_db
     \<Rightarrow> receipt_exc + (evidence_object \<times> bool \<times> replay_state) \<times> store_db" where
  "create_replay_receipt lib t now asked_seq at_block source db =
     (case (if asked_seq = None \<and> at_block = None then
              (case bh_tip (block_head (st_ledger db) t) of
                 None \<Rightarrow> Inl (Replay_error ''replay_nothing_sealed'' ''no block is sealed yet, so there is nothing to give a receipt for'' 409)
               | Some tip \<Rightarrow> Inr (Some (b_height tip)))
            else Inr at_block) of
        Inl e \<Rightarrow> Inl (Replay_exc e)
      | Inr blk \<Rightarrow>
          case replay_state (st_ledger db) t asked_seq blk None 1 of
            Inl e \<Rightarrow> Inl (Replay_exc e)
          | Inr s \<Rightarrow>
              case receipt_payload t s of
                Inl e \<Rightarrow> Inl (Replay_exc e)
              | Inr payload \<Rightarrow>
                  case put_evidence_object lib t now
                         \<lparr>ec_schema = CES_REPLAY_RECEIPT, ec_payload = payload, ec_pointer = None, ec_source = source, ec_id = None\<rparr>
                         (st_evidence db) of
                    Inl e \<Rightarrow> Inl (Store_exc e)
                  | Inr ((obj, created), tab) \<Rightarrow> Inr ((obj, created, s), db\<lparr>st_evidence := tab\<rparr>))"

definition get_replay_receipt :: "string \<Rightarrow> string \<Rightarrow> evidence_table \<Rightarrow> replay_exc + evidence_object" where
  "get_replay_receipt t rid tab =
     (if \<not> match_id rid then
        Inl (Replay_error ''receipt_id_invalid'' ''a receipt id looks like eo:sha256:<64 lowercase hex characters>'' 422)
      else case get_evidence_object t rid tab of
        None \<Rightarrow> Inl (Replay_error ''receipt_not_found'' (''there is no evidence object '' @ rid) 404)
      | Some obj \<Rightarrow>
          if eo_schema obj \<noteq> CES_REPLAY_RECEIPT then
            Inl (Replay_error ''not_a_replay_receipt'' (rid @ '' is a '' @ eo_schema obj @ '' object, not a replay receipt'') 422)
          else Inr obj)"

definition list_replay_receipts :: "string \<Rightarrow> int \<Rightarrow> evidence_table \<Rightarrow> evidence_object list" where
  "list_replay_receipts t limit tab =
     take (nat (max 1 (min limit 1000)))
       (sort_key (\<lambda>o'. - eo_created o') (sort_key eo_id (filter (\<lambda>o'. eo_schema o' = CES_REPLAY_RECEIPT) (map snd (filter (\<lambda>r. fst r = t) tab)))))"

section \<open>Re-deriving a receipt\<close>

definition json_text :: "json \<Rightarrow> string" where
  "json_text v = (case v of JStr s \<Rightarrow> s | JInt i \<Rightarrow> str_int i | _ \<Rightarrow> dumps v)"

definition json_int :: "json \<Rightarrow> int" where
  "json_int v = (case v of JInt i \<Rightarrow> i | _ \<Rightarrow> 0)"

definition json_opt_text :: "json \<Rightarrow> string option" where
  "json_opt_text v = (case v of JStr s \<Rightarrow> Some s | _ \<Rightarrow> None)"

definition known_contract :: "dict \<Rightarrow> bool" where
  "known_contract p \<longleftrightarrow> obj_get p ''contract'' = JStr CONTRACT_ID \<and> obj_get p ''contract_version'' = JInt CONTRACT_VERSION"

definition exc_message :: "replay_exc \<Rightarrow> string" where
  "exc_message e = (case e of Replay_error _ m _ \<Rightarrow> m | Value_error m \<Rightarrow> m)"

text \<open>What the service compares after replaying at the receipt's point.\<close>

definition receipt_differences :: "(string \<Rightarrow> problem) \<Rightarrow> dict \<Rightarrow> replay_state \<Rightarrow> problem list" where
  "receipt_differences prob p s =
     (if JStr (rs_root s) \<noteq> obj_get p ''state_root'' then
        [prob (''the state root on replay is '' @ rs_root s @ '', the receipt says '' @ json_text (obj_get p ''state_root''))] else [])
     @ (if JInt (int (rs_count s)) \<noteq> obj_get p ''record_count'' then
        [prob (''record_count is '' @ dec_nat (rs_count s) @ '' on replay, the receipt says '' @ json_text (obj_get p ''record_count''))] else [])
     @ (if JInt (int (rs_deleted s)) \<noteq> obj_get p ''deleted_count'' then
        [prob (''deleted_count is '' @ dec_nat (rs_deleted s) @ '' on replay, the receipt says '' @ json_text (obj_get p ''deleted_count''))] else [])
     @ (case rs_block s of
          None \<Rightarrow> [prob (''no sealed block covers seq '' @ json_text (obj_get p ''at_seq'') @ '' any more'')]
        | Some b \<Rightarrow>
            (if JInt (b_height b) \<noteq> obj_get p ''block_height'' then
               [prob (''the covering block is '' @ str_int (b_height b) @ '', the receipt says '' @ json_text (obj_get p ''block_height''))] else [])
            @ (if JStr (b_hash b) \<noteq> obj_get p ''block_hash'' then
               [prob (''the covering block's hash is '' @ b_hash b @ '', the receipt says '' @ json_text (obj_get p ''block_hash''))] else []))"

text \<open>
  The problems of \<open>verify_replay_receipt\<close> (its \<open>ok\<close> is that there are none). A \<open>Value_error\<close> of
  the replay is not a \<open>ReplayError\<close> and leaves the call.
\<close>

definition verify_replay_receipt ::
  "pylib \<Rightarrow> signing \<Rightarrow> string \<Rightarrow> string \<Rightarrow> store_db \<Rightarrow> receipt_exc + problem list" where
  "verify_replay_receipt lib sg t rid db =
     (case get_replay_receipt t rid (st_evidence db) of
        Inl e \<Rightarrow> Inl (Replay_exc e)
      | Inr obj \<Rightarrow>
          case verify_stored lib obj of
            Inl e \<Rightarrow> Inl (Store_exc (Evidence_exc e))
          | Inr damaged \<Rightarrow>
              let prob = mk_problem ''receipt'' rid; p = eo_payload obj
              in if damaged \<noteq> [] then Inr (map (\<lambda>d. prob (''the stored receipt is damaged: '' @ d)) damaged)
                 else if \<not> known_contract p then
                   Inr [prob (''this service knows '' @ CONTRACT_ID @ '' version '' @ str_int CONTRACT_VERSION @ '', not ''
                     @ json_text (obj_get p ''contract'') @ '' version '' @ json_text (obj_get p ''contract_version''))]
                 else
                   let wrong_tenant = (if obj_get p ''tenant'' \<noteq> JStr t then
                         [prob (''the receipt is for tenant '' @ json_text (obj_get p ''tenant'') @ '', not '' @ t)] else []);
                       signed = (if sg_mode sg = Mode_off then []
                         else sr_problems (report_of sg t (Some (json_int (obj_get p ''block_height''))) (json_opt_text (obj_get p ''block_hash'')) (Some rid)))
                   in case replay_state (st_ledger db) t (Some (json_int (obj_get p ''at_seq''))) None None 1 of
                        Inl (Value_error m) \<Rightarrow> Inl (Replay_exc (Value_error m))
                      | Inl e \<Rightarrow> Inr (wrong_tenant @ [prob (''the receipt cannot be replayed: '' @ exc_message e)] @ signed)
                      | Inr s \<Rightarrow> Inr (wrong_tenant @ receipt_differences prob p s @ signed))"

text \<open>The offline check of a receipt, from the raw entries.\<close>

definition load_receipt :: "string \<Rightarrow> string \<Rightarrow> evidence_table \<Rightarrow> replay_exc + evidence_object" where
  "load_receipt t rid tab =
     (if \<not> match_id rid then
        Inl (Replay_error ''receipt_id_invalid'' ''a receipt id looks like eo:sha256:<64 lowercase hex characters>'' 422)
      else case find_evidence t rid tab of
        None \<Rightarrow> Inl (Replay_error ''receipt_not_found'' (''there is no evidence object '' @ rid) 404)
      | Some obj \<Rightarrow>
          if eo_schema obj \<noteq> CES_REPLAY_RECEIPT then
            Inl (Replay_error ''not_a_replay_receipt'' (rid @ '' is a '' @ eo_schema obj @ '' object, not a replay receipt'') 422)
          else Inr obj)"

definition count_difference :: "(string \<Rightarrow> problem) \<Rightarrow> dict \<Rightarrow> string \<Rightarrow> nat \<Rightarrow> problem list" where
  "count_difference prob p key n =
     (if JInt (int n) \<noteq> obj_get p key then
        [prob (key @ '' is '' @ dec_nat n @ '' on replay, the receipt says '' @ json_text (obj_get p key))] else [])"

definition verify_receipt ::
  "pylib \<Rightarrow> (mem_row \<Rightarrow> string) \<Rightarrow> signing \<Rightarrow> string \<Rightarrow> string \<Rightarrow> store_db \<Rightarrow> receipt_exc + problem list" where
  "verify_receipt lib jtext sg t rid db =
     (case load_receipt t rid (st_evidence db) of
        Inl e \<Rightarrow> Inl (Replay_exc e)
      | Inr obj \<Rightarrow>
          case verify_stored lib obj of
            Inl e \<Rightarrow> Inl (Store_exc (Evidence_exc e))
          | Inr damaged \<Rightarrow>
              let prob = mk_problem ''receipt'' rid; p = eo_payload obj
              in if damaged \<noteq> [] then Inr (map (\<lambda>d. prob (''the stored receipt is damaged: '' @ d)) damaged)
                 else if \<not> known_contract p then
                   Inr [prob (''this verifier knows '' @ CONTRACT_ID @ '' version '' @ str_int CONTRACT_VERSION @ '', not ''
                     @ json_text (obj_get p ''contract'') @ '' version '' @ json_text (obj_get p ''contract_version''))]
                 else
                   let wrong_tenant = (if obj_get p ''tenant'' \<noteq> JStr t then
                         [prob (''the receipt is for tenant '' @ json_text (obj_get p ''tenant'') @ '', not '' @ t)] else [])
                   in case verify_replay jtext (st_ledger db) t (Some (json_int (obj_get p ''at_seq''))) None (json_opt_text (obj_get p ''state_root''))
                             (json_opt_text (obj_get p ''block_hash'')) (Some (json_int (obj_get p ''block_height''))) of
                        Inl (Value_error m) \<Rightarrow> Inl (Replay_exc (Value_error m))
                      | Inl e \<Rightarrow> Inr (wrong_tenant @ [prob (''the receipt cannot be replayed: '' @ exc_message e)])
                      | Inr r \<Rightarrow>
                          let problems = wrong_tenant @ rr_problems r @ count_difference prob p ''record_count'' (rr_records r)
                                           @ count_difference prob p ''deleted_count'' (rr_deleted r)
                          in Inr (sd_problems (add_signatures sg t (rr_block r) problems (Some rid))))"

section \<open>Replay events\<close>

record evidence_status =
  es_kind :: string
  es_ref :: string
  es_note :: string
  es_status :: string

record replay_event =
  ev_seq :: int
  ev_memory :: string
  ev_op :: string
  ev_version :: int
  ev_actor :: string
  ev_changed :: int
  ev_prev :: string
  ev_row :: string
  ev_before :: "mem_row option"
  ev_after :: "mem_row option"
  ev_evidence :: "evidence_status list"

record replay_events =
  ve_from :: int
  ve_to :: int
  ve_history_seq :: int
  ve_events :: "replay_event list"
  ve_next :: "int option"

definition evidence_links :: "mem_row option \<Rightarrow> link list" where
  "evidence_links r = (case r of None \<Rightarrow> [] | Some row \<Rightarrow> r_evidence row)"

text \<open>The inner function \<open>status\<close>: only the exact kind is looked up.\<close>

definition link_status :: "pylib \<Rightarrow> string \<Rightarrow> evidence_table \<Rightarrow> link \<Rightarrow> ev_exc + string" where
  "link_status lib t tab l =
     (if l_kind l \<noteq> LINK_KIND then Inr ''not-checked''
      else case find_evidence t (l_ref l) tab of
             None \<Rightarrow> Inr ''missing''
           | Some obj \<Rightarrow> res_bind (verify_stored lib obj) (\<lambda>ps. Inr (if ps \<noteq> [] then ''tampered'' else ''intact'')))"

definition mk_event :: "pylib \<Rightarrow> string \<Rightarrow> evidence_table \<Rightarrow> hist_row \<Rightarrow> ev_exc + replay_event" where
  "mk_event lib t tab h =
     res_bind (res_map_list (\<lambda>l. res_bind (link_status lib t tab l) (\<lambda>s. Inr
         \<lparr>es_kind = l_kind l, es_ref = l_ref l, es_note = l_note l, es_status = s\<rparr>))
       (evidence_links (if h_after h \<noteq> None then h_after h else h_before h)))
     (\<lambda>links. Inr \<lparr>ev_seq = h_seq h, ev_memory = h_memory h, ev_op = h_op h, ev_version = h_version h, ev_actor = h_actor h,
        ev_changed = h_changed h, ev_prev = h_prev h, ev_row = h_hash h, ev_before = h_before h, ev_after = h_after h,
        ev_evidence = links\<rparr>)"

definition replay_events ::
  "pylib \<Rightarrow> string \<Rightarrow> int \<Rightarrow> int option \<Rightarrow> int \<Rightarrow> store_db \<Rightarrow> receipt_exc + replay_events" where
  "replay_events lib t from_seq to_seq limit db =
     (let n = nat (max 1 (min limit MAX_PAGE)); counter = history_seq (st_ledger db) t;
          stop = (case to_seq of None \<Rightarrow> counter | Some e \<Rightarrow> e)
      in if from_seq < 1 then Inl (Replay_exc (Replay_error ''replay_seq_out_of_range'' ''from_seq starts at 1'' 422))
         else if stop > counter then Inl (Replay_exc (Replay_error ''replay_seq_out_of_range''
           (''to_seq '' @ str_int stop @ '' is beyond the history counter '' @ str_int counter) 422))
         else let rows = take (n + 1) (sort_key h_seq (filter (\<lambda>h. from_seq \<le> h_seq h \<and> h_seq h \<le> stop) (tenant_entries (st_ledger db) t)));
                  more = length rows > n; page = take n rows
         in case res_map_list (mk_event lib t (st_evidence db)) page of
              Inl e \<Rightarrow> Inl (Store_exc (Evidence_exc e))
            | Inr es \<Rightarrow> Inr \<lparr>ve_from = from_seq, ve_to = stop, ve_history_seq = counter, ve_events = es,
                ve_next = (if more then Some (h_seq (last page) + 1) else None)\<rparr>)"

end
