(* ===== verification/Row_Store_Witnesses.thy ===== *)
theory Row_Store_Witnesses
  imports Row_Store_Theorems Sshsig_Theorems
begin

text \<open>
  One concrete store on which the hypotheses of the store's properties hold: a verified decision created in an
  empty ledger, archived without and with interference, and one evidence object.
\<close>

section \<open>A concrete store\<close>

definition read_time :: "string \<Rightarrow> int" where
  "read_time s = (if s \<noteq> [] \<and> hd s = CHR ''-'' then - int (dec_value (tl s)) else int (dec_value s))"

definition plain_lib :: pylib where
  "plain_lib = \<lparr>py_repr = (\<lambda>s. s), py_iso = (\<lambda>s. s \<noteq> []), py_value_error = ''invalid'', py_lower = ascii_lower,
     py_float = JFloat, py_field_int = (\<lambda>v. case v of JInt i \<Rightarrow> Some i | _ \<Rightarrow> None), py_time = str_int, py_instant = read_time\<rparr>"

definition no_rules :: soft_rules where
  "no_rules = \<lparr>sr_emotion = (\<lambda>s. False), sr_transient = (\<lambda>s. False), sr_transcript = (\<lambda>s. False)\<rparr>"

definition plain_json :: "mem_row \<Rightarrow> string" where
  "plain_json r = ''{}''"

definition open_env :: clause_env where
  "open_env = \<lparr>ce_hard = [], ce_soft = ''off''\<rparr>"

definition sample_link :: link where
  "sample_link = \<lparr>l_kind = ''url'', l_ref = ''op'', l_note = []\<rparr>"

definition sample_create :: memory_create where
  "sample_create = \<lparr>mc_content = ''use rows'', mc_source = ''op'', mc_session = ''s'', mc_type = ''decision'', mc_confidence = 1,
     mc_evidence = [sample_link], mc_supersedes = None, mc_status = ''verified'', mc_subject = None, mc_tags = []\<rparr>"

definition no_others :: interference where
  "no_others = \<lparr>after_read = (\<lambda>i d. d), before_write = (\<lambda>i d. d)\<rparr>"

lemma open_env_modes: "hard_mode open_env = ''enforce''" "soft_mode open_env = ''off''"
  by (simp_all add: hard_mode_def soft_mode_def open_env_def strip_ends graphic_def ascii_lower_def Let_def)

lemma sample_link_text: "link_kind sample_link = ''url''" "link_ref sample_link = ''op''"
  by (simp_all add: link_kind_def link_ref_def sample_link_def strip_ends graphic_def ascii_lower_def)

lemma sample_gate:
  "check_links [sample_link] f = Inr ()" "gate_create lib rules open_env sample_create f' = Inr None"
  by (simp_all add: check_links_def LINK_KIND_def sample_link_text gate_create_def judge_def open_env_modes sample_create_def
      hard_reasons_def evidence_reason_def type_reasons_def ALLOWED_TYPES_def)

definition sample_ledger :: "pylib \<Rightarrow> (mem_row \<Rightarrow> string) \<Rightarrow> ledger_db" where
  "sample_ledger lib jtext = jarvis_record_history jtext (tenant_session ''t'' 0) (On_insert (new_row lib ''t'' ''m1'' 0 sample_create))
     (empty_db\<lparr>memories := [new_row lib ''t'' ''m1'' 0 sample_create]\<rparr>)"

lemma hex64_content: "hex64 (content_sha256 lib c)"
  by (simp add: content_sha256_def)

lemma sample_row_checks: "row_checks (new_row lib ''t'' ''m1'' 0 sample_create)"
  by (simp add: row_checks_def new_row_def sample_create_def hex64_content char_length_def memory_types_def memory_statuses_def)

lemma sample_no_nul: "\<not> row_text_nul (new_row lib ''t'' ''m1'' 0 sample_create)" "\<not> link_nul sample_link"
proof -
  have "\<not> nul (content_sha256 lib c)" for c
    using hex64_content [of lib c] by (auto simp: hex64_def nul_def list_all_iff is_hex_def Let_def)
  then show "\<not> row_text_nul (new_row lib ''t'' ''m1'' 0 sample_create)"
    by (simp add: row_text_nul_def new_row_def sample_create_def opt_text_def non_empty_def) (simp add: nul_def)
qed (simp add: link_nul_def nul_def sample_link_def)

lemma sample_insert_row: "sql_insert jtext (tenant_session ''t'' 0) (new_row lib ''t'' ''m1'' 0 sample_create) empty_db = Inr (sample_ledger lib jtext)"
  using sample_row_checks [of lib]
  by (simp add: sql_insert_def sample_ledger_def empty_db_def fk_ok_def) (simp add: new_row_def tenant_session_def sample_create_def non_empty_def)

lemma sample_created: "create_memory lib rules open_env jtext ''t'' 0 (\<lambda>d. d) [''m1''] sample_create empty_store =
    (Inr (new_row lib ''t'' ''m1'' 0 sample_create), empty_store\<lparr>st_ledger := sample_ledger lib jtext\<rparr>)"
proof -
  have "mc_evidence sample_create = [sample_link]" "non_empty (mc_supersedes sample_create) = None"
    "r_evidence (new_row lib ''t'' ''m1'' 0 sample_create) = [sample_link]"
    by (simp_all add: sample_create_def non_empty_def new_row_def)
  then show ?thesis
    by (simp add: create_memory_def sample_gate create_attempt_def missing_target_def write_row_def sample_no_nul sample_insert_row
        empty_store_def tx_def)
qed

lemma sample_run: "store_run lib rules open_env jtext empty_store (empty_store\<lparr>st_ledger := sample_ledger lib jtext\<rparr>)"
  by (rule run_create [OF run_refl sample_created])

lemma sample_memories: "memories (sample_ledger lib jtext) = [new_row lib ''t'' ''m1'' 0 sample_create]"
  by (simp add: sample_ledger_def jarvis_record_history_memories)

theorem clause_v_invariant_witness:
  "\<exists>db r. store_run plain_lib no_rules open_env plain_json empty_store db \<and> r \<in> set (memories (st_ledger db)) \<and> r_status r = ''verified'' \<and>
     r_type r \<in> {''architecture'', ''decision'', ''fact'', ''research''}"
proof -
  let ?r = "new_row plain_lib ''t'' ''m1'' 0 sample_create" and ?db = "empty_store\<lparr>st_ledger := sample_ledger plain_lib plain_json\<rparr>"
  have r: "?r \<in> set (memories (st_ledger ?db))" "r_status ?r = ''verified''"
    by (simp_all add: sample_memories, simp add: new_row_def sample_create_def)
  from clause_v_invariant [OF sample_run open_env_modes(1) r] sample_run r show ?thesis by blast
qed

theorem create_memory_outcome_witness:
  "\<exists>res db'. create_memory plain_lib no_rules open_env plain_json ''t'' 0 (\<lambda>d. d) [''m1''] sample_create empty_store = (res, db') \<and>
     res = Inr (new_row plain_lib ''t'' ''m1'' 0 sample_create)"
  using create_memory_outcome [OF sample_created] sample_created by auto

subsection \<open>Updates\<close>

definition archive_update :: memory_update where
  "archive_update = \<lparr>mu_content = None, mu_source = None, mu_session = None, mu_type = None, mu_confidence = None, mu_evidence = None,
     mu_supersedes = None, mu_status = Some ''archived'', mu_subject = None, mu_tags = None, mu_expected_version = None\<rparr>"

lemma archive_refusal: "r_supersedes old = None \<Longrightarrow>
    update_refusal lib rules open_env t old archive_update (merge_update lib old archive_update now) db = None"
  by (simp add: update_refusal_def gate_update_def archive_update_def judge_def open_env_modes pick_def merge_update_def
      missing_target_def non_empty_def Let_def)

lemma sample_find: "find_row (sample_ledger lib jtext) ''t'' ''m1'' = Some (new_row lib ''t'' ''m1'' 0 sample_create)"
  by (simp add: find_row_def sample_memories) (simp add: row_key_def new_row_def)

definition archived_row :: "pylib \<Rightarrow> mem_row" where
  "archived_row lib = merge_update lib (new_row lib ''t'' ''m1'' 0 sample_create) archive_update 0"

lemma archived_row_simps: "archived_row lib = (new_row lib ''t'' ''m1'' 0 sample_create)\<lparr>r_status := ''archived''\<rparr>"
  by (simp add: archived_row_def merge_update_def archive_update_def pick_def non_empty_def) (simp add: new_row_def sample_create_def non_empty_def)

lemma archived_row_ok: "row_checks ((archived_row lib)\<lparr>r_version := v\<rparr>)" "\<not> row_text_nul (archived_row lib)"
    "r_evidence (archived_row lib) = [sample_link]" "r_supersedes (archived_row lib) = None"
  using sample_row_checks [of lib] sample_no_nul(1) [of lib]
  by (simp_all add: archived_row_simps row_checks_def memory_statuses_def)
    (simp_all add: row_text_nul_def new_row_def sample_create_def nul_def opt_text_def non_empty_def)

lemma archive_sql: "\<exists>l. sql_update jtext (tenant_session ''t'' 0) ''m1'' 1 (set_columns (archived_row lib)) (sample_ledger lib jtext) =
    Inr (Some ((archived_row lib)\<lparr>r_version := 2\<rparr>), l)"
proof -
  have s: "set_columns (archived_row lib) (new_row lib ''t'' ''m1'' 0 sample_create) = archived_row lib"
    unfolding archived_row_def by (rule merge_after_set) (simp_all add: merge_update_fields)
  have f: "r_version (new_row lib ''t'' ''m1'' 0 sample_create) = 1" "r_tenant (archived_row lib) = ''t''" "r_id (archived_row lib) = ''m1''"
    "r_tenant (new_row lib ''t'' ''m1'' 0 sample_create) = ''t''" "r_id (new_row lib ''t'' ''m1'' 0 sample_create) = ''m1''"
    by (simp_all add: archived_row_simps) (simp_all add: new_row_def)
  show ?thesis
    using archived_row_ok [where lib = lib]
    by (simp add: sql_update_def sample_find f jarvis_bump_version_def s fk_ok_def)
qed

lemma sample_archived: "\<exists>db'. update_memory lib rules open_env jtext ''t'' no_others (\<lambda>i. 0) ''m1'' archive_update
    (empty_store\<lparr>st_ledger := sample_ledger lib jtext\<rparr>) = (Inr (Some ((archived_row lib)\<lparr>r_version := 2\<rparr>)), db')"
proof -
  obtain l where l: "sql_update jtext (tenant_session ''t'' 0) ''m1'' 1 (set_columns (archived_row lib)) (sample_ledger lib jtext) =
      Inr (Some ((archived_row lib)\<lparr>r_version := 2\<rparr>), l)"
    using archive_sql by blast
  have a: "update_attempt lib rules open_env jtext ''t'' no_others (\<lambda>i. 0) 0 ''m1'' archive_update
      (empty_store\<lparr>st_ledger := sample_ledger lib jtext\<rparr>) =
      (Finished (Inr (Some ((archived_row lib)\<lparr>r_version := 2\<rparr>))), (empty_store\<lparr>st_ledger := l\<rparr>))"
  proof -
    have f: "r_version (new_row lib ''t'' ''m1'' 0 sample_create) = 1" "r_supersedes (new_row lib ''t'' ''m1'' 0 sample_create) = None"
      by (simp_all add: new_row_def sample_create_def non_empty_def)
    have e: "mu_expected_version archive_update = None" by (simp add: archive_update_def)
    have r: "update_refusal lib rules open_env ''t'' (new_row lib ''t'' ''m1'' 0 sample_create) archive_update (archived_row lib) d = None" for d
      unfolding archived_row_def by (rule archive_refusal [OF f(2)])
    show ?thesis
      using archived_row_ok(2,3) [where lib = lib] sample_no_nul(2)
      by (simp add: update_attempt_def sample_find e f(1) no_others_def archived_row_def [symmetric] Let_def r write_row_def l tx_def)
  qed
  have "[0..<MAX_UPDATE_ATTEMPTS] = 0 # [1..<5]" by (simp add: MAX_UPDATE_ATTEMPTS_def upt_conv_Cons)
  with a show ?thesis by (simp add: update_memory_def)
qed

theorem update_not_lost_witness:
  "\<exists>row db'. update_memory plain_lib no_rules open_env plain_json ''t'' no_others (\<lambda>i. 0) ''m1'' archive_update
      (empty_store\<lparr>st_ledger := sample_ledger plain_lib plain_json\<rparr>) = (Inr (Some row), db') \<and>
    find_row (st_ledger db') ''t'' ''m1'' = Some row"
proof -
  from sample_archived obtain db' where u: "update_memory plain_lib no_rules open_env plain_json ''t'' no_others (\<lambda>i. 0) ''m1'' archive_update
    (empty_store\<lparr>st_ledger := sample_ledger plain_lib plain_json\<rparr>) = (Inr (Some ((archived_row plain_lib)\<lparr>r_version := 2\<rparr>)), db')" by blast
  have "versions_fresh ''t'' ''m1'' no_others db" for db by (auto simp: versions_fresh_def no_others_def)
  from update_not_lost [OF u this] have "find_row (st_ledger db') ''t'' ''m1'' = Some ((archived_row plain_lib)\<lparr>r_version := 2\<rparr>)" by blast
  with u show ?thesis by blast
qed

text \<open>Other sessions that touch every record between each read and write.\<close>

definition touch_all :: "store_db \<Rightarrow> store_db" where
  "touch_all d = d\<lparr>st_ledger := (st_ledger d)\<lparr>memories := map (\<lambda>r. r\<lparr>r_version := r_version r + 1\<rparr>) (memories (st_ledger d))\<rparr>\<rparr>"

definition busy_others :: interference where
  "busy_others = \<lparr>after_read = (\<lambda>i d. d), before_write = (\<lambda>i. touch_all)\<rparr>"

lemma find_touched: "find_row (st_ledger (touch_all d)) t m = map_option (\<lambda>r. r\<lparr>r_version := r_version r + 1\<rparr>) (find_row (st_ledger d) t m)"
proof -
  have "find (\<lambda>r. row_key r = k) (map (\<lambda>r. r\<lparr>r_version := r_version r + 1\<rparr>) rs) =
      map_option (\<lambda>r. r\<lparr>r_version := r_version r + 1\<rparr>) (find (\<lambda>r. row_key r = k) rs)" for k and rs :: "mem_row list"
    by (induction rs) (auto simp: row_key_def)
  then show ?thesis by (simp add: find_row_def touch_all_def)
qed

lemma busy_attempt:
  assumes "find_row (st_ledger d) ''t'' ''m1'' = Some (r\<lparr>r_version := v\<rparr>)" "r = new_row lib ''t'' ''m1'' 0 sample_create"
  shows "update_attempt lib rules open_env jtext ''t'' busy_others (\<lambda>i. 0) i ''m1'' archive_update d = (Retry, touch_all d)"
proof -
  have e: "mu_expected_version archive_update = None" by (simp add: archive_update_def)
  have m: "merge_update lib (r\<lparr>r_version := v\<rparr>) archive_update 0 = (archived_row lib)\<lparr>r_version := v\<rparr>"
    unfolding assms(2) archived_row_simps
    by (simp add: merge_update_def archive_update_def pick_def) (simp add: new_row_def sample_create_def non_empty_def)
  have n: "\<not> row_text_nul ((archived_row lib)\<lparr>r_version := v\<rparr>)" using archived_row_ok(2) [where lib = lib] by (simp add: row_text_nul_def)
  have s: "r_supersedes (r\<lparr>r_version := v\<rparr>) = None" by (simp add: assms(2) new_row_def sample_create_def non_empty_def)
  have u: "sql_update jtext (tenant_session ''t'' 0) ''m1'' v upd (st_ledger (touch_all d)) = Inr (None, st_ledger (touch_all d))" for upd
    by (simp add: sql_update_def find_touched assms(1))
  show ?thesis
    using archive_refusal [OF s, of lib rules "''t''" 0 d] n archived_row_ok(3) [where lib = lib] sample_no_nul(2)
    by (simp add: update_attempt_def assms(1) e busy_others_def m write_row_def u tx_def Let_def)
qed

lemma busy_loop:
  "find_row (st_ledger d) ''t'' ''m1'' = Some (r\<lparr>r_version := v\<rparr>) \<Longrightarrow> r = new_row lib ''t'' ''m1'' 0 sample_create \<Longrightarrow>
   \<exists>d'. update_loop lib rules open_env jtext ''t'' busy_others (\<lambda>i. 0) js ''m1'' archive_update d = (Inl (Version_conflict too_much), d')"
proof (induction js arbitrary: d v)
  case Nil
  then show ?case by (simp add: too_much_def)
next
  case (Cons i js)
  have "find_row (st_ledger (touch_all d)) ''t'' ''m1'' = Some (r\<lparr>r_version := v + 1\<rparr>)"
    using Cons.prems(1) by (simp add: find_touched)
  from Cons.IH [OF this Cons.prems(2)] show ?case by (simp add: busy_attempt [OF Cons.prems])
qed

lemma update_gives_up_witness:
  "\<exists>db'. update_memory plain_lib no_rules open_env plain_json ''t'' busy_others (\<lambda>i. 0) ''m1'' archive_update
      (empty_store\<lparr>st_ledger := sample_ledger plain_lib plain_json\<rparr>) = (Inl (Version_conflict too_much), db') \<and>
    mu_expected_version archive_update = None"
proof -
  let ?r = "new_row plain_lib ''t'' ''m1'' 0 sample_create"
  have "find_row (st_ledger (empty_store\<lparr>st_ledger := sample_ledger plain_lib plain_json\<rparr>)) ''t'' ''m1'' = Some (?r\<lparr>r_version := 1\<rparr>)"
    by (simp add: sample_find) (simp add: new_row_def)
  from busy_loop [OF this refl] obtain db' where u: "update_memory plain_lib no_rules open_env plain_json ''t'' busy_others (\<lambda>i. 0) ''m1'' archive_update
      (empty_store\<lparr>st_ledger := sample_ledger plain_lib plain_json\<rparr>) = (Inl (Version_conflict too_much), db')"
    unfolding update_memory_def by blast
  with update_gives_up [OF u] show ?thesis by blast
qed

subsection \<open>Evidence\<close>

lemma sample_request_ok: "request_storable sample_request" "request_valid lib sample_request"
proof -
  have "storable sample_payload" by code_simp
  then show "request_storable sample_request"
    by (simp add: request_storable_def sample_request_def KNOWN_SCHEMAS_def pointer_storable_def)
  have "text_field sample_payload ''statement'' 4000 True = []" "text_field sample_payload ''authority'' 200 True = []"
    "text_field sample_payload ''source'' 1000 True = []" "map_of sample_payload ''decided_at'' = None"
    by (simp_all add: text_field_def obj_get_def sample_payload_def strip_ends graphic_def char_length_def)
  then show "request_valid lib sample_request"
    by (simp add: request_valid_def sample_request_def validate_payload_def iso_field_def pointer_list_def)
qed

lemma sample_text: "1 \<le> length (request_text sample_request) \<and> length (request_text sample_request) \<le> 65536"
  unfolding request_text_def sample_request_def envelope_def evidence_create.simps option.case append_Nil2 dumps_obj sample_payload_def
  by (simp add: less_eq_char_def less_char_def member_text_def json_member_def dumps_obj json_string_def json_char_def CES_DECISION_def del: dumps.simps(8))

lemma sample_build: "build_object lib sample_request = Inr (request_id sample_request, request_text sample_request)"
  using sample_request_ok(1) sample_request_ok(2) [of lib] sample_text by (simp add: build_object_Inr INLINE_LIMIT_BYTES_def sample_request_def)

lemma sample_keyed: "keyed (JObj (ec_payload sample_request))" "keyed_opt (ec_pointer sample_request)"
  by (simp_all add: sample_request_def sample_payload_def keyed_opt_def)

lemma sample_put: "\<exists>obj tab. put_evidence_object lib ''t'' 0 sample_request [] = Inr ((obj, True), tab) \<and> (''t'', obj) \<in> set tab"
proof -
  let ?n = "new_object sample_request (request_id sample_request) (request_text sample_request) 0"
  have j: "eo_schema ?n = CES_DECISION" "eo_by ?n = ''op''" "eo_payload ?n = sample_payload" "eo_pointer ?n = None"
    "eo_size ?n = int (length (request_text sample_request))" "eo_id ?n = ID_PREFIX @ sha256_hex (request_text sample_request)"
    by (simp_all add: new_object_def sample_request_def request_id_def)
  have c: "evidence_checks ?n"
    using sample_text unfolding evidence_checks_def j
    by (simp add: starts_with_def char_length_def CES_DECISION_def)
  have "insert_evidence ''t'' ?n [] = Inr (True, [(''t'', stored_form ?n)])"
    unfolding insert_evidence_Inr using c
    by (simp add: j find_evidence_def) (simp add: nul_def CES_DECISION_def sample_payload_def)
  then have "put_evidence_object lib ''t'' 0 sample_request [] = Inr ((stored_form ?n, True), [(''t'', stored_form ?n)])"
    by (simp add: put_evidence_object_def sample_build tx_def find_evidence_def) (simp add: stored_form_def new_object_def)
  then show ?thesis by simp
qed

theorem stored_evidence_bounds_witness:
  "\<exists>obj db. store_run plain_lib no_rules open_env plain_json empty_store db \<and> (''t'', obj) \<in> set (st_evidence db) \<and> verify_stored plain_lib obj = Inr []"
proof -
  obtain obj tab where p: "put_evidence_object plain_lib ''t'' 0 sample_request [] = Inr ((obj, True), tab)" "(''t'', obj) \<in> set tab"
    using sample_put by blast
  have "store_run plain_lib no_rules open_env plain_json empty_store (empty_store\<lparr>st_evidence := tab\<rparr>)"
    by (rule run_put [OF sample_keyed, where t = "''t''" and now = 0 and obj = obj and created = True]) (simp add: empty_store_def p(1))
  moreover have "(''t'', obj) \<in> set (st_evidence (empty_store\<lparr>st_evidence := tab\<rparr>))" using p(2) by simp
  ultimately show ?thesis using stored_evidence_bounds by blast
qed

lemma put_get_roundtrip_witness:
  "\<exists>obj tab. put_evidence_object plain_lib ''t'' 0 sample_request [] = Inr ((obj, True), tab) \<and>
     get_evidence_object ''t'' (request_id sample_request) tab = Some obj"
proof -
  obtain obj tab where p: "put_evidence_object plain_lib ''t'' 0 sample_request [] = Inr ((obj, True), tab)"
    using sample_put by blast
  have "ev_inv plain_lib []" by (simp add: ev_inv_def)
  from put_get_roundtrip [OF p this sample_keyed TrueI, of 1] p show ?thesis by blast
qed

definition bad_method_request :: evidence_create where
  "bad_method_request = \<lparr>ec_schema = CES_FACT, ec_payload = [(''method'', JList [])], ec_pointer = None, ec_source = ''op'', ec_id = None\<rparr>"

lemma bad_method_build: "build_object lib bad_method_request = Inl Type_error"
proof -
  have "storable [(''method'', JList [])]" by code_simp
  then have "request_storable bad_method_request"
    by (simp add: request_storable_def bad_method_request_def KNOWN_SCHEMAS_def pointer_storable_def)
  moreover have "validate_payload lib (ec_schema bad_method_request) (ec_payload bad_method_request) = Inl Type_error"
    unfolding validate_payload_Inl by (simp add: bad_method_request_def obj_get_def)
  ultimately show ?thesis by (simp add: build_object_storable)
qed

lemma build_object_outcomes_witness:
  "build_object plain_lib bad_method_request = Inl Type_error \<and> request_storable bad_method_request"
  using build_object_outcomes [of bad_method_request plain_lib] bad_method_build [of plain_lib] by simp

end
