(* ===== verification/Receipts_Theorems.thy ===== *)
theory Receipts_Theorems
  imports Receipts Row_Store_Witnesses
begin

text \<open>
  What a replay receipt is worth: a receipt that was issued is re-derived without a difference, by the service
  and by the offline verifier, on every later state of the ledger.
\<close>

section \<open>A position of a grown ledger\<close>

lemma upto_seq_within: "n \<le> m \<Longrightarrow> upto_seq db t n = filter (\<lambda>h. h_seq h \<le> n) (upto_seq db t m)"
  by (auto simp: upto_seq_def filter_sort intro!: arg_cong [of _ _ "sort_key h_seq"] filter_cong)

lemma upto_seq_earlier:
  assumes "db_inv jtext db" "db_inv jtext db'" "history db' = history db @ es" "n \<le> history_seq db t"
  shows "upto_seq db' t n = upto_seq db t n"
  using upto_earlier [OF assms(1-3), of t] upto_seq_now [OF assms(1), of t] upto_seq_within [OF assms(4)] by simp

lemma distinct_heads_at:
  assumes "db_inv jtext db" "db_inv jtext db'" "history db' = history db @ es" "n \<le> history_seq db t"
  shows "distinct_heads db' t n = distinct_heads db t n"
  by (simp add: distinct_heads_alt newest_at_def upto_seq_earlier [OF assms])

lemma later_blocks: "later jtext db db' \<Longrightarrow> \<exists>bs. blocks db' = blocks db @ bs"
proof (induction rule: later.induct)
  case (later_step db db' s db'')
  then show ?case using step_grows [OF later_step.hyps(2)] by (auto simp: grows_def)
qed simp

lemma covering_block_later: "later jtext db db' \<Longrightarrow> covering_block db t n = Some b \<Longrightarrow> covering_block db' t n = Some b"
  using later_blocks by (fastforce simp: covering_block_def find_append)

lemma replay_state_block:
  assumes "replay_state db t asked blk after_id limit = Inr s"
  shows "rs_block s = covering_block db t (rs_at_seq s)"
  using assms by (cases "resolve_at_seq db t asked blk") (auto simp: replay_state_def Let_def split: sum.splits prod.splits)

text \<open>What a replay says at a sealed position stays true.\<close>

lemma replay_state_later:
  assumes "reachable jtext db" "later jtext db db'" "replay_state db t asked blk after_id limit = Inr s"
  shows "\<exists>s'. replay_state db' t (Some (rs_at_seq s)) None after_id' limit' = Inr s' \<and> rs_at_seq s' = rs_at_seq s \<and>
    rs_root s' = rs_root s \<and> rs_count s' = rs_count s \<and> rs_deleted s' = rs_deleted s \<and>
    (\<forall>b. rs_block s = Some b \<longrightarrow> rs_block s' = Some b)"
proof -
  have inv: "ledger_inv jtext db" "ledger_inv jtext db'"
    using assms later_reachable reachable_ledger_inv by blast+
  then have db: "db_inv jtext db" "db_inv jtext db'" by (simp_all add: ledger_inv_def)
  obtain es where es: "history db' = history db @ es" using later_history [OF assms(2)] by blast
  obtain n where n: "resolve_at_seq db t asked blk = Inr n" "rs_at_seq s = n"
    and s: "state_root (map (\<lambda>h. (h_memory h, h_hash h)) (filter (\<lambda>h. h_op h \<noteq> ''delete'') (distinct_heads db t n))) = Inr (rs_root s)"
      "rs_count s = length (filter (\<lambda>h. h_op h \<noteq> ''delete'') (distinct_heads db t n))"
      "rs_deleted s = length (distinct_heads db t n) - rs_count s"
    using replay_state_parts [OF assms(3)] by (auto simp: Let_def)
  have le: "n \<le> history_seq db t" by (rule resolve_within [OF inv(1) n(1)])
  have res: "resolve_at_seq db' t (Some n) None = Inr n"
    by (rule resolve_seq) (use le history_seq_mono [OF db es, of t] in simp)
  have hs: "distinct_heads db' t n = distinct_heads db t n" by (rule distinct_heads_at [OF db es le])
  obtain s' where s': "replay_state db' t (Some n) None after_id' limit' = Inr s'" "rs_at_seq s' = n"
    using replay_state_defined [OF s(1) [folded hs] res] by blast
  from replay_state_parts [OF s'(1)] res hs s
  have "rs_root s' = rs_root s" "rs_count s' = rs_count s" "rs_deleted s' = rs_deleted s" by (auto simp: Let_def)
  moreover have "rs_block s' = Some b" if "rs_block s = Some b" for b
    using that covering_block_later [OF assms(2)] replay_state_block [OF assms(3)] replay_state_block [OF s'(1)] n s' by simp
  ultimately show ?thesis using s' n by (intro exI [where x = s']) simp
qed

section \<open>Expecting what is there\<close>

lemma expect_block_silent:
  assumes "verify_replay jtext db t asked blk er None None = Inr r" "resolve_at_seq db t asked blk = Inr n"
    and "covering_block db t n = Some b"
  shows "verify_replay jtext db t asked blk er (Some (b_hash b)) (Some (b_height b)) = Inr r"
proof -
  define c where "c eh eb = \<lparr>c_db = db, c_tenant = t, c_at_seq = n, c_expect_root = er, c_expect_block_hash = eh,
      c_expect_block_height = eb, c_counter = history_seq db t, c_entries = ctx_entries jtext db t n,
      c_folded = fold_state (ctx_entries jtext db t n) n\<rparr>" for eh eb
  have same: "check_seq (c x y) = check_seq (c None None)" "check_entry_hash (c x y) = check_entry_hash (c None None)"
    "check_chain_link (c x y) = check_chain_link (c None None)" "check_state_root (c x y) rt = check_state_root (c None None) rt"
    "check_live_match jtext (c x y) = check_live_match jtext (c None None)"
    "check_blocks (c x y) = check_blocks (c None None)" "c_folded (c x y) = c_folded (c None None)" for x y rt
    by (simp_all add: c_def check_seq_def check_entry_hash_def check_chain_link_def check_state_root_def check_live_match_def
        check_blocks_def Let_def split: option.split)
  have "check_expected_block (c (Some (b_hash b)) (Some (b_height b))) = []" "check_expected_block (c None None) = []"
    using assms(3) by (simp_all add: check_expected_block_def c_def)
  with assms show ?thesis
    unfolding verify_replay_def Let_def assms(2) res_bind_simps c_def [symmetric]
    by (simp add: same(7) [of "Some _" "Some _"]) (simp add: same [of "Some _" "Some _"] split: sum.splits)
qed

section \<open>Receipts\<close>

definition receipt_request :: "string \<Rightarrow> dict \<Rightarrow> evidence_create" where
  "receipt_request source p = \<lparr>ec_schema = CES_REPLAY_RECEIPT, ec_payload = p, ec_pointer = None, ec_source = source, ec_id = None\<rparr>"

definition receipt_dict :: "string \<Rightarrow> replay_state \<Rightarrow> block_row \<Rightarrow> dict" where
  "receipt_dict t s b =
     [(''contract'', JStr CONTRACT_ID), (''contract_version'', JInt CONTRACT_VERSION), (''tenant'', JStr t),
      (''at_seq'', JInt (rs_at_seq s)), (''block_height'', JInt (b_height b)), (''block_hash'', JStr (b_hash b)),
      (''state_root'', JStr (rs_root s)), (''record_count'', JInt (int (rs_count s))), (''deleted_count'', JInt (int (rs_deleted s)))]"

lemma receipt_payload_Inr:
  "receipt_payload t s = Inr p \<longleftrightarrow>
     (\<exists>b. rs_block s = Some b \<and> payload_ok (rs_at_seq s) (b_height b) (b_hash b) (rs_root s) \<and> p = receipt_dict t s b)"
  by (auto simp: receipt_payload_def receipt_dict_def split: option.splits)

lemma receipt_keyed: "keyed (JObj (receipt_dict t s b))" "distinct (map fst (receipt_dict t s b))"
  by (simp_all add: receipt_dict_def)

lemma receipt_fields_get:
  "obj_get (receipt_dict t s b) ''contract'' = JStr CONTRACT_ID"
  "obj_get (receipt_dict t s b) ''contract_version'' = JInt CONTRACT_VERSION"
  "obj_get (receipt_dict t s b) ''tenant'' = JStr t"
  "obj_get (receipt_dict t s b) ''at_seq'' = JInt (rs_at_seq s)"
  "obj_get (receipt_dict t s b) ''block_height'' = JInt (b_height b)"
  "obj_get (receipt_dict t s b) ''block_hash'' = JStr (b_hash b)"
  "obj_get (receipt_dict t s b) ''state_root'' = JStr (rs_root s)"
  "obj_get (receipt_dict t s b) ''record_count'' = JInt (int (rs_count s))"
  "obj_get (receipt_dict t s b) ''deleted_count'' = JInt (int (rs_deleted s))"
  by (simp_all add: receipt_dict_def obj_get_def)

lemmas stored_receipt_get = obj_get_jsonb [OF receipt_keyed(2)]

lemma create_receipt_Inr:
  assumes "create_replay_receipt lib t now asked_seq at_block source db = Inr ((obj, True, s), db1)"
  obtains b blk where "replay_state (st_ledger db) t asked_seq blk None 1 = Inr s" "rs_block s = Some b"
    "find_evidence t (eo_id obj) (st_evidence db1) = Some obj" "eo_schema obj = CES_REPLAY_RECEIPT"
    "eo_payload obj = jsonb_dict (receipt_dict t s b)" "verify_stored lib obj = Inr []" "st_ledger db1 = st_ledger db"
    "match_id (eo_id obj)"
proof -
  from assms obtain blk payload tab where r: "replay_state (st_ledger db) t asked_seq blk None 1 = Inr s"
      "receipt_payload t s = Inr payload" and db1: "db1 = db\<lparr>st_evidence := tab\<rparr>"
    and put: "put_evidence_object lib t now (receipt_request source payload) (st_evidence db) = Inr ((obj, True), tab)"
    unfolding create_replay_receipt_def receipt_request_def by (auto split: sum.splits)
  from r(2) obtain b where b: "rs_block s = Some b" "payload = receipt_dict t s b" by (auto simp: receipt_payload_Inr)
  let ?q = "receipt_request source payload"
  note c = put_cases [OF put]
  have q: "ec_schema ?q = CES_REPLAY_RECEIPT" "ec_payload ?q = receipt_dict t s b" "ec_pointer ?q = None"
    by (simp_all add: receipt_request_def b)
  have "find_evidence t (request_id ?q) (st_evidence db) = None" using c(2) by simp
  with c(3,4) have obj: "obj = stored_form (new_object ?q (request_id ?q) (request_text ?q) now)"
    by (simp add: find_evidence_append) (simp add: find_evidence_def stored_form_def new_object_def)
  then have f: "eo_id obj = request_id ?q" "eo_schema obj = CES_REPLAY_RECEIPT" "eo_payload obj = jsonb_dict (receipt_dict t s b)"
    "eo_pointer obj = map_option jsonb_dict (ec_pointer ?q)" "eo_schema obj = ec_schema ?q" "eo_payload obj = jsonb_dict (ec_payload ?q)"
    by (simp_all add: stored_form_def new_object_def q)
  have k: "keyed (JObj (ec_payload ?q))" "keyed_opt (ec_pointer ?q)"
    unfolding q by (rule receipt_keyed) (simp add: keyed_opt_def)
  have v: "verify_stored lib obj = Inr []" by (rule stored_verifies [OF c(1) k f(1,5,6,4)])
  show thesis
    by (rule that [OF r(1) b(1) _ f(2,3) v]) (simp_all add: c(4) f(1) db1, simp add: request_id_def match_id_hash)
qed

text \<open>C24: a receipt is re-derivable for ever: whatever statements the tenants' sessions run and whatever evidence is added after
  a receipt was issued, the receipt is found under its id, and both the service's check and the offline check of the raw
  entries report nothing but what the signing logs have to say about its block (nothing at all with signatures off).\<close>

theorem receipt_reverifies:
  assumes "reachable jtext (st_ledger db)"
    and "create_replay_receipt lib t now asked_seq at_block source db = Inr ((obj, True, s), db1)"
    and "later jtext (st_ledger db1) (st_ledger db2)" and "st_evidence db2 = st_evidence db1 @ added"
  shows "\<exists>b. rs_block s = Some b \<and> get_replay_receipt t (eo_id obj) (st_evidence db2) = Inr obj \<and>
    (let signed = (if sg_mode sg = Mode_off then [] else sr_problems (report_of sg t (Some (b_height b)) (Some (b_hash b)) (Some (eo_id obj))))
     in verify_replay_receipt lib sg t (eo_id obj) db2 = Inr signed \<and> verify_receipt lib jtext sg t (eo_id obj) db2 = Inr signed)"
proof -
  obtain b blk where r: "replay_state (st_ledger db) t asked_seq blk None 1 = Inr s" "rs_block s = Some b"
    and f0: "find_evidence t (eo_id obj) (st_evidence db1) = Some obj" and o: "eo_schema obj = CES_REPLAY_RECEIPT"
    and p: "eo_payload obj = jsonb_dict (receipt_dict t s b)" and v: "verify_stored lib obj = Inr []"
    and l1: "st_ledger db1 = st_ledger db" and mid: "match_id (eo_id obj)"
    using create_receipt_Inr [OF assms(2)] by blast
  have f: "find_evidence t (eo_id obj) (st_evidence db2) = Some obj" using f0 by (simp add: assms(4) find_evidence_append)
  have lt: "later jtext (st_ledger db) (st_ledger db2)" using assms(3) l1 by simp
  have re: "reachable jtext (st_ledger db2)" by (rule later_reachable [OF lt assms(1)])
  obtain s' where s': "replay_state (st_ledger db2) t (Some (rs_at_seq s)) None None 1 = Inr s'" "rs_at_seq s' = rs_at_seq s"
      "rs_root s' = rs_root s" "rs_count s' = rs_count s" "rs_deleted s' = rs_deleted s" "rs_block s' = Some b"
    using replay_state_later [OF assms(1) lt r(1), of None 1] r(2) by blast
  obtain q where q: "verify_replay jtext (st_ledger db2) t (Some (rs_at_seq s)) None (Some (rs_root s)) None None = Inr q"
      "rr_problems q = []" "rr_records q = rs_count s" "rr_deleted q = rs_deleted s"
    using served_replay_verifies [OF re s'(1)] s' by auto
  obtain n where n: "resolve_at_seq (st_ledger db2) t (Some (rs_at_seq s)) None = Inr n" "n = rs_at_seq s"
    using replay_state_parts [OF s'(1)] s'(2) by auto
  have cb: "covering_block (st_ledger db2) t n = Some b" using replay_state_block [OF s'(1)] s' n(2) by simp
  have q': "verify_replay jtext (st_ledger db2) t (Some (rs_at_seq s)) None (Some (rs_root s)) (Some (b_hash b)) (Some (b_height b)) = Inr q"
    by (rule expect_block_silent [OF q(1) n(1) cb])
  have bq: "rr_block q = Some (b_height b, b_hash b)"
    using q(1) cb by (auto simp: verify_replay_def n(1) Let_def split: sum.splits)
  have g: "get_replay_receipt t (eo_id obj) (st_evidence db2) = Inr obj"
    by (simp add: get_replay_receipt_def get_evidence_object_def mid f o)
  have l: "load_receipt t (eo_id obj) (st_evidence db2) = Inr obj" by (simp add: load_receipt_def mid f o)
  have k: "known_contract (eo_payload obj)"
    by (simp add: known_contract_def p stored_receipt_get receipt_fields_get)
  note get = p stored_receipt_get receipt_fields_get
  let ?signed = "if sg_mode sg = Mode_off then [] else sr_problems (report_of sg t (Some (b_height b)) (Some (b_hash b)) (Some (eo_id obj)))"
  have "verify_replay_receipt lib sg t (eo_id obj) db2 = Inr ?signed"
    by (simp add: verify_replay_receipt_def g v k [unfolded p] Let_def get json_int_def json_opt_text_def s' receipt_differences_def)
  moreover have "verify_receipt lib jtext sg t (eo_id obj) db2 = Inr ?signed"
    by (simp add: verify_receipt_def l v k [unfolded p] Let_def get json_int_def json_opt_text_def q' count_difference_def q bq add_signatures_def)
  ultimately show ?thesis using r(2) g by (simp add: Let_def)
qed

section \<open>A receipt\<close>

lemma length_json_string: "length (json_string s) \<le> 6 * length s + 2"
proof -
  have j: "length (json_char c) \<le> 6" for c by (simp add: json_char_def hex_byte_def)
  have "length (concat (map json_char s)) \<le> 6 * length s"
    by (induction s) (auto intro: add_mono [OF j, THEN order.trans])
  then show ?thesis by (simp add: json_string_def)
qed

lemma length_join_with: "length (join_with '','' xs) \<le> sum_list (map (\<lambda>x. Suc (length x)) xs)"
  by (induction "'','' :: string" xs rule: join_with.induct) auto

lemma length_dumps_obj: "length (dumps (JObj kvs)) \<le> 2 + sum_list (map (\<lambda>kv. 4 + 6 * length (fst kv) + length (dumps (snd kv))) kvs)"
proof -
  have "Suc (length (member_text kv)) \<le> 4 + 6 * length (fst kv) + length (dumps (snd kv))" for kv
    using length_json_string [of "fst kv"] by (simp add: member_text_def json_member_def)
  then have "sum_list (map (\<lambda>x. Suc (length x)) (map member_text (sort_key fst kvs))) \<le>
      sum_list (map (\<lambda>kv. 4 + 6 * length (fst kv) + length (dumps (snd kv))) (sort_key fst kvs))"
    by (auto intro: sum_list_mono simp: comp_def)
  also have "\<dots> = sum_list (map (\<lambda>kv. 4 + 6 * length (fst kv) + length (dumps (snd kv))) kvs)"
    by (rule sum_map_mset) simp
  finally show ?thesis
    using length_join_with [of "map member_text (sort_key fst kvs)"] unfolding dumps_obj by simp
qed

definition plain_receipt :: "string \<Rightarrow> string \<Rightarrow> dict" where
  "plain_receipt bh rt =
     [(''contract'', JStr CONTRACT_ID), (''contract_version'', JInt CONTRACT_VERSION), (''tenant'', JStr ''operator''),
      (''at_seq'', JInt 1), (''block_height'', JInt 1), (''block_hash'', JStr bh),
      (''state_root'', JStr rt), (''record_count'', JInt 1), (''deleted_count'', JInt 0)]"

lemma plain_receipt_text:
  assumes "hex64 bh" "hex64 rt"
  shows "1 \<le> length (request_text (receipt_request ''op'' (plain_receipt bh rt))) \<and>
    length (request_text (receipt_request ''op'' (plain_receipt bh rt))) \<le> 65536"
proof -
  have l: "length bh = 64" "length rt = 64" using assms by (simp_all add: hex64_def)
  have "length (dumps (JObj (plain_receipt bh rt))) \<le> 6000"
    by (rule order.trans [OF length_dumps_obj])
      (use length_json_string [of bh] length_json_string [of rt] l in
        \<open>simp add: plain_receipt_def str_int_def dec_nat.simps json_string_def json_char_def CONTRACT_ID_def CONTRACT_VERSION_def\<close>)
  then have "length (dumps (envelope CES_REPLAY_RECEIPT (plain_receipt bh rt) None)) \<le> 65536"
    unfolding envelope_def option.case append_Nil2
    by (intro order.trans [OF length_dumps_obj]) (simp add: json_string_def json_char_def CES_REPLAY_RECEIPT_def del: dumps.simps(8))
  then show ?thesis using request_text_nonempty [of "receipt_request ''op'' (plain_receipt bh rt)"]
    by (simp add: request_text_def receipt_request_def Suc_le_eq del: dumps.simps(8))
qed

lemma sample_sealed:
  obtains b where "reachable jtext ((sample_db jtext)\<lparr>blocks := [b]\<rparr>)" "bf_tenant (b_fields b) = ''operator''" "b_height b = 1"
    "bf_first_seq (b_fields b) = 1" "bf_last_seq (b_fields b) = 1" "hex64 (b_hash b)"
proof -
  have inv: "ledger_inv jtext (sample_db jtext)" by (rule reachable_ledger_inv [OF sample_reachable])
  have tip: "tip_of (sample_db jtext) ''operator'' = (0, 0, zeros64)" by (simp add: tip_of_def tip_block_def tenant_blocks_def sample_entries)
  obtain b r where seal: "jarvis_seal_block sample_session ''read committed'' ''operator'' sample_seal (sample_db jtext) =
        Inr (r, (sample_db jtext)\<lparr>blocks := blocks (sample_db jtext) @ [b]\<rparr>)"
    and nb: "next_block (sample_db jtext) ''operator'' 1 (sa_max_entries sample_seal) b"
    using seal_success [OF inv _ _ _ _ _ _ _ sample_entries(2) tip, of sample_session sample_seal]
    by (auto simp: sample_session_def sample_seal_def char_length_def)
  have "reachable jtext ((sample_db jtext)\<lparr>blocks := [b]\<rparr>)"
    using reach_step [OF sample_reachable step_seal [OF seal]] by (simp add: sample_entries)
  moreover from nb have "b_hash b = stored_block_hash b" by (simp add: next_block_def tip)
  then have "hex64 (b_hash b)" by (simp add: stored_block_hash_text hex64_sha256_hex)
  ultimately show thesis using nb that by (simp add: next_block_def tip sample_seal_def b_last_def)
qed

lemma sample_state:
  assumes b: "bf_tenant (b_fields b) = ''operator''" "b_height b = 1" "bf_first_seq (b_fields b) = 1" "bf_last_seq (b_fields b) = 1"
  obtains s where "replay_state ((sample_db jtext)\<lparr>blocks := [b]\<rparr>) ''operator'' None (Some 1) None 1 = Inr s"
    "rs_at_seq s = 1" "rs_block s = Some b" "rs_count s = 1" "rs_deleted s = 0" "hex64 (rs_root s)"
proof -
  let ?d = "(sample_db jtext)\<lparr>blocks := [b]\<rparr>"
  have tb: "tenant_blocks ?d ''operator'' = [b]" using b(1) by (simp add: tenant_blocks_def)
  have te: "tenant_entries ?d ''operator'' = tenant_entries (sample_db jtext) ''operator''" by (simp add: tenant_entries_def)
  have res: "resolve_at_seq ?d ''operator'' None (Some 1) = Inr 1"
    using b by (simp add: resolve_at_seq_def get_block_def tb b_last_def)
  have cb: "covering_block ?d ''operator'' 1 = Some b" using b by (simp add: covering_block_def)
  have hs: "distinct_heads ?d ''operator'' 1 = tenant_entries (sample_db jtext) ''operator''"
    by (simp add: distinct_heads_def te sample_entries Let_def)
  have hh: "match_hex64 (jarvis_history_hash jtext zeros64 ''create'' 1 None (Some sample_row))"
    by (simp add: jarvis_history_hash_def hex64_sha256_hex)
  then obtain rt where rt: "state_root [(''mem_1'', jarvis_history_hash jtext zeros64 ''create'' 1 None (Some sample_row))] = Inr rt"
      "hex64 rt"
    by (simp add: state_root_def state_leaf_def merkle_tree_hash_def mth.simps sha256_hex_def [symmetric] hex64_sha256_hex)
  then show thesis
    using that res cb hs by (simp add: replay_state_def sample_entries Let_def split_def)
qed

lemma plain_receipt_valid:
  assumes "hex64 bh" "hex64 rt"
  shows "build_object lib (receipt_request ''op'' (plain_receipt bh rt)) =
    Inr (request_id (receipt_request ''op'' (plain_receipt bh rt)), request_text (receipt_request ''op'' (plain_receipt bh rt)))"
proof -
  have "storable (plain_receipt bh rt)" by (simp add: storable_def plain_receipt_def MAX_DEPTH_def MAX_NODES_def)
  then have "request_storable (receipt_request ''op'' (plain_receipt bh rt))"
    by (simp add: request_storable_def receipt_request_def KNOWN_SCHEMAS_def pointer_storable_def)
  moreover have "text_field (plain_receipt bh rt) ''contract'' 64 True = []" "text_field (plain_receipt bh rt) ''tenant'' 128 True = []"
    by (simp_all add: text_field_def obj_get_def plain_receipt_def strip_ends graphic_def char_length_def CONTRACT_ID_def)
  then have "request_valid lib (receipt_request ''op'' (plain_receipt bh rt))"
    using assms
    by (simp add: request_valid_def receipt_request_def validate_payload_def pointer_list_def receipt_ints_def receipt_fields_def
        int_field_def hex_field_def extra_fields_def CES_REPLAY_RECEIPT_def CES_DECISION_def CES_FACT_def)
      (simp add: plain_receipt_def obj_get_def CONTRACT_VERSION_def)
  ultimately show ?thesis
    using plain_receipt_text [OF assms] by (simp add: build_object_Inr INLINE_LIMIT_BYTES_def receipt_request_def)
qed

lemma hex64_no_nul: "hex64 h \<Longrightarrow> \<not> nul h"
  by (auto simp: hex64_def nul_def list_all_iff is_hex_def Let_def)

lemma plain_receipt_put:
  assumes "hex64 bh" "hex64 rt"
  shows "\<exists>obj tab. put_evidence_object lib ''operator'' 0 (receipt_request ''op'' (plain_receipt bh rt)) [] = Inr ((obj, True), tab)"
proof -
  let ?q = "receipt_request ''op'' (plain_receipt bh rt)"
  let ?n = "new_object ?q (request_id ?q) (request_text ?q) 0"
  have j: "eo_schema ?n = CES_REPLAY_RECEIPT" "eo_by ?n = ''op''" "eo_payload ?n = plain_receipt bh rt" "eo_pointer ?n = None"
    "eo_size ?n = int (length (request_text ?q))" "eo_id ?n = ID_PREFIX @ sha256_hex (request_text ?q)"
    by (simp_all add: new_object_def receipt_request_def request_id_def)
  have c: "evidence_checks ?n"
    using plain_receipt_text [OF assms] unfolding evidence_checks_def j
    by (simp add: starts_with_def char_length_def CES_REPLAY_RECEIPT_def)
  have "insert_evidence ''operator'' ?n [] = Inr (True, [(''operator'', stored_form ?n)])"
    unfolding insert_evidence_Inr using c hex64_no_nul [OF assms(1)] hex64_no_nul [OF assms(2)]
    by (simp add: j find_evidence_def) (simp add: nul_def CES_REPLAY_RECEIPT_def plain_receipt_def CONTRACT_ID_def)
  then have "put_evidence_object lib ''operator'' 0 ?q [] = Inr ((stored_form ?n, True), [(''operator'', stored_form ?n)])"
    by (simp add: put_evidence_object_def plain_receipt_valid [OF assms] tx_def find_evidence_def) (simp add: stored_form_def new_object_def)
  then show ?thesis by simp
qed

theorem receipt_reverifies_witness:
  "\<exists>db obj s db1 sg. create_replay_receipt plain_lib ''operator'' 0 None None ''op'' db = Inr ((obj, True, s), db1) \<and>
     verify_replay_receipt plain_lib sg ''operator'' (eo_id obj) db1 = Inr [] \<and>
     verify_receipt plain_lib plain_json sg ''operator'' (eo_id obj) db1 = Inr []"
proof -
  obtain b where r: "reachable plain_json ((sample_db plain_json)\<lparr>blocks := [b]\<rparr>)"
    and b: "bf_tenant (b_fields b) = ''operator''" "b_height b = 1" "bf_first_seq (b_fields b) = 1" "bf_last_seq (b_fields b) = 1"
    and h: "hex64 (b_hash b)" by (rule sample_sealed)
  define db where "db = \<lparr>st_ledger = (sample_db plain_json)\<lparr>blocks := [b]\<rparr>, st_evidence = []\<rparr>"
  obtain s where s: "replay_state (st_ledger db) ''operator'' None (Some 1) None 1 = Inr s"
    "rs_at_seq s = 1" "rs_block s = Some b" "rs_count s = 1" "rs_deleted s = 0" "hex64 (rs_root s)"
    using sample_state [OF b] by (auto simp: db_def)
  have tip: "bh_tip (block_head (st_ledger db) ''operator'') = Some b"
    using b by (simp add: block_head_def tip_block_def tenant_blocks_def db_def Let_def)
  have pay: "receipt_payload ''operator'' s = Inr (plain_receipt (b_hash b) (rs_root s))"
    using s b h by (simp add: receipt_payload_def payload_ok_def plain_receipt_def)
  obtain obj tab where put: "put_evidence_object plain_lib ''operator'' 0 (receipt_request ''op'' (plain_receipt (b_hash b) (rs_root s))) [] =
      Inr ((obj, True), tab)"
    using plain_receipt_put [OF h s(6)] by blast
  have ev: "st_evidence db = []" "reachable plain_json (st_ledger db)" using r by (simp_all add: db_def)
  have c: "create_replay_receipt plain_lib ''operator'' 0 None None ''op'' db = Inr ((obj, True, s), db\<lparr>st_evidence := tab\<rparr>)"
    using put by (simp add: create_replay_receipt_def tip b s(1) pay ev receipt_request_def)
  obtain sg :: signing where sg: "sg_mode sg = Mode_off" by (rule that [of "undefined\<lparr>sg_mode := Mode_off\<rparr>"]) simp
  have "later plain_json (st_ledger (db\<lparr>st_evidence := tab\<rparr>)) (st_ledger (db\<lparr>st_evidence := tab\<rparr>))" by (rule later_refl)
  from receipt_reverifies [OF ev(2) c this, of "[]" sg] sg
  have "verify_replay_receipt plain_lib sg ''operator'' (eo_id obj) (db\<lparr>st_evidence := tab\<rparr>) = Inr []"
    "verify_receipt plain_lib plain_json sg ''operator'' (eo_id obj) (db\<lparr>st_evidence := tab\<rparr>) = Inr []"
    by (auto simp: Let_def)
  with c show ?thesis by blast
qed

end
