(* ===== verification/Json_Parse.thy ===== *)
theory Json_Parse
  imports Evidence_Json
begin

text \<open>
  \<open>json.loads\<close> of the Python library, on UTF-8 bytes: white space, duplicate member names (the last value
  wins, at the first position), strict control characters, escapes with surrogate pairs, the literals
  \<open>NaN\<close> and \<open>Infinity\<close>. The value of a number with a fraction or an exponent is the parameter \<open>fl\<close> of
  its text. The parser takes fuel, twice the length of the text; the theorem is that it reads back what
  \<open>dumps\<close> writes, with the members sorted.
\<close>

section \<open>Strings\<close>

definition hex_digit_value :: "char \<Rightarrow> nat option" where
  "hex_digit_value c = (let k = (of_char c :: nat) in
     if 48 \<le> k \<and> k \<le> 57 then Some (k - 48) else if 97 \<le> k \<and> k \<le> 102 then Some (k - 87)
     else if 65 \<le> k \<and> k \<le> 70 then Some (k - 55) else None)"

definition hex4 :: "string \<Rightarrow> nat option" where
  "hex4 s = (case s of a # b # c # d # _ \<Rightarrow>
     (case (hex_digit_value a, hex_digit_value b, hex_digit_value c, hex_digit_value d) of
        (Some w, Some x, Some y, Some z) \<Rightarrow> Some (4096 * w + 256 * x + 16 * y + z)
      | _ \<Rightarrow> None)
   | _ \<Rightarrow> None)"

text \<open>The bytes of a code point (a lone surrogate keeps its three bytes).\<close>

definition utf8 :: "nat \<Rightarrow> bytes" where
  "utf8 k =
     (if k < 128 then [char_of k]
      else if k < 2048 then [char_of (192 + k div 64), char_of (128 + k mod 64)]
      else if k < 65536 then [char_of (224 + k div 4096), char_of (128 + k div 64 mod 64), char_of (128 + k mod 64)]
      else [char_of (240 + k div 262144), char_of (128 + k div 4096 mod 64), char_of (128 + k div 64 mod 64), char_of (128 + k mod 64)])"

text \<open>What follows \<^verbatim>\<open>\u\<close>: the bytes and how many characters they took.\<close>

definition unicode_escape :: "string \<Rightarrow> (bytes \<times> nat) option" where
  "unicode_escape s =
     (case hex4 s of
        None \<Rightarrow> None
      | Some k \<Rightarrow>
          if 0xD800 \<le> k \<and> k \<le> 0xDBFF \<and> take 2 (drop 4 s) = [CHR 0x5C, CHR ''u''] then
            (case hex4 (drop 6 s) of
               Some l \<Rightarrow> if 0xDC00 \<le> l \<and> l \<le> 0xDFFF then Some (utf8 (0x10000 + (k - 0xD800) * 1024 + (l - 0xDC00)), 10)
                         else Some (utf8 k, 4)
             | None \<Rightarrow> Some (utf8 k, 4))
          else Some (utf8 k, 4))"

definition simple_escape :: "char \<Rightarrow> char option" where
  "simple_escape c =
     map_of [(CHR 0x22, CHR 0x22), (CHR 0x5C, CHR 0x5C), (CHR ''/'', CHR ''/''), (CHR ''b'', CHR 0x08), (CHR ''f'', CHR 0x0C),
             (CHR ''n'', CHR 0x0A), (CHR ''r'', CHR 0x0D), (CHR ''t'', CHR 0x09)] c"

function p_string :: "string \<Rightarrow> (string \<times> string) option" where
  "p_string s =
     (case s of
        [] \<Rightarrow> None
      | c # r \<Rightarrow>
          if c = CHR 0x22 then Some ([], r)
          else if c = CHR 0x5C then
            (case r of
               [] \<Rightarrow> None
             | e # r' \<Rightarrow>
                 if e = CHR ''u'' then
                   (case unicode_escape r' of
                      None \<Rightarrow> None
                    | Some (bs, k) \<Rightarrow> map_option (map_prod (\<lambda>x. bs @ x) (\<lambda>x. x)) (p_string (drop k r')))
                 else (case simple_escape e of
                         None \<Rightarrow> None
                       | Some d \<Rightarrow> map_option (map_prod (\<lambda>x. d # x) (\<lambda>x. x)) (p_string r')))
          else if (of_char c :: nat) < 32 then None
          else map_option (map_prod (\<lambda>x. c # x) (\<lambda>x. x)) (p_string r))"
  by pat_completeness auto
termination by (relation "measure length") auto

declare p_string.simps [simp del]

section \<open>Numbers and values\<close>

definition exponent_part :: "string \<Rightarrow> string" where
  "exponent_part s =
     (case s of
        [] \<Rightarrow> []
      | e # r \<Rightarrow>
          if e = CHR ''e'' \<or> e = CHR ''E'' then
            (let sg = (if r \<noteq> [] \<and> (hd r = CHR ''+'' \<or> hd r = CHR ''-'') then [hd r] else []);
                 ds = takeWhile is_digit (drop (length sg) r)
             in if ds = [] then [] else e # sg @ ds)
          else [])"

definition fraction_part :: "string \<Rightarrow> string" where
  "fraction_part s =
     (case s of
        [] \<Rightarrow> []
      | c # r \<Rightarrow> if c = CHR ''.'' \<and> takeWhile is_digit r \<noteq> [] then c # takeWhile is_digit r else [])"

definition p_number :: "(string \<Rightarrow> json) \<Rightarrow> string \<Rightarrow> (json \<times> string) option" where
  "p_number fl s =
     (let sg = (if s \<noteq> [] \<and> hd s = CHR ''-'' then ''-'' else []);
          r0 = drop (length sg) s;
          ds = takeWhile is_digit r0;
          whole = (if ds \<noteq> [] \<and> hd ds = CHR ''0'' then ''0'' else ds);
          r1 = drop (length whole) r0;
          fr = fraction_part r1;
          ex = exponent_part (drop (length fr) r1)
      in if ds = [] then None
         else if fr = [] \<and> ex = [] then Some (JInt (if sg = [] then int (dec_value whole) else - int (dec_value whole)), r1)
         else Some (fl (sg @ whole @ fr @ ex), drop (length fr + length ex) r1))"

definition is_ws :: "char \<Rightarrow> bool" where
  "is_ws c \<longleftrightarrow> c \<in> {CHR '' '', CHR 0x09, CHR 0x0A, CHR 0x0D}"

definition skip_ws :: "string \<Rightarrow> string" where
  "skip_ws s = dropWhile is_ws s"

definition p_literal :: "string \<Rightarrow> (json \<times> string) option" where
  "p_literal s =
     (if take 4 s = ''null'' then Some (JNull, drop 4 s)
      else if take 4 s = ''true'' then Some (JBool True, drop 4 s)
      else if take 5 s = ''false'' then Some (JBool False, drop 5 s)
      else if take 3 s = ''NaN'' then Some (JNan ''NaN'', drop 3 s)
      else if take 8 s = ''Infinity'' then Some (JNan ''Infinity'', drop 8 s)
      else if take 9 s = ''-Infinity'' then Some (JNan ''-Infinity'', drop 9 s)
      else None)"

definition dict_of :: "(string \<times> json) list \<Rightarrow> dict" where
  "dict_of ms = foldl (\<lambda>d kv. AList.update (fst kv) (snd kv) d) [] ms"

fun p_value :: "(string \<Rightarrow> json) \<Rightarrow> nat \<Rightarrow> string \<Rightarrow> (json \<times> string) option"
  and p_items :: "(string \<Rightarrow> json) \<Rightarrow> nat \<Rightarrow> string \<Rightarrow> (json list \<times> string) option"
  and p_members :: "(string \<Rightarrow> json) \<Rightarrow> nat \<Rightarrow> string \<Rightarrow> ((string \<times> json) list \<times> string) option" where
  "p_value fl 0 s = None"
| "p_value fl (Suc n) s =
     (case s of
        [] \<Rightarrow> None
      | c # r \<Rightarrow>
          if c = CHR 0x22 then map_option (map_prod JStr (\<lambda>x. x)) (p_string r)
          else if c = CHR ''{'' then
            (let r' = skip_ws r
             in if r' \<noteq> [] \<and> hd r' = CHR ''}'' then Some (JObj [], tl r')
                else map_option (map_prod (\<lambda>ms. JObj (dict_of ms)) (\<lambda>x. x)) (p_members fl n r'))
          else if c = CHR ''['' then
            (let r' = skip_ws r
             in if r' \<noteq> [] \<and> hd r' = CHR '']'' then Some (JList [], tl r')
                else map_option (map_prod JList (\<lambda>x. x)) (p_items fl n r'))
          else case p_literal s of Some v \<Rightarrow> Some v | None \<Rightarrow> p_number fl s)"
| "p_items fl 0 s = None"
| "p_items fl (Suc n) s =
     (case p_value fl n s of
        None \<Rightarrow> None
      | Some (v, r) \<Rightarrow>
          (case skip_ws r of
             [] \<Rightarrow> None
           | c # r' \<Rightarrow>
               if c = CHR '']'' then Some ([v], r')
               else if c = CHR '','' then map_option (map_prod (\<lambda>vs. v # vs) (\<lambda>x. x)) (p_items fl n (skip_ws r'))
               else None))"
| "p_members fl 0 s = None"
| "p_members fl (Suc n) s =
     (case s of
        [] \<Rightarrow> None
      | q # r0 \<Rightarrow>
          if q \<noteq> CHR 0x22 then None
          else (case p_string r0 of
             None \<Rightarrow> None
           | Some (k, r1) \<Rightarrow>
               (case skip_ws r1 of
                  [] \<Rightarrow> None
                | col # r2 \<Rightarrow>
                    if col \<noteq> CHR '':'' then None
                    else (case p_value fl n (skip_ws r2) of
                       None \<Rightarrow> None
                     | Some (v, r) \<Rightarrow>
                         (case skip_ws r of
                            [] \<Rightarrow> None
                          | c # r' \<Rightarrow>
                              if c = CHR ''}'' then Some ([(k, v)], r')
                              else if c = CHR '','' then map_option (map_prod (\<lambda>ms. (k, v) # ms) (\<lambda>x. x)) (p_members fl n (skip_ws r'))
                              else None)))))"

definition loads :: "(string \<Rightarrow> json) \<Rightarrow> string \<Rightarrow> json option" where
  "loads fl s =
     (case p_value fl (2 * length s + 2) (skip_ws s) of
        None \<Rightarrow> None
      | Some (v, r) \<Rightarrow> if skip_ws r = [] then Some v else None)"

section \<open>Reading back what was written\<close>

lemma hex_digit_value: "n < 16 \<Longrightarrow> hex_digit_value (hex_digit n) = Some n"
  by (auto simp: hex_digit_value_def hex_digit_def Let_def)

lemma unicode_escape_control:
  assumes "(of_char c :: nat) < 32"
  shows "unicode_escape (CHR ''0'' # CHR ''0'' # hex_byte c @ u) = Some ([c], 4)"
proof -
  have "hex_digit_value (CHR ''0'') = Some 0" by (simp add: hex_digit_value_def)
  moreover have "hex_digit_value (hex_digit (of_char c div 16)) = Some (of_char c div 16)"
    "hex_digit_value (hex_digit (of_char c mod 16)) = Some (of_char c mod 16)"
    using assms by (simp_all add: hex_digit_value)
  ultimately have "hex4 (CHR ''0'' # CHR ''0'' # hex_byte c @ u) = Some (of_char c)"
    by (simp add: hex4_def hex_byte_def)
  then show ?thesis using assms by (simp add: unicode_escape_def utf8_def)
qed

lemma append_one: "(@) [c] = (#) c"
  by (rule ext) simp

lemma drop_four: "drop 4 (a # b # c # d # u) = u"
  by (simp add: numeral_eq_Suc)

lemma p_string_json_char: "p_string (json_char c @ u) = map_option (map_prod (\<lambda>x. c # x) (\<lambda>x. x)) (p_string u)"
proof -
  consider "c \<in> {CHR 0x22, CHR 0x5C, CHR 0x0A, CHR 0x0D, CHR 0x09, CHR 0x0C, CHR 0x08}"
    | "c \<notin> {CHR 0x22, CHR 0x5C, CHR 0x0A, CHR 0x0D, CHR 0x09, CHR 0x0C, CHR 0x08}" "(of_char c :: nat) < 32"
    | "c \<notin> {CHR 0x22, CHR 0x5C, CHR 0x0A, CHR 0x0D, CHR 0x09, CHR 0x0C, CHR 0x08}" "\<not> (of_char c :: nat) < 32"
    by blast
  then show ?thesis
  proof cases
    case 1
    then obtain d where d: "json_char c = [CHR 0x5C, d]" "d \<noteq> CHR ''u''" "simple_escape d = Some c"
      by (elim insertE) (auto simp: json_char_def simple_escape_def)
    show ?thesis unfolding d(1) by (subst p_string.simps) (simp add: d)
  next
    case 2
    then have j: "json_char c @ u = CHR 0x5C # CHR ''u'' # CHR ''0'' # CHR ''0'' # hex_byte c @ u"
      by (simp add: json_char_def)
    have "drop 4 (CHR ''0'' # CHR ''0'' # hex_byte c @ u) = u" by (simp only: hex_byte_def append_Cons append_Nil drop_four)
    then show ?thesis
      unfolding j by (subst p_string.simps) (simp add: unicode_escape_control [OF 2(2)] append_one)
  next
    case 3
    then have "json_char c = [c]" "c \<noteq> CHR 0x22" "c \<noteq> CHR 0x5C" by (simp_all add: json_char_def)
    then show ?thesis using 3(2) by (subst p_string.simps) simp
  qed
qed

lemma p_string_text: "p_string (concat (map json_char s) @ CHR 0x22 # r) = Some (s, r)"
proof (induction s)
  case Nil
  then show ?case by (simp add: p_string.simps)
next
  case (Cons c s)
  then show ?case by (simp add: p_string_json_char)
qed

lemma takeWhile_digits: "ends r \<Longrightarrow> takeWhile is_digit (dec_nat k @ r) = dec_nat k"
proof -
  assume r: "ends r"
  have "takeWhile is_digit r = []" using r by (cases r) (auto simp: ends_def is_digit_def)
  moreover have "takeWhile is_digit (dec_nat k @ r) = dec_nat k @ takeWhile is_digit r"
    by (rule takeWhile_append2) (rule dec_nat_digits)
  ultimately show ?thesis by simp
qed

lemma dec_nat_leading: "hd (dec_nat k) = CHR ''0'' \<Longrightarrow> k = 0"
proof (induction k rule: dec_nat.induct)
  case (1 k)
  show ?case
  proof (cases "k < 10")
    case True
    then have "digit_char k = CHR ''0''" using "1.prems" by (simp add: dec_nat.simps [of k])
    then have "(of_char (digit_char k) :: nat) = 48" by simp
    with True show ?thesis by (simp add: of_char_digit)
  next
    case False
    then have "hd (dec_nat (k div 10)) = CHR ''0''" using "1.prems" by (simp add: dec_nat.simps [of k])
    with "1.IH" [OF False] False show ?thesis by simp
  qed
qed

lemma ends_parts: "ends r \<Longrightarrow> fraction_part r = [] \<and> exponent_part r = []"
  by (cases r) (auto simp: ends_def fraction_part_def exponent_part_def)

lemma p_number_text: "ends r \<Longrightarrow> p_number fl (str_int i @ r) = Some (JInt i, r)"
proof -
  assume r: "ends r"
  have m: "hd (dec_nat k) \<noteq> CHR ''-''" for k
    using dec_nat_digits [OF hd_in_set [OF dec_nat_nonempty], of k] by (auto simp: is_digit_def)
  have whole: "(if dec_nat k \<noteq> [] \<and> hd (dec_nat k) = CHR ''0'' then ''0'' else dec_nat k) = dec_nat k" for k
  proof (cases "hd (dec_nat k) = CHR ''0''")
    case True
    then have "k = 0" by (rule dec_nat_leading)
    moreover have "char_of (48 :: nat) = CHR ''0''" by code_simp
    ultimately have "dec_nat k = ''0''" by (simp add: dec_nat.simps digit_char_def)
    then show ?thesis by simp
  qed simp
  have num: "p_number fl (sg @ dec_nat k @ r) = Some (JInt (if sg = [] then int k else - int k), r)"
    if sg: "(if sg @ dec_nat k @ r \<noteq> [] \<and> hd (sg @ dec_nat k @ r) = CHR ''-'' then ''-'' else []) = sg" for sg k
  proof -
    have d: "drop (length xs) (xs @ ys) = ys" for xs ys :: string by simp
    show ?thesis
      unfolding p_number_def Let_def sg d takeWhile_digits [OF r] whole ends_parts [OF r, THEN conjunct1]
        list.size(3) drop_0 ends_parts [OF r, THEN conjunct2]
      by simp
  qed
  show ?thesis using num [of "[]" "nat i"] num [of "''-''" "nat (- i)"] by (cases "i < 0") (simp_all add: str_int_def m)
qed

lemma dumps_start: "float_free v \<Longrightarrow> dumps v \<noteq> [] \<and> \<not> is_ws (hd (dumps v)) \<and> hd (dumps v) \<notin> {CHR '']'', CHR ''}''}"
proof -
  assume v: "float_free v"
  have "is_ws c \<Longrightarrow> char_tag c = 3" for c by (auto simp: is_ws_def char_tag_def)
  moreover have "is_ws (hd (str_int i)) = False" for i
    using str_int_chars [OF hd_in_set [OF str_int_nonempty], of i] by (auto simp: is_ws_def is_digit_def)
  moreover have "tag v = 3 \<Longrightarrow> \<exists>i. v = JInt i"
  proof (cases v)
    case (JBool b)
    then show "tag v = 3 \<Longrightarrow> ?thesis" by (cases b) auto
  qed (use v in auto)
  ultimately show ?thesis using dumps_tag [OF v] by fastforce
qed

lemma skip_ws_start: "x \<noteq> [] \<Longrightarrow> \<not> is_ws (hd x) \<Longrightarrow> skip_ws (x @ r) = x @ r"
  by (cases x) (simp_all add: skip_ws_def)

lemma skip_ws_ends: "ends r \<Longrightarrow> skip_ws r = r"
  by (cases r) (auto simp: skip_ws_def ends_def is_ws_def)

lemma p_literal_int: "p_literal (str_int i @ r) = None"
proof -
  obtain c s where cs: "str_int i = c # s" by (cases "str_int i") auto
  have c: "is_digit c \<or> c = CHR ''-''" using str_int_chars [of c i] cs by simp
  have a: "c = CHR ''-'' \<Longrightarrow> \<exists>d s'. s = d # s' \<and> is_digit d"
  proof -
    assume "c = CHR ''-''"
    then have "s = dec_nat (nat (- i))"
      using cs dec_nat_digits [OF hd_in_set [OF dec_nat_nonempty], of "nat i"] minus_not_digit
      by (auto simp: str_int_def split: if_splits)
    then have "s \<noteq> []" "is_digit (hd s)" using dec_nat_digits [OF hd_in_set [OF dec_nat_nonempty], of "nat (- i)"] by simp_all
    then show ?thesis by (cases s) auto
  qed
  have d: "take 9 (c # s @ r) \<noteq> ''-Infinity''"
  proof
    assume t: "take 9 (c # s @ r) = ''-Infinity''"
    from t have "c = CHR ''-''" by (cases s; cases r) (simp_all add: take_Cons')
    with a obtain d s' where s: "s = d # s'" "is_digit d" by blast
    have "take 9 (c # d # s' @ r) = c # d # take 7 (s' @ r)" by (simp add: numeral_eq_Suc)
    with t s show False by (simp add: is_digit_def)
  qed
  have h: "take n (c # s @ r) \<noteq> y" if "y \<noteq> []" "hd y \<noteq> c" for n y using that by (cases n) auto
  have e: "CHR ''n'' \<noteq> c" "CHR ''t'' \<noteq> c" "CHR ''f'' \<noteq> c" "CHR ''N'' \<noteq> c" "CHR ''I'' \<noteq> c"
    using c by (auto simp: is_digit_def)
  have "take 4 (c # s @ r) \<noteq> ''null''" "take 4 (c # s @ r) \<noteq> ''true''" "take 5 (c # s @ r) \<noteq> ''false''"
    "take 3 (c # s @ r) \<noteq> ''NaN''" "take 8 (c # s @ r) \<noteq> ''Infinity''"
    using e by (auto intro!: h)
  then show ?thesis using d unfolding cs append_Cons p_literal_def by simp
qed

lemma dict_of_distinct: "distinct (map fst ms) \<Longrightarrow> dict_of ms = ms"
proof -
  have "distinct (map fst (d @ ms)) \<Longrightarrow> foldl (\<lambda>d kv. AList.update (fst kv) (snd kv) d) d ms = d @ ms" for d
  proof (induction ms arbitrary: d)
    case (Cons kv ms)
    have "AList.update (fst kv) (snd kv) d = d @ [kv]" if "fst kv \<notin> fst ` set d" for d :: dict
      using that by (induction d) auto
    then show ?case using Cons by simp
  qed simp
  from this [of "[]"] show "distinct (map fst ms) \<Longrightarrow> ?thesis" by (simp add: dict_of_def)
qed

lemma p_items_text:
  assumes "\<And>v m r. v \<in> set vs \<Longrightarrow> ends r \<Longrightarrow> length (dumps v) \<le> m \<Longrightarrow> p_value fl m (dumps v @ r) = Some (jnorm v, r)"
    and "\<forall>v \<in> set vs. float_free v" and "vs \<noteq> []" and "length (join_with '','' (map dumps vs)) < m"
  shows "p_items fl m (join_with '','' (map dumps vs) @ CHR '']'' # r) = Some (map jnorm vs, r)"
  using assms
proof (induction vs arbitrary: m)
  case (Cons v vs)
  then obtain n where m: "m = Suc n" by (cases m) auto
  show ?case
  proof (cases vs)
    case Nil
    have "p_value fl n (dumps v @ CHR '']'' # r) = Some (jnorm v, CHR '']'' # r)"
      using Cons.prems(4) by (intro Cons.prems(1)) (simp_all add: Nil m)
    then show ?thesis by (simp add: Nil m skip_ws_ends)
  next
    case (Cons w ws)
    let ?rest = "join_with '','' (map dumps vs) @ CHR '']'' # r"
    have j: "join_with '','' (map dumps (v # vs)) @ CHR '']'' # r = dumps v @ CHR '','' # ?rest" by (simp add: local.Cons)
    have "length (dumps v) + 1 + length (join_with '','' (map dumps vs)) < m" using Cons.prems(4) by (simp add: local.Cons)
    then have n: "length (dumps v) \<le> n" "length (join_with '','' (map dumps vs)) < n" using m by linarith+
    have "p_value fl n (dumps v @ CHR '','' # ?rest) = Some (jnorm v, CHR '','' # ?rest)"
      using n by (intro Cons.prems(1)) simp_all
    moreover have "skip_ws ?rest = ?rest"
      using dumps_start [of w] Cons.prems(2) by (cases ws) (simp_all add: local.Cons skip_ws_start)
    moreover have "p_items fl n ?rest = Some (map jnorm vs, r)"
      using Cons.prems n local.Cons by (intro Cons.IH) auto
    ultimately show ?thesis unfolding j m by (simp add: skip_ws_ends)
  qed
qed simp

lemma member_text_alt: "member_text kv @ x = CHR 0x22 # concat (map json_char (fst kv)) @ CHR 0x22 # CHR '':'' # dumps (snd kv) @ x"
  by (simp add: member_text_def json_member_def json_string_def)

lemma p_members_text:
  assumes "\<And>kv m r. kv \<in> set ms \<Longrightarrow> ends r \<Longrightarrow> length (dumps (snd kv)) \<le> m \<Longrightarrow>
      p_value fl m (dumps (snd kv) @ r) = Some (jnorm (snd kv), r)"
    and "\<forall>kv \<in> set ms. float_free (snd kv)" and "ms \<noteq> []" and "length (join_with '','' (map member_text ms)) < m"
  shows "p_members fl m (join_with '','' (map member_text ms) @ CHR ''}'' # r) = Some (map (map_prod (\<lambda>k. k) jnorm) ms, r)"
  using assms
proof (induction ms arbitrary: m)
  case (Cons kv ms)
  then obtain n where m: "m = Suc n" by (cases m) auto
  have len: "length (dumps (snd kv)) < length (member_text kv)" by (simp add: member_text_def json_member_def)
  have ws: "skip_ws (dumps (snd kv) @ x) = dumps (snd kv) @ x" for x
    using dumps_start [of "snd kv"] Cons.prems(2) by (simp add: skip_ws_start)
  have col: "skip_ws (CHR '':'' # x) = CHR '':'' # x" for x by (simp add: skip_ws_def is_ws_def)
  show ?case
  proof (cases ms)
    case Nil
    have "p_value fl n (dumps (snd kv) @ CHR ''}'' # r) = Some (jnorm (snd kv), CHR ''}'' # r)"
      using Cons.prems(4) len by (intro Cons.prems(1)) (simp_all add: Nil m)
    then show ?thesis by (simp add: Nil m member_text_alt p_string_text col ws skip_ws_ends map_prod_def split_def)
  next
    case (Cons kv2 ms2)
    let ?rest = "join_with '','' (map member_text ms) @ CHR ''}'' # r"
    have j: "join_with '','' (map member_text (kv # ms)) @ CHR ''}'' # r = member_text kv @ CHR '','' # ?rest" by (simp add: local.Cons)
    have "length (member_text kv) + 1 + length (join_with '','' (map member_text ms)) < m" using Cons.prems(4) by (simp add: local.Cons)
    then have n: "length (dumps (snd kv)) \<le> n" "length (join_with '','' (map member_text ms)) < n" using m len by linarith+
    have "p_value fl n (dumps (snd kv) @ CHR '','' # ?rest) = Some (jnorm (snd kv), CHR '','' # ?rest)"
      using n by (intro Cons.prems(1)) simp_all
    moreover have "skip_ws ?rest = ?rest"
      by (cases ms2) (simp_all add: local.Cons member_text_alt, simp_all add: skip_ws_def is_ws_def)
    moreover have "p_members fl n ?rest = Some (map (map_prod (\<lambda>k. k) jnorm) ms, r)"
      using Cons.prems n local.Cons by (intro Cons.IH) auto
    ultimately show ?thesis unfolding j m member_text_alt by (simp add: p_string_text col ws skip_ws_ends map_prod_def split_def)
  qed
qed simp

lemma p_value_text:
  "float_free v \<Longrightarrow> keyed v \<Longrightarrow> ends r \<Longrightarrow> length (dumps v) \<le> m \<Longrightarrow> p_value fl m (dumps v @ r) = Some (jnorm v, r)"
proof (induction v arbitrary: r m)
  case JNull
  then show ?case by (cases m) (simp_all add: p_literal_def numeral_eq_Suc)
next
  case (JBool b)
  then show ?case by (cases m; cases b) (simp_all add: p_literal_def numeral_eq_Suc)
next
  case (JInt i)
  then obtain n where m: "m = Suc n" by (cases m) auto
  obtain c s where cs: "str_int i = c # s" by (cases "str_int i") auto
  then have "is_digit c \<or> c = CHR ''-''" using str_int_chars [of c i] by simp
  then have "c \<noteq> CHR 0x22" "c \<noteq> CHR ''{''" "c \<noteq> CHR ''[''" by (auto simp: is_digit_def)
  then show ?case
    using p_literal_int [of i r] p_number_text [OF JInt.prems(3), of fl i] by (simp add: m cs)
next
  case (JStr s)
  then show ?case by (cases m) (simp_all add: json_string_def p_string_text)
next
  case (JList vs)
  then obtain n where m: "m = Suc n" by (cases m) auto
  show ?case
  proof (cases "vs = []")
    case True
    then show ?thesis by (simp add: m skip_ws_def is_ws_def)
  next
    case False
    let ?body = "join_with '','' (map dumps vs)"
    have k: "\<forall>v \<in> set vs. float_free v \<and> keyed v" using JList.prems by (auto simp: list_all_iff)
    obtain w ws where vs: "vs = w # ws" using False by (cases vs) auto
    have st: "dumps w \<noteq> []" "\<not> is_ws (hd (dumps w))" "hd (dumps w) \<noteq> CHR '']''"
      using dumps_start [of w] k vs by auto
    have "skip_ws (?body @ CHR '']'' # r) = ?body @ CHR '']'' # r" "?body \<noteq> []" "hd (?body @ CHR '']'' # r) \<noteq> CHR '']''"
      using st by (simp_all add: vs join_comma skip_ws_start)
    moreover have "p_items fl n (?body @ CHR '']'' # r) = Some (map jnorm vs, r)"
      using JList.prems(4) k by (intro p_items_text JList.IH False) (auto simp: m)
    ultimately show ?thesis by (simp add: m)
  qed
next
  case (JObj kvs)
  then obtain n where m: "m = Suc n" by (cases m) auto
  show ?case
  proof (cases "kvs = []")
    case True
    then show ?thesis by (simp add: m skip_ws_def is_ws_def)
  next
    case False
    let ?ms = "sort_key fst kvs"
    let ?r = "CHR ''}'' # r"
    let ?body = "join_with '','' (map member_text ?ms)"
    have k: "\<forall>kv \<in> set kvs. float_free (snd kv) \<and> keyed (snd kv)" "distinct (map fst kvs)"
      using JObj.prems by (auto simp: list_all_iff)
    have ne: "?ms \<noteq> []" using False by (metis length_0_conv length_sort)
    then obtain kv ks where ms: "?ms = kv # ks" by (cases ?ms) auto
    have text_eq: "dumps (JObj kvs) @ r = CHR ''{'' # ?body @ ?r" by (simp add: dumps_obj del: dumps.simps(8))
    have "?body @ ?r \<noteq> []" "hd (?body @ ?r) = CHR 0x22"
      by (simp_all add: ms join_comma member_text_alt)
    moreover from this have "skip_ws (?body @ ?r) = ?body @ ?r" by (cases "?body @ ?r") (simp_all add: skip_ws_def is_ws_def)
    moreover have "length ?body < n" using JObj.prems(4) by (simp add: dumps_obj m del: dumps.simps(8))
    then have "p_members fl n (?body @ ?r) = Some (map (map_prod (\<lambda>k. k) jnorm) ?ms, r)"
      using k(1) JObj.IH by (intro p_members_text ne) (auto simp: snds.simps)
    moreover have "dict_of (map (map_prod (\<lambda>k. k) jnorm) ?ms) = map (map_prod (\<lambda>k. k) jnorm) ?ms"
    proof (rule dict_of_distinct)
      have "mset (map fst ?ms) = mset (map fst kvs)" by simp
      then have "distinct (map fst ?ms)" using k(2) by (metis mset_eq_imp_distinct_iff)
      then show "distinct (map fst (map (map_prod (\<lambda>k. k) jnorm) ?ms))" by simp
    qed
    ultimately show ?thesis unfolding text_eq m by (simp add: sort_map_prod)
  qed
qed simp_all

text \<open>What \<open>dumps\<close> writes is read back, with the members of every object sorted by name.\<close>

theorem loads_dumps: "float_free v \<Longrightarrow> keyed v \<Longrightarrow> loads fl (dumps v) = Some (jnorm v)"
  using p_value_text [of v "[]" "2 * length (dumps v) + 2" fl] dumps_start [of v] skip_ws_start [of "dumps v" "[]"]
  by (simp add: loads_def skip_ws_def)

end
