(* ===== verification/Call_Log.thy ===== *)
theory Call_Log
  imports Json_Parse Clause_V
begin

text \<open>
  The server's tool-call log (\<^verbatim>\<open>app/call_log.py\<close>): daily JSONL files with one hash chain across them, the
  per-minute caps whose overflow is rolled into summary entries, the degraded latch, the gap entry that records what
  was not logged, retention with its anchor, the verifier and the queries.

  The state is the directory (the daily files as bytes, the anchor and the DEGRADED file as the values they were
  written from) and the memory of one process. Every operation runs in an environment: the clock (one reading per
  operation), the environment variables, what the file system does, and, for each append, how much of the entry is
  written. A result is an exception or a value, together with the state that is left. Text is UTF-8 bytes; the
  replacement of invalid bytes on reading is not modelled.
\<close>

section \<open>Time\<close>

record datetime =
  dt_year :: nat
  dt_month :: nat
  dt_day :: nat
  dt_hour :: nat
  dt_minute :: nat
  dt_second :: nat
  dt_micro :: nat

definition padded :: "nat \<Rightarrow> nat \<Rightarrow> string" where
  "padded k n = replicate (k - length (dec_nat n)) (CHR ''0'') @ dec_nat n"

definition day_text :: "nat \<Rightarrow> nat \<Rightarrow> nat \<Rightarrow> string" where
  "day_text y m d = padded 4 y @ padded 2 m @ padded 2 d"

definition today_text :: "datetime \<Rightarrow> string" where
  "today_text dt = day_text (dt_year dt) (dt_month dt) (dt_day dt)"

definition minute_text :: "datetime \<Rightarrow> string" where
  "minute_text dt = padded 4 (dt_year dt) @ ''-'' @ padded 2 (dt_month dt) @ ''-'' @ padded 2 (dt_day dt) @ ''T''
     @ padded 2 (dt_hour dt) @ '':'' @ padded 2 (dt_minute dt)"

definition ts_text :: "datetime \<Rightarrow> string" where
  "ts_text dt = minute_text dt @ '':'' @ padded 2 (dt_second dt) @ ''.'' @ padded 6 (dt_micro dt) @ ''Z''"

definition leap :: "nat \<Rightarrow> bool" where
  "leap y \<longleftrightarrow> y mod 4 = 0 \<and> (y mod 100 \<noteq> 0 \<or> y mod 400 = 0)"

definition month_days :: "nat \<Rightarrow> nat \<Rightarrow> nat" where
  "month_days y m = (if m = 2 then (if leap y then 29 else 28) else if m \<in> {4, 6, 9, 11} then 30 else 31)"

text \<open>\<open>date - timedelta(days=n)\<close>; before year 1 it is an \<open>OverflowError\<close>.\<close>

fun days_before :: "nat \<Rightarrow> nat \<Rightarrow> nat \<Rightarrow> nat \<Rightarrow> (nat \<times> nat \<times> nat) option" where
  "days_before 0 y m d = Some (y, m, d)"
| "days_before (Suc n) y m d =
     (if d > 1 then days_before n y m (d - 1)
      else if m > 1 then days_before n y (m - 1) (month_days y (m - 1))
      else if y > 1 then days_before n (y - 1) 12 31
      else None)"

section \<open>Configuration\<close>

type_synonym environ = "string \<Rightarrow> string option"

definition env_text :: "environ \<Rightarrow> string \<Rightarrow> string" where
  "env_text ev name = (case ev name of None \<Rightarrow> [] | Some s \<Rightarrow> s)"

text \<open>\<open>int(text)\<close> of a text: white space around, a sign, digits with single underscores between them.\<close>

definition parse_int :: "string \<Rightarrow> int option" where
  "parse_int s =
     (let t = strip s; sg = (if t \<noteq> [] \<and> (hd t = CHR ''-'' \<or> hd t = CHR ''+'') then [hd t] else []);
          parts = split_on (CHR ''_'') (drop (length sg) t)
      in if list_all all_digits parts then Some ((if sg = ''-'' then -1 else 1) * int (dec_value (concat parts))) else None)"

definition env_number :: "environ \<Rightarrow> string \<Rightarrow> int \<Rightarrow> int \<Rightarrow> int" where
  "env_number ev name dflt least =
     (let t = strip (env_text ev name)
      in if t = [] then max least dflt
         else case parse_int t of None \<Rightarrow> dflt | Some n \<Rightarrow> max least n)"

definition env_flag :: "string option \<Rightarrow> bool" where
  "env_flag value =
     (ascii_lower (strip (case value of None \<Rightarrow> [] | Some v \<Rightarrow> v)) \<in> {''1'', ''true'', ''yes'', ''on''})"

definition enabled :: "environ \<Rightarrow> bool" where
  "enabled ev =
     (if strip (env_text ev ''JARVIS_CALL_LOG_ENABLED'') \<noteq> [] then env_flag (ev ''JARVIS_CALL_LOG_ENABLED'')
      else ascii_lower (strip (env_text ev ''JARVIS_ENV'')) \<noteq> ''production'')"

definition retain_days :: "environ \<Rightarrow> int" where
  "retain_days ev = env_number ev ''JARVIS_CALL_LOG_RETAIN_DAYS'' 90 1"

definition denied_cap_per_minute :: "environ \<Rightarrow> int" where
  "denied_cap_per_minute ev = env_number ev ''JARVIS_CALL_LOG_DENIED_CAP_PER_MIN'' 60 1"

definition read_cap_per_minute :: "environ \<Rightarrow> int" where
  "read_cap_per_minute ev = env_number ev ''JARVIS_CALL_LOG_READ_CAP_PER_MIN'' 600 1"

definition reads_enabled :: "environ \<Rightarrow> bool" where
  "reads_enabled ev =
     (let raw = env_text ev ''JARVIS_CALL_LOG_READS''
      in ascii_lower (strip (if raw = [] then ''1'' else raw)) \<notin> {''0'', ''false'', ''no'', ''off''})"

definition multi_tenant_mode :: "environ \<Rightarrow> bool" where
  "multi_tenant_mode ev = env_flag (ev ''JARVIS_MULTI_TENANT'')"

definition UNAUTHENTICATED_LABEL :: string where
  "UNAUTHENTICATED_LABEL = ''_unauth''"

definition default_tenant_label :: "environ \<Rightarrow> string" where
  "default_tenant_label ev = (if multi_tenant_mode ev then UNAUTHENTICATED_LABEL else ''operator'')"

definition MIN_FREE_BYTES :: int where
  "MIN_FREE_BYTES = 1048576"

definition WRITE_TOOLS :: "string list" where
  "WRITE_TOOLS = [''emr_remember'', ''emr_upsert'']"

definition LEDGER_WRITE_ROUTES :: "(string \<times> string) list" where
  "LEDGER_WRITE_ROUTES =
     [(''POST'', ''/api/jarvis/memory''), (''POST'', ''/api/jarvis/memory/promote''), (''POST'', ''/api/jarvis/memory/pipeline''),
      (''PATCH'', ''/api/jarvis/memory/{id}''), (''PUT'', ''/api/jarvis/memory/{id}''), (''DELETE'', ''/api/jarvis/memory/{id}'')]"

definition is_rest_write :: "dict \<Rightarrow> bool" where
  "is_rest_write fs \<longleftrightarrow> (obj_get fs ''method'', obj_get fs ''route'') \<in> (\<lambda>(a, b). (JStr a, JStr b)) ` set LEDGER_WRITE_ROUTES"

section \<open>Entries\<close>

definition args_hash :: "json \<Rightarrow> string" where
  "args_hash args = sha256_hex (dumps args)"

definition entry_hash_of :: "dict \<Rightarrow> string" where
  "entry_hash_of e = sha256_hex (dumps (JObj (filter (\<lambda>kv. fst kv \<noteq> ''entry_hash'') e)))"

text \<open>The first \<open>n\<close> characters of a text.\<close>

fun char_take :: "nat \<Rightarrow> string \<Rightarrow> string" where
  "char_take n [] = []"
| "char_take n (c # s) =
     (if (of_char c :: nat) div 64 = 2 then c # char_take n s
      else case n of 0 \<Rightarrow> [] | Suc m \<Rightarrow> c # char_take m s)"

definition clean_client :: "string option \<Rightarrow> nat \<Rightarrow> string option" where
  "clean_client v limit =
     (case v of
        None \<Rightarrow> None
      | Some s \<Rightarrow>
          let t = char_take limit (strip (filter (\<lambda>c. 32 \<le> (of_char c :: nat) \<and> (of_char c :: nat) \<noteq> 127) s))
          in if t = [] then None else Some t)"

definition split_client :: "string option \<Rightarrow> string option \<times> string option" where
  "split_client header =
     (case clean_client header 256 of
        None \<Rightarrow> (None, None)
      | Some t \<Rightarrow>
          let first = fst (word_of_text (lstrip t));
              name = takeWhile (\<lambda>c. c \<noteq> CHR ''/'') first; version = drop (Suc (length name)) first
          in (clean_client (Some name) 128, clean_client (Some version) 64))"

definition jopt :: "string option \<Rightarrow> json" where
  "jopt v = (case v of None \<Rightarrow> JNull | Some s \<Rightarrow> JStr s)"

definition jopt_int :: "int option \<Rightarrow> json" where
  "jopt_int v = (case v of None \<Rightarrow> JNull | Some n \<Rightarrow> JInt n)"

record call =
  ca_transport :: string
  ca_tool :: string
  ca_args :: json
  ca_outcome :: string
  ca_elapsed :: int
  ca_header :: "string option"
  ca_client :: "string option"
  ca_version :: "string option"
  ca_tenant :: "string option"
  ca_error :: "string option"
  ca_status :: "int option"
  ca_digest :: "string option"
  ca_route :: "string option"
  ca_method :: "string option"
  ca_target :: "string option"

definition make_fields :: "environ \<Rightarrow> call \<Rightarrow> dict" where
  "make_fields ev c =
     (let (name, version) = (if ca_header c \<notin> {None, Some []} \<and> ca_client c \<in> {None, Some []} then split_client (ca_header c)
                             else (ca_client c, ca_version c))
      in [(''transport'', JStr (ca_transport c)), (''client_name'', jopt (clean_client name 128)),
          (''client_version'', jopt (clean_client version 64)), (''client_self_reported'', JBool True),
          (''tenant'', JStr (case ca_tenant c of Some (x # xs) \<Rightarrow> x # xs | _ \<Rightarrow> default_tenant_label ev)), (''tool'', JStr (ca_tool c)),
          (''route'', jopt (ca_route c)), (''method'', jopt (ca_method c)), (''target'', jopt (ca_target c)),
          (''args_sha256'', JStr (args_hash (ca_args c))), (''outcome'', JStr (ca_outcome c)), (''error_code'', jopt (ca_error c)),
          (''status_code'', jopt_int (ca_status c)),
          (''result_digest'', (case ca_digest c of Some d \<Rightarrow> if hex64 d then JStr d else JNull | None \<Rightarrow> JNull)),
          (''duration_ms'', JInt (max 0 (ca_elapsed c)))])"

section \<open>The log and its process\<close>

record window =
  w_start :: string
  w_end :: string
  w_count :: int

record outage =
  og_since :: string
  og_unlogged :: int
  og_refused :: int
  og_error :: string

record anchor =
  an_seq :: json
  an_hash :: json
  an_file :: string
  an_deleted :: string

record cl_disk =
  cd_files :: "(string \<times> bytes) list"
  cd_anchor :: "anchor option"
  cd_degraded :: "outage option"

record cl_proc =
  cp_outage :: "outage option"
  cp_suppressed :: "window option"
  cp_denied :: "string \<times> int"
  cp_reads :: "((string \<times> string) \<times> window) list"
  cp_read_window :: "string \<times> (string \<times> int) list"

text \<open>
  One append to the file of the day: everything is written; nothing (the file could not be opened); the first
  \<open>n\<close> bytes and then an error (also of \<open>fsync\<close>, with all of them); or \<open>os.write\<close> writes only the first
  \<open>n\<close> bytes and says so in its result.
\<close>

datatype append_io = Io_ok | Io_fail | Io_partial nat | Io_short nat

record cl_state =
  cs_disk :: cl_disk
  cs_proc :: cl_proc
  cs_io :: "append_io list"

record cl_env =
  ce_now :: datetime
  ce_vars :: environ
  ce_lock :: bool
  ce_writable :: bool
  ce_today_writable :: bool
  ce_free :: int
  ce_save :: bool
  ce_unlink :: bool
  ce_os_error :: string

datatype py_exc = Py_value | Py_type | Py_key | Py_overflow | Py_attribute

datatype cl_exc = Call_log_error string | Os_error string | Py py_exc

type_synonym 'a cl_op = "cl_state \<Rightarrow> (cl_exc + 'a) \<times> cl_state"

definition cl_bind :: "'a cl_op \<Rightarrow> ('a \<Rightarrow> 'b cl_op) \<Rightarrow> 'b cl_op" where
  "cl_bind m f s = (case m s of (Inl e, s') \<Rightarrow> (Inl e, s') | (Inr a, s') \<Rightarrow> f a s')"

definition cl_return :: "'a \<Rightarrow> 'a cl_op" where
  "cl_return a s = (Inr a, s)"

definition locked :: "cl_env \<Rightarrow> 'a cl_op \<Rightarrow> 'a cl_op" where
  "locked env m s = (if ce_lock env then m s else (Inl (Os_error (ce_os_error env)), s))"

section \<open>Reading the head\<close>

text \<open>
  \<open>str.lower\<close> on all of Unicode is a parameter. For
  \<open>json.loads\<close>, \<open>int(v)\<close> and \<open>str(v)\<close> of a parsed value: the value of a float, its integer part (an
  infinity has none), its comparison with an integer, and the text of a value that is neither a string nor an
  integer are parameters.
\<close>

record cl_lib =
  cl_float :: "string \<Rightarrow> json"
  cl_trunc :: "string \<Rightarrow> int"
  cl_ge :: "string \<Rightarrow> int \<Rightarrow> bool"
  cl_str :: "json \<Rightarrow> string"
  cl_lower :: "string \<Rightarrow> string"

definition py_int :: "cl_lib \<Rightarrow> json \<Rightarrow> py_exc + int" where
  "py_int lib v =
     (case v of
        JInt i \<Rightarrow> Inr i
      | JBool b \<Rightarrow> Inr (if b then 1 else 0)
      | JStr s \<Rightarrow> (case parse_int s of Some n \<Rightarrow> Inr n | None \<Rightarrow> Inl Py_value)
      | JFloat s \<Rightarrow> Inr (cl_trunc lib s)
      | JNan s \<Rightarrow> Inl (if s = ''NaN'' then Py_value else Py_overflow)
      | _ \<Rightarrow> Inl Py_type)"

definition py_str :: "cl_lib \<Rightarrow> json \<Rightarrow> string" where
  "py_str lib v = (case v of JStr s \<Rightarrow> s | JInt i \<Rightarrow> str_int i | _ \<Rightarrow> cl_str lib v)"

definition py_item :: "dict \<Rightarrow> string \<Rightarrow> py_exc + json" where
  "py_item d k = (case map_of d k of None \<Rightarrow> Inl Py_key | Some v \<Rightarrow> Inr v)"

definition NL :: char where
  "NL = CHR 0x0A"

definition TAIL_BLOCK :: nat where
  "TAIL_BLOCK = 65536"

definition tail_lines :: "bytes \<Rightarrow> string list" where
  "tail_lines content =
     filter (\<lambda>l. strip l \<noteq> []) (split_on NL (drop (length content - min (length content) TAIL_BLOCK) content))"

text \<open>The object of a line that parses as an entry.\<close>

definition entry_of_line :: "cl_lib \<Rightarrow> string \<Rightarrow> dict option" where
  "entry_of_line lib line =
     (case loads (cl_float lib) line of
        Some (JObj d) \<Rightarrow> if map_of d ''entry_hash'' = None then None else Some d
      | _ \<Rightarrow> None)"

definition last_line :: "cl_lib \<Rightarrow> string \<Rightarrow> bytes \<Rightarrow> cl_exc + dict option" where
  "last_line lib name content =
     (let ls = tail_lines content
      in case find (\<lambda>l. entry_of_line lib l \<noteq> None) (rev ls) of
           Some l \<Rightarrow> Inr (entry_of_line lib l)
         | None \<Rightarrow> if ls = [] then Inr None
                   else Inl (Call_log_error (''no valid entry in the tail of '' @ name @ ''; run verify'')))"

record cl_head =
  hd_seq :: int
  hd_hash :: string

definition CALL_GENESIS :: string where
  "CALL_GENESIS = zeros64"

definition genesis_head :: cl_head where
  "genesis_head = \<lparr>hd_seq = 0, hd_hash = CALL_GENESIS\<rparr>"

definition file_name :: "string \<Rightarrow> string" where
  "file_name day = ''calls-'' @ day @ ''.jsonl''"

text \<open>The head the anchor gives: a missing or unreadable anchor is the genesis, another exception is not caught.\<close>

definition anchor_head :: "cl_lib \<Rightarrow> anchor option \<Rightarrow> py_exc + cl_head" where
  "anchor_head lib a =
     (case a of
        None \<Rightarrow> Inr genesis_head
      | Some a \<Rightarrow>
          (case py_int lib (an_seq a) of
             Inr n \<Rightarrow> Inr \<lparr>hd_seq = n, hd_hash = py_str lib (an_hash a)\<rparr>
           | Inl Py_value \<Rightarrow> Inr genesis_head
           | Inl e \<Rightarrow> Inl e))"

fun head_of_files :: "cl_lib \<Rightarrow> anchor option \<Rightarrow> (string \<times> bytes) list \<Rightarrow> cl_exc + cl_head" where
  "head_of_files lib a [] = (case anchor_head lib a of Inl e \<Rightarrow> Inl (Py e) | Inr h \<Rightarrow> Inr h)"
| "head_of_files lib a ((day, content) # files) =
     res_bind (last_line lib (file_name day) content) (\<lambda>l.
       case l of
         None \<Rightarrow> head_of_files lib a files
       | Some e \<Rightarrow>
           (case py_item e ''seq'' of
              Inl x \<Rightarrow> Inl (Py x)
            | Inr v \<Rightarrow>
                (case py_int lib v of
                   Inl x \<Rightarrow> Inl (Py x)
                 | Inr n \<Rightarrow> Inr \<lparr>hd_seq = n, hd_hash = py_str lib (obj_get e ''entry_hash'')\<rparr>)))"

text \<open>The daily files in the order of their names.\<close>

definition log_files :: "cl_disk \<Rightarrow> (string \<times> bytes) list" where
  "log_files d = sort_key fst (cd_files d)"

definition log_head :: "cl_lib \<Rightarrow> cl_disk \<Rightarrow> cl_exc + cl_head" where
  "log_head lib d = head_of_files lib (cd_anchor d) (rev (log_files d))"

definition head_op :: "cl_lib \<Rightarrow> cl_head cl_op" where
  "head_op lib s = (log_head lib (cs_disk s), s)"

definition head_call :: "cl_lib \<Rightarrow> cl_env \<Rightarrow> cl_head cl_op" where
  "head_call lib env = locked env (head_op lib)"

section \<open>The degraded latch\<close>

definition combine :: "outage option \<Rightarrow> outage option \<Rightarrow> outage option" where
  "combine a b =
     (case (a, b) of
        (None, None) \<Rightarrow> None
      | (Some x, None) \<Rightarrow> Some (x\<lparr>og_error := char_take 300 (og_error x)\<rparr>)
      | (None, Some y) \<Rightarrow> Some (y\<lparr>og_error := char_take 300 (og_error y)\<rparr>)
      | (Some x, Some y) \<Rightarrow> Some
          \<lparr>og_since = min (og_since x) (og_since y), og_unlogged = og_unlogged x + og_unlogged y,
           og_refused = og_refused x + og_refused y, og_error = char_take 300 (og_error y)\<rparr>)"

definition degraded :: "cl_state \<Rightarrow> outage option" where
  "degraded s = combine (cd_degraded (cs_disk s)) (cp_outage (cs_proc s))"

definition set_proc :: "(cl_proc \<Rightarrow> cl_proc) \<Rightarrow> cl_state \<Rightarrow> cl_state" where
  "set_proc f s = s\<lparr>cs_proc := f (cs_proc s)\<rparr>"

definition set_disk :: "(cl_disk \<Rightarrow> cl_disk) \<Rightarrow> cl_state \<Rightarrow> cl_state" where
  "set_disk f s = s\<lparr>cs_disk := f (cs_disk s)\<rparr>"

definition clear_degraded :: "cl_env \<Rightarrow> cl_state \<Rightarrow> cl_state" where
  "clear_degraded env s =
     set_disk (\<lambda>d. if ce_unlink env then d\<lparr>cd_degraded := None\<rparr> else d) (set_proc (\<lambda>p. p\<lparr>cp_outage := None\<rparr>) s)"

text \<open>\<open>ce_save\<close>: the lock and the new DEGRADED file could be had.\<close>

definition mark_degraded :: "cl_env \<Rightarrow> string \<Rightarrow> int \<Rightarrow> int \<Rightarrow> cl_state \<Rightarrow> cl_state" where
  "mark_degraded env err unlogged refused s =
     (let base = (case cp_outage (cs_proc s) of
                    None \<Rightarrow> \<lparr>og_since = ts_text (ce_now env), og_unlogged = 0, og_refused = 0, og_error = []\<rparr>
                  | Some g \<Rightarrow> g);
          delta = base\<lparr>og_unlogged := og_unlogged base + unlogged, og_refused := og_refused base + refused,
                       og_error := char_take 300 err\<rparr>
      in if ce_save env
         then set_proc (\<lambda>p. p\<lparr>cp_outage := None\<rparr>) (set_disk (\<lambda>d. d\<lparr>cd_degraded := combine (cd_degraded d) (Some delta)\<rparr>) s)
         else set_proc (\<lambda>p. p\<lparr>cp_outage := Some delta\<rparr>) s)"

definition gap_entry :: "cl_env \<Rightarrow> outage \<Rightarrow> dict" where
  "gap_entry env g =
     [(''transport'', JStr ''http-api''), (''client_name'', JNull), (''client_version'', JNull), (''client_self_reported'', JBool True),
      (''tenant'', JStr ''operator''), (''tool'', JStr ''(call-log)''), (''route'', JNull), (''method'', JNull), (''target'', JNull),
      (''args_sha256'', JStr (args_hash (JObj [(''since'', JStr (og_since g)), (''unlogged'', JInt (og_unlogged g)), (''refused'', JInt (og_refused g))]))),
      (''outcome'', JStr ''gap''),
      (''error_code'', JStr (''UNLOGGED_CALLS:'' @ str_int (og_unlogged g) @ '';REFUSED_WRITES:'' @ str_int (og_refused g))),
      (''status_code'', JNull), (''result_digest'', JNull), (''duration_ms'', JInt 0), (''window_start'', JStr (og_since g)),
      (''window_end'', JStr (ts_text (ce_now env))), (''count'', JInt (og_unlogged g)), (''refused'', JInt (og_refused g))]"

section \<open>Appending\<close>

definition dict_set :: "string \<Rightarrow> json \<Rightarrow> dict \<Rightarrow> dict" where
  "dict_set k v d = AList.update k v d"

definition make_entry :: "datetime \<Rightarrow> dict \<Rightarrow> cl_head \<Rightarrow> dict" where
  "make_entry now fs h =
     (let e = dict_of ([(''seq'', JInt (hd_seq h + 1)), (''ts'', JStr (ts_text now)), (''prev_hash'', JStr (hd_hash h))] @ fs)
      in dict_set ''entry_hash'' (JStr (entry_hash_of e)) e)"

fun last_of_files :: "cl_lib \<Rightarrow> (string \<times> bytes) list \<Rightarrow> cl_exc + dict option" where
  "last_of_files lib [] = Inr None"
| "last_of_files lib ((day, content) # files) =
     res_bind (last_line lib (file_name day) content) (\<lambda>l. case l of None \<Rightarrow> last_of_files lib files | Some e \<Rightarrow> Inr (Some e))"

definition rotate_and_retain :: "cl_lib \<Rightarrow> cl_env \<Rightarrow> unit cl_op" where
  "rotate_and_retain lib env s =
     (let now = ce_now env; files = log_files (cs_disk s)
      in case days_before (nat (retain_days (ce_vars env))) (dt_year now) (dt_month now) (dt_day now) of
           None \<Rightarrow> (Inl (Py Py_overflow), s)
         | Some (y, m, d) \<Rightarrow>
             let old = filter (\<lambda>p. fst p < day_text y m d) files
             in if old = [] \<or> length old \<ge> length files then (Inr (), s)
                else case last_of_files lib (rev old) of
                       Inl e \<Rightarrow> (Inl e, s)
                     | Inr found \<Rightarrow>
                         let remove = set_disk (\<lambda>d. d\<lparr>cd_files := filter (\<lambda>p. p \<notin> set old) (cd_files d)\<rparr>)
                         in case found of
                              None \<Rightarrow> (Inr (), remove s)
                            | Some e \<Rightarrow>
                                (case py_item e ''seq'' of
                                   Inl x \<Rightarrow> (Inl (Py x), s)
                                 | Inr n \<Rightarrow> (Inr (), remove (set_disk (\<lambda>d. d\<lparr>cd_anchor := Some
                                     \<lparr>an_seq = n, an_hash = obj_get e ''entry_hash'', an_file = file_name (fst (last old)),
                                      an_deleted = ts_text now\<rparr>\<rparr>) s))))"

definition file_content :: "cl_disk \<Rightarrow> string \<Rightarrow> bytes" where
  "file_content d day = (case map_of (cd_files d) day of None \<Rightarrow> [] | Some c \<Rightarrow> c)"

definition add_bytes :: "string \<Rightarrow> bytes \<Rightarrow> cl_disk \<Rightarrow> cl_disk" where
  "add_bytes day bs d = d\<lparr>cd_files := AList.update day (file_content d day @ bs) (cd_files d)\<rparr>"

definition write_line :: "cl_env \<Rightarrow> string \<Rightarrow> unit cl_op" where
  "write_line env line s =
     (let day = today_text (ce_now env); old = file_content (cs_disk s) day;
          data = (if old \<noteq> [] \<and> last old \<noteq> NL then [NL] else []) @ line @ [NL];
          io = (case cs_io s of [] \<Rightarrow> Io_ok | x # _ \<Rightarrow> x); s1 = s\<lparr>cs_io := tl (cs_io s)\<rparr>
      in case io of
           Io_ok \<Rightarrow> (Inr (), set_disk (add_bytes day data) s1)
         | Io_fail \<Rightarrow> (Inl (Os_error (ce_os_error env)), s1)
         | Io_partial n \<Rightarrow> (Inl (Os_error (ce_os_error env)), set_disk (add_bytes day (take n data)) s1)
         | Io_short n \<Rightarrow> (Inr (), set_disk (add_bytes day (take n data)) s1))"

definition append_locked :: "cl_lib \<Rightarrow> cl_env \<Rightarrow> dict \<Rightarrow> cl_head \<Rightarrow> dict cl_op" where
  "append_locked lib env fs h =
     (let entry = make_entry (ce_now env) fs h
      in cl_bind (rotate_and_retain lib env) (\<lambda>_. cl_bind (write_line env (dumps (JObj entry))) (\<lambda>_. cl_return entry)))"

definition entry_head :: "dict \<Rightarrow> cl_head" where
  "entry_head e = \<lparr>hd_seq = (case obj_get e ''seq'' of JInt n \<Rightarrow> n | _ \<Rightarrow> 0),
                   hd_hash = (case obj_get e ''entry_hash'' of JStr h \<Rightarrow> h | _ \<Rightarrow> [])\<rparr>"

section \<open>Summaries\<close>

definition summary_fields :: "string \<Rightarrow> string \<Rightarrow> string \<Rightarrow> json \<Rightarrow> string \<Rightarrow> window \<Rightarrow> dict" where
  "summary_fields transport tenant tool meth kind w =
     [(''transport'', JStr transport), (''client_name'', JNull), (''client_version'', JNull), (''client_self_reported'', JBool True),
      (''tenant'', JStr tenant), (''tool'', JStr tool), (''route'', JNull), (''method'', meth), (''target'', JNull),
      (''args_sha256'', JStr (args_hash (JObj [(''suppressed'', JInt (w_count w))]))), (''outcome'', JStr kind),
      (''error_code'', JStr (''SUPPRESSED:'' @ str_int (w_count w))), (''status_code'', JNull), (''result_digest'', JNull), (''duration_ms'', JInt 0),
      (''window_start'', JStr (w_start w)), (''window_end'', JStr (w_end w)), (''count'', JInt (w_count w))]"

definition denied_summary :: "window \<Rightarrow> dict" where
  "denied_summary w = summary_fields ''http-api'' ''operator'' ''(denied calls)'' JNull ''denied_suppressed'' w"

definition read_summary :: "string \<times> string \<Rightarrow> window \<Rightarrow> dict" where
  "read_summary key w = summary_fields (snd key) (fst key) ''(read calls)'' (JStr ''GET'') ''read_suppressed'' w"

definition flush_suppressed_locked :: "cl_lib \<Rightarrow> cl_env \<Rightarrow> cl_head \<Rightarrow> cl_head cl_op" where
  "flush_suppressed_locked lib env h s =
     (case cp_suppressed (cs_proc s) of
        None \<Rightarrow> (Inr h, s)
      | Some w \<Rightarrow> cl_bind (append_locked lib env (denied_summary w) h)
          (\<lambda>e s. (Inr (entry_head e), set_proc (\<lambda>p. p\<lparr>cp_suppressed := None\<rparr>) s)) s)"

fun flush_reads_loop :: "cl_lib \<Rightarrow> cl_env \<Rightarrow> (string \<times> string) list \<Rightarrow> cl_head \<Rightarrow> cl_head cl_op" where
  "flush_reads_loop lib env [] h s = (Inr h, s)"
| "flush_reads_loop lib env (key # keys) h s =
     (case map_of (cp_reads (cs_proc s)) key of
        None \<Rightarrow> (Inl (Py Py_key), s)
      | Some w \<Rightarrow> cl_bind (append_locked lib env (read_summary key w) h)
          (\<lambda>e s. flush_reads_loop lib env keys (entry_head e) (set_proc (\<lambda>p. p\<lparr>cp_reads := AList.delete key (cp_reads p)\<rparr>) s)) s)"

definition flush_reads_locked :: "cl_lib \<Rightarrow> cl_env \<Rightarrow> cl_head \<Rightarrow> cl_head cl_op" where
  "flush_reads_locked lib env h s =
     flush_reads_loop lib env (sort_key fst (sort_key snd (map fst (cp_reads (cs_proc s))))) h s"

section \<open>Recording a call\<close>

datatype appended = Suppressed | Logged dict

text \<open>Before anything else, what an outage left unlogged becomes a gap entry.\<close>

definition recover :: "cl_lib \<Rightarrow> cl_env \<Rightarrow> cl_head \<Rightarrow> cl_head cl_op" where
  "recover lib env h s =
     (case degraded s of
        None \<Rightarrow> (Inr h, s)
      | Some g \<Rightarrow> cl_bind (append_locked lib env (gap_entry env g) h) (\<lambda>e s. (Inr (entry_head e), clear_degraded env s)) s)"

definition count_up :: "string \<Rightarrow> window option \<Rightarrow> window" where
  "count_up now w =
     (case w of None \<Rightarrow> \<lparr>w_start = now, w_end = now, w_count = 1\<rparr> | Some w \<Rightarrow> w\<lparr>w_count := w_count w + 1, w_end := now\<rparr>)"

definition log_entry :: "cl_lib \<Rightarrow> cl_env \<Rightarrow> dict \<Rightarrow> cl_head \<Rightarrow> appended cl_op" where
  "log_entry lib env fs h = cl_bind (append_locked lib env fs h) (\<lambda>e. cl_return (Logged e))"

definition append_denied :: "cl_lib \<Rightarrow> cl_env \<Rightarrow> dict \<Rightarrow> cl_head \<Rightarrow> appended cl_op" where
  "append_denied lib env fs h s =
     (let minute = minute_text (ce_now env); now = ts_text (ce_now env)
      in cl_bind
           (\<lambda>s. if fst (cp_denied (cs_proc s)) \<noteq> minute
                then cl_bind (flush_suppressed_locked lib env h) (\<lambda>h s. (Inr h, set_proc (\<lambda>p. p\<lparr>cp_denied := (minute, 0)\<rparr>) s)) s
                else (Inr h, s))
           (\<lambda>h s. let n = snd (cp_denied (cs_proc s)) + 1; s = set_proc (\<lambda>p. p\<lparr>cp_denied := (minute, n)\<rparr>) s
             in if n > denied_cap_per_minute (ce_vars env)
                then (Inr Suppressed, set_proc (\<lambda>p. p\<lparr>cp_suppressed := Some (count_up now (cp_suppressed p))\<rparr>) s)
                else log_entry lib env fs h s) s)"

definition text_or :: "json \<Rightarrow> string \<Rightarrow> string" where
  "text_or v dflt = (case v of JStr (c # s) \<Rightarrow> c # s | _ \<Rightarrow> dflt)"

definition append_read :: "cl_lib \<Rightarrow> cl_env \<Rightarrow> dict \<Rightarrow> cl_head \<Rightarrow> appended cl_op" where
  "append_read lib env fs h s =
     (let minute = minute_text (ce_now env); now = ts_text (ce_now env);
          tenant = text_or (obj_get fs ''tenant'') (default_tenant_label (ce_vars env));
          key = (tenant, text_or (obj_get fs ''transport'') ''http-api'')
      in cl_bind
           (\<lambda>s. if fst (cp_read_window (cs_proc s)) \<noteq> minute
                then cl_bind (flush_reads_locked lib env h) (\<lambda>h s. (Inr h, set_proc (\<lambda>p. p\<lparr>cp_read_window := (minute, [])\<rparr>) s)) s
                else (Inr h, s))
           (\<lambda>h s. let counts = snd (cp_read_window (cs_proc s));
                    n = (case map_of counts tenant of None \<Rightarrow> 0 | Some k \<Rightarrow> k) + 1;
                    s = set_proc (\<lambda>p. p\<lparr>cp_read_window := (minute, AList.update tenant n counts)\<rparr>) s
             in if n > read_cap_per_minute (ce_vars env)
                then (Inr Suppressed, set_proc (\<lambda>p. p\<lparr>cp_reads := AList.update key (count_up now (map_of (cp_reads p) key)) (cp_reads p)\<rparr>) s)
                else log_entry lib env fs h s) s)"

definition is_read :: "dict \<Rightarrow> bool" where
  "is_read fs \<longleftrightarrow> obj_get fs ''method'' = JStr ''GET'' \<and> obj_get fs ''transport'' \<noteq> JStr ''http-tool'' \<and> obj_get fs ''outcome'' = JStr ''ok''"

definition is_write :: "dict \<Rightarrow> bool" where
  "is_write fs \<longleftrightarrow> obj_get fs ''outcome'' = JStr ''ok'' \<and> (obj_get fs ''tool'' \<in> JStr ` set WRITE_TOOLS \<or> is_rest_write fs)"

definition append_body :: "cl_lib \<Rightarrow> cl_env \<Rightarrow> dict \<Rightarrow> appended cl_op" where
  "append_body lib env fs =
     cl_bind (head_op lib) (\<lambda>h. cl_bind (recover lib env h) (\<lambda>h.
       if obj_get fs ''outcome'' = JStr ''denied'' then append_denied lib env fs h
       else cl_bind (flush_suppressed_locked lib env h) (\<lambda>h.
         if is_read fs then append_read lib env fs h
         else if is_write fs then cl_bind (flush_reads_locked lib env h) (log_entry lib env fs)
         else log_entry lib env fs h)))"

text \<open>An \<open>OSError\<close> of the call becomes a \<open>CallLogError\<close>.\<close>

definition os_as :: "string \<Rightarrow> 'a cl_op \<Rightarrow> 'a cl_op" where
  "os_as prefix m s = (case m s of (Inl (Os_error e), s') \<Rightarrow> (Inl (Call_log_error (prefix @ e)), s') | r \<Rightarrow> r)"

definition append_call :: "cl_lib \<Rightarrow> cl_env \<Rightarrow> dict \<Rightarrow> appended cl_op" where
  "append_call lib env fs = os_as ''call log write failed: '' (locked env (append_body lib env fs))"

text \<open>\<open>record\<close> catches a \<open>CallLogError\<close> and nothing else.\<close>

definition record_call :: "cl_lib \<Rightarrow> cl_env \<Rightarrow> dict \<Rightarrow> appended option cl_op" where
  "record_call lib env fs s =
     (case append_call lib env fs s of
        (Inr a, s') \<Rightarrow> (Inr (Some a), s')
      | (Inl (Call_log_error e), s') \<Rightarrow> (Inr None, mark_degraded env e 1 0 s')
      | (Inl e, s') \<Rightarrow> (Inl e, s'))"

section \<open>Preflight and flushing\<close>

definition preflight :: "cl_lib \<Rightarrow> cl_env \<Rightarrow> unit cl_op" where
  "preflight lib env =
     os_as ''call log unavailable: '' (locked env (cl_bind (head_op lib) (\<lambda>h s.
       if \<not> ce_writable env then (Inl (Call_log_error ''the call-log directory is not writable''), s)
       else if map_of (cd_files (cs_disk s)) (today_text (ce_now env)) \<noteq> None \<and> \<not> ce_today_writable env
         then (Inl (Call_log_error ''today's call-log file is not writable''), s)
       else if ce_free env < MIN_FREE_BYTES then (Inl (Call_log_error ''the call-log volume is nearly full''), s)
       else cl_bind (recover lib env h) (\<lambda>_. cl_return ()) s)))"

definition flush_body :: "cl_lib \<Rightarrow> cl_env \<Rightarrow> cl_head cl_op" where
  "flush_body lib env = cl_bind (head_op lib) (\<lambda>h. cl_bind (flush_suppressed_locked lib env h) (flush_reads_locked lib env))"

definition exc_text :: "cl_exc \<Rightarrow> string" where
  "exc_text e = (case e of Call_log_error m \<Rightarrow> m | Os_error m \<Rightarrow> m | Py _ \<Rightarrow> [])"

definition flush :: "cl_lib \<Rightarrow> cl_env \<Rightarrow> unit cl_op" where
  "flush lib env s =
     (case locked env (flush_body lib env) s of
        (Inr _, s') \<Rightarrow> (Inr (), s')
      | (Inl (Py x), s') \<Rightarrow> (Inl (Py x), s')
      | (Inl e, s') \<Rightarrow>
          (Inr (), if cp_suppressed (cs_proc s') \<noteq> None \<or> cp_reads (cs_proc s') \<noteq> []
                   then mark_degraded env (''could not write the open summaries: '' @ exc_text e) 0 0 s' else s'))"

definition pending :: "cl_proc \<Rightarrow> int" where
  "pending p = (case cp_suppressed p of None \<Rightarrow> 0 | Some w \<Rightarrow> w_count w) + sum_list (map (\<lambda>kw. w_count (snd kw)) (cp_reads p))"

definition flush_for_shutdown :: "cl_lib \<Rightarrow> cl_env \<Rightarrow> unit cl_op" where
  "flush_for_shutdown lib env =
     cl_bind (flush lib env) (\<lambda>_ s.
       let n = pending (cs_proc s)
       in if n = 0 then (Inr (), s)
          else (Inr (), set_proc (\<lambda>p. p\<lparr>cp_suppressed := None, cp_reads := []\<rparr>)
                 (mark_degraded env ''shutdown: the open denied/read summaries could not be written'' n 0 s)))"

section \<open>Reading\<close>

text \<open>The lines of a file, newest first, read backwards in blocks.\<close>

definition REVERSE_CHUNK :: nat where
  "REVERSE_CHUNK = 64 * 1024"

function reverse_lines :: "nat \<Rightarrow> bytes \<Rightarrow> nat \<Rightarrow> bytes \<Rightarrow> bytes list" where
  "reverse_lines chunk content pos carry =
     (if pos = 0 \<or> chunk = 0 then (if carry = [] then [] else [carry])
      else let step = min chunk pos; pos' = pos - step;
               parts = split_on NL (take step (drop pos' content) @ carry)
           in filter (\<lambda>l. l \<noteq> []) (rev (tl parts)) @ reverse_lines chunk content pos' (hd parts))"
  by pat_completeness auto
termination by (relation "measure (\<lambda>(chunk, content, pos, carry). pos)") auto

declare reverse_lines.simps [simp del]

text \<open>Entries newest first; a line that is not JSON is passed over.\<close>

definition file_entries_desc :: "cl_lib \<Rightarrow> bytes \<Rightarrow> json list" where
  "file_entries_desc lib content =
     concat (map (\<lambda>l. if strip l = [] then [] else case loads (cl_float lib) l of None \<Rightarrow> [] | Some v \<Rightarrow> [v])
       (reverse_lines REVERSE_CHUNK content (length content) []))"

definition entries_desc :: "cl_lib \<Rightarrow> cl_disk \<Rightarrow> json list" where
  "entries_desc lib d = concat (map (\<lambda>f. file_entries_desc lib (snd f)) (rev (log_files d)))"

record page =
  pg_entries :: "dict list"
  pg_cursor :: "string option"
  pg_degraded :: "outage option"

record page_query =
  pq_tool :: "string option"
  pq_client :: "string option"
  pq_since :: "string option"
  pq_limit :: int
  pq_before :: "int option"

definition at_least :: "cl_lib \<Rightarrow> json \<Rightarrow> int \<Rightarrow> py_exc + bool" where
  "at_least lib v n =
     (case v of
        JInt i \<Rightarrow> Inr (i \<ge> n)
      | JBool b \<Rightarrow> Inr ((if b then 1 else 0) \<ge> n)
      | JFloat s \<Rightarrow> Inr (cl_ge lib s n)
      | JNan s \<Rightarrow> Inr (s = ''Infinity'')
      | _ \<Rightarrow> Inl Py_type)"

definition falsy :: "json \<Rightarrow> bool" where
  "falsy v \<longleftrightarrow> v \<in> {JNull, JBool False, JInt 0, JStr [], JList [], JObj []}"

fun contains :: "string \<Rightarrow> string \<Rightarrow> bool" where
  "contains p [] \<longleftrightarrow> p = []"
| "contains p (c # s) \<longleftrightarrow> take (length p) (c # s) = p \<or> contains p s"

definition client_matches :: "cl_lib \<Rightarrow> string \<Rightarrow> dict \<Rightarrow> bool" where
  "client_matches lib client e \<longleftrightarrow>
     (let v = obj_get e ''client_name''
      in contains (cl_lower lib client) (cl_lower lib (if falsy v then [] else py_str lib v)))"

text \<open>\<open>None\<close> and the empty text are no filter.\<close>

definition given :: "string option \<Rightarrow> string option" where
  "given v = (if v = Some [] then None else v)"

fun query_loop :: "cl_lib \<Rightarrow> page_query \<Rightarrow> dict list \<Rightarrow> json list \<Rightarrow> py_exc + dict list \<times> bool" where
  "query_loop lib q out [] = Inr (out, False)"
| "query_loop lib q out (v # vs) =
     (case v of
        JObj e \<Rightarrow>
          res_bind (case pq_before q of None \<Rightarrow> Inr False
                    | Some b \<Rightarrow> at_least lib (case map_of e ''seq'' of None \<Rightarrow> JInt 0 | Some v \<Rightarrow> v) b) (\<lambda>later.
            if later then query_loop lib q out vs
            else if (case given (pq_since q) of None \<Rightarrow> False
                     | Some t \<Rightarrow> py_str lib (case map_of e ''ts'' of None \<Rightarrow> JStr [] | Some v \<Rightarrow> v) < t) then Inr (out, False)
            else if (case given (pq_tool q) of None \<Rightarrow> False | Some t \<Rightarrow> obj_get e ''tool'' \<noteq> JStr t) then query_loop lib q out vs
            else if (case given (pq_client q) of None \<Rightarrow> False | Some c \<Rightarrow> \<not> client_matches lib c e) then query_loop lib q out vs
            else if int (length out) \<ge> pq_limit q then Inr (out, True)
            else query_loop lib q (out @ [e]) vs)
      | _ \<Rightarrow> Inl Py_attribute)"

definition query_unlocked :: "cl_lib \<Rightarrow> page_query \<Rightarrow> page cl_op" where
  "query_unlocked lib q s =
     (case query_loop lib q [] (entries_desc lib (cs_disk s)) of
        Inl x \<Rightarrow> (Inl (Py x), s)
      | Inr (out, further) \<Rightarrow>
          if further \<and> out \<noteq> [] then
            (case py_item (last out) ''seq'' of
               Inl x \<Rightarrow> (Inl (Py x), s)
             | Inr v \<Rightarrow> (Inr \<lparr>pg_entries = out, pg_cursor = Some (py_str lib v), pg_degraded = degraded s\<rparr>, s))
          else (Inr \<lparr>pg_entries = out, pg_cursor = None, pg_degraded = degraded s\<rparr>, s))"

definition query :: "cl_lib \<Rightarrow> cl_env \<Rightarrow> page_query \<Rightarrow> page cl_op" where
  "query lib env q = cl_bind (flush lib env) (\<lambda>_. query_unlocked lib q)"

text \<open>
  The page and the head from one snapshot: errors of writing the open summaries are suppressed. \<open>slot\<close>: a
  reader slot was free in time.
\<close>

definition query_with_head :: "cl_lib \<Rightarrow> cl_env \<Rightarrow> bool \<Rightarrow> page_query \<Rightarrow> (page \<times> cl_head) cl_op" where
  "query_with_head lib env slot q s =
     (if \<not> slot then (Inl (Call_log_error ''too many call-log reads are in progress''), s)
      else locked env (\<lambda>s.
        case flush_body lib env s of
          (Inl (Py x), s') \<Rightarrow> (Inl (Py x), s')
        | (_, s') \<Rightarrow> cl_bind (head_op lib) (\<lambda>h. cl_bind (query_unlocked lib q) (\<lambda>pg. cl_return (pg, h))) s') s)"

section \<open>The verifier\<close>

record cl_problem =
  cl_file :: string
  cl_line :: nat
  cl_text :: string

record cl_walk =
  wk_hash :: string
  wk_seq :: int
  wk_total :: nat
  wk_problems :: "cl_problem list"

definition read_entry :: "cl_lib \<Rightarrow> string \<Rightarrow> py_exc + (int \<times> string \<times> string \<times> dict)" where
  "read_entry lib line =
     (case loads (cl_float lib) line of
        None \<Rightarrow> Inl Py_value
      | Some (JObj e) \<Rightarrow>
          res_bind (py_item e ''seq'') (\<lambda>v. res_bind (py_int lib v) (\<lambda>n.
            res_bind (py_item e ''entry_hash'') (\<lambda>h. res_bind (py_item e ''prev_hash'') (\<lambda>p.
              Inr (n, py_str lib h, py_str lib p, e)))))
      | Some _ \<Rightarrow> Inl Py_type)"

definition entry_problems :: "cl_walk \<Rightarrow> int \<Rightarrow> string \<Rightarrow> string \<Rightarrow> dict \<Rightarrow> string list" where
  "entry_problems w n h p e =
     (if entry_hash_of e \<noteq> h then [''entry '' @ str_int n @ '': entry_hash does not match the content (edited)''] else [])
     @ (if n \<noteq> wk_seq w + 1 then [''entry '' @ str_int n @ '': expected seq '' @ str_int (wk_seq w + 1) @ '' (a line was deleted, inserted or reordered)''] else [])
     @ (if p \<noteq> wk_hash w then [''entry '' @ str_int n @ '': prev_hash does not link to the previous entry (deleted, inserted or reordered)''] else [])"

definition verify_line :: "cl_lib \<Rightarrow> string \<Rightarrow> bool \<Rightarrow> nat \<Rightarrow> string \<Rightarrow> cl_walk \<Rightarrow> py_exc + cl_walk" where
  "verify_line lib file last_torn n line w =
     (if strip line = [] then Inr w
      else let add = (\<lambda>ts w. w\<lparr>wk_problems := wk_problems w @ map (\<lambda>t. \<lparr>cl_file = file, cl_line = n, cl_text = t\<rparr>) ts\<rparr>)
      in case read_entry lib line of
           Inr (m, h, p, e) \<Rightarrow> Inr ((add (entry_problems w m h p e) w)\<lparr>wk_hash := h, wk_seq := m, wk_total := wk_total w + 1\<rparr>)
         | Inl Py_overflow \<Rightarrow> Inl Py_overflow
         | Inl _ \<Rightarrow> Inr (add [if last_torn then ''torn final line (a crash mid-write)'' else ''not a valid entry''] w))"

fun verify_lines :: "cl_lib \<Rightarrow> string \<Rightarrow> bool \<Rightarrow> nat \<Rightarrow> string list \<Rightarrow> cl_walk \<Rightarrow> py_exc + cl_walk" where
  "verify_lines lib file torn n [] w = Inr w"
| "verify_lines lib file torn n (line # ls) w =
     res_bind (verify_line lib file (torn \<and> ls = []) n line w) (verify_lines lib file torn (n + 1) ls)"

fun verify_files :: "cl_lib \<Rightarrow> (string \<times> bytes) list \<Rightarrow> cl_walk \<Rightarrow> py_exc + cl_walk" where
  "verify_files lib [] w = Inr w"
| "verify_files lib ((day, content) # files) w =
     res_bind (verify_lines lib (file_name day) (content \<noteq> [] \<and> last content \<noteq> NL) 1 (split_on NL content) w)
       (verify_files lib files)"

definition count_gaps :: "json list \<Rightarrow> py_exc + nat" where
  "count_gaps vs =
     res_bind (res_map_list (\<lambda>v. case v of JObj e \<Rightarrow> Inr (obj_get e ''outcome'' = JStr ''gap'') | _ \<Rightarrow> Inl Py_attribute) vs)
       (\<lambda>gs. Inr (length (filter (\<lambda>g. g) gs)))"

record verify_report =
  vr_problems :: "cl_problem list"
  vr_total :: nat
  vr_files :: "string list"
  vr_head :: cl_head
  vr_degraded :: "outage option"
  vr_gaps :: nat

definition verify_log :: "cl_lib \<Rightarrow> cl_state \<Rightarrow> py_exc + verify_report" where
  "verify_log lib s =
     (let d = cs_disk s
      in res_bind (anchor_head lib (cd_anchor d)) (\<lambda>h0.
         res_bind (verify_files lib (log_files d) \<lparr>wk_hash = hd_hash h0, wk_seq = hd_seq h0, wk_total = 0, wk_problems = []\<rparr>) (\<lambda>w.
         res_bind (count_gaps (entries_desc lib d)) (\<lambda>g. Inr
           \<lparr>vr_problems = wk_problems w, vr_total = wk_total w, vr_files = map (\<lambda>f. file_name (fst f)) (log_files d),
            vr_head = \<lparr>hd_seq = wk_seq w, hd_hash = wk_hash w\<rparr>, vr_degraded = degraded s, vr_gaps = g\<rparr>))))"

definition verify_call :: "cl_lib \<Rightarrow> cl_env \<Rightarrow> verify_report cl_op" where
  "verify_call lib env = cl_bind (flush lib env) (\<lambda>_ s.
     case verify_log lib s of Inl x \<Rightarrow> (Inl (Py x), s) | Inr r \<Rightarrow> (Inr r, s))"

end
