(* ===== verification/Call_Log_Text.thy ===== *)
theory Call_Log_Text
  imports Call_Log Hash_Chain Sshsig_Theorems
begin

text \<open>
  The text of the call log: what a file of complete lines splits into, what its tail and its last line are, and that
  reading a file backwards in blocks gives its lines newest first.
\<close>

section \<open>Splitting\<close>

lemma split_on_ne [simp]: "split_on c s \<noteq> []"
  by (induction s) (auto split: list.split)

lemma split_on_hd: "c \<notin> set (hd (split_on c s))"
  by (induction s) (auto split: list.split)

lemma split_on_suffix: "split_on c (a @ b) = split_on c (a @ hd (split_on c b)) @ tl (split_on c b)"
proof (induction a)
  case Nil
  show ?case using split_on_id [OF split_on_hd, of c b] by simp
next
  case (Cons x a)
  show ?case
  proof (cases "x = c")
    case False
    obtain w ws where w: "split_on c (a @ hd (split_on c b)) = w # ws" by (cases "split_on c (a @ hd (split_on c b))") auto
    with Cons have "split_on c (a @ b) = w # ws @ tl (split_on c b)" by simp
    with False w show ?thesis by simp
  qed (use Cons in simp)
qed

lemma split_on_break: "split_on c (x @ c # y) = split_on c x @ split_on c y"
  using split_on_suffix [of c x "c # y"] by simp

text \<open>Reading backwards in blocks is splitting the whole file.\<close>

lemma reverse_lines_gen:
  assumes "0 < chunk" "pos \<le> length content" "NL \<notin> set carry"
  shows "reverse_lines chunk content pos carry = rev (filter (\<lambda>l. l \<noteq> []) (split_on NL (take pos content @ carry)))"
  using assms
proof (induction chunk content pos carry rule: reverse_lines.induct)
  case (1 chunk content pos carry)
  show ?case
  proof (cases "pos = 0")
    case True
    then show ?thesis using "1.prems" by (simp add: reverse_lines.simps split_on_id)
  next
    case False
    let ?pos' = "pos - min chunk pos"
    let ?parts = "split_on NL (take (min chunk pos) (drop ?pos' content) @ carry)"
    have t: "take pos content = take ?pos' content @ take (min chunk pos) (drop ?pos' content)"
      by (metis diff_le_self le_add_diff_inverse2 min.cobounded2 take_add)
    have "reverse_lines chunk content ?pos' (hd ?parts) = rev (filter (\<lambda>l. l \<noteq> []) (split_on NL (take ?pos' content @ hd ?parts)))"
      using False "1.prems" split_on_hd by (intro "1.IH" [OF _ refl refl refl]) auto
    moreover have "split_on NL (take pos content @ carry) = split_on NL (take ?pos' content @ hd ?parts) @ tl ?parts"
      unfolding t append_assoc by (rule split_on_suffix)
    ultimately show ?thesis
      using False "1.prems" by (subst reverse_lines.simps) (simp add: Let_def rev_filter)
  qed
qed

lemma reverse_lines_split:
  "0 < chunk \<Longrightarrow> reverse_lines chunk content (length content) [] = rev (filter (\<lambda>l. l \<noteq> []) (split_on NL content))"
  using reverse_lines_gen [of chunk "length content" content "[]"] by simp

section \<open>Complete lines\<close>

lemma json_char_no_nl: "NL \<notin> set (json_char c)"
proof -
  have "NL \<notin> set (hex_byte c)"
  proof
    assume "NL \<in> set (hex_byte c)"
    then obtain n :: nat where "n < 16" "NL = hex_digit n"
      using less_mult_imp_div_less [of "of_char c :: nat" 16 16] of_char_less_256 [of c] by (auto simp: hex_byte_def intro: that [of "of_char c div 16"] that [of "of_char c mod 16"])
    then have "is_hex NL" by (metis is_hex_hex_digit)
    then show False by (simp add: is_hex_def NL_def)
  qed
  then show ?thesis by (auto simp: json_char_def NL_def)
qed

lemma json_string_no_nl: "NL \<notin> set (json_string s)"
  using json_char_no_nl by (auto simp: json_string_def) (simp_all add: NL_def)

lemma join_no_nl: "NL \<notin> set sep \<Longrightarrow> \<forall>x \<in> set xs. NL \<notin> set x \<Longrightarrow> NL \<notin> set (join_with sep xs)"
  by (induction sep xs rule: join_with.induct) auto

lemma dumps_no_nl: "float_free v \<Longrightarrow> NL \<notin> set (dumps v)"
proof (induction v)
  case (JInt i)
  then show ?case using str_int_chars [of NL i] by (auto simp: NL_def is_digit_def)
next
  case (JList vs)
  then have "NL \<notin> set (join_with '','' (map dumps vs))" by (intro join_no_nl) (auto simp: NL_def)
  then show ?case by (simp add: NL_def)
next
  case (JObj kvs)
  have "NL \<notin> set (member_text kv)" if "kv \<in> set kvs" for kv
    using JObj that json_string_no_nl [of "fst kv"] by (auto simp: member_text_def json_member_def snds.simps NL_def)
  then have "NL \<notin> set (join_with '','' (map member_text (sort_key fst kvs)))" by (intro join_no_nl) (auto simp: NL_def)
  then show ?case unfolding dumps_obj by (simp add: NL_def)
qed (simp_all add: NL_def, use json_string_no_nl NL_def in metis)

definition line_of :: "dict \<Rightarrow> bytes" where
  "line_of e = dumps (JObj e) @ [NL]"

definition lines_text :: "dict list \<Rightarrow> bytes" where
  "lines_text es = concat (map line_of es)"

lemma lines_text_simps [simp]: "lines_text [] = []" "lines_text (e # es) = line_of e @ lines_text es"
    "lines_text (es @ fs) = lines_text es @ lines_text fs"
  by (simp_all add: lines_text_def)

lemma lines_text_end: "lines_text es = [] \<or> last (lines_text es) = NL"
  by (cases es rule: rev_cases) (simp_all add: line_of_def)

lemma lines_text_Nil: "lines_text es = [] \<longleftrightarrow> es = []"
  by (cases es) (simp_all add: line_of_def)

lemma split_lines:
  "\<forall>e \<in> set es. float_free (JObj e) \<Longrightarrow> split_on NL (lines_text es) = map (\<lambda>e. dumps (JObj e)) es @ [[]]"
proof (induction es)
  case (Cons e es)
  then have "NL \<notin> set (dumps (JObj e))" by (intro dumps_no_nl) simp
  then have "split_on NL (line_of e @ lines_text es) = dumps (JObj e) # split_on NL (lines_text es)"
    by (simp add: line_of_def split_on_append del: dumps.simps(8))
  with Cons show ?case by (simp del: dumps.simps(8))
qed simp

lemma dumps_obj_ends: "hd (dumps (JObj e)) = CHR ''{''" "last (dumps (JObj e)) = CHR ''}''" "dumps (JObj e) \<noteq> []"
  by simp_all

lemma strip_object: "strip (dumps (JObj e)) = dumps (JObj e)"
  by (rule strip_ends) (simp_all only: dumps_obj_ends, simp_all add: graphic_def)

section \<open>Entries\<close>

definition call_seq :: "dict \<Rightarrow> int" where
  "call_seq e = hd_seq (entry_head e)"

definition call_hash :: "dict \<Rightarrow> string" where
  "call_hash e = hd_hash (entry_head e)"

definition call_prev :: "dict \<Rightarrow> string" where
  "call_prev e = (case obj_get e ''prev_hash'' of JStr h \<Rightarrow> h | _ \<Rightarrow> [])"

text \<open>An entry as it is read back: members sorted, the three chain fields present, the hash right.\<close>

definition entry_ok :: "dict \<Rightarrow> bool" where
  "entry_ok e \<longleftrightarrow> jnorm (JObj e) = JObj e \<and> float_free (JObj e) \<and> keyed (JObj e) \<and>
     map_of e ''seq'' = Some (JInt (call_seq e)) \<and> map_of e ''entry_hash'' = Some (JStr (call_hash e)) \<and>
     map_of e ''prev_hash'' = Some (JStr (call_prev e)) \<and> call_hash e = entry_hash_of e"

definition call_text :: "dict \<Rightarrow> bytes" where
  "call_text e = dumps (JObj (filter (\<lambda>kv. fst kv \<noteq> ''entry_hash'') e))"

lemma sort_id: "jnorm (JObj e) = JObj e \<Longrightarrow> sort_key fst e = e"
proof -
  assume n: "jnorm (JObj e) = JObj e"
  then have e: "sort_key fst (map (map_prod (\<lambda>k. k) jnorm) e) = e" by simp
  have "sorted (map fst (sort_key fst (map (map_prod (\<lambda>k. k) jnorm) e)))" by simp
  then have "sorted (map fst e)" unfolding e .
  then show ?thesis by (simp add: sort_key_id_if_sorted)
qed

lemma jnorm_idem: "jnorm (jnorm v) = jnorm v"
proof (induction v)
  case (JObj kvs)
  have "map (map_prod (\<lambda>k. k) jnorm) (map (map_prod (\<lambda>k. k) jnorm) kvs) = map (map_prod (\<lambda>k. k) jnorm) kvs"
    using JObj by (auto simp: snds.simps)
  then show ?case by (simp only: jnorm.simps sort_map_prod [symmetric] sort_key_idem)
qed simp_all

lemma float_free_jnorm [simp]: "float_free (jnorm v) \<longleftrightarrow> float_free v"
proof (induction v)
  case (JObj kvs)
  then show ?case by (auto simp: snds.simps)
qed simp_all

lemma keyed_jnorm [simp]: "keyed (jnorm v) \<longleftrightarrow> keyed v"
proof (induction v)
  case (JList vs)
  then show ?case by (simp add: list_all_iff)
next
  case (JObj kvs)
  have "mset (map fst (sort_key fst xs)) = mset (map fst xs)" for xs :: dict by simp
  from this [of "map (map_prod (\<lambda>k. k) jnorm) kvs"]
  have "mset (map fst (sort_key fst (map (map_prod (\<lambda>k. k) jnorm) kvs))) = mset (map fst kvs)"
    by (simp only: fst_map_prod)
  then have "distinct (map fst (sort_key fst (map (map_prod (\<lambda>k. k) jnorm) kvs))) = distinct (map fst kvs)"
    by (rule mset_eq_imp_distinct_iff)
  with JObj show ?case by (auto simp: list_all_iff snds.simps)
qed simp_all

definition sorted_dict :: "dict \<Rightarrow> dict" where
  "sorted_dict d = sort_key fst (map (map_prod (\<lambda>k. k) jnorm) d)"

lemma jnorm_dict: "jnorm (JObj d) = JObj (sorted_dict d)"
  by (simp add: sorted_dict_def)

lemma map_of_sorted_dict: "distinct (map fst d) \<Longrightarrow> map_of (sorted_dict d) k = map_option jnorm (map_of d k)"
proof -
  assume d: "distinct (map fst d)"
  have "map_of (map (map_prod (\<lambda>k. k) f) d) k = map_option f (map_of d k)" for f :: "json \<Rightarrow> json" by (induction d) auto
  then show ?thesis using d by (simp add: sorted_dict_def)
qed

lemma dumps_sorted_dict: "dumps (JObj (sorted_dict d)) = dumps (JObj d)"
  by (simp only: jnorm_dict [symmetric] dumps_jnorm)

lemma filter_sorted_dict: "filter (\<lambda>kv. P (fst kv)) (sorted_dict d) = sorted_dict (filter (\<lambda>kv. P (fst kv)) d)"
  by (simp add: sorted_dict_def filter_sort filter_map comp_def)

lemma entry_hash_sorted: "entry_hash_of (sorted_dict d) = entry_hash_of d"
  by (simp add: entry_hash_of_def filter_sorted_dict [of "\<lambda>k. k \<noteq> ''entry_hash''"] dumps_sorted_dict del: dumps.simps(8))

lemma read_entry_ok: "entry_ok e \<Longrightarrow> read_entry lib (dumps (JObj e)) = Inr (call_seq e, call_hash e, call_prev e, e)"
  using loads_dumps [of "JObj e" "cl_float lib"]
  by (simp add: entry_ok_def read_entry_def py_item_def py_int_def py_str_def del: dumps.simps(8) jnorm.simps(8) float_free_obj keyed.simps(8))

lemma entry_of_line_ok: "entry_ok e \<Longrightarrow> entry_of_line lib (dumps (JObj e)) = Some e"
  using loads_dumps [of "JObj e" "cl_float lib"]
  by (simp add: entry_ok_def entry_of_line_def del: dumps.simps(8) jnorm.simps(8) float_free_obj keyed.simps(8))

definition fields_ok :: "dict \<Rightarrow> bool" where
  "fields_ok fs \<longleftrightarrow> (\<forall>kv \<in> set fs. float_free (snd kv) \<and> keyed (snd kv) \<and> fst kv \<notin> {''seq'', ''ts'', ''prev_hash'', ''entry_hash''})"

lemma foldl_update_dict:
  "map_of (foldl (\<lambda>d kv. AList.update (fst kv) (snd kv) d) d ms) k = (case map_of (rev ms) k of None \<Rightarrow> map_of d k | Some v \<Rightarrow> Some v)"
  by (induction ms rule: rev_induct) (auto simp: map_of_update split: option.split)

lemma foldl_update_values:
  "set (foldl (\<lambda>d kv. AList.update (fst kv) (snd kv) d) d ms) \<subseteq> set d \<union> set ms"
proof (induction ms rule: rev_induct)
  case (snoc m ms)
  have "set (AList.update (fst m) (snd m) x) \<subseteq> insert m (set x)" for x :: "('a \<times> 'b) list" by (induction x) auto
  with snoc show ?case by fastforce
qed simp

lemma foldl_update_distinct:
  "distinct (map fst d) \<Longrightarrow> distinct (map fst (foldl (\<lambda>d kv. AList.update (fst kv) (snd kv) d) d ms))"
  by (induction ms rule: rev_induct) (simp_all add: distinct_update)

lemma filter_dict_set: "filter (\<lambda>kv. fst kv \<noteq> k) (dict_set k v d) = filter (\<lambda>kv. fst kv \<noteq> k) d"
  unfolding dict_set_def by (induction d) auto

lemma dict_set_values: "set (dict_set k v d) \<subseteq> insert (k, v) (set d)"
  unfolding dict_set_def by (induction d) auto

lemma make_entry_ok:
  assumes "fields_ok fs"
  shows "entry_ok (sorted_dict (make_entry now fs h))"
    "call_seq (sorted_dict (make_entry now fs h)) = hd_seq h + 1" "call_prev (sorted_dict (make_entry now fs h)) = hd_hash h"
    "entry_head (sorted_dict (make_entry now fs h)) = entry_head (make_entry now fs h)"
    "k \<notin> {''seq'', ''ts'', ''prev_hash'', ''entry_hash''} \<Longrightarrow>
       map_of (sorted_dict (make_entry now fs h)) k = map_option jnorm (map_of (rev fs) k)"
proof -
  let ?ms = "[(''seq'', JInt (hd_seq h + 1)), (''ts'', JStr (ts_text now)), (''prev_hash'', JStr (hd_hash h))] @ fs"
  let ?whole = "make_entry now fs h"
  define base where "base = dict_of ?ms"
  have e: "?whole = dict_set ''entry_hash'' (JStr (entry_hash_of base)) base" by (simp add: make_entry_def Let_def base_def)
  have fresh: "map_of (rev fs) k = None" if "k \<in> {''seq'', ''ts'', ''prev_hash'', ''entry_hash''}" for k
    using assms that by (auto simp: fields_ok_def map_of_eq_None_iff)
  have d0: "distinct (map fst base)" unfolding base_def dict_of_def by (rule foldl_update_distinct) simp
  then have d: "distinct (map fst ?whole)" unfolding e dict_set_def by (rule distinct_update)
  have m: "map_of ?whole k = (if k = ''entry_hash'' then Some (JStr (entry_hash_of base)) else map_of base k)" for k
    by (simp add: e dict_set_def map_of_update)
  have m0: "map_of base k = (case map_of (rev fs) k of
      None \<Rightarrow> map_of [(''seq'', JInt (hd_seq h + 1)), (''ts'', JStr (ts_text now)), (''prev_hash'', JStr (hd_hash h))] k
    | Some v \<Rightarrow> Some v)" for k
    unfolding base_def dict_of_def foldl_append foldl_update_dict by (auto split: option.split)
  have g: "map_of ?whole ''seq'' = Some (JInt (hd_seq h + 1))" "map_of ?whole ''prev_hash'' = Some (JStr (hd_hash h))"
    "map_of ?whole ''entry_hash'' = Some (JStr (entry_hash_of base))"
    using fresh [of "''seq''"] fresh [of "''prev_hash''"] by (simp_all add: m m0)
  have hh: "entry_hash_of ?whole = entry_hash_of base" by (simp add: e entry_hash_of_def filter_dict_set)
  have vals: "set ?whole \<subseteq> insert (''entry_hash'', JStr (entry_hash_of base)) (set ?ms)"
    unfolding e using dict_set_values [of "''entry_hash''" "JStr (entry_hash_of base)" base] foldl_update_values [of "[]" ?ms]
    by (auto simp: base_def dict_of_def)
  have ff: "float_free (JObj ?whole)" "keyed (JObj ?whole)"
    using vals assms d by (fastforce simp: fields_ok_def list_all_iff)+
  have s: "map_of (sorted_dict ?whole) k = map_option jnorm (map_of ?whole k)" for k by (rule map_of_sorted_dict [OF d])
  have c: "call_seq (sorted_dict ?whole) = hd_seq h + 1" "call_prev (sorted_dict ?whole) = hd_hash h" "call_hash (sorted_dict ?whole) = entry_hash_of base"
    by (simp_all add: call_seq_def call_prev_def call_hash_def entry_head_def obj_get_def s g)
  have "float_free (JObj (sorted_dict ?whole))" "keyed (JObj (sorted_dict ?whole))"
    using ff by (simp_all only: jnorm_dict [symmetric] float_free_jnorm keyed_jnorm)
  moreover have "jnorm (JObj (sorted_dict ?whole)) = JObj (sorted_dict ?whole)" by (simp only: jnorm_dict [symmetric] jnorm_idem)
  ultimately show "entry_ok (sorted_dict ?whole)"
    unfolding entry_ok_def c by (simp add: s g entry_hash_sorted hh)
  show "call_seq (sorted_dict ?whole) = hd_seq h + 1" "call_prev (sorted_dict ?whole) = hd_hash h" by (rule c)+
  show "entry_head (sorted_dict ?whole) = entry_head ?whole" by (simp add: entry_head_def obj_get_def s g)
  show "k \<notin> {''seq'', ''ts'', ''prev_hash'', ''entry_hash''} \<Longrightarrow> map_of (sorted_dict ?whole) k = map_option jnorm (map_of (rev fs) k)"
    unfolding s m m0 by (auto split: option.split)
qed

end
