(* ===== verification/Call_Log_Inv.thy ===== *)
theory Call_Log_Inv
  imports Call_Log_Text Evidence_Theorems
begin

text \<open>
  The invariant of the call log's directory: the files are the texts of groups of entries, one group a day, and all
  entries form one hash chain from the anchor. Reading the head, retention and one append are shown to keep it, and
  how many calls the entries, the open summaries and the outage account for is tracked along.
\<close>

section \<open>The log is a hash chain\<close>

lemma distinct_same_set_mset: "distinct xs \<Longrightarrow> distinct ys \<Longrightarrow> set xs = set ys \<Longrightarrow> mset xs = mset ys"
  by (simp add: set_eq_iff_mset_eq_distinct)

lemma entry_ok_distinct: "entry_ok e \<Longrightarrow> distinct (map fst e)"
  by (metis entry_ok_def keyed_distinct)

lemma call_text_inj:
  assumes "entry_ok e" "entry_ok f" "call_text e = call_text f"
  shows "e = f"
proof -
  let ?P = "\<lambda>kv :: string \<times> json. fst kv \<noteq> ''entry_hash''"
  have n: "sorted_dict e = e" "sorted_dict f = f" using assms by (simp_all add: entry_ok_def jnorm_dict del: jnorm.simps)
  have ff: "float_free (JObj (filter ?P e))" "float_free (JObj (filter ?P f))" using assms by (auto simp: entry_ok_def)
  have "jnorm (JObj (filter ?P e)) = jnorm (JObj (filter ?P f))"
    using assms(3) dumps_inj [OF ff] by (simp add: call_text_def)
  then have "sorted_dict (filter ?P e) = sorted_dict (filter ?P f)" by (simp only: jnorm_dict json.inject)
  then have fl: "filter ?P e = filter ?P f"
    using n by (simp only: filter_sorted_dict [of "\<lambda>k. k \<noteq> ''entry_hash''", symmetric])
  have h: "call_hash e = call_hash f" using assms by (simp add: entry_ok_def entry_hash_of_def call_text_def)
  have mem: "kv \<in> set e \<longleftrightarrow> kv \<in> set f" for kv
  proof (cases "fst kv = ''entry_hash''")
    case False
    then have "kv \<in> set x \<longleftrightarrow> kv \<in> set (filter ?P x)" for x by simp
    with fl show ?thesis by metis
  next
    case True
    have "kv \<in> set x \<longleftrightarrow> map_of x ''entry_hash'' = Some (snd kv)" if "entry_ok x" for x
      using that True map_of_eq_Some_iff [of x "''entry_hash''" "snd kv"] by (cases kv) (simp add: entry_ok_def)
    with assms h show ?thesis by (simp add: entry_ok_def)
  qed
  then have se: "set e = set f" by blast
  moreover have d: "distinct (map fst e)" "distinct (map fst f)" using assms(1,2) by (simp_all only: entry_ok_distinct)
  then have "distinct e" "distinct f" by (simp_all add: distinct_map)
  ultimately have "mset e = mset f" by (metis distinct_same_set_mset se)
  moreover have "inj_on fst (set e)" using d(1) by (simp add: distinct_map)
  ultimately have "sort_key fst e = sort_key fst f" by (rule sort_key_inj_perm)
  moreover have "sort_key fst e = e" "sort_key fst f = f" using assms(1,2) sort_id unfolding entry_ok_def by blast+
  ultimately show ?thesis by simp
qed

interpretation calls: hash_chain CALL_GENESIS call_seq call_prev call_hash call_text entry_ok
  by unfold_locales (auto simp: entry_ok_def entry_hash_of_def call_text_def intro: call_text_inj)

section \<open>The files\<close>

lemma last_line_ok:
  assumes "\<forall>e \<in> set es. entry_ok e" "es \<noteq> [] \<Longrightarrow> length (line_of (last es)) \<le> TAIL_BLOCK"
  shows "last_line lib name (lines_text es) = Inr (if es = [] then None else Some (last es))"
proof (cases es rule: rev_cases)
  case Nil
  then show ?thesis by (simp add: last_line_def tail_lines_def)
next
  case (snoc ds e)
  let ?a = "lines_text ds" and ?k = "length (lines_text es) - min (length (lines_text es)) TAIL_BLOCK"
  have k: "?k \<le> length ?a" using assms(2) snoc by auto
  have e: "entry_ok e" using assms(1) snoc by simp
  have nl: "NL \<notin> set (dumps (JObj e))" using e by (intro dumps_no_nl) (simp add: entry_ok_def)
  have d: "drop ?k (lines_text es) = drop ?k ?a @ line_of e" using k by (simp add: snoc)
  have "drop ?k ?a = [] \<or> last (drop ?k ?a) = NL" using lines_text_end [of ds] by (cases "?k < length ?a") (auto simp: last_drop)
  then obtain xs where "split_on NL (drop ?k (lines_text es)) = xs @ [dumps (JObj e), []]"
  proof
    assume "drop ?k ?a = []"
    then show thesis using that [of "[]"] nl unfolding d by (simp add: line_of_def split_on_append del: dumps.simps)
  next
    assume l: "last (drop ?k ?a) = NL"
    show thesis
    proof (cases "drop ?k ?a" rule: rev_cases)
      case Nil
      then show thesis using that [of "[]"] nl unfolding d by (simp add: line_of_def split_on_append del: dumps.simps)
    next
      case (snoc b c)
      then have "split_on NL (drop ?k ?a @ line_of e) = split_on NL b @ split_on NL (dumps (JObj e) @ [NL])"
        using l by (simp add: line_of_def split_on_break del: dumps.simps)
      then show thesis using that nl unfolding d by (simp add: split_on_append del: dumps.simps)
    qed
  qed
  then have "\<exists>ys. tail_lines (lines_text es) = ys @ [dumps (JObj e)]"
    by (simp add: tail_lines_def strip_object dumps_obj_ends del: dumps.simps)
  then show ?thesis
    using entry_of_line_ok [OF e, of lib] snoc by (auto simp: last_line_def simp del: dumps.simps)
qed

text \<open>The head of a log that starts after \<open>h\<close>.\<close>

definition head_after :: "cl_head \<Rightarrow> dict list \<Rightarrow> cl_head" where
  "head_after h es = (if es = [] then h else entry_head (last es))"

lemma head_after_append: "head_after h (es @ fs) = head_after (head_after h es) fs"
  by (simp add: head_after_def)

lemma linked_head:
  "calls.linked (hd_seq h + 1) (hd_hash h) (es @ fs) \<longleftrightarrow>
     calls.linked (hd_seq h + 1) (hd_hash h) es \<and> calls.linked (hd_seq (head_after h es) + 1) (hd_hash (head_after h es)) fs"
proof (cases es rule: rev_cases)
  case Nil
  then show ?thesis by (simp add: head_after_def)
next
  case (snoc ds e)
  have "calls.linked (hd_seq h + 1) (hd_hash h) es \<Longrightarrow> call_seq e = hd_seq h + 1 + int (length ds)"
    using calls.linked_snoc_pos snoc by blast
  then show ?thesis
    by (auto simp: calls.linked_append snoc head_after_def call_seq_def [symmetric] call_hash_def [symmetric] algebra_simps)
qed

type_synonym grouped = "(string \<times> dict list) list"

definition file_text :: "string \<times> dict list \<Rightarrow> string \<times> bytes" where
  "file_text f = (fst f, lines_text (snd f))"

definition entries :: "grouped \<Rightarrow> dict list" where
  "entries g = concat (map snd g)"

lemma entries_simps [simp]: "entries [] = []" "entries (f # g) = snd f @ entries g" "entries (g @ k) = entries g @ entries k"
  by (simp_all add: entries_def)

text \<open>No line is longer than the block of a file that is read for its last line.\<close>

definition short :: "grouped \<Rightarrow> bool" where
  "short g \<longleftrightarrow> (\<forall>f \<in> set g. \<forall>e \<in> set (snd f). length (line_of e) \<le> TAIL_BLOCK)"

lemma last_line_file:
  "\<forall>e \<in> set (snd f). entry_ok e \<Longrightarrow> short [f] \<Longrightarrow>
     last_line lib name (lines_text (snd f)) = Inr (if snd f = [] then None else Some (last (snd f)))"
  by (rule last_line_ok) (auto simp: short_def)

lemma last_of_files_ok:
  "\<forall>e \<in> set (entries g). entry_ok e \<Longrightarrow> short g \<Longrightarrow>
     last_of_files lib (rev (map file_text g)) = Inr (if entries g = [] then None else Some (last (entries g)))"
proof (induction g rule: rev_induct)
  case (snoc f g)
  have "last_line lib (file_name (fst f)) (lines_text (snd f)) = Inr (if snd f = [] then None else Some (last (snd f)))"
    using snoc.prems by (intro last_line_file) (auto simp: short_def)
  moreover have "last_of_files lib (rev (map file_text g)) = Inr (if entries g = [] then None else Some (last (entries g)))"
    using snoc.prems by (intro snoc.IH) (auto simp: short_def)
  ultimately show ?case by (simp add: file_text_def [of f])
qed simp

lemma entry_items:
  assumes "entry_ok e"
  shows "py_item e ''seq'' = Inr (JInt (call_seq e))" "obj_get e ''entry_hash'' = JStr (call_hash e)"
  using assms by (simp_all add: entry_ok_def py_item_def obj_get_def)

lemma head_of_files_ok:
  "\<forall>e \<in> set (entries g). entry_ok e \<Longrightarrow> short g \<Longrightarrow> anchor_head lib a = Inr h \<Longrightarrow>
     head_of_files lib a (rev (map file_text g)) = Inr (head_after h (entries g))"
proof (induction g rule: rev_induct)
  case (snoc f g)
  have l: "last_line lib (file_name (fst f)) (lines_text (snd f)) = Inr (if snd f = [] then None else Some (last (snd f)))"
    using snoc.prems by (intro last_line_file) (auto simp: short_def)
  have r: "head_of_files lib a (rev (map file_text g)) = Inr (head_after h (entries g))"
    using snoc.prems by (intro snoc.IH) (auto simp: short_def)
  show ?case
  proof (cases "snd f = []")
    case True
    with l r show ?thesis by (simp add: file_text_def [of f])
  next
    case False
    then have "entry_ok (last (snd f))" using snoc.prems(1) by simp
    from entry_items [OF this] l False show ?thesis
      by (simp add: file_text_def [of f] py_int_def py_str_def head_after_def call_seq_def call_hash_def)
  qed
qed (simp add: head_after_def)

section \<open>The invariant of the directory\<close>

text \<open>The files are the texts of groups of entries, one group a day, and all entries are one chain from the anchor.\<close>

definition log_inv :: "cl_lib \<Rightarrow> cl_disk \<Rightarrow> grouped \<Rightarrow> cl_head \<Rightarrow> bool" where
  "log_inv lib d g h \<longleftrightarrow> log_files d = map file_text g \<and> distinct (map fst (cd_files d)) \<and>
     anchor_head lib (cd_anchor d) = Inr h \<and> calls.linked (hd_seq h + 1) (hd_hash h) (entries g)"

lemma files_determined:
  assumes "distinct (map fst xs)" "set xs = set ys" "distinct (map fst ys)" "sorted (map fst ys)"
  shows "sort_key fst xs = (ys :: (string \<times> bytes) list)"
proof -
  have "mset xs = mset ys" using assms by (intro distinct_same_set_mset) (simp_all add: distinct_map)
  moreover have "inj_on fst (set xs)" using assms(1) by (simp add: distinct_map)
  ultimately have "sort_key fst xs = sort_key fst ys" by (rule sort_key_inj_perm)
  then show ?thesis using assms(4) by (simp add: sort_key_id_if_sorted)
qed

lemma log_inv_groups:
  assumes "log_inv lib d g h"
  shows "sorted (map fst g)" "distinct (map fst g)" "set (cd_files d) = set (map file_text g)"
    "\<forall>e \<in> set (entries g). entry_ok e"
proof -
  have l: "sort_key fst (cd_files d) = map file_text g" using assms by (simp add: log_inv_def log_files_def)
  have m: "map fst (map file_text g) = map fst g" by (simp add: file_text_def comp_def)
  have "sorted (map fst (sort_key fst (cd_files d)))" by simp
  then show "sorted (map fst g)" unfolding l m .
  have "mset (map fst (sort_key fst (cd_files d))) = mset (map fst (cd_files d))" by simp
  then have "distinct (map fst (sort_key fst (cd_files d)))"
    using assms mset_eq_imp_distinct_iff unfolding log_inv_def by blast
  then show "distinct (map fst g)" unfolding l m .
  show "set (cd_files d) = set (map file_text g)" by (metis l set_sort)
  show "\<forall>e \<in> set (entries g). entry_ok e" using assms calls.linked_ok unfolding log_inv_def by blast
qed

lemma log_head_ok: "log_inv lib d g h \<Longrightarrow> short g \<Longrightarrow> log_head lib d = Inr (head_after h (entries g))"
  using head_of_files_ok [OF log_inv_groups(4), of lib d g h lib "cd_anchor d" h] by (simp add: log_head_def log_inv_def)

subsection \<open>Retention\<close>

definition cutoff :: "cl_env \<Rightarrow> string option" where
  "cutoff env = map_option (\<lambda>(y, m, d). day_text y m d)
     (days_before (nat (retain_days (ce_vars env))) (dt_year (ce_now env)) (dt_month (ce_now env)) (dt_day (ce_now env)))"

lemma sorted_split: "sorted (map fst g) \<Longrightarrow> g = filter (\<lambda>f. fst f < c) g @ filter (\<lambda>f. \<not> fst f < c) g"
  for c :: string and g :: grouped
proof (induction g)
  case (Cons f g)
  show ?case
  proof (cases "fst f < c")
    case False
    then have "filter (\<lambda>f. fst f < c) g = []" using Cons.prems by (fastforce simp: filter_empty_conv)
    with False Cons show ?thesis by simp
  qed (use Cons in simp)
qed simp

lemma rotate_ok:
  assumes inv: "log_inv lib (cs_disk s) g h" and today: "\<forall>f \<in> set g. fst f \<le> today"
    and sh: "short (filter (\<lambda>f. fst f \<noteq> today) g)"
    and rot: "rotate_and_retain lib env s = (r, s')"
  shows "\<exists>go g' h'. g = go @ g' \<and> log_inv lib (cs_disk s') g' h' \<and> head_after h' (entries g') = head_after h (entries g) \<and>
    cs_proc s' = cs_proc s \<and> cs_io s' = cs_io s \<and> cd_degraded (cs_disk s') = cd_degraded (cs_disk s) \<and>
    (\<forall>c. cutoff env = Some c \<longrightarrow> (\<forall>f \<in> set g. \<not> fst f < c) \<longrightarrow> go = [])"
proof (cases "s' = s")
  case True
  with inv show ?thesis by (intro exI [where x = "[]"] exI [where x = g] exI [where x = h]) simp
next
  case False
  let ?d = "cs_disk s"
  have files: "log_files ?d = map file_text g" using inv by (simp add: log_inv_def)
  obtain c where c: "cutoff env = Some c"
    using rot False by (auto simp: rotate_and_retain_def cutoff_def Let_def split: option.splits)
  define go where "go = filter (\<lambda>f. fst f < c) g"
  define g' where "g' = filter (\<lambda>f. \<not> fst f < c) g"
  define old where "old = map file_text go"
  have g: "g = go @ g'" unfolding go_def g'_def by (rule sorted_split [OF log_inv_groups(1) [OF inv]])
  have old: "filter (\<lambda>p. fst p < c) (log_files ?d) = old"
    by (simp add: files old_def go_def filter_map comp_def file_text_def)
  let ?rm = "set_disk (\<lambda>d. d\<lparr>cd_files := filter (\<lambda>p. p \<notin> set old) (cd_files d)\<rparr>)"
  let ?found = "last_of_files lib (rev old)"
  from rot c have step: "rotate_and_retain lib env s =
      (if old = [] \<or> length old \<ge> length (log_files ?d) then (Inr (), s)
       else case ?found of Inl e \<Rightarrow> (Inl e, s)
         | Inr None \<Rightarrow> (Inr (), ?rm s)
         | Inr (Some e) \<Rightarrow> (case py_item e ''seq'' of Inl x \<Rightarrow> (Inl (Py x), s)
             | Inr n \<Rightarrow> (Inr (), ?rm (set_disk (\<lambda>d. d\<lparr>cd_anchor := Some \<lparr>an_seq = n, an_hash = obj_get e ''entry_hash'',
                 an_file = file_name (fst (last old)), an_deleted = ts_text (ce_now env)\<rparr>\<rparr>) s))))"
    unfolding rotate_and_retain_def cutoff_def Let_def by (auto simp: old [symmetric] split: option.split sum.split)
  with rot False have some: "old \<noteq> []" "length old < length (log_files ?d)" by (auto split: if_splits)
  then have ne: "g' \<noteq> []" using g by (simp add: files old_def)
  then obtain f where f: "f \<in> set g'" by (cases g') auto
  then have "\<not> fst f < c" "f \<in> set g" by (simp_all add: g'_def)
  with today have "c \<le> today" by (metis leI order.trans)
  then have "\<forall>f \<in> set go. fst f \<noteq> today" by (auto simp: go_def)
  then have shg: "short go" using sh by (auto simp: short_def g)
  have eok: "\<forall>e \<in> set (entries go). entry_ok e" using log_inv_groups(4) [OF inv] g by simp
  have found: "?found = Inr (if entries go = [] then None else Some (last (entries go)))"
    unfolding old_def by (rule last_of_files_ok [OF eok shg])
  have keep: "log_files (cs_disk (?rm x)) = map file_text g'" "distinct (map fst (cd_files (cs_disk (?rm x))))"
    if "cd_files (cs_disk x) = cd_files ?d" for x
  proof -
    have dg: "distinct (map fst g)" by (rule log_inv_groups(2) [OF inv])
    have "file_text f \<notin> set old \<longleftrightarrow> \<not> fst f < c" if "f \<in> set g" for f
      using that dg by (auto simp: old_def go_def file_text_def image_iff eq_key_imp_eq_value) (metis prod.collapse)
    then have "filter (\<lambda>p. p \<notin> set old) (map file_text g) = map file_text g'"
      by (simp add: filter_map comp_def g'_def cong: filter_cong)
    then show "log_files (cs_disk (?rm x)) = map file_text g'"
      using files that by (simp add: set_disk_def log_files_def filter_sort [symmetric])
    show "distinct (map fst (cd_files (cs_disk (?rm x))))"
      using inv that by (simp add: set_disk_def log_inv_def distinct_map_filter)
  qed
  have link: "calls.linked (hd_seq h + 1) (hd_hash h) (entries go @ entries g')"
    using inv by (simp add: log_inv_def g)
  have cond: "\<forall>c'. cutoff env = Some c' \<longrightarrow> (\<forall>f \<in> set g. \<not> fst f < c') \<longrightarrow> go = []"
    by (simp add: c go_def filter_empty_conv)
  show ?thesis
  proof (cases "entries go = []")
    case True
    have s': "s' = ?rm s" using rot unfolding step using some found True by simp
    have "log_inv lib (cs_disk s') g' h"
      using keep [of s] link True inv by (simp add: s' log_inv_def) (simp add: set_disk_def)
    then show ?thesis using g cond True
      by (intro exI [where x = go] exI [where x = g'] exI [where x = h]) (simp add: s' set_disk_def)
  next
    case ne: False
    let ?e = "last (entries go)"
    have e: "entry_ok ?e" using eok ne by simp
    let ?a = "\<lparr>an_seq = JInt (call_seq ?e), an_hash = JStr (call_hash ?e), an_file = file_name (fst (last old)), an_deleted = ts_text (ce_now env)\<rparr>"
    have s': "s' = ?rm (set_disk (\<lambda>d. d\<lparr>cd_anchor := Some ?a\<rparr>) s)"
      using rot unfolding step using some found ne entry_items [OF e] by simp
    have h': "anchor_head lib (Some ?a) = Inr (head_after h (entries go))"
      using ne by (simp add: anchor_head_def py_int_def py_str_def head_after_def call_seq_def call_hash_def)
    have "log_inv lib (cs_disk s') g' (head_after h (entries go))"
      using keep [of "set_disk (\<lambda>d. d\<lparr>cd_anchor := Some ?a\<rparr>) s"] link h' unfolding linked_head
      by (simp add: s' log_inv_def) (simp add: set_disk_def)
    then show ?thesis using g cond
      by (intro exI [where x = go] exI [where x = g'] exI [where x = "head_after h (entries go)"])
        (simp add: s' set_disk_def head_after_append)
  qed
qed

subsection \<open>One line\<close>

definition put_entry :: "string \<Rightarrow> dict \<Rightarrow> grouped \<Rightarrow> grouped" where
  "put_entry day e g =
     (if g \<noteq> [] \<and> fst (last g) = day then butlast g @ [(day, snd (last g) @ [e])] else g @ [(day, [e])])"

lemma entries_put: "entries (put_entry day e g) = entries g @ [e]"
  by (cases g rule: rev_cases) (auto simp: put_entry_def)

lemma put_entry_days: "\<forall>f \<in> set g. fst f \<le> day \<Longrightarrow> \<forall>f \<in> set (put_entry day e g). fst f \<le> day"
  by (cases g rule: rev_cases) (auto simp: put_entry_def)

lemma put_entry_others: "filter (\<lambda>f. fst f \<noteq> day) (put_entry day e g) = filter (\<lambda>f. fst f \<noteq> day) g"
  by (cases g rule: rev_cases) (auto simp: put_entry_def)

lemma day_group:
  assumes "sorted (map fst g)" "distinct (map fst g)" "\<forall>f \<in> set g. fst f \<le> day"
  shows "map_of g day = (if g \<noteq> [] \<and> fst (last g) = day then Some (snd (last g)) else None)"
proof (cases g rule: rev_cases)
  case (snoc k f)
  have "fst x \<noteq> day" if "x \<in> set k" for x
  proof -
    have "fst x \<le> fst f" "fst x \<noteq> fst f" using assms(1,2) that snoc by (auto simp: sorted_append image_iff)
    moreover have "fst f \<le> day" using assms(3) snoc by simp
    ultimately show ?thesis by auto
  qed
  then have "map_of k day = None" by (auto simp: map_of_eq_None_iff)
  with snoc show ?thesis by (cases f) (auto simp: map_add_def)
qed simp

lemma map_of_determined: "distinct (map fst xs) \<Longrightarrow> distinct (map fst ys) \<Longrightarrow> set xs = set ys \<Longrightarrow> map_of xs = map_of ys"
  by (rule map_of_inject_set [THEN iffD2])

lemma log_inv_content:
  assumes "log_inv lib d g h" "\<forall>f \<in> set g. fst f \<le> day"
  shows "file_content d day = (if g \<noteq> [] \<and> fst (last g) = day then lines_text (snd (last g)) else [])"
proof -
  have "map_of (cd_files d) = map_of (map file_text g)"
    using log_inv_groups [OF assms(1)] assms(1) by (intro map_of_determined) (simp_all add: log_inv_def file_text_def comp_def)
  moreover have "map_of (map file_text g) day = map_option lines_text (map_of g day)"
    by (induction g) (auto simp: file_text_def)
  ultimately show ?thesis
    using day_group [OF log_inv_groups(1,2) [OF assms(1)] assms(2)] by (simp add: file_content_def)
qed

lemma update_set: "distinct (map fst d) \<Longrightarrow> set (AList.update k v d) = {x \<in> set d. fst x \<noteq> k} \<union> {(k, v)}"
  by (induction d) (auto simp: image_iff)

lemma add_line_inv:
  assumes inv: "log_inv lib d g h" and today: "\<forall>f \<in> set g. fst f \<le> day"
    and e: "entry_ok e" "call_seq e = hd_seq (head_after h (entries g)) + 1" "call_prev e = hd_hash (head_after h (entries g))"
  shows "log_inv lib (add_bytes day (line_of e) d) (put_entry day e g) h"
    "file_content d day = [] \<or> last (file_content d day) = NL"
proof -
  note G = log_inv_groups [OF inv]
  have c: "file_content d day = (if g \<noteq> [] \<and> fst (last g) = day then lines_text (snd (last g)) else [])"
    by (rule log_inv_content [OF inv today])
  then show "file_content d day = [] \<or> last (file_content d day) = NL" using lines_text_end by auto
  let ?g = "put_entry day e g" and ?new = "file_content d day @ line_of e"
  have d: "distinct (map fst (cd_files d))" using inv by (simp add: log_inv_def)
  have rest: "x \<in> set (butlast g) \<Longrightarrow> fst x \<noteq> fst (last g)" for x
    using G(2) by (cases g rule: rev_cases) auto
  have strict: "x \<in> set g \<Longrightarrow> g \<noteq> [] \<and> fst (last g) = day \<or> fst x \<noteq> day" for x
    using day_group [OF G(1,2) today] by (auto simp: map_of_eq_None_iff split: if_splits)
  have files: "set (cd_files (add_bytes day (line_of e) d)) = set (map file_text ?g)"
  proof (cases "g \<noteq> [] \<and> fst (last g) = day")
    case True
    then obtain k f where g: "g = k @ [f]" "fst f = day" by (cases g rule: rev_cases) auto
    have "\<forall>x \<in> set k. fst x \<noteq> day" using rest g by auto
    then show ?thesis
      using G(3) by (auto simp: add_bytes_def update_set [OF d] put_entry_def c g file_text_def)
  next
    case False
    then have "\<forall>x \<in> set g. fst x \<noteq> day" using strict by blast
    with False show ?thesis
      using G(3) by (auto simp: add_bytes_def update_set [OF d] put_entry_def c file_text_def)
  qed
  have sorted: "sorted (map fst ?g)" "distinct (map fst ?g)"
  proof -
    show "sorted (map fst ?g)"
      using G(1) today by (cases g rule: rev_cases) (auto simp: put_entry_def sorted_append)
    show "distinct (map fst ?g)"
      using G(2) strict by (cases g rule: rev_cases) (auto simp: put_entry_def)
  qed
  have m: "map fst (map file_text ?g) = map fst ?g" by (simp add: file_text_def comp_def)
  have "distinct (map fst (cd_files (add_bytes day (line_of e) d)))"
    using d by (simp add: add_bytes_def distinct_update)
  moreover from this have "log_files (add_bytes day (line_of e) d) = map file_text ?g"
    unfolding log_files_def using files sorted by (intro files_determined) (simp_all only: m)
  moreover have "anchor_head lib (cd_anchor (add_bytes day (line_of e) d)) = Inr h"
    using inv by (simp add: log_inv_def add_bytes_def)
  moreover have "calls.linked (hd_seq h + 1) (hd_hash h) (entries ?g)"
    using inv e unfolding entries_put linked_head log_inv_def by simp
  ultimately show "log_inv lib (add_bytes day (line_of e) d) ?g h" by (simp add: log_inv_def)
qed

section \<open>Operations\<close>

text \<open>How many calls an entry stands for.\<close>

definition weight :: "dict \<Rightarrow> int" where
  "weight e = (if obj_get e ''outcome'' \<in> {JStr ''gap'', JStr ''denied_suppressed'', JStr ''read_suppressed''}
               then (case obj_get e ''count'' of JInt n \<Rightarrow> n | _ \<Rightarrow> 0) else 1)"

definition unlogged :: "cl_state \<Rightarrow> int" where
  "unlogged s = (case degraded s of None \<Rightarrow> 0 | Some g \<Rightarrow> og_unlogged g)"

definition no_retention :: "cl_env \<Rightarrow> grouped \<Rightarrow> bool" where
  "no_retention env g \<longleftrightarrow> (\<forall>c. cutoff env = Some c \<longrightarrow> \<not> today_text (ce_now env) < c \<and> (\<forall>f \<in> set g. \<not> fst f < c))"

definition io_clean :: "cl_state \<Rightarrow> bool" where
  "io_clean s \<longleftrightarrow> set (cs_io s) \<subseteq> {Io_ok, Io_fail}"

text \<open>
  The state of an operation: the directory is in order, \<open>H\<close> is its head, what other days hold is short, appends are
  complete or nothing; with \<open>keep\<close> (nothing is retired, the DEGRADED file can be removed), the entries, the open
  summaries and the outage account for \<open>n\<close> calls.
\<close>

definition state_at :: "cl_lib \<Rightarrow> cl_env \<Rightarrow> bool \<Rightarrow> cl_state \<Rightarrow> cl_head \<Rightarrow> int \<Rightarrow> bool" where
  "state_at lib env keep s H n \<longleftrightarrow>
     (\<exists>g h. log_inv lib (cs_disk s) g h \<and> H = head_after h (entries g) \<and> (\<forall>f \<in> set g. fst f \<le> today_text (ce_now env)) \<and>
        short (filter (\<lambda>f. fst f \<noteq> today_text (ce_now env)) g) \<and> io_clean s \<and>
        (keep \<longrightarrow> ce_unlink env \<and> no_retention env g \<and> distinct (map fst (cp_reads (cs_proc s))) \<and>
           sum_list (map weight (entries g)) + pending (cs_proc s) + unlogged s = n))"

definition result_ok :: "cl_lib \<Rightarrow> cl_env \<Rightarrow> bool \<Rightarrow> int \<Rightarrow> ('a \<Rightarrow> cl_state \<Rightarrow> bool) \<Rightarrow> (cl_exc + 'a) \<times> cl_state \<Rightarrow> bool" where
  "result_ok lib env keep n P r \<longleftrightarrow>
     (case fst r of Inl _ \<Rightarrow> \<exists>H. state_at lib env keep (snd r) H n | Inr a \<Rightarrow> P a (snd r))"

lemma result_bind:
  assumes "result_ok lib env keep n P (m s)" "\<And>a s'. P a s' \<Longrightarrow> result_ok lib env keep n Q (f a s')"
  shows "result_ok lib env keep n Q (cl_bind m f s)"
proof -
  obtain r s' where ms: "m s = (r, s')" by (cases "m s")
  show ?thesis
  proof (cases r)
    case (Inr a)
    then have "P a s'" using assms(1) by (simp add: result_ok_def ms)
    from assms(2) [OF this] show ?thesis by (simp add: cl_bind_def ms Inr)
  qed (use assms(1) ms in \<open>simp add: result_ok_def cl_bind_def\<close>)
qed

lemma result_weaken: "result_ok lib env keep n P r \<Longrightarrow> (\<And>a s'. P a s' \<Longrightarrow> Q a s') \<Longrightarrow> result_ok lib env keep n Q r"
  by (auto simp: result_ok_def split: sum.splits)

lemma obj_get_logged:
  assumes "fields_ok fs" "k \<notin> {''seq'', ''ts'', ''prev_hash'', ''entry_hash''}"
  shows "obj_get (sorted_dict (make_entry now fs h)) k = jnorm (obj_get (rev fs) k)"
  using make_entry_ok(5) [OF assms] by (simp add: obj_get_def split: option.split)

lemma jnorm_leaf: "jnorm v = JStr s \<longleftrightarrow> v = JStr s" "jnorm v = JInt i \<longleftrightarrow> v = JInt i"
  by (cases v; simp)+

lemma weight_logged:
  assumes "fields_ok fs"
  shows "weight (sorted_dict (make_entry now fs h)) = weight (rev fs)"
proof -
  have c: "(case jnorm v of JInt n \<Rightarrow> n | _ \<Rightarrow> 0) = (case v of JInt n \<Rightarrow> n | _ \<Rightarrow> 0)" for v :: json by (cases v) simp_all
  show ?thesis
    by (simp add: weight_def obj_get_logged [OF assms] jnorm_leaf c)
qed

lemma append_locked_ok:
  assumes "state_at lib env keep s H n" "fields_ok fs"
  shows "result_ok lib env keep n (\<lambda>e s'. state_at lib env keep s' (entry_head e) (n + weight (rev fs)) \<and>
    cs_proc s' = cs_proc s \<and> degraded s' = degraded s) (append_locked lib env fs H s)"
proof -
  obtain g h where inv: "log_inv lib (cs_disk s) g h" and H: "H = head_after h (entries g)"
    and today: "\<forall>f \<in> set g. fst f \<le> today_text (ce_now env)" and sh: "short (filter (\<lambda>f. fst f \<noteq> today_text (ce_now env)) g)"
    and io: "io_clean s" and keep: "keep \<Longrightarrow> ce_unlink env \<and> no_retention env g \<and> distinct (map fst (cp_reads (cs_proc s))) \<and>
      sum_list (map weight (entries g)) + pending (cs_proc s) + unlogged s = n"
    using assms(1) by (auto simp: state_at_def)
  let ?day = "today_text (ce_now env)" and ?entry = "make_entry (ce_now env) fs H"
  obtain r s1 where rot: "rotate_and_retain lib env s = (r, s1)" by (cases "rotate_and_retain lib env s") auto
  obtain go g1 h1 where g: "g = go @ g1" and inv1: "log_inv lib (cs_disk s1) g1 h1" and H1: "head_after h1 (entries g1) = H"
    and same: "cs_proc s1 = cs_proc s" "cs_io s1 = cs_io s" "cd_degraded (cs_disk s1) = cd_degraded (cs_disk s)"
    and go: "\<forall>c. cutoff env = Some c \<longrightarrow> (\<forall>f \<in> set g. \<not> fst f < c) \<longrightarrow> go = []"
    using rotate_ok [OF inv today sh rot] H by blast
  have deg: "degraded s1 = degraded s" by (simp add: degraded_def same)
  have today1: "\<forall>f \<in> set g1. fst f \<le> ?day" and sh1: "short (filter (\<lambda>f. fst f \<noteq> ?day) g1)"
    using today sh by (simp_all add: g short_def ball_Un)
  have at1: "state_at lib env keep s1 H n" if c: "\<exists>c. cutoff env = Some c"
  proof -
    have k: "keep \<longrightarrow> ce_unlink env \<and> no_retention env g1 \<and> distinct (map fst (cp_reads (cs_proc s1))) \<and>
        sum_list (map weight (entries g1)) + pending (cs_proc s1) + unlogged s1 = n"
    proof
      assume keep
      note K = keep [OF this]
      then have "go = []" using go c by (auto simp: no_retention_def)
      then show "ce_unlink env \<and> no_retention env g1 \<and> distinct (map fst (cp_reads (cs_proc s1))) \<and>
          sum_list (map weight (entries g1)) + pending (cs_proc s1) + unlogged s1 = n"
        using K g by (simp add: same unlogged_def deg)
    qed
    show ?thesis
      unfolding state_at_def by (rule exI [where x = g1], rule exI [where x = h1]) (use inv1 H1 today1 sh1 io same k in \<open>simp add: io_clean_def\<close>)
  qed
  show ?thesis
  proof (cases r)
    case (Inl x)
    have "\<exists>H. state_at lib env keep s1 H n"
    proof (cases "cutoff env")
      case None
      then have "s1 = s" using rot by (auto simp: rotate_and_retain_def cutoff_def Let_def split: option.splits)
      with assms(1) show ?thesis by blast
    qed (use at1 in blast)
    then show ?thesis by (simp add: append_locked_def Let_def cl_bind_def rot Inl result_ok_def)
  next
    case (Inr u)
    have c: "\<exists>c. cutoff env = Some c"
    proof (cases "cutoff env")
      case None
      then show ?thesis using rot Inr by (auto simp: rotate_and_retain_def cutoff_def Let_def split: option.splits)
    qed simp
    note at1 = at1 [OF c]
    let ?e = "sorted_dict ?entry" and ?io = "case cs_io s1 of [] \<Rightarrow> Io_ok | x # _ \<Rightarrow> x"
    note E = make_entry_ok(1-4) [OF assms(2), of "ce_now env" H]
    have line: "dumps (JObj ?entry) @ [NL] = line_of ?e" by (simp add: line_of_def dumps_sorted_dict del: dumps.simps)
    note add = add_line_inv [OF inv1 today1 E(1), unfolded H1, OF E(2,3)]
    have data: "(if file_content (cs_disk s1) ?day \<noteq> [] \<and> last (file_content (cs_disk s1) ?day) \<noteq> NL then [NL] else []) = []"
      using add(2) by auto
    have io1: "?io = Io_ok \<or> ?io = Io_fail" using io same by (auto simp: io_clean_def split: list.split)
    have tl: "set (tl (cs_io s1)) \<subseteq> {Io_ok, Io_fail}" using io unfolding same(2) io_clean_def by (cases "cs_io s") auto
    let ?s2 = "s1\<lparr>cs_io := tl (cs_io s1)\<rparr>"
    from io1 show ?thesis
    proof
      assume f: "?io = Io_fail"
      have "state_at lib env keep ?s2 H n" using at1 tl by (auto simp: state_at_def io_clean_def unlogged_def degraded_def)
      then have "\<exists>H. state_at lib env keep ?s2 H n" by blast
      then show ?thesis
        using f by (simp add: append_locked_def Let_def cl_bind_def rot Inr write_line_def result_ok_def)
    next
      assume f: "?io = Io_ok"
      let ?s3 = "set_disk (add_bytes ?day (line_of ?e)) ?s2"
      have run: "append_locked lib env fs H s = (Inr ?entry, ?s3)"
        using f data unfolding append_locked_def Let_def cl_bind_def rot Inr write_line_def prod.case sum.case append_assoc
        by (simp add: line cl_return_def del: dumps.simps)
      have deg3: "degraded ?s3 = degraded s" by (simp add: degraded_def set_disk_def add_bytes_def same)
      have un3: "unlogged ?s3 = unlogged s" by (simp add: unlogged_def deg3)
      have pr3: "cs_proc ?s3 = cs_proc s" by (simp add: set_disk_def same)
      have inv3: "log_inv lib (cs_disk ?s3) (put_entry ?day ?e g1) h1" using add(1) by (simp add: set_disk_def)
      have k: "keep \<longrightarrow> ce_unlink env \<and> no_retention env (put_entry ?day ?e g1) \<and> distinct (map fst (cp_reads (cs_proc ?s3))) \<and>
          sum_list (map weight (entries (put_entry ?day ?e g1))) + pending (cs_proc ?s3) + unlogged ?s3 = n + weight (rev fs)"
      proof
        assume keep
        note K = keep [OF this]
        then have "go = []" using go c by (auto simp: no_retention_def)
        moreover have "no_retention env g \<Longrightarrow> no_retention env (put_entry ?day ?e g)"
          by (cases g rule: rev_cases) (auto simp: no_retention_def put_entry_def)
        ultimately show "ce_unlink env \<and> no_retention env (put_entry ?day ?e g1) \<and> distinct (map fst (cp_reads (cs_proc ?s3))) \<and>
            sum_list (map weight (entries (put_entry ?day ?e g1))) + pending (cs_proc ?s3) + unlogged ?s3 = n + weight (rev fs)"
          using K g unfolding un3 pr3 by (simp add: entries_put weight_logged [OF assms(2)])
      qed
      have "state_at lib env keep ?s3 (entry_head ?entry) (n + weight (rev fs))"
        unfolding state_at_def
        by (rule exI [where x = "put_entry ?day ?e g1"], rule exI [where x = h1])
          (use inv3 put_entry_days [OF today1] sh1 tl k in
            \<open>simp add: put_entry_others entries_put head_after_append E(4) io_clean_def head_after_def\<close>, simp add: set_disk_def)
      then show ?thesis unfolding run by (simp add: result_ok_def deg3) (simp add: set_disk_def same)
    qed
  qed
qed

end
