(* ===== verification/Call_Log_Runs.thy ===== *)
theory Call_Log_Runs
  imports Call_Log_Inv
begin

text \<open>
  Every operation of the call log keeps the invariant of the directory and accounts for every call, whatever the
  process remembers and whichever appends fail; the directories that any sequence of operations by any processes leaves.
\<close>

section \<open>Summaries and gaps\<close>

lemma state_at_proc:
  assumes "state_at lib env keep s H n" "cp_outage (f (cs_proc s)) = cp_outage (cs_proc s)"
    and "keep \<Longrightarrow> distinct (map fst (cp_reads (cs_proc s))) \<Longrightarrow>
      distinct (map fst (cp_reads (f (cs_proc s)))) \<and> pending (f (cs_proc s)) + n = pending (cs_proc s) + m"
  shows "state_at lib env keep (set_proc f s) H m"
proof -
  have "unlogged (set_proc f s) = unlogged s" using assms(2) by (simp add: unlogged_def degraded_def set_proc_def)
  then show ?thesis using assms(1,3) by (fastforce simp: state_at_def io_clean_def set_proc_def)
qed

lemma summary_ok:
  "fields_ok (denied_summary w)" "fields_ok (read_summary key w)" "fields_ok (gap_entry env g)"
  by (simp_all add: fields_ok_def denied_summary_def read_summary_def summary_fields_def gap_entry_def)

lemma summary_weight:
  "weight (rev (denied_summary w)) = w_count w" "weight (rev (read_summary key w)) = w_count w"
  "weight (rev (gap_entry env g)) = og_unlogged g"
  by (simp_all add: weight_def obj_get_def denied_summary_def read_summary_def summary_fields_def gap_entry_def)

lemma flush_suppressed_ok:
  assumes "state_at lib env keep s H n"
  shows "result_ok lib env keep n (\<lambda>H' s'. state_at lib env keep s' H' n) (flush_suppressed_locked lib env H s)"
proof (cases "cp_suppressed (cs_proc s)")
  case None
  with assms show ?thesis by (simp add: flush_suppressed_locked_def result_ok_def)
next
  case (Some w)
  have "result_ok lib env keep n (\<lambda>H' s'. state_at lib env keep s' H' n)
      (cl_bind (append_locked lib env (denied_summary w) H) (\<lambda>e s. (Inr (entry_head e), set_proc (\<lambda>p. p\<lparr>cp_suppressed := None\<rparr>) s)) s)"
  proof (rule result_bind, rule append_locked_ok [OF assms summary_ok(1)])
    fix e s'
    assume a: "state_at lib env keep s' (entry_head e) (n + weight (rev (denied_summary w))) \<and> cs_proc s' = cs_proc s \<and> degraded s' = degraded s"
    have "state_at lib env keep (set_proc (\<lambda>p. p\<lparr>cp_suppressed := None\<rparr>) s') (entry_head e) n"
      by (rule state_at_proc [OF conjunct1 [OF a]]) (use a Some in \<open>simp_all add: pending_def summary_weight\<close>)
    then show "result_ok lib env keep n (\<lambda>H' s'. state_at lib env keep s' H' n)
        (Inr (entry_head e), set_proc (\<lambda>p. p\<lparr>cp_suppressed := None\<rparr>) s')" by (simp add: result_ok_def)
  qed
  then show ?thesis by (simp add: flush_suppressed_locked_def Some)
qed

lemma delete_sum:
  "distinct (map fst xs) \<Longrightarrow> map_of xs k = Some w \<Longrightarrow>
     sum_list (map (\<lambda>kw. f (snd kw)) (AList.delete k xs)) + f w = (sum_list (map (\<lambda>kw. f (snd kw)) xs) :: int)"
proof (induction xs)
  case (Cons x xs)
  then show ?case
    by (cases "fst x = k") (auto simp: delete_idem image_iff)
qed simp

lemma flush_reads_loop_ok:
  "state_at lib env keep s H n \<Longrightarrow>
     result_ok lib env keep n (\<lambda>H' s'. state_at lib env keep s' H' n) (flush_reads_loop lib env keys H s)"
proof (induction lib env keys H s rule: flush_reads_loop.induct)
  case (1 lib env h s)
  then show ?case by (simp add: result_ok_def)
next
  case (2 lib env key keys h s)
  show ?case
  proof (cases "map_of (cp_reads (cs_proc s)) key")
    case None
    with "2.prems" show ?thesis by (auto simp: result_ok_def)
  next
    case (Some w)
    let ?f = "\<lambda>p. p\<lparr>cp_reads := AList.delete key (cp_reads p)\<rparr>"
    have "result_ok lib env keep n (\<lambda>H' s'. state_at lib env keep s' H' n)
        (cl_bind (append_locked lib env (read_summary key w) h) (\<lambda>e s. flush_reads_loop lib env keys (entry_head e) (set_proc ?f s)) s)"
    proof (rule result_bind, rule append_locked_ok [OF "2.prems" summary_ok(2)])
      fix e s'
      assume a: "state_at lib env keep s' (entry_head e) (n + weight (rev (read_summary key w))) \<and> cs_proc s' = cs_proc s \<and> degraded s' = degraded s"
      have "state_at lib env keep (set_proc ?f s') (entry_head e) n"
        by (rule state_at_proc [OF conjunct1 [OF a]])
          (use a Some delete_sum [of "cp_reads (cs_proc s)" key w w_count] in \<open>simp_all add: pending_def summary_weight distinct_delete\<close>)
      then show "result_ok lib env keep n (\<lambda>H' s'. state_at lib env keep s' H' n) (flush_reads_loop lib env keys (entry_head e) (set_proc ?f s'))"
        by (rule "2.IH" [OF Some])
    qed
    then show ?thesis by (simp add: Some)
  qed
qed

lemma flush_reads_ok:
  "state_at lib env keep s H n \<Longrightarrow>
     result_ok lib env keep n (\<lambda>H' s'. state_at lib env keep s' H' n) (flush_reads_locked lib env H s)"
  unfolding flush_reads_locked_def by (rule flush_reads_loop_ok)

lemma recover_ok:
  assumes "state_at lib env keep s H n"
  shows "result_ok lib env keep n (\<lambda>H' s'. state_at lib env keep s' H' n \<and> (ce_unlink env \<longrightarrow> degraded s' = None)) (recover lib env H s)"
proof (cases "degraded s")
  case None
  with assms show ?thesis by (simp add: recover_def result_ok_def)
next
  case (Some g)
  let ?P = "\<lambda>H' s'. state_at lib env keep s' H' n \<and> (ce_unlink env \<longrightarrow> degraded s' = None)"
  have "result_ok lib env keep n ?P
      (cl_bind (append_locked lib env (gap_entry env g) H) (\<lambda>e s. (Inr (entry_head e), clear_degraded env s)) s)"
  proof (rule result_bind, rule append_locked_ok [OF assms summary_ok(3)])
    fix e s'
    assume a: "state_at lib env keep s' (entry_head e) (n + weight (rev (gap_entry env g))) \<and> cs_proc s' = cs_proc s \<and> degraded s' = degraded s"
    have c: "ce_unlink env \<Longrightarrow> degraded (clear_degraded env s') = None"
      by (simp add: degraded_def clear_degraded_def set_disk_def set_proc_def combine_def)
    have u: "unlogged s' = og_unlogged g" "ce_unlink env \<Longrightarrow> unlogged (clear_degraded env s') = 0"
      using a Some c by (simp_all add: unlogged_def)
    have d: "log_inv lib (cs_disk (clear_degraded env s')) gr h = log_inv lib (cs_disk s') gr h" for gr h
      by (simp add: clear_degraded_def set_disk_def set_proc_def log_inv_def log_files_def)
    have p: "pending (cs_proc (clear_degraded env s')) = pending (cs_proc s')" "cp_reads (cs_proc (clear_degraded env s')) = cp_reads (cs_proc s')"
      "cs_io (clear_degraded env s') = cs_io s'"
      by (simp_all add: clear_degraded_def set_disk_def set_proc_def pending_def)
    have "state_at lib env keep (clear_degraded env s') (entry_head e) n"
      using a u unfolding state_at_def d p io_clean_def summary_weight by fastforce
    then show "result_ok lib env keep n ?P (Inr (entry_head e), clear_degraded env s')" using c by (simp add: result_ok_def)
  qed
  then show ?thesis by (simp add: recover_def Some)
qed

section \<open>Recording\<close>

abbreviation counted :: "cl_lib \<Rightarrow> cl_env \<Rightarrow> bool \<Rightarrow> int \<Rightarrow> 'a \<Rightarrow> cl_state \<Rightarrow> bool" where
  "counted lib env keep n \<equiv> (\<lambda>a s. \<exists>H. state_at lib env keep s H n)"

lemma log_entry_ok:
  assumes "state_at lib env keep s H n" "fields_ok fs" "weight (rev fs) = 1"
  shows "result_ok lib env keep n (counted lib env keep (n + 1)) (log_entry lib env fs H s)"
  unfolding log_entry_def
  by (rule result_bind, rule append_locked_ok [OF assms(1,2)]) (use assms(3) in \<open>auto simp: result_ok_def cl_return_def\<close>)

lemma count_up_count: "w_count (count_up now w) = (case w of None \<Rightarrow> 0 | Some w \<Rightarrow> w_count w) + 1"
  by (simp add: count_up_def split: option.split)

lemma append_denied_ok:
  assumes "state_at lib env keep s H n" "fields_ok fs" "weight (rev fs) = 1"
  shows "result_ok lib env keep n (counted lib env keep (n + 1)) (append_denied lib env fs H s)"
  unfolding append_denied_def Let_def
proof (rule result_bind)
  let ?set = "\<lambda>k. set_proc (\<lambda>p. p\<lparr>cp_denied := (minute_text (ce_now env), k)\<rparr>)"
  show "result_ok lib env keep n (\<lambda>H' s'. state_at lib env keep s' H' n)
      (if fst (cp_denied (cs_proc s)) \<noteq> minute_text (ce_now env)
       then cl_bind (flush_suppressed_locked lib env H) (\<lambda>h s. (Inr h, ?set 0 s)) s else (Inr H, s))"
  proof (cases "fst (cp_denied (cs_proc s)) \<noteq> minute_text (ce_now env)")
    case True
    have "result_ok lib env keep n (\<lambda>H' s'. state_at lib env keep s' H' n)
        (cl_bind (flush_suppressed_locked lib env H) (\<lambda>h s. (Inr h, ?set 0 s)) s)"
      by (rule result_bind, rule flush_suppressed_ok [OF assms(1)])
        (auto simp: result_ok_def pending_def intro: state_at_proc)
    with True show ?thesis by simp
  qed (use assms(1) in \<open>simp add: result_ok_def\<close>)
  fix h s'
  assume a: "state_at lib env keep s' h n"
  let ?k = "snd (cp_denied (cs_proc s')) + 1"
  have a1: "state_at lib env keep (?set ?k s') h n"
    by (rule state_at_proc [OF a]) (simp_all add: pending_def)
  let ?f = "\<lambda>p. p\<lparr>cp_suppressed := Some (count_up (ts_text (ce_now env)) (cp_suppressed p))\<rparr>"
  have "state_at lib env keep (set_proc ?f (?set ?k s')) h (n + 1)"
    by (rule state_at_proc [OF a1]) (simp_all add: pending_def count_up_count)
  then show "result_ok lib env keep n (counted lib env keep (n + 1))
      (if denied_cap_per_minute (ce_vars env) < ?k then (Inr Suppressed, set_proc ?f (?set ?k s')) else log_entry lib env fs h (?set ?k s'))"
    using log_entry_ok [OF a1 assms(2,3)] by (auto simp: result_ok_def)
qed

lemma update_sum:
  "distinct (map fst xs) \<Longrightarrow>
     sum_list (map (\<lambda>kw. f (snd kw)) (AList.update k v xs)) + (case map_of xs k of None \<Rightarrow> 0 | Some w \<Rightarrow> f w) =
     (sum_list (map (\<lambda>kw. f (snd kw)) xs) :: int) + f v"
proof (induction xs)
  case (Cons x xs)
  then show ?case by (cases "fst x = k") (auto split: option.split)
qed simp

lemma append_read_ok:
  assumes "state_at lib env keep s H n" "fields_ok fs" "weight (rev fs) = 1"
  shows "result_ok lib env keep n (counted lib env keep (n + 1)) (append_read lib env fs H s)"
  unfolding append_read_def Let_def
proof (rule result_bind)
  let ?set = "\<lambda>c. set_proc (\<lambda>p. p\<lparr>cp_read_window := (minute_text (ce_now env), c)\<rparr>)"
  let ?t = "text_or (obj_get fs ''tenant'') (default_tenant_label (ce_vars env))"
  let ?key = "(?t, text_or (obj_get fs ''transport'') ''http-api'')"
  show "result_ok lib env keep n (\<lambda>H' s'. state_at lib env keep s' H' n)
      (if fst (cp_read_window (cs_proc s)) \<noteq> minute_text (ce_now env)
       then cl_bind (flush_reads_locked lib env H) (\<lambda>h s. (Inr h, ?set [] s)) s else (Inr H, s))"
  proof (cases "fst (cp_read_window (cs_proc s)) \<noteq> minute_text (ce_now env)")
    case True
    have "result_ok lib env keep n (\<lambda>H' s'. state_at lib env keep s' H' n)
        (cl_bind (flush_reads_locked lib env H) (\<lambda>h s. (Inr h, ?set [] s)) s)"
      by (rule result_bind, rule flush_reads_ok [OF assms(1)])
        (auto simp: result_ok_def pending_def intro: state_at_proc)
    with True show ?thesis by simp
  qed (use assms(1) in \<open>simp add: result_ok_def\<close>)
  fix h s'
  assume a: "state_at lib env keep s' h n"
  let ?k = "(case map_of (snd (cp_read_window (cs_proc s'))) ?t of None \<Rightarrow> 0 | Some k \<Rightarrow> k) + 1"
  let ?c = "AList.update ?t ?k (snd (cp_read_window (cs_proc s')))"
  have a1: "state_at lib env keep (?set ?c s') h n"
    by (rule state_at_proc [OF a]) (simp_all add: pending_def)
  let ?f = "\<lambda>p. p\<lparr>cp_reads := AList.update ?key (count_up (ts_text (ce_now env)) (map_of (cp_reads p) ?key)) (cp_reads p)\<rparr>"
  have "state_at lib env keep (set_proc ?f (?set ?c s')) h (n + 1)"
  proof (rule state_at_proc [OF a1])
    assume "distinct (map fst (cp_reads (cs_proc (?set ?c s'))))"
    then show "distinct (map fst (cp_reads (?f (cs_proc (?set ?c s'))))) \<and>
        pending (?f (cs_proc (?set ?c s'))) + n = pending (cs_proc (?set ?c s')) + (n + 1)"
      using update_sum [of "cp_reads (cs_proc s')" w_count ?key "count_up (ts_text (ce_now env)) (map_of (cp_reads (cs_proc s')) ?key)"]
      by (simp add: pending_def distinct_update count_up_count set_proc_def split: option.splits)
  qed simp
  then show "result_ok lib env keep n (counted lib env keep (n + 1))
      (if read_cap_per_minute (ce_vars env) < ?k then (Inr Suppressed, set_proc ?f (?set ?c s')) else log_entry lib env fs h (?set ?c s'))"
    using log_entry_ok [OF a1 assms(2,3)] by (auto simp: result_ok_def)
qed

text \<open>The state an operation starts in: the head is read, so no line may exceed the tail block.\<close>

definition start_ok :: "cl_lib \<Rightarrow> cl_env \<Rightarrow> bool \<Rightarrow> cl_state \<Rightarrow> int \<Rightarrow> bool" where
  "start_ok lib env keep s n \<longleftrightarrow>
     (\<exists>g h. log_inv lib (cs_disk s) g h \<and> short g \<and> (\<forall>f \<in> set g. fst f \<le> today_text (ce_now env)) \<and> io_clean s \<and>
        (keep \<longrightarrow> ce_unlink env \<and> no_retention env g \<and> distinct (map fst (cp_reads (cs_proc s))) \<and>
           sum_list (map weight (entries g)) + pending (cs_proc s) + unlogged s = n))"

lemma start_head:
  assumes "start_ok lib env keep s n"
  shows "\<exists>H. head_op lib s = (Inr H, s) \<and> state_at lib env keep s H n"
proof -
  obtain g h where g: "log_inv lib (cs_disk s) g h" "short g" "\<forall>f \<in> set g. fst f \<le> today_text (ce_now env)" "io_clean s"
    and k: "keep \<longrightarrow> ce_unlink env \<and> no_retention env g \<and> distinct (map fst (cp_reads (cs_proc s))) \<and>
       sum_list (map weight (entries g)) + pending (cs_proc s) + unlogged s = n"
    using assms unfolding start_ok_def by blast
  have sh: "short (filter (\<lambda>f. fst f \<noteq> today_text (ce_now env)) g)" using g(2) by (auto simp: short_def)
  have "state_at lib env keep s (head_after h (entries g)) n"
    unfolding state_at_def using g k sh by blast
  with log_head_ok [OF g(1,2)] show ?thesis by (simp add: head_op_def)
qed

lemma bind_head:
  assumes "start_ok lib env keep s n" "\<And>H. state_at lib env keep s H n \<Longrightarrow> result_ok lib env keep n Q (f H s)"
  shows "result_ok lib env keep n Q (cl_bind (head_op lib) f s)"
  using start_head [OF assms(1)] assms(2) by (auto simp: cl_bind_def)

lemma append_body_ok:
  assumes "start_ok lib env keep s n" "fields_ok fs" "weight (rev fs) = 1"
  shows "result_ok lib env keep n (counted lib env keep (n + 1)) (append_body lib env fs s)"
  unfolding append_body_def
proof (rule bind_head [OF assms(1)], rule result_bind, erule recover_ok, elim conjE)
  fix h s1
  assume a: "state_at lib env keep s1 h n"
  show "result_ok lib env keep n (counted lib env keep (n + 1))
      ((if obj_get fs ''outcome'' = JStr ''denied'' then append_denied lib env fs h
        else cl_bind (flush_suppressed_locked lib env h) (\<lambda>h.
          if is_read fs then append_read lib env fs h
          else if is_write fs then cl_bind (flush_reads_locked lib env h) (log_entry lib env fs) else log_entry lib env fs h)) s1)"
  proof (cases "obj_get fs ''outcome'' = JStr ''denied''")
    case True
    with append_denied_ok [OF a assms(2,3)] show ?thesis by simp
  next
    case False
    have "result_ok lib env keep n (counted lib env keep (n + 1))
        (cl_bind (flush_suppressed_locked lib env h) (\<lambda>h.
          if is_read fs then append_read lib env fs h
          else if is_write fs then cl_bind (flush_reads_locked lib env h) (log_entry lib env fs) else log_entry lib env fs h) s1)"
    proof (rule result_bind, rule flush_suppressed_ok [OF a])
      fix h s2
      assume b: "state_at lib env keep s2 h n"
      have "result_ok lib env keep n (counted lib env keep (n + 1)) (cl_bind (flush_reads_locked lib env h) (log_entry lib env fs) s2)"
        by (rule result_bind, rule flush_reads_ok [OF b]) (rule log_entry_ok [OF _ assms(2,3)])
      then show "result_ok lib env keep n (counted lib env keep (n + 1))
          ((if is_read fs then append_read lib env fs h
            else if is_write fs then cl_bind (flush_reads_locked lib env h) (log_entry lib env fs) else log_entry lib env fs h) s2)"
        using append_read_ok [OF b assms(2,3)] log_entry_ok [OF b assms(2,3)] by simp
    qed
    with False show ?thesis by simp
  qed
qed

lemma start_state: "start_ok lib env keep s n \<Longrightarrow> \<exists>H. state_at lib env keep s H n"
  using start_head by blast

lemma locked_ok:
  assumes "\<exists>H. state_at lib env keep s H n" "result_ok lib env keep n P (m s)"
  shows "result_ok lib env keep n P (os_as x (locked env m) s)" "result_ok lib env keep n P (locked env m s)"
proof -
  show l: "result_ok lib env keep n P (locked env m s)" using assms by (simp add: locked_def result_ok_def)
  obtain r s' where e: "locked env m s = (r, s')" by (cases "locked env m s")
  show "result_ok lib env keep n P (os_as x (locked env m) s)"
  proof (cases r)
    case (Inl y)
    with l e show ?thesis by (cases y) (simp_all add: os_as_def result_ok_def)
  qed (use l e in \<open>simp add: os_as_def\<close>)
qed

lemma mark_degraded_ok:
  assumes "state_at lib env keep s H n"
  shows "state_at lib env keep (mark_degraded env err u r s) H (n + u)"
proof -
  let ?s = "mark_degraded env err u r s"
  have u: "unlogged ?s = unlogged s + u"
    by (auto simp: unlogged_def degraded_def mark_degraded_def Let_def set_proc_def set_disk_def combine_def split: option.splits)
  have d: "log_inv lib (cs_disk ?s) g h = log_inv lib (cs_disk s) g h" for g h
    by (simp add: mark_degraded_def Let_def set_disk_def set_proc_def log_inv_def log_files_def)
  have p: "pending (cs_proc ?s) = pending (cs_proc s)" "cp_reads (cs_proc ?s) = cp_reads (cs_proc s)" "cs_io ?s = cs_io s"
    by (simp_all add: mark_degraded_def Let_def set_disk_def set_proc_def pending_def)
  show ?thesis using assms u unfolding state_at_def d p io_clean_def by fastforce
qed

lemma record_ok:
  assumes "start_ok lib env keep s n" "fields_ok fs" "weight (rev fs) = 1" "record_call lib env fs s = (r, s')"
  shows "\<exists>H. state_at lib env keep s' H (case r of Inl _ \<Rightarrow> n | Inr _ \<Rightarrow> n + 1)"
proof -
  obtain r1 s1 where a: "append_call lib env fs s = (r1, s1)" by (cases "append_call lib env fs s") auto
  have ok: "result_ok lib env keep n (counted lib env keep (n + 1)) (r1, s1)"
    unfolding a [symmetric] append_call_def
    by (rule locked_ok(1), rule start_state [OF assms(1)], rule append_body_ok [OF assms(1-3)])
  show ?thesis
  proof (cases r1)
    case (Inr x)
    with ok a assms(4) show ?thesis by (auto simp: record_call_def result_ok_def)
  next
    case (Inl x)
    then obtain H where h: "state_at lib env keep s1 H n" using ok by (auto simp: result_ok_def)
    have "state_at lib env keep (mark_degraded env e 1 0 s1) H (n + 1)" for e by (rule mark_degraded_ok [OF h])
    then have m: "\<exists>H. state_at lib env keep (mark_degraded env e 1 0 s1) H (n + 1)" for e by blast
    show ?thesis using h Inl a assms(4) m by (cases x) (auto simp: record_call_def)
  qed
qed

lemma flush_body_ok:
  "start_ok lib env keep s n \<Longrightarrow> result_ok lib env keep n (\<lambda>H s. state_at lib env keep s H n) (flush_body lib env s)"
  unfolding flush_body_def
  by (rule bind_head, assumption, rule result_bind, erule flush_suppressed_ok, rule flush_reads_ok)

lemma flush_ok:
  assumes "start_ok lib env keep s n" "flush lib env s = (r, s')"
  shows "\<exists>H. state_at lib env keep s' H n"
proof -
  obtain r1 s1 where a: "locked env (flush_body lib env) s = (r1, s1)" by (cases "locked env (flush_body lib env) s")
  have ok: "result_ok lib env keep n (\<lambda>H s. state_at lib env keep s H n) (r1, s1)"
    unfolding a [symmetric] by (rule locked_ok(2), rule start_state [OF assms(1)], rule flush_body_ok [OF assms(1)])
  show ?thesis
  proof (cases r1)
    case (Inr x)
    with ok a assms(2) show ?thesis by (auto simp: flush_def result_ok_def)
  next
    case (Inl x)
    then obtain H where "state_at lib env keep s1 H n" using ok by (auto simp: result_ok_def)
    then have "state_at lib env keep (mark_degraded env e 0 0 s1) H n" "state_at lib env keep s1 H n" for e
      using mark_degraded_ok [of lib env keep s1 H n e 0 0] by simp_all
    with Inl a assms(2) show ?thesis by (cases x) (auto simp: flush_def split: if_splits)
  qed
qed

lemma shutdown_ok:
  assumes "start_ok lib env keep s n" "flush_for_shutdown lib env s = (r, s')"
  shows "\<exists>H. state_at lib env keep s' H n"
proof -
  obtain r1 s1 where f: "flush lib env s = (r1, s1)" by (cases "flush lib env s")
  obtain H where a: "state_at lib env keep s1 H n" using flush_ok [OF assms(1) f] by blast
  let ?m = "mark_degraded env ''shutdown: the open denied/read summaries could not be written'' (pending (cs_proc s1)) 0 s1"
  have p: "pending (cs_proc ?m) = pending (cs_proc s1)"
    by (simp add: pending_def mark_degraded_def Let_def set_proc_def set_disk_def)
  have "state_at lib env keep (set_proc (\<lambda>p. p\<lparr>cp_suppressed := None, cp_reads := []\<rparr>) ?m) H n"
    by (rule state_at_proc [OF mark_degraded_ok [OF a]]) (use p in \<open>simp_all add: pending_def\<close>)
  with a f assms(2) show ?thesis
    by (cases r1) (auto simp: flush_for_shutdown_def cl_bind_def Let_def split: if_splits)
qed

lemma preflight_ok:
  assumes "start_ok lib env keep s n"
  shows "result_ok lib env keep n (\<lambda>_ s'. counted lib env keep n () s' \<and> (ce_unlink env \<longrightarrow> degraded s' = None)) (preflight lib env s)"
  unfolding preflight_def
proof (rule locked_ok(1), rule start_state [OF assms], rule bind_head [OF assms])
  fix H
  assume a: "state_at lib env keep s H n"
  let ?P = "\<lambda>_ s'. counted lib env keep n () s' \<and> (ce_unlink env \<longrightarrow> degraded s' = None)"
  have "result_ok lib env keep n ?P (cl_bind (recover lib env H) (\<lambda>_. cl_return ()) s)"
    by (rule result_bind, rule recover_ok [OF a]) (auto simp: result_ok_def cl_return_def)
  moreover have "result_ok lib env keep n ?P (Inl e :: cl_exc + unit, s)" for e using a by (auto simp: result_ok_def)
  ultimately show "result_ok lib env keep n ?P
      (if \<not> ce_writable env then (Inl (Call_log_error ''the call-log directory is not writable''), s)
       else if map_of (cd_files (cs_disk s)) (today_text (ce_now env)) \<noteq> None \<and> \<not> ce_today_writable env
         then (Inl (Call_log_error ''today's call-log file is not writable''), s)
       else if ce_free env < MIN_FREE_BYTES then (Inl (Call_log_error ''the call-log volume is nearly full''), s)
       else cl_bind (recover lib env H) (\<lambda>_. cl_return ()) s)"
    by simp
qed

section \<open>Runs of any processes\<close>

text \<open>
  An operation may start when no line of the directory fills the tail block, the clock is not behind the newest file and
  its appends are complete or write nothing.
\<close>

definition may_start :: "cl_env \<Rightarrow> cl_state \<Rightarrow> bool" where
  "may_start env s \<longleftrightarrow> io_clean s \<and> (\<forall>f \<in> set (cd_files (cs_disk s)). fst f \<le> today_text (ce_now env) \<and>
     (\<forall>l \<in> set (split_on NL (snd f)). length l < TAIL_BLOCK))"

inductive log_run :: "cl_lib \<Rightarrow> cl_disk \<Rightarrow> bool" for lib where
  run_empty: "log_run lib \<lparr>cd_files = [], cd_anchor = None, cd_degraded = None\<rparr>"
| run_record: "log_run lib (cs_disk s) \<Longrightarrow> may_start env s \<Longrightarrow> ca_outcome c \<in> {''ok'', ''denied'', ''error''} \<Longrightarrow>
    record_call lib env (make_fields (ce_vars env) c) s = (r, s') \<Longrightarrow> log_run lib (cs_disk s')"
| run_preflight: "log_run lib (cs_disk s) \<Longrightarrow> may_start env s \<Longrightarrow> preflight lib env s = (r, s') \<Longrightarrow> log_run lib (cs_disk s')"
| run_flush: "log_run lib (cs_disk s) \<Longrightarrow> may_start env s \<Longrightarrow> flush lib env s = (r, s') \<Longrightarrow> log_run lib (cs_disk s')"
| run_shutdown: "log_run lib (cs_disk s) \<Longrightarrow> may_start env s \<Longrightarrow> flush_for_shutdown lib env s = (r, s') \<Longrightarrow>
    log_run lib (cs_disk s')"

lemma fields_of_call: "fields_ok (make_fields ev c)"
  by (simp add: make_fields_def Let_def split_def fields_ok_def jopt_def jopt_int_def split: option.split)

lemma weight_of_call: "ca_outcome c \<in> {''ok'', ''denied'', ''error''} \<Longrightarrow> weight (rev (make_fields ev c)) = 1"
  by (auto simp: make_fields_def Let_def split_def weight_def obj_get_def)

lemma start_of_run:
  assumes "log_inv lib (cs_disk s) g h" "may_start env s"
  shows "start_ok lib env False s n" "short g" "\<forall>f \<in> set g. fst f \<le> today_text (ce_now env)"
proof -
  note G = log_inv_groups [OF assms(1)]
  have f: "file_text f \<in> set (cd_files (cs_disk s))" if "f \<in> set g" for f using that G(3) by simp
  show today: "\<forall>f \<in> set g. fst f \<le> today_text (ce_now env)"
    using f assms(2) by (fastforce simp: may_start_def file_text_def)
  show sh: "short g"
    unfolding short_def
  proof (intro ballI)
    fix f e
    assume fe: "f \<in> set g" "e \<in> set (snd f)"
    have "\<forall>e \<in> set (snd f). float_free (JObj e)" using G(4) fe by (auto simp: entries_def entry_ok_def)
    then have "dumps (JObj e) \<in> set (split_on NL (lines_text (snd f)))" using fe by (simp add: split_lines del: dumps.simps)
    moreover have "\<forall>l \<in> set (split_on NL (lines_text (snd f))). length l < TAIL_BLOCK"
      using f [OF fe(1)] assms(2) by (fastforce simp: may_start_def file_text_def)
    ultimately show "length (line_of e) \<le> TAIL_BLOCK" by (simp add: line_of_def Suc_le_eq del: dumps.simps)
  qed
  show "start_ok lib env False s n"
    using assms today sh by (auto simp: start_ok_def may_start_def)
qed

lemma run_inv: "log_run lib d \<Longrightarrow> \<exists>g h. log_inv lib d g h"
proof (induction rule: log_run.induct)
  case run_empty
  have "log_inv lib \<lparr>cd_files = [], cd_anchor = None, cd_degraded = None\<rparr> [] genesis_head"
    by (simp add: log_inv_def log_files_def anchor_head_def)
  then show ?case by blast
next
  case (run_record s env c r s')
  then obtain g h where "log_inv lib (cs_disk s) g h" by blast
  from record_ok [OF start_of_run(1) [OF this run_record.hyps(2)] fields_of_call weight_of_call [OF run_record.hyps(3)] run_record.hyps(4), of 0]
  show ?case by (auto simp: state_at_def)
next
  case (run_preflight s env r s')
  then obtain g h where "log_inv lib (cs_disk s) g h" by blast
  from preflight_ok [OF start_of_run(1) [OF this run_preflight.hyps(2)], of 0] run_preflight.hyps(3)
  show ?case by (cases r) (auto simp: state_at_def result_ok_def)
next
  case (run_flush s env r s')
  then obtain g h where "log_inv lib (cs_disk s) g h" by blast
  from flush_ok [OF start_of_run(1) [OF this run_flush.hyps(2)] run_flush.hyps(3), of 0]
  show ?case by (auto simp: state_at_def)
next
  case (run_shutdown s env r s')
  then obtain g h where "log_inv lib (cs_disk s) g h" by blast
  from shutdown_ok [OF start_of_run(1) [OF this run_shutdown.hyps(2)] run_shutdown.hyps(3), of 0]
  show ?case by (auto simp: state_at_def)
qed

end
