(* ===== verification/Call_Log_Theorems.thy ===== *)
theory Call_Log_Theorems
  imports Call_Log_Runs
begin

text \<open>
  The properties of the call log: whatever calls the processes record, the log verifies and its head is the head the
  next append continues; every recorded call is accounted for; a log that verifies and ends in the head of an honest
  log has the honest entries; what the verifier cannot digest makes it raise.
\<close>

section \<open>Reading a log back\<close>

text \<open>C28: reading a file backwards in blocks of any positive size, as the paging reader does, gives exactly the non-empty
  lines of the whole file, newest first, also when a line is longer than a block.\<close>

theorem reverse_lines_eq:
  assumes "0 < chunk"
  shows "reverse_lines chunk content (length content) [] = rev (filter (\<lambda>l. l \<noteq> []) (split_on NL content))"
  by (rule reverse_lines_split [OF assms])

theorem reverse_lines_eq_witness:
  "reverse_lines 2 (''ab'' @ [NL] @ ''c'') (length (''ab'' @ [NL] @ ''c'')) [] = [''c'', ''ab'']"
  using reverse_lines_eq [of 2 "''ab'' @ [NL] @ ''c''"] by (simp add: NL_def)

lemma file_entries_ok:
  assumes "\<forall>e \<in> set es. entry_ok e"
  shows "file_entries_desc lib (lines_text es) = map JObj (rev es)"
proof -
  have ff: "\<forall>e \<in> set es. float_free (JObj e)" using assms by (simp add: entry_ok_def)
  have l: "reverse_lines REVERSE_CHUNK (lines_text es) (length (lines_text es)) [] = map (\<lambda>e. dumps (JObj e)) (rev es)"
  proof -
    have "filter (\<lambda>l. l \<noteq> []) (map (\<lambda>e. dumps (JObj e)) es @ [[]]) = map (\<lambda>e. dumps (JObj e)) es"
      by (simp add: filter_map comp_def dumps_obj_ends del: dumps.simps)
    then show ?thesis
      using reverse_lines_split [of REVERSE_CHUNK "lines_text es"] split_lines [OF ff] by (simp add: REVERSE_CHUNK_def rev_map del: dumps.simps)
  qed
  have "loads (cl_float lib) (dumps (JObj e)) = Some (JObj e)" if "e \<in> set es" for e
    using assms that loads_dumps [of "JObj e" "cl_float lib"] unfolding entry_ok_def by metis
  then have "concat (map (\<lambda>l. if strip l = [] then [] else case loads (cl_float lib) l of None \<Rightarrow> [] | Some v \<Rightarrow> [v])
      (map (\<lambda>e. dumps (JObj e)) (rev es))) = map JObj (rev es)"
    by (induction es rule: rev_induct) (simp_all add: strip_object dumps_obj_ends del: dumps.simps)
  then show ?thesis unfolding file_entries_desc_def l .
qed

lemma entries_desc_ok:
  assumes "log_inv lib d g h"
  shows "entries_desc lib d = map JObj (rev (entries g))"
proof -
  have "\<forall>e \<in> set (entries k). entry_ok e \<Longrightarrow>
      concat (map (\<lambda>f. file_entries_desc lib (snd f)) (rev (map file_text k))) = map JObj (rev (entries k))" for k
    by (induction k) (simp_all add: file_text_def file_entries_ok)
  with log_inv_groups(4) [OF assms] assms show ?thesis by (simp add: entries_desc_def log_inv_def)
qed

section \<open>The verifier\<close>

definition walk_at :: "cl_head \<Rightarrow> cl_walk \<Rightarrow> bool" where
  "walk_at h w \<longleftrightarrow> wk_hash w = hd_hash h \<and> wk_seq w = hd_seq h \<and> wk_problems w = []"

lemma verify_lines_ok:
  "calls.linked (hd_seq h + 1) (hd_hash h) es \<Longrightarrow> walk_at h w \<Longrightarrow>
     \<exists>w'. verify_lines lib file False n (map (\<lambda>e. dumps (JObj e)) es @ [[]]) w = Inr w' \<and> walk_at (head_after h es) w' \<and>
       wk_total w' = wk_total w + length es"
proof (induction es arbitrary: h w n)
  case Nil
  then show ?case by (simp add: verify_line_def head_after_def)
next
  case (Cons e es)
  then have e: "entry_ok e" "call_seq e = hd_seq h + 1" "call_prev e = hd_hash h"
    and l: "calls.linked (hd_seq h + 1 + 1) (call_hash e) es" by simp_all
  let ?w = "w\<lparr>wk_hash := call_hash e, wk_seq := call_seq e, wk_total := wk_total w + 1\<rparr>"
  have "entry_problems w (call_seq e) (call_hash e) (call_prev e) e = []"
    using e Cons.prems(2) by (simp add: entry_problems_def entry_ok_def walk_at_def)
  then have v: "verify_line lib file False n (dumps (JObj e)) w = Inr ?w"
    using read_entry_ok [OF e(1), of lib] by (simp add: verify_line_def strip_object dumps_obj_ends Let_def del: dumps.simps)
  have "walk_at (entry_head e) ?w" using Cons.prems(2) by (simp add: walk_at_def call_seq_def call_hash_def)
  moreover have "calls.linked (hd_seq (entry_head e) + 1) (hd_hash (entry_head e)) es"
    using l e(2) by (simp add: call_seq_def [symmetric] call_hash_def [symmetric])
  ultimately obtain w' where "verify_lines lib file False (n + 1) (map (\<lambda>e. dumps (JObj e)) es @ [[]]) ?w = Inr w'"
    "walk_at (head_after (entry_head e) es) w'" "wk_total w' = wk_total ?w + length es"
    using Cons.IH by blast
  moreover have "head_after h (e # es) = head_after (entry_head e) es" by (simp add: head_after_def)
  ultimately show ?case using v by (simp del: dumps.simps)
qed

lemma verify_files_ok:
  "calls.linked (hd_seq h + 1) (hd_hash h) (entries g) \<Longrightarrow> walk_at h w \<Longrightarrow>
     \<exists>w'. verify_files lib (map file_text g) w = Inr w' \<and> walk_at (head_after h (entries g)) w' \<and> wk_total w' = wk_total w + length (entries g)"
proof (induction g arbitrary: h w)
  case Nil
  then show ?case by (simp add: head_after_def)
next
  case (Cons f g)
  have lk: "calls.linked (hd_seq h + 1) (hd_hash h) (snd f)"
    "calls.linked (hd_seq (head_after h (snd f)) + 1) (hd_hash (head_after h (snd f))) (entries g)"
    using Cons.prems(1) by (simp_all add: linked_head)
  then have "\<forall>e \<in> set (snd f). float_free (JObj e)" using calls.linked_ok by (auto simp: entry_ok_def)
  note sp = split_lines [OF this]
  have torn: "(lines_text (snd f) \<noteq> [] \<and> last (lines_text (snd f)) \<noteq> NL) = False" using lines_text_end by auto
  obtain w1 where w1: "verify_lines lib (file_name (fst f)) False 1 (map (\<lambda>e. dumps (JObj e)) (snd f) @ [[]]) w = Inr w1"
    "walk_at (head_after h (snd f)) w1" "wk_total w1 = wk_total w + length (snd f)"
    using verify_lines_ok [OF lk(1) Cons.prems(2)] by blast
  obtain w2 where "verify_files lib (map file_text g) w1 = Inr w2"
    "walk_at (head_after (head_after h (snd f)) (entries g)) w2" "wk_total w2 = wk_total w1 + length (entries g)"
    using Cons.IH [OF lk(2) w1(2)] by blast
  with w1 show ?case
    by (simp add: file_text_def [of f] torn sp head_after_append del: dumps.simps)
qed

lemma count_gaps_objects: "\<exists>n. count_gaps (map JObj es) = Inr n"
proof -
  have "\<exists>gs. res_map_list (\<lambda>v. case v of JObj e \<Rightarrow> Inr (obj_get e ''outcome'' = JStr ''gap'') | _ \<Rightarrow> Inl Py_attribute) (map JObj es) = Inr gs"
    by (induction es) auto
  then show ?thesis by (auto simp: count_gaps_def)
qed

lemma verify_log_ok:
  assumes "log_inv lib (cs_disk s) g h"
  shows "\<exists>rep. verify_log lib s = Inr rep \<and> vr_problems rep = [] \<and> vr_head rep = head_after h (entries g) \<and>
    vr_total rep = length (entries g)"
proof -
  let ?w = "\<lparr>wk_hash = hd_hash h, wk_seq = hd_seq h, wk_total = 0, wk_problems = []\<rparr>"
  have "walk_at h ?w" by (simp add: walk_at_def)
  then obtain w where w: "verify_files lib (map file_text g) ?w = Inr w" "walk_at (head_after h (entries g)) w" "wk_total w = length (entries g)"
    using verify_files_ok [of h g ?w lib] assms by (auto simp: log_inv_def)
  obtain n where "count_gaps (entries_desc lib (cs_disk s)) = Inr n"
    using entries_desc_ok [OF assms] count_gaps_objects by (metis rev_map)
  with w assms show ?thesis by (simp add: verify_log_def log_inv_def Let_def walk_at_def)
qed

text \<open>C25: whatever calls any number of processes record, check, flush and shut down in any order, whatever each remembers
  and whichever appends fail without writing, the log verifies without a problem, with retention and its anchor in
  between, and the head the verifier reports is the head the next append continues.\<close>

theorem call_log_verifies:
  assumes "log_run lib (cs_disk s)" "may_start env s"
  shows "\<exists>rep. verify_log lib s = Inr rep \<and> vr_problems rep = [] \<and> log_head lib (cs_disk s) = Inr (vr_head rep) \<and>
    vr_total rep = length (entries_desc lib (cs_disk s))"
proof -
  obtain g h where inv: "log_inv lib (cs_disk s) g h" using run_inv [OF assms(1)] by blast
  show ?thesis
    using verify_log_ok [OF inv] log_head_ok [OF inv start_of_run(2) [OF inv assms(2)]] entries_desc_ok [OF inv] by auto
qed

section \<open>Every call is accounted for\<close>

text \<open>The calls the entries, the open summaries of the process and the outage stand for.\<close>

definition accounted :: "cl_lib \<Rightarrow> cl_state \<Rightarrow> int" where
  "accounted lib s =
     sum_list (map (\<lambda>v. case v of JObj e \<Rightarrow> weight e | _ \<Rightarrow> 0) (entries_desc lib (cs_disk s))) + pending (cs_proc s) + unlogged s"

lemma accounted_entries: "log_inv lib (cs_disk s) g h \<Longrightarrow> accounted lib s = sum_list (map weight (entries g)) + pending (cs_proc s) + unlogged s"
  using sum_list_rev [of "map weight (entries g)"] by (simp add: accounted_def entries_desc_ok comp_def rev_map)

text \<open>Nothing is old enough to be retired.\<close>

definition nothing_old :: "cl_env \<Rightarrow> cl_disk \<Rightarrow> bool" where
  "nothing_old env d \<longleftrightarrow> (\<forall>c. cutoff env = Some c \<longrightarrow> \<not> today_text (ce_now env) < c \<and> (\<forall>f \<in> set (cd_files d). \<not> fst f < c))"

text \<open>C26: no call is lost and none is counted twice, whichever appends fail outright: let every append of the operation be
  either complete or fail before it writes, nothing be retired, and a recovered DEGRADED file be removable; then recording
  a call adds exactly one to the calls the log accounts for (as an entry, in a summary written or still open, in a gap
  entry, or as unlogged in the outage), and a call whose recording raises leaves that number as it was.\<close>

theorem call_accounted:
  assumes "log_run lib (cs_disk s)" "may_start env s" "nothing_old env (cs_disk s)" "ce_unlink env"
    and "distinct (map fst (cp_reads (cs_proc s)))" "ca_outcome c \<in> {''ok'', ''denied'', ''error''}"
    and "record_call lib env (make_fields (ce_vars env) c) s = (r, s')"
  shows "accounted lib s' = accounted lib s + (case r of Inr _ \<Rightarrow> 1 | Inl _ \<Rightarrow> 0)"
proof -
  obtain g h where inv: "log_inv lib (cs_disk s) g h" using run_inv [OF assms(1)] by blast
  note S = start_of_run [OF inv assms(2)]
  have "no_retention env g"
    using assms(3) log_inv_groups(3) [OF inv] by (simp add: no_retention_def nothing_old_def file_text_def)
  then have "start_ok lib env True s (accounted lib s)"
    unfolding start_ok_def accounted_entries [OF inv] using inv S(2,3) assms(2,4,5) by (auto simp: may_start_def)
  from record_ok [OF this fields_of_call weight_of_call [OF assms(6)] assms(7)]
  obtain H where "state_at lib env True s' H (case r of Inl _ \<Rightarrow> accounted lib s | Inr _ \<Rightarrow> accounted lib s + 1)" by blast
  then show ?thesis unfolding state_at_def by (cases r) (auto simp: accounted_entries)
qed

section \<open>Writes wait for a healthy log\<close>

text \<open>Fail closed: when the preflight of a ledger write lets the write through, the directory and the file of the day are
  writable, there is space, the head of the log is readable, and no outage is left: what it left unlogged has
  been written to the log, whose total is unchanged.\<close>

lemma preflight_guards:
  assumes "log_run lib (cs_disk s)" "may_start env s" "ce_unlink env" "preflight lib env s = (Inr (), s')"
  shows "degraded s' = None \<and> ce_lock env \<and> ce_writable env \<and> MIN_FREE_BYTES \<le> ce_free env \<and>
    (\<exists>h. log_head lib (cs_disk s) = Inr h) \<and> log_run lib (cs_disk s') \<and>
    (nothing_old env (cs_disk s) \<and> distinct (map fst (cp_reads (cs_proc s))) \<longrightarrow> accounted lib s' = accounted lib s)"
proof -
  obtain g h where inv: "log_inv lib (cs_disk s) g h" using run_inv [OF assms(1)] by blast
  note S = start_of_run [OF inv assms(2)]
  obtain H where H: "head_op lib s = (Inr H, s)" using start_head [OF S(1), of 0] by blast
  have d: "degraded s' = None" using preflight_ok [OF S(1), of 0] assms(3,4) by (simp add: result_ok_def)
  have "ce_lock env \<and> ce_writable env \<and> MIN_FREE_BYTES \<le> ce_free env"
    using assms(4) H by (auto simp: preflight_def os_as_def locked_def cl_bind_def split: if_splits)
  moreover have "accounted lib s' = accounted lib s"
    if n: "nothing_old env (cs_disk s)" "distinct (map fst (cp_reads (cs_proc s)))"
  proof -
    have "no_retention env g"
      using n log_inv_groups(3) [OF inv] by (simp add: no_retention_def nothing_old_def file_text_def)
    then have "start_ok lib env True s (accounted lib s)"
      unfolding start_ok_def accounted_entries [OF inv] using inv S(2,3) assms(2,3) n(2) by (auto simp: may_start_def)
    from preflight_ok [OF this] assms(4) obtain H where "state_at lib env True s' H (accounted lib s)" by (auto simp: result_ok_def)
    then show ?thesis unfolding state_at_def by (auto simp: accounted_entries)
  qed
  ultimately show ?thesis
    using d H run_preflight [OF assms(1,2,4)] by (auto simp: head_op_def)
qed

section \<open>What the verifier cannot digest\<close>

lemma res_map_list_Inl: "x \<in> set xs \<Longrightarrow> f x = Inl e \<Longrightarrow> \<exists>e. res_map_list f xs = Inl e"
  by (induction xs) (auto split: sum.splits)

lemma res_bind_fails: "(\<And>y. \<exists>x. f y = Inl x) \<Longrightarrow> \<exists>x. res_bind a f = Inl x"
  by (cases a) auto

text \<open>The verifier does raise, although it says it never does: a line of any file that is JSON but not an object (a bare
  number, a string, a list), anywhere in the log, makes the count of the recorded gaps fail, and the whole call with it.\<close>

lemma verify_raises:
  assumes "(day, content) \<in> set (cd_files (cs_disk s))" "l \<in> set (split_on NL content)" "strip l \<noteq> []"
    and "loads (cl_float lib) l = Some v" "\<nexists>e. v = JObj e"
  shows "\<exists>x. verify_log lib s = Inl x"
proof -
  have "l \<noteq> []" using assms(3) by auto
  then have "l \<in> set (reverse_lines REVERSE_CHUNK content (length content) [])"
    using assms(2) by (simp add: reverse_lines_split REVERSE_CHUNK_def)
  then have "v \<in> set (file_entries_desc lib content)" using assms(3,4) unfolding file_entries_desc_def by force
  moreover have "(day, content) \<in> set (rev (log_files (cs_disk s)))" using assms(1) by (simp add: log_files_def)
  ultimately have "v \<in> set (entries_desc lib (cs_disk s))" unfolding entries_desc_def by force
  moreover have "(case v of JObj e \<Rightarrow> Inr (obj_get e ''outcome'' = JStr ''gap'') | _ \<Rightarrow> Inl Py_attribute) = Inl Py_attribute"
    using assms(5) by (cases v) auto
  ultimately have "\<exists>x. res_map_list (\<lambda>v. case v of JObj e \<Rightarrow> Inr (obj_get e ''outcome'' = JStr ''gap'') | _ \<Rightarrow> Inl Py_attribute)
      (entries_desc lib (cs_disk s)) = Inl x"
    by (rule res_map_list_Inl)
  then obtain x where c: "count_gaps (entries_desc lib (cs_disk s)) = Inl x" by (auto simp: count_gaps_def)
  show ?thesis unfolding verify_log_def Let_def by (rule res_bind_fails, rule res_bind_fails) (simp add: c)
qed

section \<open>A recorded head fixes the log\<close>

text \<open>What an entry commits to: everything but its own hash, members sorted.\<close>

definition content :: "dict \<Rightarrow> dict" where
  "content e = sorted_dict (filter (\<lambda>kv. fst kv \<noteq> ''entry_hash'') e)"

text \<open>Entries that a silent walk has read.\<close>

fun walked :: "cl_lib \<Rightarrow> string \<Rightarrow> int \<Rightarrow> dict list \<Rightarrow> bool" where
  "walked lib p n [] \<longleftrightarrow> True"
| "walked lib p n (e # es) \<longleftrightarrow>
     (\<exists>v. py_item e ''seq'' = Inr v \<and> py_int lib v = Inr (n + 1)) \<and>
     (\<exists>v. py_item e ''prev_hash'' = Inr v \<and> py_str lib v = p) \<and> walked lib (entry_hash_of e) (n + 1) es"

definition end_hash :: "string \<Rightarrow> dict list \<Rightarrow> string" where
  "end_hash p es = (if es = [] then p else entry_hash_of (last es))"

lemma walked_append: "walked lib p n (es @ fs) \<longleftrightarrow> walked lib p n es \<and> walked lib (end_hash p es) (n + int (length es)) fs"
  by (induction es arbitrary: p n) (auto simp: end_hash_def algebra_simps)

definition parsed :: "cl_lib \<Rightarrow> string \<Rightarrow> json list" where
  "parsed lib l = (if strip l = [] then [] else case loads (cl_float lib) l of None \<Rightarrow> [] | Some v \<Rightarrow> [v])"

definition walk_from :: "cl_lib \<Rightarrow> cl_walk \<Rightarrow> cl_walk \<Rightarrow> json list \<Rightarrow> bool" where
  "walk_from lib w w' vs \<longleftrightarrow> wk_problems w = [] \<and> (\<exists>es. vs = map JObj es \<and> walked lib (wk_hash w) (wk_seq w) es \<and>
     wk_hash w' = end_hash (wk_hash w) es \<and> wk_seq w' = wk_seq w + int (length es))"

lemma walk_from_trans: "walk_from lib a b us \<Longrightarrow> walk_from lib b c vs \<Longrightarrow> walk_from lib a c (us @ vs)"
proof -
  assume a: "walk_from lib a b us" and b: "walk_from lib b c vs"
  then obtain es fs where e: "us = map JObj es" "walked lib (wk_hash a) (wk_seq a) es" "wk_hash b = end_hash (wk_hash a) es"
      "wk_seq b = wk_seq a + int (length es)"
    and f: "vs = map JObj fs" "walked lib (wk_hash b) (wk_seq b) fs" "wk_hash c = end_hash (wk_hash b) fs"
      "wk_seq c = wk_seq b + int (length fs)" by (auto simp: walk_from_def)
  have "walked lib (wk_hash a) (wk_seq a) (es @ fs)" using e f by (simp add: walked_append)
  moreover have "wk_hash c = end_hash (wk_hash a) (es @ fs)" using e f by (simp add: end_hash_def)
  ultimately show ?thesis using a e f unfolding walk_from_def by (intro conjI exI [where x = "es @ fs"]) simp_all
qed

lemma walk_line:
  assumes "verify_line lib file torn n l w = Inr w'" "wk_problems w' = []"
  shows "walk_from lib w w' (parsed lib l)"
proof (cases "strip l = []")
  case True
  with assms show ?thesis by (auto simp: verify_line_def walk_from_def parsed_def end_hash_def)
next
  case False
  show ?thesis
  proof (cases "read_entry lib l")
    case (Inl x)
    with False assms show ?thesis by (cases x) (auto simp: verify_line_def Let_def)
  next
    case (Inr r)
    obtain m h p e where r: "r = (m, h, p, e)" by (cases r)
    have l: "loads (cl_float lib) l = Some (JObj e)" and i: "\<exists>v. py_item e ''seq'' = Inr v \<and> py_int lib v = Inr m"
      "\<exists>v. py_item e ''prev_hash'' = Inr v \<and> py_str lib v = p"
      using Inr r by (auto simp: read_entry_def res_bind_Inr_iff split: option.splits json.splits)
    have w': "w' = w\<lparr>wk_problems := wk_problems w @ map (\<lambda>t. \<lparr>cl_file = file, cl_line = n, cl_text = t\<rparr>) (entry_problems w m h p e),
        wk_hash := h, wk_seq := m, wk_total := wk_total w + 1\<rparr>"
      using False assms(1) Inr r by (simp add: verify_line_def Let_def)
    with assms(2) have "wk_problems w = []" "entry_problems w m h p e = []" by simp_all
    moreover from this have "entry_hash_of e = h" "m = wk_seq w + 1" "p = wk_hash w" by (auto simp: entry_problems_def split: if_splits)
    ultimately show ?thesis
      using i False l unfolding walk_from_def parsed_def w'
      by (intro conjI exI [where x = "[e]"]) (simp_all add: end_hash_def)
  qed
qed

lemma walk_lines:
  "verify_lines lib file torn n ls w = Inr w' \<Longrightarrow> wk_problems w' = [] \<Longrightarrow> walk_from lib w w' (concat (map (parsed lib) ls))"
proof (induction ls arbitrary: n w)
  case Nil
  then show ?case by (auto simp: walk_from_def end_hash_def)
next
  case (Cons l ls)
  then obtain w1 where w1: "verify_line lib file (torn \<and> ls = []) n l w = Inr w1" "verify_lines lib file torn (n + 1) ls w1 = Inr w'"
    by (auto simp: res_bind_Inr_iff)
  then have b: "walk_from lib w1 w' (concat (map (parsed lib) ls))" using Cons by blast
  then have "wk_problems w1 = []" by (simp add: walk_from_def)
  from walk_from_trans [OF walk_line [OF w1(1) this] b] show ?case by simp
qed

lemma walk_files:
  "verify_files lib fs w = Inr w' \<Longrightarrow> wk_problems w' = [] \<Longrightarrow>
     walk_from lib w w' (concat (map (\<lambda>f. concat (map (parsed lib) (split_on NL (snd f)))) fs))"
proof (induction fs arbitrary: w)
  case Nil
  then show ?case by (auto simp: walk_from_def end_hash_def)
next
  case (Cons f fs)
  obtain day c where f: "f = (day, c)" by (cases f)
  with Cons.prems obtain w1 where w1: "verify_lines lib (file_name day) (c \<noteq> [] \<and> last c \<noteq> NL) 1 (split_on NL c) w = Inr w1"
      "verify_files lib fs w1 = Inr w'"
    by (auto simp: res_bind_Inr_iff)
  then have b: "walk_from lib w1 w' (concat (map (\<lambda>f. concat (map (parsed lib) (split_on NL (snd f)))) fs))" using Cons by blast
  then have "wk_problems w1 = []" by (simp add: walk_from_def)
  from walk_from_trans [OF walk_lines [OF w1(1) this] b] show ?case by (simp add: f)
qed

lemma file_entries_parsed: "file_entries_desc lib c = rev (concat (map (parsed lib) (split_on NL c)))"
proof -
  have p: "concat (map (parsed lib) (filter (\<lambda>l. l \<noteq> []) ls)) = concat (map (parsed lib) ls)" for ls
    by (induction ls) (auto simp: parsed_def)
  have r: "concat (map (parsed lib) (rev ls)) = rev (concat (map (parsed lib) ls))" for ls
    by (induction ls) (auto simp: parsed_def split: option.split)
  show ?thesis
    unfolding file_entries_desc_def parsed_def [symmetric] reverse_lines_split [of REVERSE_CHUNK c, simplified REVERSE_CHUNK_def, simplified]
    by (simp add: REVERSE_CHUNK_def reverse_lines_split r p)
qed

lemma entries_desc_parsed:
  "entries_desc lib d = rev (concat (map (\<lambda>f. concat (map (parsed lib) (split_on NL (snd f)))) (log_files d)))"
proof -
  have "concat (map (\<lambda>f. file_entries_desc lib (snd f)) (rev fs)) = rev (concat (map (\<lambda>f. concat (map (parsed lib) (split_on NL (snd f)))) fs))"
    for fs :: "(string \<times> bytes) list"
    by (induction fs) (simp_all add: file_entries_parsed)
  then show ?thesis by (simp add: entries_desc_def)
qed

lemma content_keys: "mset (map fst (content e)) = mset (map fst (filter (\<lambda>kv. fst kv \<noteq> ''entry_hash'') e))"
proof -
  have "mset (map fst (sorted_dict d)) = mset (map fst d)" for d :: dict
    by (simp add: sorted_dict_def image_mset.compositionality comp_def)
  then show ?thesis by (simp only: content_def)
qed

lemma float_free_filter: "float_free (JObj e) \<Longrightarrow> float_free (JObj (filter P e))"
  by (induction e) auto

lemma entry_prev: "entry_ok e \<Longrightarrow> py_item e ''prev_hash'' = Inr (JStr (call_prev e))"
  by (metis entry_ok_def option.simps(5) py_item_def)

lemma entry_float_free: "entry_ok e \<Longrightarrow> float_free (JObj (filter P e))"
  by (metis entry_ok_def float_free_filter)

lemma prev_of_content:
  assumes "content e = content f" "distinct (map fst e)" "py_item e ''prev_hash'' = Inr (JStr p)" "py_item f ''prev_hash'' = Inr v"
  shows "v = JStr p"
proof -
  have d: "distinct (map fst (filter (\<lambda>kv. fst kv \<noteq> ''entry_hash'') e))" using assms(2) by (rule distinct_map_filter)
  have "mset (map fst (filter (\<lambda>kv. fst kv \<noteq> ''entry_hash'') e)) = mset (map fst (filter (\<lambda>kv. fst kv \<noteq> ''entry_hash'') f))"
    using content_keys [of e] content_keys [of f] assms(1) by simp
  with d have d': "distinct (map fst (filter (\<lambda>kv. fst kv \<noteq> ''entry_hash'') f))" using mset_eq_imp_distinct_iff by blast
  have m: "map_of (filter (\<lambda>kv. fst kv \<noteq> ''entry_hash'') x) ''prev_hash'' = map_of x ''prev_hash''" for x :: dict
    by (induction x) auto
  have "map_option jnorm (map_of e ''prev_hash'') = map_option jnorm (map_of f ''prev_hash'')"
    using map_of_sorted_dict [OF d, of "''prev_hash''"] map_of_sorted_dict [OF d', of "''prev_hash''"] assms(1)
    by (simp add: content_def m)
  with assms(3,4) have "jnorm v = JStr p" by (auto simp: py_item_def split: option.splits)
  then show ?thesis by (cases v) auto
qed

lemma walked_determined:
  "walked lib p n es \<Longrightarrow> walked lib p n fs \<Longrightarrow> length es = length fs \<Longrightarrow> end_hash p es = end_hash p fs \<Longrightarrow>
     \<forall>e \<in> set es. entry_ok e \<Longrightarrow> \<forall>f \<in> set fs. float_free (JObj f) \<Longrightarrow>
     inj_on sha256 (call_text ` (set es \<union> set fs)) \<Longrightarrow> map content es = map content fs"
proof (induction es arbitrary: fs rule: rev_induct)
  case (snoc e es)
  then obtain gs f where f: "fs = gs @ [f]" by (cases fs rule: rev_cases) auto
  obtain v where v: "walked lib p n es" "py_item e ''prev_hash'' = Inr v" "py_str lib v = end_hash p es"
    using snoc.prems(1) by (auto simp: walked_append)
  obtain w where w: "walked lib p n gs" "py_item f ''prev_hash'' = Inr w" "py_str lib w = end_hash p gs"
    using snoc.prems(2) by (auto simp: f walked_append)
  have ok: "entry_ok e" using snoc.prems(5) by simp
  have ff: "float_free (JObj (filter (\<lambda>kv. fst kv \<noteq> ''entry_hash'') e))" "float_free (JObj (filter (\<lambda>kv. fst kv \<noteq> ''entry_hash'') f))"
    using entry_float_free [OF ok] snoc.prems(6) by (auto simp: f)
  have "sha256 (call_text e) = sha256 (call_text f)"
    using snoc.prems(4) by (simp add: end_hash_def f entry_hash_of_def call_text_def sha256_hex_eq_iff)
  then have "call_text e = call_text f" by (rule inj_onD [OF snoc.prems(7)]) (simp_all add: f)
  then have c: "content e = content f"
    using dumps_inj [OF ff] by (simp only: call_text_def content_def jnorm_dict json.inject)
  have "py_item e ''prev_hash'' = Inr (JStr (call_prev e))" using ok by (rule entry_prev)
  then have pv: "v = JStr (call_prev e)" using v(2) by simp
  then have "w = v" using prev_of_content [OF c entry_ok_distinct [OF ok] _ w(2)] v(2) by simp
  then have "end_hash p es = end_hash p gs" using v w by simp
  moreover have "inj_on sha256 (call_text ` (set es \<union> set gs))" by (rule inj_on_subset [OF snoc.prems(7)]) (auto simp: f)
  ultimately have "map content es = map content gs" using snoc.prems(3,5,6) v w by (intro snoc.IH) (auto simp: f)
  then show ?case using c f by simp
qed simp

text \<open>The entries a log holds, newest first, as what they commit to, and the texts their hashes cover.\<close>

definition contents :: "cl_lib \<Rightarrow> cl_disk \<Rightarrow> dict option list" where
  "contents lib d = map (\<lambda>v. case v of JObj e \<Rightarrow> Some (content e) | _ \<Rightarrow> None) (entries_desc lib d)"

definition hashed_texts :: "cl_lib \<Rightarrow> cl_disk \<Rightarrow> bytes set" where
  "hashed_texts lib d = call_text ` {e. JObj e \<in> set (entries_desc lib d)}"

lemma verified_walk:
  assumes "verify_log lib s = Inr rep" "vr_problems rep = []" "anchor_head lib (cd_anchor (cs_disk s)) = Inr h"
  shows "\<exists>es. entries_desc lib (cs_disk s) = map JObj (rev es) \<and> walked lib (hd_hash h) (hd_seq h) es \<and>
    vr_head rep = \<lparr>hd_seq = hd_seq h + int (length es), hd_hash = end_hash (hd_hash h) es\<rparr>"
proof -
  let ?w = "\<lparr>wk_hash = hd_hash h, wk_seq = hd_seq h, wk_total = 0, wk_problems = []\<rparr>"
  obtain w where w: "verify_files lib (log_files (cs_disk s)) ?w = Inr w" "wk_problems w = []"
    "vr_head rep = \<lparr>hd_seq = wk_seq w, hd_hash = wk_hash w\<rparr>"
    using assms by (auto simp: verify_log_def Let_def res_bind_Inr_iff)
  from walk_files [OF this(1,2)] w(3) show ?thesis
    by (auto simp: walk_from_def entries_desc_parsed rev_map)
qed

text \<open>C27: a recorded head fixes the log: when a log that verifies ends in the head of a log the server wrote, from the same
  anchor, then it has exactly the same entries in the same order (up to the order of members), none edited, dropped, inserted or reordered:
  provided SHA-256 has no collision among the texts the entries hash and no entry of it contains a float.\<close>

theorem head_fixes_log:
  assumes "log_run lib (cs_disk s)" "cd_anchor (cs_disk s') = cd_anchor (cs_disk s)"
    and "verify_log lib s = Inr rep" "verify_log lib s' = Inr rep'" "vr_problems rep' = []" "vr_head rep' = vr_head rep"
    and "\<forall>v \<in> set (entries_desc lib (cs_disk s')). float_free v"
    and "inj_on sha256 (hashed_texts lib (cs_disk s) \<union> hashed_texts lib (cs_disk s'))"
  shows "contents lib (cs_disk s') = contents lib (cs_disk s)"
proof -
  obtain g h where inv: "log_inv lib (cs_disk s) g h" using run_inv [OF assms(1)] by blast
  then have a: "anchor_head lib (cd_anchor (cs_disk s)) = Inr h" by (simp add: log_inv_def)
  have "vr_problems rep = []" using verify_log_ok [OF inv] assms(3) by auto
  from verified_walk [OF assms(3) this a] obtain es where
    e: "entries_desc lib (cs_disk s) = map JObj (rev es)" "walked lib (hd_hash h) (hd_seq h) es"
      "vr_head rep = \<lparr>hd_seq = hd_seq h + int (length es), hd_hash = end_hash (hd_hash h) es\<rparr>" by blast
  from verified_walk [OF assms(4,5)] a assms(2) obtain fs where
    f: "entries_desc lib (cs_disk s') = map JObj (rev fs)" "walked lib (hd_hash h) (hd_seq h) fs"
      "vr_head rep' = \<lparr>hd_seq = hd_seq h + int (length fs), hd_hash = end_hash (hd_hash h) fs\<rparr>" by auto
  have "rev es = rev (entries g)" using e(1) entries_desc_ok [OF inv] by (simp add: inj_map_eq_map inj_def)
  then have ok: "\<forall>e \<in> set es. entry_ok e" using log_inv_groups(4) [OF inv] by simp
  have "hashed_texts lib (cs_disk s) \<union> hashed_texts lib (cs_disk s') = call_text ` (set es \<union> set fs)"
    by (auto simp: hashed_texts_def e(1) f(1))
  with assms(8) have "inj_on sha256 (call_text ` (set es \<union> set fs))" by simp
  then have "map content es = map content fs"
    using e f assms(6,7) ok by (intro walked_determined [of lib "hd_hash h" "hd_seq h"]) auto
  then have "map Some (rev (map content es)) = map Some (rev (map content fs))" by (simp only:)
  then show ?thesis by (simp add: contents_def e(1) f(1) comp_def rev_map)
qed

section \<open>Concrete instances\<close>

definition sample_lib :: cl_lib where
  "sample_lib = \<lparr>cl_float = JFloat, cl_trunc = (\<lambda>_. 0), cl_ge = (\<lambda>_ _. False), cl_str = (\<lambda>_. []), cl_lower = ascii_lower\<rparr>"

definition sample_env :: cl_env where
  "sample_env = \<lparr>ce_now = \<lparr>dt_year = 2024, dt_month = 5, dt_day = 17, dt_hour = 9, dt_minute = 30, dt_second = 0, dt_micro = 250\<rparr>,
     ce_vars = (\<lambda>v. if v = ''JARVIS_CALL_LOG_RETAIN_DAYS'' then Some ''1'' else None), ce_lock = True, ce_writable = True,
     ce_today_writable = True, ce_free = 2000000, ce_save = True, ce_unlink = True, ce_os_error = ''No space left on device''\<rparr>"

definition no_calls :: "(string \<times> bytes) list \<Rightarrow> cl_state" where
  "no_calls files = \<lparr>cs_disk = \<lparr>cd_files = files, cd_anchor = None, cd_degraded = None\<rparr>,
     cs_proc = \<lparr>cp_outage = None, cp_suppressed = None, cp_denied = ([], 0), cp_reads = [], cp_read_window = ([], [])\<rparr>, cs_io = []\<rparr>"

definition sample_call :: call where
  "sample_call = \<lparr>ca_transport = ''mcp'', ca_tool = ''emr_remember'', ca_args = JObj [], ca_outcome = ''ok'', ca_elapsed = 3,
     ca_header = Some ''claude-code/1.2'', ca_client = None, ca_version = None, ca_tenant = None, ca_error = None, ca_status = None,
     ca_digest = None, ca_route = None, ca_method = None, ca_target = None\<rparr>"

lemma no_calls_run: "log_run lib (cs_disk (no_calls []))"
  by (simp add: no_calls_def run_empty)

lemma no_calls_start: "may_start env (no_calls [])"
  by (simp add: may_start_def no_calls_def io_clean_def)

lemma no_calls_verify: "verify_log lib (no_calls []) = Inr
    \<lparr>vr_problems = [], vr_total = 0, vr_files = [], vr_head = genesis_head, vr_degraded = None, vr_gaps = 0\<rparr>"
  by (simp add: verify_log_def no_calls_def log_files_def anchor_head_def genesis_head_def entries_desc_def count_gaps_def
      degraded_def combine_def Let_def)

theorem call_log_verifies_witness:
  "\<exists>rep. verify_log sample_lib (no_calls []) = Inr rep \<and> vr_problems rep = [] \<and>
     log_head sample_lib (cs_disk (no_calls [])) = Inr (vr_head rep) \<and> vr_total rep = length (entries_desc sample_lib (cs_disk (no_calls [])))"
  by (rule call_log_verifies [OF no_calls_run no_calls_start [of sample_env]])

lemma sample_cutoff: "days_before (nat (retain_days (ce_vars sample_env))) (dt_year (ce_now sample_env))
    (dt_month (ce_now sample_env)) (dt_day (ce_now sample_env)) = Some (2024, 5, 16)"
  by code_simp

lemma sample_gets:
  "obj_get (make_fields (ce_vars sample_env) sample_call) ''outcome'' = JStr ''ok''"
  "obj_get (make_fields (ce_vars sample_env) sample_call) ''method'' = JNull"
  "obj_get (make_fields (ce_vars sample_env) sample_call) ''tool'' = JStr ''emr_remember''"
  by (simp_all add: make_fields_def Let_def split_def obj_get_def sample_call_def jopt_def)

lemma sample_append: "\<exists>e s'. append_locked sample_lib sample_env fs genesis_head (no_calls []) = (Inr e, s')"
proof -
  have "write_line sample_env l (no_calls []) = (Inr (), set_disk (add_bytes (today_text (ce_now sample_env)) (l @ [NL])) (no_calls []))" for l
    by (simp add: write_line_def no_calls_def file_content_def Let_def)
  moreover have "rotate_and_retain sample_lib sample_env (no_calls []) = (Inr (), no_calls [])"
    by (simp add: rotate_and_retain_def no_calls_def log_files_def Let_def sample_cutoff)
  ultimately show ?thesis by (simp add: append_locked_def cl_bind_def cl_return_def Let_def)
qed

lemma no_calls_steps:
  "head_op lib (no_calls []) = (Inr genesis_head, no_calls [])" "recover lib env h (no_calls []) = (Inr h, no_calls [])"
  "flush_suppressed_locked lib env h (no_calls []) = (Inr h, no_calls [])" "flush_reads_locked lib env h (no_calls []) = (Inr h, no_calls [])"
  by (simp_all add: head_op_def log_head_def log_files_def no_calls_def anchor_head_def recover_def degraded_def combine_def
      flush_suppressed_locked_def flush_reads_locked_def)

lemma sample_record:
  "\<exists>a s'. record_call sample_lib sample_env (make_fields (ce_vars sample_env) sample_call) (no_calls []) = (Inr a, s')"
proof -
  have "ce_lock sample_env" by (simp add: sample_env_def)
  moreover have "is_write (make_fields (ce_vars sample_env) sample_call)" "\<not> is_read (make_fields (ce_vars sample_env) sample_call)"
    by (simp_all add: is_write_def is_read_def sample_gets WRITE_TOOLS_def)
  moreover obtain e s' where
    "append_locked sample_lib sample_env (make_fields (ce_vars sample_env) sample_call) genesis_head (no_calls []) = (Inr e, s')"
    using sample_append by blast
  ultimately show ?thesis
    by (simp add: record_call_def append_call_def os_as_def locked_def append_body_def cl_bind_def no_calls_steps sample_gets
        log_entry_def cl_return_def)
qed

lemma sample_not_old: "nothing_old sample_env (cs_disk (no_calls []))"
proof -
  have "\<not> today_text (ce_now sample_env) < day_text 2024 5 16" by code_simp
  then show ?thesis by (simp add: nothing_old_def cutoff_def sample_cutoff no_calls_def)
qed

theorem call_accounted_witness:
  "\<exists>a s'. record_call sample_lib sample_env (make_fields (ce_vars sample_env) sample_call) (no_calls []) = (Inr a, s') \<and>
     accounted sample_lib s' = accounted sample_lib (no_calls []) + 1"
proof -
  obtain a s' where r: "record_call sample_lib sample_env (make_fields (ce_vars sample_env) sample_call) (no_calls []) = (Inr a, s')"
    using sample_record by blast
  have "accounted sample_lib s' = accounted sample_lib (no_calls []) + 1"
    using call_accounted [OF no_calls_run no_calls_start sample_not_old _ _ _ r]
    by (simp add: sample_env_def no_calls_def sample_call_def)
  with r show ?thesis by blast
qed

lemma preflight_guards_witness:
  "preflight sample_lib sample_env (no_calls []) = (Inr (), no_calls []) \<and> degraded (no_calls []) = None \<and> ce_lock sample_env \<and>
     (\<exists>h. log_head sample_lib (cs_disk (no_calls [])) = Inr h)"
proof -
  have p: "preflight sample_lib sample_env (no_calls []) = (Inr (), no_calls [])"
    by (simp add: preflight_def os_as_def locked_def cl_bind_def no_calls_steps cl_return_def)
      (simp add: sample_env_def MIN_FREE_BYTES_def no_calls_def)
  with preflight_guards [OF no_calls_run no_calls_start _ p] show ?thesis by (simp add: sample_env_def)
qed

lemma verify_raises_witness: "\<exists>x. verify_log sample_lib (no_calls [(''20240517'', ''5'' @ [NL])]) = Inl x"
proof (rule verify_raises)
  show "(''20240517'', ''5'' @ [NL]) \<in> set (cd_files (cs_disk (no_calls [(''20240517'', ''5'' @ [NL])])))" by (simp add: no_calls_def)
  show "''5'' \<in> set (split_on NL (''5'' @ [NL]))" by code_simp
  show "strip ''5'' \<noteq> []" by code_simp
  show "loads (cl_float sample_lib) ''5'' = Some (JInt 5)" by code_simp
  show "\<nexists>e. JInt 5 = JObj e" by simp
qed

theorem head_fixes_log_witness:
  "contents sample_lib (cs_disk (no_calls [(''20240517'', [NL])])) = contents sample_lib (cs_disk (no_calls []))"
proof -
  have e: "entries_desc sample_lib (cs_disk (no_calls [(''20240517'', [NL])])) = []"
    by (simp add: entries_desc_parsed no_calls_def log_files_def parsed_def)
  have v: "\<exists>rep. verify_log sample_lib (no_calls [(''20240517'', [NL])]) = Inr rep \<and> vr_problems rep = [] \<and> vr_head rep = genesis_head"
    by (simp add: verify_log_def e count_gaps_def Let_def)
      (simp add: no_calls_def log_files_def anchor_head_def genesis_head_def verify_line_def NL_def)
  then obtain rep where "verify_log sample_lib (no_calls [(''20240517'', [NL])]) = Inr rep" "vr_problems rep = []"
    "vr_head rep = genesis_head" by blast
  then show ?thesis
    by (intro head_fixes_log [OF no_calls_run _ no_calls_verify])
      (simp_all add: e hashed_texts_def, simp_all add: no_calls_def log_files_def entries_desc_def)
qed

end
