(* ===== verification/Retrieval.thy ===== *)
theory Retrieval
  imports Call_Log Row_Store
begin

text \<open>
  Reading records (\<^verbatim>\<open>app/continuity.py\<close>, \<^verbatim>\<open>memory_matches_query\<close> and \<^verbatim>\<open>ledger_retrieve\<close> of
  \<^verbatim>\<open>app/store.py\<close>, the filtered list of \<^verbatim>\<open>app/pg_store.py\<close>): the list, why each record was selected, the
  conflicts between records that share a subject, and the drift check.

  A record is the row it is read from. The text of a time stamp is the parameter \<open>isot\<close>; \<open>str.lower\<close> is the
  library's.
\<close>

section \<open>Conflicts\<close>

definition ensure_content_hash :: "pylib \<Rightarrow> mem_row \<Rightarrow> mem_row" where
  "ensure_content_hash lib r = (if r_sha r \<noteq> [] then r else r\<lparr>r_sha := content_sha256 lib (r_content r)\<rparr>)"

definition active :: "mem_row \<Rightarrow> bool" where
  "active r \<longleftrightarrow> r_status r \<noteq> ''archived''"

definition superseded_targets :: "mem_row list \<Rightarrow> string list" where
  "superseded_targets rs =
     List.map_filter (\<lambda>r. case r_supersedes r of
         Some m \<Rightarrow> if m \<noteq> [] \<and> m \<in> set (map r_id rs) \<and> active r then Some m else None
       | None \<Rightarrow> None) rs"

definition non_superseded_ids :: "mem_row list \<Rightarrow> string set" where
  "non_superseded_ids rs = set (map r_id (filter (\<lambda>r. active r \<and> r_id r \<notin> set (superseded_targets rs)) rs))"

text \<open>The records by subject, in the order the subjects are first met.\<close>

definition by_subject :: "string option \<Rightarrow> mem_row list \<Rightarrow> (string \<times> mem_row list) list" where
  "by_subject subject rs =
     foldl (\<lambda>d r. case r_subject r of
         None \<Rightarrow> d
       | Some s \<Rightarrow> if s = [] \<or> (subject \<noteq> None \<and> subject \<noteq> Some s) then d
                   else AList.update s ((case map_of d s of None \<Rightarrow> [] | Some g \<Rightarrow> g) @ [r]) d) [] rs"

record conflict_set =
  cf_subject :: string
  cf_unresolved :: bool
  cf_memories :: "mem_row list"
  cf_hint :: string

definition CONFLICT_HINT :: string where
  "CONFLICT_HINT = ''Do not merge. Ledger preserves both records with provenance. '' @
     ''A writer may later append a record with supersedes=<id> or status=archived '' @
     ''as a continuity claim '' @ [CHR 0xE2, CHR 0x80, CHR 0x94] @ '' other engines evaluate whether that claim is warranted.''"

definition DUPLICATE_HINT :: string where
  "DUPLICATE_HINT = ''Same content_sha256 across non-superseded records; duplicate continuity '' @
     ''entries, not a semantic conflict. Consumers may archive duplicates; '' @
     ''ledger does not auto-collapse or rank by confidence.''"

definition claim_hash :: "pylib \<Rightarrow> mem_row \<Rightarrow> string" where
  "claim_hash lib r = (if r_sha r \<noteq> [] then r_sha r else content_sha256 lib (r_content r))"

definition group_conflict :: "pylib \<Rightarrow> (int \<Rightarrow> string) \<Rightarrow> string \<times> mem_row list \<Rightarrow> conflict_set list" where
  "group_conflict lib isot sg =
     (let open_ids = non_superseded_ids (snd sg);
          open_recs = filter (\<lambda>r. r_id r \<in> open_ids) (snd sg);
          hashes = remdups (map (claim_hash lib) open_recs);
          memories = sort_key (\<lambda>r. isot (r_created r)) open_recs
      in if length open_recs \<ge> 2 \<and> length hashes \<ge> 2
         then [\<lparr>cf_subject = fst sg, cf_unresolved = True, cf_memories = memories, cf_hint = CONFLICT_HINT\<rparr>]
         else if length open_recs \<ge> 2 \<and> length hashes = 1
         then [\<lparr>cf_subject = fst sg, cf_unresolved = False, cf_memories = memories, cf_hint = DUPLICATE_HINT\<rparr>]
         else [])"

definition detect_conflicts :: "pylib \<Rightarrow> (int \<Rightarrow> string) \<Rightarrow> mem_row list \<Rightarrow> string option \<Rightarrow> conflict_set list" where
  "detect_conflicts lib isot rs subject = concat (map (group_conflict lib isot) (sort_key fst (by_subject subject rs)))"

section \<open>Why a record was selected\<close>

record selection_filter =
  sf_query :: "string option"
  sf_scope :: "string option"
  sf_type :: "string option"
  sf_status :: "string option"

definition why_selected :: "pylib \<Rightarrow> mem_row \<Rightarrow> selection_filter \<Rightarrow> string" where
  "why_selected lib r f =
     (let low = py_lower lib;
          by_query = (case given (sf_query f) of None \<Rightarrow> []
            | Some asked \<Rightarrow>
                let q = low asked
                in [if contains q (low (r_content r)) then ''content matched query '' @ [CHR 0x27] @ asked @ [CHR 0x27]
                    else if list_ex (\<lambda>t. contains q (low t)) (r_tags r) then ''tag matched query '' @ [CHR 0x27] @ asked @ [CHR 0x27]
                    else if (case given (r_subject r) of None \<Rightarrow> False | Some s \<Rightarrow> contains q (low s))
                    then ''subject matched query '' @ [CHR 0x27] @ asked @ [CHR 0x27]
                    else ''included under query filter '' @ [CHR 0x27] @ asked @ [CHR 0x27]]);
          by_scope = (case given (sf_scope f) of None \<Rightarrow> []
            | Some sc \<Rightarrow> [if low sc = ''live'' \<and> r_status r \<noteq> ''archived'' then ''status is non-archived (truth_scope=live)''
                          else ''matched truth_scope='' @ sc]);
          by_type = (if given (sf_type f) \<noteq> None then [''type='' @ r_type r] else []);
          by_status = (if given (sf_status f) \<noteq> None then [''status='' @ r_status r] else []);
          reasons = by_query @ by_scope @ by_type @ by_status
      in join_with ''; '' ((if reasons = [] then [''listed by recency (no filter)''] else reasons)
           @ [''source_agent='' @ r_source r, ''session_id='' @ r_session r]))"

record selection =
  sl_memory :: string
  sl_why :: string
  sl_source :: string
  sl_session :: string
  sl_created :: string
  sl_type :: string
  sl_status :: string
  sl_confidence :: rat
  sl_supersedes :: "string option"
  sl_evidence :: "link list"
  sl_subject :: "string option"

definition to_selection :: "pylib \<Rightarrow> (int \<Rightarrow> string) \<Rightarrow> selection_filter \<Rightarrow> mem_row \<Rightarrow> selection" where
  "to_selection lib isot f r =
     \<lparr>sl_memory = r_id r, sl_why = why_selected lib r f, sl_source = r_source r, sl_session = r_session r,
      sl_created = isot (r_created r), sl_type = r_type r, sl_status = r_status r, sl_confidence = r_confidence r,
      sl_supersedes = r_supersedes r, sl_evidence = r_evidence r, sl_subject = r_subject r\<rparr>"

section \<open>The drift check\<close>

record drift =
  df_memory :: string
  df_expected :: string
  df_actual :: string
  df_match :: bool
  df_status :: string
  df_created :: string
  df_session :: string

definition drift_check :: "pylib \<Rightarrow> (int \<Rightarrow> string) \<Rightarrow> string \<Rightarrow> mem_row \<Rightarrow> drift" where
  "drift_check lib isot original r =
     (let expected = content_sha256 lib original; actual = claim_hash lib r
      in \<lparr>df_memory = r_id r, df_expected = expected, df_actual = actual, df_match = (expected = actual),
          df_status = r_status r, df_created = isot (r_created r), df_session = r_session r\<rparr>)"

section \<open>Listing\<close>

definition memory_matches_query :: "pylib \<Rightarrow> mem_row \<Rightarrow> string \<Rightarrow> bool" where
  "memory_matches_query lib r q \<longleftrightarrow>
     contains q (py_lower lib (r_content r)) \<or> list_ex (\<lambda>t. contains q (py_lower lib t)) (r_tags r) \<or>
     (case given (r_subject r) of None \<Rightarrow> False | Some s \<Rightarrow> contains q (py_lower lib s)) \<or>
     contains q (py_lower lib (r_type r)) \<or> contains q (py_lower lib (r_source r)) \<or> contains q (py_lower lib (r_session r))"

record list_filter =
  lf_scope :: "string option"
  lf_query :: "string option"
  lf_limit :: int
  lf_type :: "string option"
  lf_status :: "string option"
  lf_session :: "string option"
  lf_subject :: "string option"

definition equals_if :: "string option \<Rightarrow> string option \<Rightarrow> bool" where
  "equals_if v col = (case given v of None \<Rightarrow> True | Some x \<Rightarrow> col = Some x)"

definition list_where :: "pylib \<Rightarrow> string \<Rightarrow> list_filter \<Rightarrow> mem_row \<Rightarrow> bool" where
  "list_where lib t f r \<longleftrightarrow>
     r_tenant r = t \<and>
     (case given (lf_scope f) of
        None \<Rightarrow> True
      | Some sc \<Rightarrow> let lower = py_lower lib sc in if lower = ''live'' then r_status r \<noteq> ''archived''
                   else r_status r = lower \<or> r_source r = lower) \<and>
     equals_if (lf_type f) (Some (r_type r)) \<and> equals_if (lf_status f) (Some (r_status r)) \<and>
     equals_if (lf_session f) (Some (r_session r)) \<and> equals_if (lf_subject f) (r_subject r)"

text \<open>\<open>ORDER BY created_at DESC, id COLLATE "C" DESC\<close>.\<close>

definition newest_first :: "mem_row list \<Rightarrow> mem_row list" where
  "newest_first rs = rev (sort_key r_created (sort_key r_id rs))"

definition list_memories :: "pylib \<Rightarrow> ledger_db \<Rightarrow> string \<Rightarrow> list_filter \<Rightarrow> mem_row list" where
  "list_memories lib db t f =
     (let rows = newest_first (filter (list_where lib t f) (memories db)); n = nat (max 0 (lf_limit f))
      in case given (lf_query f) of
           None \<Rightarrow> take n rows
         | Some asked \<Rightarrow> take n (filter (\<lambda>m. memory_matches_query lib m (py_lower lib asked)) rows))"

definition get_memory :: "ledger_db \<Rightarrow> string \<Rightarrow> string \<Rightarrow> mem_row option" where
  "get_memory db t m = find_row db t m"

definition all_live :: list_filter where
  "all_live = \<lparr>lf_scope = Some ''live'', lf_query = None, lf_limit = 9999, lf_type = None, lf_status = None,
     lf_session = None, lf_subject = None\<rparr>"

definition conflicts :: "pylib \<Rightarrow> (int \<Rightarrow> string) \<Rightarrow> ledger_db \<Rightarrow> string \<Rightarrow> string option \<Rightarrow> conflict_set list" where
  "conflicts lib isot db t subject =
     detect_conflicts lib isot (list_memories lib db t (all_live\<lparr>lf_scope := None, lf_limit := 1000000000\<rparr>)) subject"

definition ledger_retrieve ::
  "pylib \<Rightarrow> (int \<Rightarrow> string) \<Rightarrow> ledger_db \<Rightarrow> string \<Rightarrow> list_filter \<Rightarrow> mem_row list \<times> selection list \<times> conflict_set list" where
  "ledger_retrieve lib isot db t f =
     (let memories = list_memories lib db t f;
          selections = map (to_selection lib isot \<lparr>sf_query = lf_query f, sf_scope = lf_scope f, sf_type = lf_type f,
            sf_status = lf_status f\<rparr>) memories;
          conflicts = detect_conflicts lib isot (list_memories lib db t all_live) (lf_subject f)
      in (memories, selections,
          if lf_subject f = None
          then filter (\<lambda>c. list_ex (\<lambda>m. r_id m \<in> set (map r_id memories)) (cf_memories c)) conflicts else conflicts))"

end
