(* ===== verification/Search.thy ===== *)
theory Search
  imports Retrieval "HOL-Library.While_Combinator" "HOL-Library.Sublist"
begin

text \<open>
  Words, phrases and scores of the ledger search (\<^verbatim>\<open>app/ledger_search.py\<close> and the function
  \<^verbatim>\<open>jarvis_search_tokens\<close> of schema V9). The loops of the Knuth-Morris-Pratt search are loops: a loop that
  does not end gives \<open>None\<close>, and the theorem is that the search always ends and finds exactly the runs.
\<close>

section \<open>Words\<close>

definition token_char :: "char \<Rightarrow> bool" where
  "token_char c \<longleftrightarrow> (let k = (of_char c :: nat) in (48 \<le> k \<and> k \<le> 57) \<or> (97 \<le> k \<and> k \<le> 122) \<or> 128 \<le> k)"

text \<open>\<open>re.split\<close> and \<open>regexp_split_to_array\<close> on runs of other characters, empty pieces included.\<close>

function split_words :: "string \<Rightarrow> string list" where
  "split_words s =
     (let rest = dropWhile token_char s
      in takeWhile token_char s # (if rest = [] then [] else split_words (dropWhile (\<lambda>c. \<not> token_char c) rest)))"
  by pat_completeness auto
termination
proof (relation "measure length", goal_cases)
  case (2 s rest)
  obtain c r where c: "rest = c # r" using 2(2) by (meson neq_Nil_conv)
  then have "\<not> token_char c" using 2 dropWhile_eq_Cons_conv [of token_char s c r] by auto
  then have "length (dropWhile (\<lambda>c. \<not> token_char c) rest) \<le> length r" using c length_dropWhile_le by auto
  also have "\<dots> < length rest" using c by simp
  also have "\<dots> \<le> length s" using 2 length_dropWhile_le by auto
  finally show ?case by simp
qed simp

declare split_words.simps [simp del]

definition tokens :: "string \<Rightarrow> string list" where
  "tokens text = filter (\<lambda>t. t \<noteq> []) (split_words (ascii_lower text))"

definition text_of :: "string option \<Rightarrow> string" where
  "text_of v = (case v of None \<Rightarrow> [] | Some s \<Rightarrow> s)"

definition record_tokens :: "string option \<Rightarrow> string \<Rightarrow> string list \<Rightarrow> string list" where
  "record_tokens subject body tags = tokens (join_with '' '' [text_of subject, body, join_with '' '' tags])"

definition jarvis_search_tokens :: "string option \<Rightarrow> string \<Rightarrow> string list \<Rightarrow> string list" where
  "jarvis_search_tokens subject body tags =
     split_words (ascii_lower (text_of subject @ '' '' @ body @ '' '' @ join_with '' '' tags))"

text \<open>A refusal: status, code, reason, detail.\<close>

datatype latest_exc = Latest_error nat string string string

definition MAX_QUERY_CHARS :: nat where
  "MAX_QUERY_CHARS = 500"

definition MAX_QUERY_TOKENS :: nat where
  "MAX_QUERY_TOKENS = 16"

definition first_seen :: "string list \<Rightarrow> string list" where
  "first_seen ts = foldl (\<lambda>seen t. if t \<in> set seen then seen else seen @ [t]) [] ts"

definition query_tokens :: "json \<Rightarrow> latest_exc + string list" where
  "query_tokens v =
     (case v of
        JStr s \<Rightarrow>
          if strip s = [] then Inl (Latest_error 422 ''invalid_request'' ''QUERY_EMPTY'' ''query must be a non-empty string'')
          else if char_length s > MAX_QUERY_CHARS then Inl (Latest_error 422 ''invalid_request'' ''QUERY_TOO_LONG''
            (''query must be at most '' @ dec_nat MAX_QUERY_CHARS @ '' characters''))
          else let seen = first_seen (tokens s)
          in if seen = [] then Inl (Latest_error 422 ''invalid_request'' ''QUERY_EMPTY'' ''query has no searchable words'')
             else if length seen > MAX_QUERY_TOKENS then Inl (Latest_error 422 ''invalid_request'' ''QUERY_TOO_LONG''
               (''query must have at most '' @ dec_nat MAX_QUERY_TOKENS @ '' distinct words''))
             else Inr seen
      | _ \<Rightarrow> Inl (Latest_error 422 ''invalid_request'' ''QUERY_EMPTY'' ''query must be a non-empty string''))"

section \<open>Finding a run of words\<close>

text \<open>\<open>while k and item != run[k]: k = fail[k - 1]\<close>, then one more when the items agree.\<close>

definition kmp_step :: "string list \<Rightarrow> nat list \<Rightarrow> string \<Rightarrow> nat \<Rightarrow> nat option" where
  "kmp_step run fail item k =
     map_option (\<lambda>k. if item = run ! k then k + 1 else k)
       (while_option (\<lambda>k. k \<noteq> 0 \<and> item \<noteq> run ! k) (\<lambda>k. fail ! (k - 1)) k)"

fun kmp_table :: "string list \<Rightarrow> nat list \<Rightarrow> nat \<times> nat list \<Rightarrow> (nat \<times> nat list) option" where
  "kmp_table run [] st = Some st"
| "kmp_table run (i # is) (k, fail) =
     (case kmp_step run fail (run ! i) k of None \<Rightarrow> None | Some k' \<Rightarrow> kmp_table run is (k', fail[i := k']))"

fun kmp_search :: "string list \<Rightarrow> nat list \<Rightarrow> nat \<Rightarrow> string list \<Rightarrow> bool option" where
  "kmp_search run fail k [] = Some False"
| "kmp_search run fail k (item # items) =
     (case kmp_step run fail item k of
        None \<Rightarrow> None
      | Some k' \<Rightarrow> if k' = length run then Some True else kmp_search run fail k' items)"

definition contains_run :: "string list \<Rightarrow> string list \<Rightarrow> bool option" where
  "contains_run items run =
     (let m = length run
      in if m = 0 \<or> m > length items then Some (m = 0)
         else case kmp_table run [1..<m] (0, replicate m 0) of
                None \<Rightarrow> None
              | Some (_, fail) \<Rightarrow> kmp_search run fail 0 items)"

section \<open>Scores\<close>

definition W_SUBJECT :: int where "W_SUBJECT = 6"

definition W_TAG :: int where "W_TAG = 4"

definition W_CONTENT :: int where "W_CONTENT = 1"

definition CONTENT_TF_CAP :: int where "CONTENT_TF_CAP = 3"

definition PHRASE_BONUS :: int where "PHRASE_BONUS = 5"

definition score :: "mem_row \<Rightarrow> string list \<Rightarrow> string list \<Rightarrow> int" where
  "score r qtoks phrase =
     (let subject = tokens (text_of (r_subject r)); tag_toks = tokens (join_with '' '' (r_tags r)); body = tokens (r_content r)
      in sum_list (map (\<lambda>q. (if q \<in> set subject then W_SUBJECT else 0) + (if q \<in> set tag_toks then W_TAG else 0)
                       + W_CONTENT * min CONTENT_TF_CAP (int (count_list body q))) qtoks)
         + (if length phrase > 1 \<and> list_ex (\<lambda>s. contains_run s phrase = Some True) [subject, body] then PHRASE_BONUS else 0))"

section \<open>The run search is right\<close>

text \<open>The first \<open>j\<close> words of the run are the last \<open>j\<close> of what was read.\<close>

definition matched :: "string list \<Rightarrow> string list \<Rightarrow> nat \<Rightarrow> bool" where
  "matched run xs j \<longleftrightarrow> j \<le> length run \<and> suffix (take j run) xs"

definition longest :: "string list \<Rightarrow> string list \<Rightarrow> nat \<Rightarrow> bool" where
  "longest run xs k \<longleftrightarrow> matched run xs k \<and> (\<forall>j. matched run xs j \<longrightarrow> j \<le> k)"

text \<open>Entry \<open>i\<close> of the table is the longest proper border of the first \<open>i + 1\<close> words.\<close>

definition table_ok :: "string list \<Rightarrow> nat list \<Rightarrow> nat \<Rightarrow> bool" where
  "table_ok run fail n \<longleftrightarrow> (\<forall>i < n. longest run (tl (take (i + 1) run)) (fail ! i))"

lemma matched_0 [simp]: "matched run xs 0"
  by (simp add: matched_def)

lemma matched_length: "matched run xs j \<Longrightarrow> j \<le> length xs"
  by (auto simp: matched_def dest: suffix_length_le)

lemma matched_snoc: "matched run (xs @ [x]) (Suc j) \<longleftrightarrow> matched run xs j \<and> j < length run \<and> run ! j = x"
  by (auto simp: matched_def take_Suc_conv_app_nth Suc_le_eq)

text \<open>What matches shorter than \<open>k\<close> matches is a border of the first \<open>k\<close> words.\<close>

lemma matched_border:
  assumes "matched run xs k" "0 < k" "j < k"
  shows "matched run xs j \<longleftrightarrow> matched run (tl (take k run)) j"
proof -
  have k: "k \<le> length run" and s: "suffix (take k run) xs" using assms(1) by (simp_all add: matched_def)
  have l: "length (take k run) = k" "length (tl (take k run)) = k - 1" using k by simp_all
  have t: "suffix (tl (take k run)) (take k run)" by (metis suffix_tl)
  show ?thesis
  proof
    assume "matched run xs j"
    then have "suffix (take j run) xs" "j \<le> length run" by (simp_all add: matched_def)
    moreover have "length (take j run) \<le> length (tl (take k run))" using assms(2,3) l by simp
    ultimately show "matched run (tl (take k run)) j"
      using suffix_length_suffix [of "take j run" xs "tl (take k run)"] suffix_order.trans [OF t s] by (simp add: matched_def)
  next
    assume "matched run (tl (take k run)) j"
    then show "matched run xs j" using suffix_order.trans t s unfolding matched_def by blast
  qed
qed

lemma fall_back:
  "matched run xs k \<Longrightarrow> table_ok run fail k \<Longrightarrow> (\<And>j. matched run xs j \<Longrightarrow> k < j \<Longrightarrow> j < length run \<Longrightarrow> run ! j \<noteq> item) \<Longrightarrow>
     \<exists>k'. while_option (\<lambda>k. k \<noteq> 0 \<and> item \<noteq> run ! k) (\<lambda>k. fail ! (k - 1)) k = Some k' \<and> k' \<le> k \<and> matched run xs k' \<and>
       (k' = 0 \<or> item = run ! k') \<and> (\<forall>j. matched run xs j \<longrightarrow> k' < j \<longrightarrow> j < length run \<longrightarrow> run ! j \<noteq> item)"
proof (induction k rule: less_induct)
  case (less k)
  show ?case
  proof (cases "k \<noteq> 0 \<and> item \<noteq> run ! k")
    case False
    then have "while_option (\<lambda>k. k \<noteq> 0 \<and> item \<noteq> run ! k) (\<lambda>k. fail ! (k - 1)) k = Some k"
      by (subst while_option_unfold) (simp only: if_False)
    then show ?thesis using less.prems False by (intro exI [where x = k]) auto
  next
    case True
    let ?f = "fail ! (k - 1)"
    have f: "longest run (tl (take k run)) ?f" using less.prems(2) True unfolding table_ok_def by (metis One_nat_def Suc_eq_plus1 Suc_pred diff_less not_gr_zero zero_less_one)
    have lt: "?f < k"
      using f matched_length [of run "tl (take k run)" ?f] True by (auto simp: longest_def)
    have "matched run xs ?f" using f matched_border [OF less.prems(1)] True lt by (auto simp: longest_def)
    moreover have "table_ok run fail ?f" using less.prems(2) lt by (simp add: table_ok_def)
    moreover have "run ! j \<noteq> item" if j: "matched run xs j" "?f < j" "j < length run" for j
    proof (cases j k rule: linorder_cases)
      case less
      then have "matched run (tl (take k run)) j" using j(1) matched_border [OF \<open>matched run xs k\<close>] by simp
      then show ?thesis using f j(2) by (auto simp: longest_def)
    qed (use less.prems(3) j True in auto)
    ultimately obtain k' where "while_option (\<lambda>k. k \<noteq> 0 \<and> item \<noteq> run ! k) (\<lambda>k. fail ! (k - 1)) ?f = Some k'" "k' \<le> ?f"
      "matched run xs k'" "k' = 0 \<or> item = run ! k'" "\<forall>j. matched run xs j \<longrightarrow> k' < j \<longrightarrow> j < length run \<longrightarrow> run ! j \<noteq> item"
      using less.IH [OF lt] by blast
    moreover have "while_option (\<lambda>k. k \<noteq> 0 \<and> item \<noteq> run ! k) (\<lambda>k. fail ! (k - 1)) k =
        while_option (\<lambda>k. k \<noteq> 0 \<and> item \<noteq> run ! k) (\<lambda>k. fail ! (k - 1)) ?f"
      using True by (subst while_option_unfold) (simp only: if_True simp_thms)
    ultimately show ?thesis using lt by (intro exI [where x = k']) auto
  qed
qed

lemma kmp_step_longest:
  assumes "longest run xs k" "k < length run" "table_ok run fail k"
  shows "\<exists>k'. kmp_step run fail item k = Some k' \<and> longest run (xs @ [item]) k'"
proof -
  have m: "matched run xs k" and top: "\<And>j. matched run xs j \<Longrightarrow> j \<le> k" using assms(1) by (auto simp: longest_def)
  from fall_back [OF m assms(3), of item] top obtain k' where
    w: "while_option (\<lambda>k. k \<noteq> 0 \<and> item \<noteq> run ! k) (\<lambda>k. fail ! (k - 1)) k = Some k'" "k' \<le> k" "matched run xs k'"
      "k' = 0 \<or> item = run ! k'" "\<forall>j. matched run xs j \<longrightarrow> k' < j \<longrightarrow> j < length run \<longrightarrow> run ! j \<noteq> item" by fastforce
  let ?n = "if item = run ! k' then k' + 1 else k'"
  have lt: "k' < length run" using w(2) assms(2) by simp
  have "matched run (xs @ [item]) ?n"
    using w(3,4) lt by (auto simp: matched_snoc)
  moreover have "j \<le> ?n" if "matched run (xs @ [item]) j" for j
  proof (cases j)
    case (Suc i)
    with that have i: "matched run xs i" "i < length run" "run ! i = item" by (simp_all add: matched_snoc)
    then have "\<not> k' < i" using w(5) by blast
    then have "i \<le> k'" by simp
    then show ?thesis using i w(4) Suc by (cases "i = k'") auto
  qed simp
  ultimately show ?thesis using w(1) by (auto simp: kmp_step_def longest_def)
qed

lemma kmp_table_ok:
  "is = [n..<length run] \<Longrightarrow> 0 < n \<Longrightarrow> length fail = length run \<Longrightarrow> table_ok run fail n \<Longrightarrow>
     longest run (tl (take n run)) k \<Longrightarrow>
     \<exists>k' fail'. kmp_table run is (k, fail) = Some (k', fail') \<and> table_ok run fail' (length run) \<and> length fail' = length run"
proof (induction "is" arbitrary: n k fail)
  case Nil
  have "\<not> n < length run" using Nil(1) by (metis upt_conv_Cons list.distinct(1))
  with Nil show ?case by (auto simp: table_ok_def)
next
  case (Cons i js)
  then have "[n..<length run] = i # js" by simp
  then have i: "i = n" "n < length run" "js = [Suc n..<length run]" unfolding upt_eq_Cons_conv by auto
  have kn: "k < n" using Cons.prems(2,5) matched_length [of run "tl (take n run)" k] i(2) by (auto simp: longest_def)
  have "table_ok run fail k" using Cons.prems(4) kn by (auto simp: table_ok_def)
  from kmp_step_longest [OF Cons.prems(5) _ this, of "run ! n"] kn i(2) obtain k' where
    k': "kmp_step run fail (run ! n) k = Some k'" "longest run (tl (take n run) @ [run ! n]) k'" by auto
  have t: "tl (take n run) @ [run ! n] = tl (take (Suc n) run)"
  proof -
    have "take n run \<noteq> []" using i(2) Cons.prems(2) by auto
    then show ?thesis using i(2) by (simp add: take_Suc_conv_app_nth)
  qed
  have "table_ok run (fail[n := k']) (Suc n)"
    using Cons.prems(3,4) k'(2) i(2) unfolding t table_ok_def by (auto simp: less_Suc_eq)
  then have "\<exists>k'' fail'. kmp_table run js (k', fail[n := k']) = Some (k'', fail') \<and> table_ok run fail' (length run) \<and> length fail' = length run"
    using Cons.prems i k'(2) unfolding t by (intro Cons.IH [of "Suc n"]) auto
  then show ?case using k'(1) i(1) by simp
qed

lemma kmp_search_ok:
  "table_ok run fail (length run) \<Longrightarrow> longest run xs k \<Longrightarrow> k < length run \<Longrightarrow>
     \<exists>b. kmp_search run fail k items = Some b \<and> (b \<longleftrightarrow> (\<exists>n. 0 < n \<and> n \<le> length items \<and> suffix run (xs @ take n items)))"
proof (induction items arbitrary: xs k)
  case Nil
  show ?case by (intro exI [where x = False]) simp
next
  case (Cons item items)
  have "table_ok run fail k" using Cons.prems(1,3) by (simp add: table_ok_def)
  from kmp_step_longest [OF Cons.prems(2,3) this, of item] obtain k' where
    k': "kmp_step run fail item k = Some k'" "longest run (xs @ [item]) k'" by blast
  have full: "suffix run (xs @ [item]) \<longleftrightarrow> k' = length run"
    using k'(2) by (auto simp: longest_def matched_def dest: spec [where x = "length run"])
  show ?case
  proof (cases "k' = length run")
    case True
    then have "suffix run (xs @ take 1 (item # items))" using full by simp
    then show ?thesis using k'(1) True by (auto intro!: exI [where x = 1])
  next
    case False
    have "k' \<le> length run" using k'(2) by (simp add: longest_def matched_def)
    with False obtain b where b: "kmp_search run fail k' items = Some b"
      "b \<longleftrightarrow> (\<exists>n. 0 < n \<and> n \<le> length items \<and> suffix run ((xs @ [item]) @ take n items))"
      using Cons.IH [OF Cons.prems(1) k'(2)] by auto
    have "(\<exists>n. 0 < n \<and> n \<le> length (item # items) \<and> suffix run (xs @ take n (item # items))) \<longleftrightarrow>
        suffix run (xs @ [item]) \<or> (\<exists>n. 0 < n \<and> n \<le> length items \<and> suffix run ((xs @ [item]) @ take n items))" (is "?L \<longleftrightarrow> ?R")
    proof
      assume ?L
      then obtain n where n: "0 < n" "n \<le> length (item # items)" "suffix run (xs @ take n (item # items))" by blast
      then obtain i where "n = Suc i" by (cases n) auto
      with n show ?R by (cases "i = 0") auto
    next
      assume ?R
      then show ?L
      proof
        assume "suffix run (xs @ [item])"
        then show ?L by (intro exI [where x = 1]) simp
      next
        assume "\<exists>n. 0 < n \<and> n \<le> length items \<and> suffix run ((xs @ [item]) @ take n items)"
        then obtain n where "n \<le> length items" "suffix run ((xs @ [item]) @ take n items)" by blast
        then show ?L by (intro exI [where x = "Suc n"]) simp
      qed
    qed
    then have "b \<longleftrightarrow> (\<exists>n. 0 < n \<and> n \<le> length (item # items) \<and> suffix run (xs @ take n (item # items)))"
      unfolding b(2) using full False by blast
    with b(1) k'(1) False show ?thesis by (intro exI [where x = b]) (simp only: kmp_search.simps option.simps if_False simp_thms)
  qed
qed

lemma sublist_suffix_take: "sublist run items \<longleftrightarrow> (\<exists>n \<le> length items. suffix run (take n items))"
proof
  assume "sublist run items"
  then obtain ps ss where "items = ps @ run @ ss" by (auto simp: sublist_def)
  then show "\<exists>n \<le> length items. suffix run (take n items)"
    by (intro exI [where x = "length ps + length run"]) (simp add: suffix_def)
next
  assume "\<exists>n \<le> length items. suffix run (take n items)"
  then obtain n ps where "take n items = ps @ run" by (auto simp: suffix_def)
  then have "items = ps @ run @ drop n items" by (metis append.assoc append_take_drop_id)
  then show "sublist run items" unfolding sublist_def by blast
qed

text \<open>C30: looking for a phrase always ends and is right: the Knuth-Morris-Pratt search of the score says yes exactly when the words
  of the phrase occur as consecutive words of the text, for every text and every phrase, the empty ones included.\<close>

theorem contains_run_iff: "contains_run items run = Some (sublist run items)"
proof (cases "run = [] \<or> length run > length items")
  case True
  then show ?thesis using sublist_length_le [of run items] by (auto simp: contains_run_def)
next
  case False
  have start: "longest run [] 0" using matched_length [of run "[]"] by (auto simp: longest_def)
  have "tl (take 1 run) = []" using False by (cases run) auto
  with start have "table_ok run (replicate (length run) 0) 1" "longest run (tl (take 1 run)) 0"
    using False by (auto simp: table_ok_def)
  then obtain k fail where t: "kmp_table run [1..<length run] (0, replicate (length run) 0) = Some (k, fail)"
      "table_ok run fail (length run)"
    using kmp_table_ok [of "[1..<length run]" 1 run "replicate (length run) 0" 0] by auto
  from kmp_search_ok [OF t(2) start, of items] False obtain b where
    b: "kmp_search run fail 0 items = Some b" "b \<longleftrightarrow> (\<exists>n. 0 < n \<and> n \<le> length items \<and> suffix run (take n items))" by auto
  have "b \<longleftrightarrow> sublist run items"
    unfolding b(2) sublist_suffix_take using False by (metis gr0I suffix_bot.extremum_uniqueI take_0)
  with t(1) b(1) False show ?thesis by (auto simp: contains_run_def)
qed

lemma sql_tokens: "filter (\<lambda>t. t \<noteq> []) (jarvis_search_tokens subject body tags) = record_tokens subject body tags"
  by (simp add: jarvis_search_tokens_def record_tokens_def tokens_def)

end
