(* ===== verification/Latest.thy ===== *)
theory Latest
  imports Search Block_Store
begin

unbundle bit_operations_syntax

text \<open>
  Newest-first discovery with signed page cursors (\<^verbatim>\<open>app/emr_latest.py\<close>), the ranked ledger search on top of
  the same query (\<^verbatim>\<open>search_ledger\<close> of \<^verbatim>\<open>app/ledger_search.py\<close>) and the query itself
  (\<^verbatim>\<open>list_latest\<close> of \<^verbatim>\<open>app/pg_store.py\<close>).

  Instants are integers; their fixed-width text and \<open>datetime.fromisoformat\<close> are the parameters of
  \<open>ts_lib\<close>. The store is the PostgreSQL row store.
\<close>

section \<open>HMAC and HKDF\<close>

definition xor_byte :: "nat \<Rightarrow> char \<Rightarrow> char" where
  "xor_byte n c = char_of ((of_char c :: nat) XOR n)"

definition hmac_sha256 :: "bytes \<Rightarrow> bytes \<Rightarrow> bytes" where
  "hmac_sha256 key msg =
     (let k = (if length key > 64 then sha256 key else key); k = k @ replicate (64 - length k) (CHR 0x00)
      in sha256 (map (xor_byte 0x5C) k @ sha256 (map (xor_byte 0x36) k @ msg)))"

text \<open>One block of the output for each round of the loop.\<close>

fun hkdf_blocks :: "bytes \<Rightarrow> bytes \<Rightarrow> bytes \<Rightarrow> nat \<Rightarrow> nat \<Rightarrow> bytes" where
  "hkdf_blocks prk info block counter 0 = []"
| "hkdf_blocks prk info block counter (Suc n) =
     (let b = hmac_sha256 prk (block @ info @ [char_of counter]) in b @ hkdf_blocks prk info b (counter + 1) n)"

definition hkdf_sha256 :: "bytes \<Rightarrow> bytes \<Rightarrow> nat \<Rightarrow> bytes" where
  "hkdf_sha256 secret info len =
     (let prk = hmac_sha256 (replicate 32 (CHR 0x00)) secret in take len (hkdf_blocks prk info [] 1 ((len + 31) div 32)))"

definition CURSOR_INFO :: bytes where
  "CURSOR_INFO = ''emr-latest-cursor-v1''"

text \<open>
  The key file's text (\<open>None\<close>: it could not be read) and the configured API key are arguments.
\<close>

definition cursor_key :: "environ \<Rightarrow> (string \<Rightarrow> string option) \<Rightarrow> string option \<Rightarrow> latest_exc + bytes" where
  "cursor_key ev read_file api_key =
     (let explicit = strip (env_text ev ''JARVIS_CURSOR_HMAC_KEY''); key_file = strip (env_text ev ''JARVIS_CURSOR_HMAC_KEY_FILE'');
          explicit = (if explicit = [] \<and> key_file \<noteq> []
                      then (case read_file key_file of None \<Rightarrow> [] | Some s \<Rightarrow> strip s) else explicit)
      in if explicit \<noteq> [] then Inr (hkdf_sha256 explicit CURSOR_INFO 32)
         else case given api_key of
                Some k \<Rightarrow> Inr (hkdf_sha256 k CURSOR_INFO 32)
              | None \<Rightarrow> Inl (Latest_error 503 ''unavailable'' ''CURSOR_KEY_UNAVAILABLE''
                  ''emr_latest needs JARVIS_CURSOR_HMAC_KEY (or JARVIS_API_KEY) to sign cursors''))"

section \<open>Base64 of cursors\<close>

definition url_char :: "char \<Rightarrow> char" where
  "url_char c = (if c = CHR ''+'' then CHR ''-'' else if c = CHR ''/'' then CHR ''_'' else c)"

definition std_char :: "char \<Rightarrow> char" where
  "std_char c = (if c = CHR ''-'' then CHR ''+'' else if c = CHR ''_'' then CHR ''/'' else c)"

definition b64_url :: "bytes \<Rightarrow> string" where
  "b64_url data = rev (dropWhile (\<lambda>c. c = CHR ''='') (rev (map url_char (b64encode data))))"

text \<open>
  \<open>binascii.a2b_base64\<close>, not strict: other characters are passed over, a complete padding ends the
  input. \<open>q\<close>: how many digits of the group were read, \<open>left\<close>: the bits not yet written, \<open>pads\<close>: the
  padding characters since the last digit.
\<close>

fun a2b :: "nat \<Rightarrow> nat \<Rightarrow> nat \<Rightarrow> string \<Rightarrow> bytes option" where
  "a2b q left pads [] = (if q = 0 then Some [] else None)"
| "a2b q left pads (c # s) =
     (if c = CHR ''='' then
        (if q \<ge> 2 \<and> q + pads + 1 \<ge> 4 then Some [] else a2b q left (if q \<ge> 2 then pads + 1 else pads) s)
      else case b64_val c of
             None \<Rightarrow> a2b q left pads s
           | Some v \<Rightarrow>
               if q = 0 then a2b 1 v 0 s
               else if q = 1 then map_option ((#) (char_of (left * 4 + v div 16))) (a2b 2 (v mod 16) 0 s)
               else if q = 2 then map_option ((#) (char_of (left * 16 + v div 4))) (a2b 3 (v mod 4) 0 s)
               else map_option ((#) (char_of (left * 64 + v))) (a2b 0 0 0 s))"

definition ascii_only :: "string \<Rightarrow> bool" where
  "ascii_only s \<longleftrightarrow> list_all (\<lambda>c. (of_char c :: nat) < 128) s"

definition unb64 :: "string \<Rightarrow> bytes option" where
  "unb64 text =
     (if ascii_only text then a2b 0 0 0 (map std_char (text @ replicate ((4 - length text mod 4) mod 4) (CHR ''=''))) else None)"

section \<open>The cursor\<close>

record latest_params =
  lp_limit :: json
  lp_cursor :: "string option"
  lp_superseded :: bool
  lp_archived :: bool
  lp_twin :: bool
  lp_type :: "string option"

record ts_lib =
  tl_text :: "int \<Rightarrow> string"
  tl_fromiso :: "string \<Rightarrow> int option"

definition parse_utc :: "ts_lib \<Rightarrow> string \<Rightarrow> int option" where
  "parse_utc lib v =
     (let t = strip v
      in tl_fromiso lib (if t \<noteq> [] \<and> (last t = CHR ''Z'' \<or> last t = CHR ''z'') then butlast t @ ''+00:00'' else t))"

definition scope_hash :: "string \<Rightarrow> latest_params \<Rightarrow> string" where
  "scope_hash tenant p =
     take 24 (sha256_hex (dumps (JList [JStr tenant, jopt (lp_type p), JBool (lp_superseded p), JBool (lp_archived p), JBool (lp_twin p)])))"

text \<open>\<open>json.dumps\<close> of a text with \<open>ensure_ascii\<close>, on its code points.\<close>

function code_points :: "string \<Rightarrow> nat list" where
  "code_points [] = []"
| "code_points (c # s) =
     (let k = (of_char c :: nat); n = (if k < 128 then 0 else if k < 224 then 1 else if k < 240 then 2 else 3);
          first = (if k < 128 then k else if k < 224 then k mod 32 else if k < 240 then k mod 16 else k mod 8)
      in foldl (\<lambda>a d. a * 64 + (of_char d :: nat) mod 64) first (take n s) # code_points (drop n s))"
  by pat_completeness auto
termination by (relation "measure length") auto

definition u_escape :: "nat \<Rightarrow> string" where
  "u_escape k = [CHR 0x5C, CHR ''u''] @ hex_byte (char_of (k div 256)) @ hex_byte (char_of (k mod 256))"

definition ascii_escape :: "nat \<Rightarrow> string" where
  "ascii_escape k =
     (if k < 127 then json_char (char_of k)
      else if k < 0x10000 then u_escape k
      else u_escape (0xD800 + (k - 0x10000) div 1024) @ u_escape (0xDC00 + (k - 0x10000) mod 1024))"

definition json_ascii :: "string \<Rightarrow> string" where
  "json_ascii s = [CHR 0x22] @ concat (map ascii_escape (code_points s)) @ [CHR 0x22]"

definition encode_cursor :: "ts_lib \<Rightarrow> bytes \<Rightarrow> string \<Rightarrow> latest_params \<Rightarrow> int \<Rightarrow> string \<Rightarrow> string" where
  "encode_cursor lib key tenant p created rid =
     (let body = b64_url ([CHR ''{'', CHR 0x22, CHR ''c'', CHR 0x22, CHR '':''] @ json_ascii (tl_text lib created)
                  @ [CHR '','', CHR 0x22, CHR ''i'', CHR 0x22, CHR '':''] @ json_ascii rid
                  @ [CHR '','', CHR 0x22, CHR ''s'', CHR 0x22, CHR '':''] @ json_ascii (scope_hash tenant p) @ [CHR ''}''])
      in body @ ''.'' @ b64_url (hmac_sha256 key body))"

definition cursor_invalid :: latest_exc where
  "cursor_invalid = Latest_error 422 ''invalid_request'' ''CURSOR_INVALID'' ''cursor is invalid''"

definition cursor_data :: "ts_lib \<Rightarrow> string \<Rightarrow> latest_params \<Rightarrow> bytes \<Rightarrow> (int \<times> string) option" where
  "cursor_data lib tenant p data =
     (case loads JFloat data of
        Some (JObj d) \<Rightarrow>
          if obj_get d ''s'' \<noteq> JStr (scope_hash tenant p) then None
          else (case map_of d ''i'' of
                  Some (JStr rid) \<Rightarrow>
                    if rid = [] then None
                    else (case map_of d ''c'' of
                            Some (JStr c) \<Rightarrow> map_option (\<lambda>i. (i, rid)) (parse_utc lib c)
                          | _ \<Rightarrow> None)
                | _ \<Rightarrow> None)
      | _ \<Rightarrow> None)"

definition decode_cursor :: "ts_lib \<Rightarrow> bytes \<Rightarrow> string \<Rightarrow> latest_params \<Rightarrow> string \<Rightarrow> latest_exc + int \<times> string" where
  "decode_cursor lib key tenant p token =
     (case split_on (CHR ''.'') token of
        [body, mac] \<Rightarrow>
          if \<not> ascii_only body \<or> unb64 mac \<noteq> Some (hmac_sha256 key body) then Inl cursor_invalid
          else (case unb64 body of
                  None \<Rightarrow> Inl cursor_invalid
                | Some data \<Rightarrow> (case cursor_data lib tenant p data of None \<Rightarrow> Inl cursor_invalid | Some a \<Rightarrow> Inr a))
      | _ \<Rightarrow> Inl cursor_invalid)"

section \<open>The query\<close>

definition TWIN_AGENT :: string where
  "TWIN_AGENT = ''ai-twin''"

definition superseded_by :: "ledger_db \<Rightarrow> mem_row \<Rightarrow> string option" where
  "superseded_by db r =
     (case newest_first (filter (\<lambda>s. r_tenant s = r_tenant r \<and> r_supersedes s = Some (r_id r)) (memories db)) of
        [] \<Rightarrow> None | s # _ \<Rightarrow> Some (r_id s))"

definition latest_where :: "ledger_db \<Rightarrow> string \<Rightarrow> latest_params \<Rightarrow> string list \<Rightarrow> mem_row \<Rightarrow> bool" where
  "latest_where db t p toks r \<longleftrightarrow>
     r_tenant r = t \<and> equals_if (lp_type p) (Some (r_type r)) \<and> (lp_twin p \<or> r_source r \<noteq> TWIN_AGENT) \<and>
     (lp_archived p \<or> r_status r \<noteq> ''archived'') \<and>
     (lp_superseded p \<or> \<not> list_ex (\<lambda>s. r_tenant s = r_tenant r \<and> r_supersedes s = Some (r_id r)) (memories db)) \<and>
     set toks \<subseteq> set (jarvis_search_tokens (r_subject r) (r_content r) (r_tags r))"

definition before_cursor :: "(int \<times> string) option \<Rightarrow> mem_row \<Rightarrow> bool" where
  "before_cursor after r \<longleftrightarrow>
     (case after of None \<Rightarrow> True | Some (c, m) \<Rightarrow> r_created r < c \<or> (r_created r = c \<and> r_id r < m))"

definition list_latest ::
  "ledger_db \<Rightarrow> string \<Rightarrow> int \<Rightarrow> (int \<times> string) option \<Rightarrow> latest_params \<Rightarrow> string list \<Rightarrow> (mem_row \<times> string option) list" where
  "list_latest db t limit after p toks =
     take (nat (max 0 limit)) (map (\<lambda>r. (r, superseded_by db r))
       (newest_first (filter (\<lambda>r. latest_where db t p toks r \<and> before_cursor after r) (memories db))))"

section \<open>What is returned\<close>

definition parse_limit :: "json \<Rightarrow> latest_exc + int" where
  "parse_limit v =
     (case v of
        JNull \<Rightarrow> Inr 10
      | JInt n \<Rightarrow> if 1 \<le> n \<and> n \<le> 50 then Inr n
                  else Inl (Latest_error 422 ''invalid_request'' ''LIMIT_OUT_OF_RANGE'' ''limit must be an integer from 1 to 50'')
      | _ \<Rightarrow> Inl (Latest_error 422 ''invalid_request'' ''LIMIT_OUT_OF_RANGE'' ''limit must be an integer from 1 to 50''))"

definition summary_of :: "mem_row \<Rightarrow> string" where
  "summary_of r =
     (case r_subject r of
        Some s \<Rightarrow> if s \<noteq> [] \<and> strip s \<noteq> [] then char_take 200 (strip s)
                  else (case filter (\<lambda>l. strip l \<noteq> []) (splitlines (r_content r)) of [] \<Rightarrow> [] | l # _ \<Rightarrow> char_take 200 (strip l))
      | None \<Rightarrow> (case filter (\<lambda>l. strip l \<noteq> []) (splitlines (r_content r)) of [] \<Rightarrow> [] | l # _ \<Rightarrow> char_take 200 (strip l)))"

definition lifecycle :: "mem_row \<Rightarrow> string option \<Rightarrow> string" where
  "lifecycle r succ = (if r_status r = ''archived'' then ''archived'' else if given succ \<noteq> None then ''superseded'' else ''active'')"

record shaped =
  sh_id :: string
  sh_created :: string
  sh_type :: string
  sh_status :: string
  sh_lifecycle :: string
  sh_source :: "string option"
  sh_refs :: "string list"
  sh_supersedes :: "string option"
  sh_superseded_by :: "string option"
  sh_summary :: string

definition shape_of :: "ts_lib \<Rightarrow> mem_row \<times> string option \<Rightarrow> shaped" where
  "shape_of lib rs =
     (case rs of (r, succ) \<Rightarrow>
        \<lparr>sh_id = r_id r, sh_created = tl_text lib (r_created r), sh_type = r_type r, sh_status = r_status r,
         sh_lifecycle = lifecycle r succ, sh_source = given (Some (r_source r)), sh_refs = map l_ref (r_evidence r),
         sh_supersedes = given (r_supersedes r), sh_superseded_by = succ, sh_summary = summary_of r\<rparr>)"

definition ledger_head :: "ledger_db \<Rightarrow> string \<Rightarrow> bool \<Rightarrow> string" where
  "ledger_head db t operator =
     (if operator then
        (case bh_tip (block_head db t) of
           Some tip \<Rightarrow> ''block:'' @ b_hash tip
         | None \<Rightarrow> ''seq:'' @ str_int (bh_history_seq (block_head db t)))
      else ''seq:'' @ str_int (history_seq db t))"

definition result_digest :: "json list list \<Rightarrow> string" where
  "result_digest rows = sha256_hex (dumps (JList (map JList rows)))"

definition digest_row :: "shaped \<Rightarrow> json list" where
  "digest_row s = [JStr (sh_id s), JStr (sh_created s), JStr (sh_status s), JStr (sh_lifecycle s)]"

definition tenant_unresolved :: latest_exc where
  "tenant_unresolved = Latest_error 403 ''denied'' ''TENANT_UNRESOLVED'' ''tenant could not be resolved''"

record latest_page =
  la_records :: "shaped list"
  la_next :: "string option"
  la_tenant :: string
  la_head :: string
  la_digest :: string

definition latest_memories ::
  "ts_lib \<Rightarrow> (latest_exc + bytes) \<Rightarrow> ledger_db \<Rightarrow> string option \<Rightarrow> latest_params \<Rightarrow> bool \<Rightarrow> latest_exc + latest_page" where
  "latest_memories lib key_of db tenant p operator =
     (case given tenant of
        None \<Rightarrow> Inl tenant_unresolved
      | Some t \<Rightarrow>
          res_bind (parse_limit (lp_limit p)) (\<lambda>limit. res_bind key_of (\<lambda>key.
          res_bind (case given (lp_cursor p) of None \<Rightarrow> Inr None
                    | Some c \<Rightarrow> res_bind (decode_cursor lib key t p c) (\<lambda>a. Inr (Some a))) (\<lambda>after.
            let rows = list_latest db t (limit + 1) after p [];
                pg = take (nat limit) rows; further = length rows > nat limit;
                records = map (shape_of lib) pg
            in Inr \<lparr>la_records = records,
                 la_next = (if further \<and> pg \<noteq> []
                            then Some (encode_cursor lib key t p (r_created (fst (last pg))) (r_id (fst (last pg)))) else None),
                 la_tenant = t, la_head = ledger_head db t operator, la_digest = result_digest (map digest_row records)\<rparr>))))"

section \<open>Ranked search\<close>

definition MAX_CANDIDATES :: nat where
  "MAX_CANDIDATES = 5000"

record search_page =
  sp_query :: json
  sp_tokens :: "string list"
  sp_records :: "(shaped \<times> int) list"
  sp_capped :: bool
  sp_tenant :: string
  sp_head :: string
  sp_digest :: string

text \<open>The arguments are those of a page without a cursor, with the query.\<close>

definition search_ledger ::
  "ts_lib \<Rightarrow> ledger_db \<Rightarrow> string option \<Rightarrow> json \<Rightarrow> latest_params \<Rightarrow> bool \<Rightarrow> latest_exc + search_page" where
  "search_ledger lib db tenant qv p operator =
     (case given tenant of
        None \<Rightarrow> Inl tenant_unresolved
      | Some t \<Rightarrow>
          res_bind (parse_limit (lp_limit p)) (\<lambda>limit. res_bind (query_tokens qv) (\<lambda>qtoks.
            let phrase = tokens (case qv of JStr s \<Rightarrow> s | _ \<Rightarrow> []);
                candidates = list_latest db t (int MAX_CANDIDATES + 1) None p qtoks;
                ranked = take (nat limit) (sort_key (\<lambda>rs. - score (fst rs) qtoks phrase) (take MAX_CANDIDATES candidates));
                records = map (\<lambda>rs. (shape_of lib rs, score (fst rs) qtoks phrase)) ranked
            in Inr \<lparr>sp_query = qv, sp_tokens = qtoks, sp_records = records, sp_capped = (length candidates > MAX_CANDIDATES),
                 sp_tenant = t, sp_head = ledger_head db t operator,
                 sp_digest = result_digest (map (\<lambda>(s, n). digest_row s @ [JInt n]) records)\<rparr>)))"

end
