(* ===== verification/Json_Spaced.thy ===== *)
theory Json_Spaced
  imports Json_Parse
begin

text \<open>
  \<^verbatim>\<open>json.dumps(v, sort_keys=True, ensure_ascii=False)\<close> with the default separators, a comma and a colon each
  followed by a space, and what \<open>loads\<close> reads back from its text.
\<close>

definition spaced_member :: "string \<times> string \<Rightarrow> string" where
  "spaced_member kv = json_string (fst kv) @ '': '' @ snd kv"

primrec dumps_spaced :: "json \<Rightarrow> string" where
  "dumps_spaced JNull = ''null''"
| "dumps_spaced (JBool b) = (if b then ''true'' else ''false'')"
| "dumps_spaced (JInt i) = str_int i"
| "dumps_spaced (JFloat s) = s"
| "dumps_spaced (JNan s) = s"
| "dumps_spaced (JStr s) = json_string s"
| "dumps_spaced (JList vs) = ''['' @ join_with '', '' (map dumps_spaced vs) @ '']''"
| "dumps_spaced (JObj kvs) =
     ''{'' @ join_with '', '' (map spaced_member (sort_key fst (map (map_prod (\<lambda>k. k) dumps_spaced) kvs))) @ ''}''"

definition spaced_text :: "string \<times> json \<Rightarrow> string" where
  "spaced_text kv = spaced_member (fst kv, dumps_spaced (snd kv))"

lemma spaced_text_alt: "spaced_text kv @ x =
    CHR 0x22 # concat (map json_char (fst kv)) @ CHR 0x22 # CHR '':'' # CHR '' '' # dumps_spaced (snd kv) @ x"
  by (simp add: spaced_text_def spaced_member_def json_string_def)

lemma spaced_obj: "dumps_spaced (JObj kvs) = ''{'' @ join_with '', '' (map spaced_text (sort_key fst kvs)) @ ''}''"
proof -
  have "map spaced_member (map (map_prod (\<lambda>k. k) dumps_spaced) ms) = map spaced_text ms" for ms
    by (auto simp: spaced_text_def)
  then show ?thesis by (simp only: dumps_spaced.simps sort_map_prod)
qed

lemma spaced_start: "float_free v \<Longrightarrow>
    dumps_spaced v \<noteq> [] \<and> \<not> is_ws (hd (dumps_spaced v)) \<and> hd (dumps_spaced v) \<notin> {CHR '']'', CHR ''}''}"
proof -
  have "dumps_spaced v \<noteq> [] \<and> hd (dumps_spaced v) = hd (dumps v)" if "float_free v"
    using that by (cases v) (simp_all add: json_string_def)
  then show "float_free v \<Longrightarrow> ?thesis" using dumps_start [of v] by simp
qed

lemma join_sep: "join_with (c # sep) (x # xs) = x @ (if xs = [] then [] else c # sep @ join_with (c # sep) xs)"
  by (cases xs) simp_all

lemma skip_space: "skip_ws (CHR '' '' # x) = skip_ws x"
  by (simp add: skip_ws_def is_ws_def)

lemma spaced_items_text:
  assumes "\<And>v m r. v \<in> set vs \<Longrightarrow> ends r \<Longrightarrow> length (dumps_spaced v) \<le> m \<Longrightarrow> p_value fl m (dumps_spaced v @ r) = Some (jnorm v, r)"
    and "\<forall>v \<in> set vs. float_free v" and "vs \<noteq> []" and "length (join_with '', '' (map dumps_spaced vs)) < m"
  shows "p_items fl m (join_with '', '' (map dumps_spaced vs) @ CHR '']'' # r) = Some (map jnorm vs, r)"
  using assms
proof (induction vs arbitrary: m)
  case (Cons v vs)
  then obtain n where m: "m = Suc n" by (cases m) auto
  show ?case
  proof (cases vs)
    case Nil
    have "p_value fl n (dumps_spaced v @ CHR '']'' # r) = Some (jnorm v, CHR '']'' # r)"
      using Cons.prems(4) by (intro Cons.prems(1)) (simp_all add: Nil m)
    then show ?thesis by (simp add: Nil m skip_ws_ends)
  next
    case (Cons w ws)
    let ?rest = "join_with '', '' (map dumps_spaced vs) @ CHR '']'' # r"
    have j: "join_with '', '' (map dumps_spaced (v # vs)) @ CHR '']'' # r = dumps_spaced v @ CHR '','' # CHR '' '' # ?rest"
      by (simp add: local.Cons)
    have "length (dumps_spaced v) + 2 + length (join_with '', '' (map dumps_spaced vs)) < m" using Cons.prems(4) by (simp add: local.Cons)
    then have n: "length (dumps_spaced v) \<le> n" "length (join_with '', '' (map dumps_spaced vs)) < n" using m by linarith+
    have "p_value fl n (dumps_spaced v @ CHR '','' # CHR '' '' # ?rest) = Some (jnorm v, CHR '','' # CHR '' '' # ?rest)"
      using n by (intro Cons.prems(1)) simp_all
    moreover have "skip_ws (CHR '' '' # ?rest) = ?rest"
      using spaced_start [of w] Cons.prems(2) by (cases ws) (simp_all add: local.Cons skip_space skip_ws_start)
    moreover have "p_items fl n ?rest = Some (map jnorm vs, r)"
      using Cons.prems n local.Cons by (intro Cons.IH) auto
    ultimately show ?thesis unfolding j m by (simp add: skip_ws_ends)
  qed
qed simp

lemma spaced_members_text:
  assumes "\<And>kv m r. kv \<in> set ms \<Longrightarrow> ends r \<Longrightarrow> length (dumps_spaced (snd kv)) \<le> m \<Longrightarrow>
      p_value fl m (dumps_spaced (snd kv) @ r) = Some (jnorm (snd kv), r)"
    and "\<forall>kv \<in> set ms. float_free (snd kv)" and "ms \<noteq> []" and "length (join_with '', '' (map spaced_text ms)) < m"
  shows "p_members fl m (join_with '', '' (map spaced_text ms) @ CHR ''}'' # r) = Some (map (map_prod (\<lambda>k. k) jnorm) ms, r)"
  using assms
proof (induction ms arbitrary: m)
  case (Cons kv ms)
  then obtain n where m: "m = Suc n" by (cases m) auto
  have len: "length (dumps_spaced (snd kv)) < length (spaced_text kv)" by (simp add: spaced_text_def spaced_member_def)
  have ws: "skip_ws (CHR '' '' # dumps_spaced (snd kv) @ x) = dumps_spaced (snd kv) @ x" for x
    using spaced_start [of "snd kv"] Cons.prems(2) by (simp add: skip_space skip_ws_start)
  have col: "skip_ws (CHR '':'' # x) = CHR '':'' # x" for x by (simp add: skip_ws_def is_ws_def)
  show ?case
  proof (cases ms)
    case Nil
    have "p_value fl n (dumps_spaced (snd kv) @ CHR ''}'' # r) = Some (jnorm (snd kv), CHR ''}'' # r)"
      using Cons.prems(4) len by (intro Cons.prems(1)) (simp_all add: Nil m)
    then show ?thesis by (simp add: Nil m spaced_text_alt p_string_text col ws skip_ws_ends map_prod_def split_def)
  next
    case (Cons kv2 ms2)
    let ?rest = "join_with '', '' (map spaced_text ms) @ CHR ''}'' # r"
    have j: "join_with '', '' (map spaced_text (kv # ms)) @ CHR ''}'' # r = spaced_text kv @ CHR '','' # CHR '' '' # ?rest"
      by (simp add: local.Cons)
    have "length (spaced_text kv) + 2 + length (join_with '', '' (map spaced_text ms)) < m" using Cons.prems(4) by (simp add: local.Cons)
    then have n: "length (dumps_spaced (snd kv)) \<le> n" "length (join_with '', '' (map spaced_text ms)) < n" using m len by linarith+
    have "p_value fl n (dumps_spaced (snd kv) @ CHR '','' # CHR '' '' # ?rest) = Some (jnorm (snd kv), CHR '','' # CHR '' '' # ?rest)"
      using n by (intro Cons.prems(1)) simp_all
    moreover have "skip_ws ?rest = ?rest"
      by (cases ms2) (simp_all add: local.Cons spaced_text_alt, simp_all add: skip_ws_def is_ws_def)
    then have "skip_ws (CHR '' '' # ?rest) = ?rest" by (simp add: skip_space)
    moreover have "p_members fl n ?rest = Some (map (map_prod (\<lambda>k. k) jnorm) ms, r)"
      using Cons.prems n local.Cons by (intro Cons.IH) auto
    ultimately show ?thesis unfolding j m spaced_text_alt by (simp add: p_string_text col ws skip_ws_ends map_prod_def split_def)
  qed
qed simp

lemma p_value_spaced:
  "float_free v \<Longrightarrow> keyed v \<Longrightarrow> ends r \<Longrightarrow> length (dumps_spaced v) \<le> m \<Longrightarrow> p_value fl m (dumps_spaced v @ r) = Some (jnorm v, r)"
proof (induction v arbitrary: r m)
  case (JList vs)
  then obtain n where m: "m = Suc n" by (cases m) auto
  show ?case
  proof (cases "vs = []")
    case True
    then show ?thesis by (simp add: m skip_ws_def is_ws_def)
  next
    case False
    let ?body = "join_with '', '' (map dumps_spaced vs)"
    have k: "\<forall>v \<in> set vs. float_free v \<and> keyed v" using JList.prems by (auto simp: list_all_iff)
    obtain w ws where vs: "vs = w # ws" using False by (cases vs) auto
    have st: "dumps_spaced w \<noteq> []" "\<not> is_ws (hd (dumps_spaced w))" "hd (dumps_spaced w) \<noteq> CHR '']''"
      using spaced_start [of w] k vs by auto
    have "skip_ws (?body @ CHR '']'' # r) = ?body @ CHR '']'' # r" "?body \<noteq> []" "hd (?body @ CHR '']'' # r) \<noteq> CHR '']''"
      using st by (simp_all add: vs join_sep skip_ws_start)
    moreover have "p_items fl n (?body @ CHR '']'' # r) = Some (map jnorm vs, r)"
      using JList.prems(4) k by (intro spaced_items_text JList.IH False) (auto simp: m)
    ultimately show ?thesis by (simp add: m)
  qed
next
  case (JObj kvs)
  then obtain n where m: "m = Suc n" by (cases m) auto
  show ?case
  proof (cases "kvs = []")
    case True
    then show ?thesis by (simp add: m skip_ws_def is_ws_def)
  next
    case False
    let ?ms = "sort_key fst kvs"
    let ?r = "CHR ''}'' # r"
    let ?body = "join_with '', '' (map spaced_text ?ms)"
    have k: "\<forall>kv \<in> set kvs. float_free (snd kv) \<and> keyed (snd kv)" "distinct (map fst kvs)"
      using JObj.prems by (auto simp: list_all_iff)
    have ne: "?ms \<noteq> []" using False by (metis length_0_conv length_sort)
    then obtain kv ks where ms: "?ms = kv # ks" by (cases ?ms) auto
    have text_eq: "dumps_spaced (JObj kvs) @ r = CHR ''{'' # ?body @ ?r" by (simp add: spaced_obj del: dumps_spaced.simps(8))
    have "?body @ ?r \<noteq> []" "hd (?body @ ?r) = CHR 0x22"
      by (simp_all add: ms join_sep spaced_text_alt)
    moreover from this have "skip_ws (?body @ ?r) = ?body @ ?r" by (cases "?body @ ?r") (simp_all add: skip_ws_def is_ws_def)
    moreover have "length ?body < n" using JObj.prems(4) by (simp add: spaced_obj m del: dumps_spaced.simps(8))
    then have "p_members fl n (?body @ ?r) = Some (map (map_prod (\<lambda>k. k) jnorm) ?ms, r)"
      using k(1) JObj.IH by (intro spaced_members_text ne) (auto simp: snds.simps)
    moreover have "dict_of (map (map_prod (\<lambda>k. k) jnorm) ?ms) = map (map_prod (\<lambda>k. k) jnorm) ?ms"
    proof (rule dict_of_distinct)
      have "mset (map fst ?ms) = mset (map fst kvs)" by simp
      then have "distinct (map fst ?ms)" using k(2) by (metis mset_eq_imp_distinct_iff)
      then show "distinct (map fst (map (map_prod (\<lambda>k. k) jnorm) ?ms))" by simp
    qed
    ultimately show ?thesis unfolding text_eq m by (simp add: sort_map_prod)
  qed
next
  case JNull
  then show ?case using p_value_text [of JNull] by simp
next
  case (JBool b)
  then show ?case using p_value_text [of "JBool b"] by simp
next
  case (JInt i)
  then show ?case using p_value_text [of "JInt i"] by simp
next
  case (JStr t)
  then show ?case using p_value_text [of "JStr t"] by simp
qed simp_all

text \<open>What \<open>dumps_spaced\<close> writes is read back, with the members of every object sorted by name.\<close>

lemma loads_spaced: "float_free v \<Longrightarrow> keyed v \<Longrightarrow> loads fl (dumps_spaced v) = Some (jnorm v)"
  using p_value_spaced [of v "[]" "2 * length (dumps_spaced v) + 2" fl] spaced_start [of v] skip_ws_start [of "dumps_spaced v" "[]"]
  by (simp add: loads_def skip_ws_def)

text \<open>Control characters are escaped.\<close>

definition printing :: "char \<Rightarrow> bool" where
  "printing c \<longleftrightarrow> 32 \<le> (of_char c :: nat)"

lemma printing_join: "\<forall>x \<in> set xs. \<forall>c \<in> set x. printing c \<Longrightarrow> c \<in> set (join_with '', '' xs) \<Longrightarrow> printing c"
  by (induction "'', ''" xs rule: join_with.induct) (auto simp: printing_def)

lemma printing_string: "c \<in> set (json_string s) \<Longrightarrow> printing c"
proof -
  have h: "printing (hex_digit k)" if "k < 16" for k
    using that by (auto simp: printing_def hex_digit_def of_char_mod_256)
  have "\<forall>d \<in> set (json_char x). printing d" for x
    using h [of "of_char x div 16"] h [of "of_char x mod 16"]
    by (auto simp: json_char_def printing_def hex_byte_def)
  then show "c \<in> set (json_string s) \<Longrightarrow> printing c" by (auto simp: json_string_def printing_def)
qed

lemma printing_spaced: "float_free v \<Longrightarrow> c \<in> set (dumps_spaced v) \<Longrightarrow> printing c"
proof (induction v arbitrary: c)
  case (JBool b)
  then show ?case by (cases b) (auto simp: printing_def)
next
  case (JInt i)
  then show ?case using str_int_chars [of c i] by (auto simp: printing_def is_digit_def)
next
  case (JStr s)
  then show ?case by (auto intro: printing_string)
next
  case (JList vs)
  have "\<forall>x \<in> set (map dumps_spaced vs). \<forall>c \<in> set x. printing c" using JList by auto
  with JList.prems(2) show ?case using printing_join [of "map dumps_spaced vs" c] by (auto simp: printing_def)
next
  case (JObj kvs)
  have "\<forall>x \<in> set (map spaced_text (sort_key fst kvs)). \<forall>c \<in> set x. printing c"
    using JObj.IH JObj.prems(1) printing_string
    by (auto simp: spaced_text_def spaced_member_def snds.simps) (auto simp: printing_def)
  with JObj.prems(2) show ?case
    using printing_join [of "map spaced_text (sort_key fst kvs)" c] unfolding spaced_obj by (auto simp: printing_def)
qed (auto simp: printing_def)

end
