(* ===== verification/Evidence_File.thy ===== *)
theory Evidence_File
  imports Json_Spaced Call_Log_Text
begin

text \<open>
  The file of Evidence Objects next to a JSON ledger (\<^verbatim>\<open>FileEvidenceStore\<close> in \<^verbatim>\<open>app/evidence.py\<close>): one
  object a line, written with \<open>json.dumps\<close> and \<open>ensure_ascii=False\<close>, read with \<open>read_text\<close>,
  \<open>str.splitlines\<close> and \<open>json.loads\<close>. The file is its bytes. A line that does not decode, parse or validate makes the
  whole read fail, as in the source; then what the lines of well-behaved objects are read back as.
\<close>

section \<open>Decoding\<close>

text \<open>The first \<open>n\<close> bytes exist and continue a UTF-8 sequence.\<close>

definition continues :: "nat \<Rightarrow> bytes \<Rightarrow> bool" where
  "continues n s \<longleftrightarrow> n \<le> length s \<and> list_all (\<lambda>c. 128 \<le> (of_char c :: nat) \<and> (of_char c :: nat) < 192) (take n s)"

text \<open>The number of bytes of the first code point, if it is well formed.\<close>

definition utf8_step :: "bytes \<Rightarrow> nat option" where
  "utf8_step s =
     (case s of
        [] \<Rightarrow> None
      | a # r \<Rightarrow>
          let k = of_char a :: nat; b = (of_char (hd (r @ [CHR 0x00])) :: nat)
          in if k < 0x80 then Some 1
             else if 0xC2 \<le> k \<and> k \<le> 0xDF \<and> continues 1 r then Some 2
             else if 0xE0 \<le> k \<and> k \<le> 0xEF \<and> continues 2 r \<and> (k = 0xE0 \<longrightarrow> 0xA0 \<le> b) \<and> (k = 0xED \<longrightarrow> b \<le> 0x9F) then Some 3
             else if 0xF0 \<le> k \<and> k \<le> 0xF4 \<and> continues 3 r \<and> (k = 0xF0 \<longrightarrow> 0x90 \<le> b) \<and> (k = 0xF4 \<longrightarrow> b \<le> 0x8F) then Some 4
             else None)"

lemma utf8_stepD: "utf8_step s = Some n \<Longrightarrow> 0 < n \<and> n \<le> length s"
  by (cases s) (auto simp: utf8_step_def continues_def Let_def split: if_splits)

function utf8_valid :: "bytes \<Rightarrow> bool" where
  "utf8_valid s = (case utf8_step s of None \<Rightarrow> s = [] | Some n \<Rightarrow> utf8_valid (drop n s))"
  by pat_completeness auto
termination by (relation "measure length") (auto dest!: utf8_stepD)

declare utf8_valid.simps [simp del]

section \<open>Reading and writing\<close>

text \<open>\<open>EvidenceObject(**value)\<close>: text fields take text, an object field takes an object, a missing or null pointer is
  none; \<open>py_field_int\<close> says what an integer field takes.\<close>

definition text_at :: "dict \<Rightarrow> string \<Rightarrow> string option" where
  "text_at d k = (case map_of d k of Some (JStr s) \<Rightarrow> Some s | _ \<Rightarrow> None)"

definition pointer_value :: "json option \<Rightarrow> dict option option" where
  "pointer_value v = (case v of None \<Rightarrow> Some None | Some JNull \<Rightarrow> Some None | Some (JObj d) \<Rightarrow> Some (Some d) | _ \<Rightarrow> None)"

definition object_of_json :: "pylib \<Rightarrow> json \<Rightarrow> ev_exc + evidence_object" where
  "object_of_json lib v =
     (case v of
        JObj d \<Rightarrow>
          (case (text_at d ''id'', text_at d ''schema_id'', map_of d ''payload'', pointer_value (map_of d ''pointer''),
                 Option.bind (map_of d ''size_bytes'') (py_field_int lib), text_at d ''created_at'', text_at d ''created_by'') of
             (Some oid, Some schema, Some (JObj p), Some q, Some n, Some created, Some by_whom) \<Rightarrow>
               Inr \<lparr>eo_id = oid, eo_schema = schema, eo_payload = p, eo_pointer = q, eo_size = n,
                    eo_created = py_instant lib created, eo_by = by_whom\<rparr>
           | _ \<Rightarrow> Inl Value_error)
      | _ \<Rightarrow> Inl Type_error)"

text \<open>A dictionary of the objects: a later line with the same id replaces the value. \<open>read_text\<close> decodes strictly;
  its translation of line ends changes no line.\<close>

fun read_lines :: "pylib \<Rightarrow> string list \<Rightarrow> (string \<times> evidence_object) list \<Rightarrow> ev_exc + (string \<times> evidence_object) list" where
  "read_lines lib [] out = Inr out"
| "read_lines lib (line # ls) out =
     (if strip line = [] then read_lines lib ls out
      else case loads (py_float lib) line of
             None \<Rightarrow> Inl Value_error
           | Some v \<Rightarrow> res_bind (object_of_json lib v) (\<lambda>obj. read_lines lib ls (AList.update (eo_id obj) obj out)))"

definition read_evidence :: "pylib \<Rightarrow> bytes \<Rightarrow> ev_exc + (string \<times> evidence_object) list" where
  "read_evidence lib content = (if \<not> utf8_valid content then Inl Value_error else read_lines lib (splitlines content) [])"

definition object_json :: "pylib \<Rightarrow> evidence_object \<Rightarrow> json" where
  "object_json lib x =
     JObj [(''id'', JStr (eo_id x)), (''schema_id'', JStr (eo_schema x)), (''payload'', JObj (eo_payload x)),
           (''pointer'', case eo_pointer x of None \<Rightarrow> JNull | Some p \<Rightarrow> JObj p), (''size_bytes'', JInt (eo_size x)),
           (''created_at'', JStr (py_time lib (eo_created x))), (''created_by'', JStr (eo_by x))]"

definition evidence_line :: "pylib \<Rightarrow> evidence_object \<Rightarrow> bytes" where
  "evidence_line lib x = dumps_spaced (object_json lib x) @ [NL]"

section \<open>Lines\<close>

lemma utf8_step_append: "utf8_step a = Some n \<Longrightarrow> utf8_step (a @ b) = Some n"
proof -
  have c: "continues n (r @ b)" if "continues n r" for n r using that by (simp add: continues_def)
  have h: "hd ((r @ b) @ [CHR 0x00]) = hd (r @ [CHR 0x00])" if "continues (Suc n) r" for n r
    using that by (cases r) (simp_all add: continues_def)
  assume "utf8_step a = Some n"
  then show ?thesis
    using c h [of 1, unfolded One_nat_def [symmetric]] h [of 2] h [of 0]
    by (cases a) (auto simp: utf8_step_def Let_def numeral_2_eq_2 numeral_3_eq_3 split: if_splits)
qed

lemma utf8_valid_append: "utf8_valid a \<Longrightarrow> utf8_valid b \<Longrightarrow> utf8_valid (a @ b)"
proof (induction a rule: utf8_valid.induct)
  case (1 a)
  show ?case
  proof (cases "utf8_step a")
    case None
    with 1 show ?thesis by (simp add: utf8_valid.simps [of a])
  next
    case (Some n)
    with 1 have "utf8_valid (drop n a @ b)" by (simp add: utf8_valid.simps [of a])
    with utf8_step_append [OF Some] utf8_stepD [OF Some] show ?thesis by (simp add: utf8_valid.simps [of "a @ b"])
  qed
qed

lemma utf8_valid_concat: "\<forall>x \<in> set xs. utf8_valid x \<Longrightarrow> utf8_valid (concat xs)"
  by (induction xs) (simp_all add: utf8_valid_append, simp add: utf8_valid.simps utf8_step_def)

text \<open>The line separators outside ASCII: U+0085, U+2028 and U+2029.\<close>

definition WIDE_BREAKS :: "string list" where
  "WIDE_BREAKS = [[CHR 0xC2, CHR 0x85], [CHR 0xE2, CHR 0x80, CHR 0xA8], [CHR 0xE2, CHR 0x80, CHR 0xA9]]"

primrec has_break :: "string \<Rightarrow> bool" where
  "has_break [] \<longleftrightarrow> False"
| "has_break (c # s) \<longleftrightarrow> list_ex (\<lambda>p. starts_with p (c # s)) WIDE_BREAKS \<or> has_break s"

lemma starts_with_Cons [simp]:
  "starts_with [] s" "\<not> starts_with (a # p) []" "starts_with (a # p) (b # s) \<longleftrightarrow> a = b \<and> starts_with p s"
  by (auto simp: starts_with_def)

lemma no_break_here:
  assumes "printing c" "\<forall>d \<in> set s. printing d" "\<not> has_break (c # s)"
  shows "starting LINE_BREAKS (c # s @ NL # rest) = None"
proof -
  have no: "\<not> starts_with p (c # s)" if "p \<in> set WIDE_BREAKS" for p
    using that assms(3) by (simp add: list_ex_iff)
  have w: "\<not> starts_with p (c # s @ NL # rest)" if p: "p \<in> set WIDE_BREAKS" for p
  proof (cases s)
    case Nil
    then show ?thesis using p unfolding WIDE_BREAKS_def NL_def by fastforce
  next
    case (Cons a r)
    show ?thesis
    proof (cases r)
      case Nil
      then show ?thesis using p no [OF p] unfolding WIDE_BREAKS_def NL_def Cons by fastforce
    next
      case (Cons b r')
      then show ?thesis using p no [OF p] unfolding WIDE_BREAKS_def \<open>s = a # r\<close> by fastforce
    qed
  qed
  have n: "\<not> starts_with [d] (c # s @ NL # rest)" if "(of_char d :: nat) < 32" for d
    using that assms(1) by (auto simp: printing_def)
  have cr: "\<not> starts_with [CHR 0x0D, CHR 0x0A] (c # s @ NL # rest)"
    using assms(1) by (auto simp: printing_def)
  have ctl: "\<not> starts_with p (c # s @ NL # rest)" if "p \<in> set (map (\<lambda>n. [char_of (n :: nat)]) ([10..<14] @ [28..<31]))" for p
  proof -
    from that obtain k :: nat where k: "p = [char_of k]" "k < 32" by auto
    then have "(of_char (char_of k :: char) :: nat) < 32" by simp
    with n k(1) show ?thesis by blast
  qed
  have "set LINE_BREAKS = {[CHR 0x0D, CHR 0x0A]} \<union> set (map (\<lambda>n. [char_of (n :: nat)]) ([10..<14] @ [28..<31])) \<union> set WIDE_BREAKS"
    by (simp only: LINE_BREAKS_def WIDE_BREAKS_def set_append Un_assoc list.set)
  then have "\<not> starts_with p (c # s @ NL # rest)" if "p \<in> set LINE_BREAKS" for p
    using that cr ctl [of p] w [of p] by (elim equalityE) blast
  then show ?thesis unfolding starting_def by (simp add: find_None_iff)
qed

lemma lines_one:
  "\<forall>d \<in> set s. printing d \<Longrightarrow> \<not> has_break s \<Longrightarrow> lines_loop cur (s @ NL # rest) = (cur @ s) # lines_loop [] rest"
proof (induction s arbitrary: cur)
  case Nil
  have nl: "char_of (10 :: nat) = NL" unfolding NL_def by code_simp
  have "[10..<14] = 10 # [11..<14 :: nat]" by (simp add: upt_conv_Cons)
  then have "starting LINE_BREAKS (NL # rest) = Some [NL]"
    by (simp add: starting_def LINE_BREAKS_def nl) (simp add: NL_def)
  then show ?case by simp
next
  case (Cons c s)
  then have "starting LINE_BREAKS (c # s @ NL # rest) = None" by (intro no_break_here) auto
  with Cons show ?case by simp
qed

section \<open>What was written is read back\<close>

text \<open>Reading sorts the members of every object.\<close>

definition normal :: "evidence_object \<Rightarrow> evidence_object" where
  "normal x = x\<lparr>eo_payload := sorted_dict (eo_payload x), eo_pointer := map_option sorted_dict (eo_pointer x)\<rparr>"

lemma normal_id [simp]: "eo_id (normal x) = eo_id x"
  by (simp add: normal_def)

lemma sorted_dict_idem: "sorted_dict (sorted_dict d) = sorted_dict d"
  using jnorm_idem [of "JObj d"] by (simp only: jnorm_dict json.inject)

lemma normal_idem [simp]: "normal (normal x) = normal x"
  by (simp add: normal_def sorted_dict_idem option.map_comp comp_def)

text \<open>What the code relies on: an integer is accepted as one, and the text of an instant stands for it.\<close>

definition lib_ok :: "pylib \<Rightarrow> bool" where
  "lib_ok lib \<longleftrightarrow> (\<forall>n. py_field_int lib (JInt n) = Some n) \<and> (\<forall>n. py_instant lib (py_time lib n) = n)"

text \<open>An object whose line the reader can take: no floats, no repeated member names, well-formed text, and none of the
  separators that \<open>json.dumps\<close> leaves as they are.\<close>

definition writable :: "pylib \<Rightarrow> evidence_object \<Rightarrow> bool" where
  "writable lib x \<longleftrightarrow>
     (\<forall>d \<in> {eo_payload x} \<union> set_option (eo_pointer x). float_free (JObj d) \<and> keyed (JObj d)) \<and>
     utf8_valid (evidence_line lib x) \<and> \<not> has_break (dumps_spaced (object_json lib x))"

lemma object_json_ok:
  assumes "writable lib x"
  shows "float_free (object_json lib x)" "keyed (object_json lib x)"
  using assms by (auto simp: writable_def object_json_def split: option.split simp del: keyed.simps(8)) (simp_all add: keyed.simps(8) del: float_free_obj)

lemma object_read_back:
  assumes "lib_ok lib" "writable lib x"
  shows "loads (py_float lib) (dumps_spaced (object_json lib x)) = Some (jnorm (object_json lib x))"
    and "object_of_json lib (jnorm (object_json lib x)) = Inr (normal x)"
proof -
  note ok = object_json_ok [OF assms(2)]
  show "loads (py_float lib) (dumps_spaced (object_json lib x)) = Some (jnorm (object_json lib x))" by (rule loads_spaced [OF ok])
  obtain d where d: "object_json lib x = JObj d" by (simp add: object_json_def)
  have k: "map_of (sorted_dict d) k = map_option jnorm (map_of d k)" for k
    using ok(2) unfolding d by (intro map_of_sorted_dict) simp
  have "d = [(''id'', JStr (eo_id x)), (''schema_id'', JStr (eo_schema x)), (''payload'', JObj (eo_payload x)),
           (''pointer'', case eo_pointer x of None \<Rightarrow> JNull | Some p \<Rightarrow> JObj p), (''size_bytes'', JInt (eo_size x)),
           (''created_at'', JStr (py_time lib (eo_created x))), (''created_by'', JStr (eo_by x))]"
    using d by (simp add: object_json_def)
  note k = k [unfolded this]
  have "text_at (sorted_dict d) ''id'' = Some (eo_id x)" "text_at (sorted_dict d) ''schema_id'' = Some (eo_schema x)"
    "map_of (sorted_dict d) ''payload'' = Some (JObj (sorted_dict (eo_payload x)))"
    "pointer_value (map_of (sorted_dict d) ''pointer'') = Some (map_option sorted_dict (eo_pointer x))"
    "map_of (sorted_dict d) ''size_bytes'' = Some (JInt (eo_size x))"
    "text_at (sorted_dict d) ''created_at'' = Some (py_time lib (eo_created x))" "text_at (sorted_dict d) ''created_by'' = Some (eo_by x)"
    unfolding text_at_def \<open>d = _\<close> k by (simp_all add: pointer_value_def jnorm_dict split: option.split del: jnorm.simps(8))
  then show "object_of_json lib (jnorm (object_json lib x)) = Inr (normal x)"
    using assms(1) unfolding d jnorm_dict by (simp add: object_of_json_def lib_ok_def normal_def)
qed

lemma line_ends: "dumps_spaced (object_json lib x) = CHR ''{'' # s @ [CHR ''}''] \<Longrightarrow> strip (dumps_spaced (object_json lib x)) = dumps_spaced (object_json lib x)"
  by (rule strip_ends) (simp_all add: graphic_def)

lemma strip_line: "strip (dumps_spaced (object_json lib x)) \<noteq> []"
proof -
  have "\<exists>s. dumps_spaced (object_json lib x) = CHR ''{'' # s @ [CHR ''}'']" by (simp add: object_json_def)
  then obtain s where s: "dumps_spaced (object_json lib x) = CHR ''{'' # s @ [CHR ''}'']" by blast
  with line_ends [OF s] show ?thesis by simp
qed

lemma lines_of_file:
  "\<forall>x \<in> set objs. writable lib x \<Longrightarrow>
     splitlines (concat (map (evidence_line lib) objs)) = map (\<lambda>x. dumps_spaced (object_json lib x)) objs"
proof (induction objs)
  case Nil
  then show ?case by (simp add: splitlines_def)
next
  case (Cons x objs)
  have p: "\<forall>d \<in> set (dumps_spaced (object_json lib x)). printing d"
    using printing_spaced object_json_ok(1) Cons.prems by auto
  have "\<not> has_break (dumps_spaced (object_json lib x))" using Cons.prems by (simp add: writable_def)
  from lines_one [OF p this, of "[]" "concat (map (evidence_line lib) objs)"] Cons show ?case
    by (simp add: splitlines_def evidence_line_def [of lib x])
qed

definition index_of :: "evidence_object list \<Rightarrow> (string \<times> evidence_object) list" where
  "index_of objs = foldl (\<lambda>d x. AList.update (eo_id x) (normal x) d) [] objs"

lemma read_written:
  assumes "lib_ok lib" "\<forall>x \<in> set objs. writable lib x"
  shows "read_evidence lib (concat (map (evidence_line lib) objs)) = Inr (index_of objs)"
proof -
  have "read_lines lib (map (\<lambda>x. dumps_spaced (object_json lib x)) objs) out = Inr (foldl (\<lambda>d x. AList.update (eo_id x) (normal x) d) out objs)" for out
    using assms(2)
  proof (induction objs arbitrary: out)
    case (Cons x objs)
    then show ?case using object_read_back [OF assms(1), of x] strip_line [of lib x] by simp
  qed simp
  moreover have "utf8_valid (concat (map (evidence_line lib) objs))"
    using assms(2) by (intro utf8_valid_concat) (auto simp: writable_def)
  ultimately show ?thesis by (simp add: read_evidence_def lines_of_file [OF assms(2)] index_of_def)
qed

lemma map_of_index_snoc: "map_of (index_of (objs @ [x])) = (map_of (index_of objs))(eo_id x \<mapsto> normal x)"
  by (simp add: index_of_def map_of_update)

section \<open>ASCII objects\<close>

text \<open>An object that is ASCII throughout is always writable, if it has no floats and no repeated names.\<close>

definition ascii :: "string \<Rightarrow> bool" where
  "ascii s \<longleftrightarrow> list_all (\<lambda>c. (of_char c :: nat) < 128) s"

primrec ascii_json :: "json \<Rightarrow> bool" where
  "ascii_json JNull = True" | "ascii_json (JBool b) = True" | "ascii_json (JInt i) = True" | "ascii_json (JFloat s) = ascii s"
| "ascii_json (JNan s) = ascii s" | "ascii_json (JStr s) = ascii s"
| "ascii_json (JList vs) = list_all (\<lambda>b. b) (map ascii_json vs)"
| "ascii_json (JObj kvs) = list_all (\<lambda>kv. ascii (fst kv) \<and> snd kv) (map (map_prod (\<lambda>k. k) ascii_json) kvs)"

lemma ascii_simps [simp]: "ascii []" "ascii (c # s) \<longleftrightarrow> (of_char c :: nat) < 128 \<and> ascii s" "ascii (a @ b) \<longleftrightarrow> ascii a \<and> ascii b"
  by (simp_all add: ascii_def)

lemma ascii_join: "\<forall>x \<in> set xs. ascii x \<Longrightarrow> ascii (join_with '', '' xs)"
  by (induction "'', ''" xs rule: join_with.induct) simp_all

lemma ascii_string: "ascii s \<Longrightarrow> ascii (json_string s)"
proof -
  have h: "(of_char (hex_digit k) :: nat) < 128" if "k < 16" for k
    using that by (auto simp: hex_digit_def of_char_mod_256)
  have "ascii (json_char c)" if "(of_char c :: nat) < 128" for c
    using that h [of "of_char c div 16"] h [of "of_char c mod 16"] by (auto simp: json_char_def hex_byte_def)
  then have "ascii s \<Longrightarrow> ascii (concat (map json_char s))" by (induction s) simp_all
  then show "ascii s \<Longrightarrow> ascii (json_string s)" by (simp add: json_string_def)
qed

lemma ascii_spaced: "ascii_json v \<Longrightarrow> ascii (dumps_spaced v)"
proof (induction v)
  case (JInt i)
  have "(of_char c :: nat) < 128" if "c \<in> set (str_int i)" for c using str_int_chars [OF that] by (auto simp: is_digit_def)
  then show ?case by (simp add: ascii_def list_all_iff)
next
  case (JStr s)
  then show ?case by (simp add: ascii_string)
next
  case (JList vs)
  then show ?case using ascii_join [of "map dumps_spaced vs"] by (simp add: list_all_iff)
next
  case (JObj kvs)
  have "\<forall>x \<in> set (map spaced_text (sort_key fst kvs)). ascii x"
    using JObj ascii_string by (auto simp: list_all_iff spaced_text_def spaced_member_def snds.simps)
  then show ?case using ascii_join unfolding spaced_obj by simp
qed simp_all

lemma ascii_plain: "ascii s \<Longrightarrow> utf8_valid s \<and> \<not> has_break s"
proof (induction s)
  case (Cons c s)
  then have "utf8_step (c # s) = Some 1" by (simp add: utf8_step_def)
  moreover have "\<not> list_ex (\<lambda>p. starts_with p (c # s)) WIDE_BREAKS" using Cons.prems by (auto simp: WIDE_BREAKS_def)
  ultimately show ?case using Cons by (simp add: utf8_valid.simps [of "c # s"])
qed (simp add: utf8_valid.simps utf8_step_def)

lemma ascii_line: "ascii_json (object_json lib x) \<Longrightarrow> utf8_valid (evidence_line lib x) \<and> \<not> has_break (dumps_spaced (object_json lib x))"
  using ascii_plain [of "evidence_line lib x"] ascii_plain [of "dumps_spaced (object_json lib x)"] ascii_spaced
  by (simp add: evidence_line_def NL_def)

end
