(* ===== verification/File_Store.thy ===== *)
theory File_Store
  imports Latest Evidence_File
begin

text \<open>
  The JSON file store (\<^verbatim>\<open>JarvisStore\<close> in \<^verbatim>\<open>app/store.py\<close>, with \<^verbatim>\<open>FileEvidenceStore\<close> of
  \<^verbatim>\<open>app/evidence.py\<close>): loading, which refuses anything it would otherwise drop, the board and the records in
  memory, the atomic save and the undo when it fails, and the same reads as the row store.

  The file is the value that \<open>json.loads\<close> gives, split into what the loader looks at; what \<open>pydantic\<close>
  makes of a record or of the board (after the migration of legacy fields) is part of that value.
  The evidence file is its bytes. \<open>js_io\<close> says of each coming save whether it succeeds, \<open>js_appends\<close> of each coming
  append to the evidence file whether it is complete (\<open>None\<close>) or fails after so many bytes. A record carries the tenant
  of its file.
\<close>

section \<open>The file\<close>

record board_slot =
  bs_id :: "string option"
  bs_name :: string
  bs_class :: string
  bs_module :: "(string \<times> string \<times> string) option"

record memory_board =
  mb_id :: string
  mb_summary :: string
  mb_linked :: "string list"
  mb_slots :: "board_slot list"
  mb_governance :: "(string \<times> string) list"

definition default_board :: memory_board where
  "default_board = \<lparr>mb_id = ''default_board'', mb_summary = [], mb_linked = [''jarvis''], mb_slots = [], mb_governance = []\<rparr>"

text \<open>An item of the list: whether it has legacy fields, and the record it validates to or the error.\<close>

datatype raw_item = No_record | Raw_record string bool "string + mem_row"

datatype raw_memories = No_memories | Not_a_list string | Items "raw_item list"

record ledger_doc =
  ld_stray :: "string list"
  ld_board :: "(string + memory_board) option"
  ld_memories :: raw_memories

datatype ledger_file = No_file | Unreadable_file string | Not_an_object | Document ledger_doc

record js_state =
  js_file :: ledger_file
  js_board :: memory_board
  js_memories :: "(string \<times> mem_row) list"
  js_loaded :: bool
  js_evidence :: bytes
  js_io :: "bool list"
  js_appends :: "nat option list"

type_synonym 'a js_op = "js_state \<Rightarrow> (store_exc + 'a) \<times> js_state"

definition js_bind :: "'a js_op \<Rightarrow> ('a \<Rightarrow> 'b js_op) \<Rightarrow> 'b js_op" where
  "js_bind m f s = (case m s of (Inl e, s') \<Rightarrow> (Inl e, s') | (Inr a, s') \<Rightarrow> f a s')"

section \<open>Loading and saving\<close>

definition bad_record :: "string \<Rightarrow> nat \<Rightarrow> string \<Rightarrow> store_exc" where
  "bad_record rid index why =
     Store_unavailable (''Ledger record '' @ (if rid \<noteq> [] then rid else ''#'' @ dec_nat index) @ '' failed validation: '' @ why)"

fun parse_items :: "pylib \<Rightarrow> nat \<Rightarrow> raw_item list \<Rightarrow> (string \<times> mem_row) list \<Rightarrow> bool
    \<Rightarrow> store_exc + (string \<times> mem_row) list \<times> bool" where
  "parse_items lib index [] mems dirty = Inr (mems, dirty)"
| "parse_items lib index (item # items) mems dirty =
     (case item of
        No_record \<Rightarrow> Inl (bad_record [] index ''record is not an object with an id'')
      | Raw_record rid legacy checked \<Rightarrow>
          if rid = [] then Inl (bad_record [] index ''record is not an object with an id'')
          else if map_of mems rid \<noteq> None then Inl (bad_record rid index ''duplicate record id'')
          else (case checked of
                  Inl why \<Rightarrow> Inl (bad_record rid index why)
                | Inr r \<Rightarrow> let rec = ensure_content_hash lib r
                           in parse_items lib (index + 1) items (AList.update (r_id rec) rec mems)
                                (dirty \<or> legacy \<or> r_sha r = [])))"

definition parse_ledger_document ::
  "pylib \<Rightarrow> ledger_doc \<Rightarrow> store_exc + memory_board \<times> (string \<times> mem_row) list \<times> bool" where
  "parse_ledger_document lib raw =
     (if ld_memories raw = No_memories \<and> ld_stray raw \<noteq> [] then
        Inl (Store_unavailable (''Ledger has no 'memories' key but has other data under ['' @ join_with '', '' (map (py_repr lib) (sort (ld_stray raw))) @ '']'' @ ''; refusing to load as empty''))
      else
        (case (case ld_board raw of None \<Rightarrow> Inr default_board | Some b \<Rightarrow> b) of
           Inl why \<Rightarrow> Inl (Store_unavailable (''Ledger board is invalid: '' @ why))
         | Inr board \<Rightarrow>
             (case ld_memories raw of
                Not_a_list kind \<Rightarrow> Inl (Store_unavailable (''Ledger 'memories' is '' @ kind @ '', not a list''))
              | No_memories \<Rightarrow> Inr (board, [], False)
              | Items items \<Rightarrow>
                  (case parse_items lib 0 items [] False of
                     Inl e \<Rightarrow> Inl e
                   | Inr (mems, dirty) \<Rightarrow> Inr (board, mems, dirty)))))"

definition dump_record :: "mem_row \<Rightarrow> raw_item" where
  "dump_record r = Raw_record (r_id r) False (Inr r)"

definition dump_ledger :: "js_state \<Rightarrow> ledger_doc" where
  "dump_ledger s = \<lparr>ld_stray = [], ld_board = Some (Inr (js_board s)), ld_memories = Items (map (dump_record \<circ> snd) (js_memories s))\<rparr>"

text \<open>\<open>os.replace\<close> is atomic: a save that fails leaves the file as it was.\<close>

definition js_save :: "unit js_op" where
  "js_save s =
     (let ok = (case js_io s of [] \<Rightarrow> True | b # _ \<Rightarrow> b); s' = s\<lparr>js_io := tl (js_io s)\<rparr>
      in if ok then (Inr (), s'\<lparr>js_file := Document (dump_ledger s)\<rparr>)
         else (Inl (Store_unavailable ''Ledger write failed (OSError)''), s'))"

definition js_hydrate :: "pylib \<Rightarrow> ledger_doc \<Rightarrow> unit js_op" where
  "js_hydrate lib raw s =
     (case parse_ledger_document lib raw of
        Inl e \<Rightarrow> (Inl e, s)
      | Inr (board, mems, dirty) \<Rightarrow>
          let s' = s\<lparr>js_board := board, js_memories := mems\<rparr> in if dirty then js_save s' else (Inr (), s'))"

definition js_load :: "pylib \<Rightarrow> unit js_op" where
  "js_load lib s =
     (case js_file s of
        No_file \<Rightarrow> (Inr (), s\<lparr>js_loaded := True\<rparr>)
      | Unreadable_file kind \<Rightarrow>
          (Inl (Store_unavailable (''Ledger file exists but cannot be read ('' @ kind @ ''); refusing to start empty'')), s)
      | Not_an_object \<Rightarrow> (Inl (Store_unavailable ''Ledger file is not a JSON object; refusing to start empty''), s)
      | Document raw \<Rightarrow>
          js_bind (js_hydrate lib raw) (\<lambda>_ s. (Inr (), s\<lparr>js_loaded := True\<rparr>))
            (s\<lparr>js_board := default_board, js_memories := []\<rparr>))"

definition ensure_loaded :: "pylib \<Rightarrow> unit js_op" where
  "ensure_loaded lib s = (if js_loaded s then (Inr (), s) else js_load lib s)"

text \<open>Undo the change in memory when it could not be saved.\<close>

definition save_or_restore :: "(js_state \<Rightarrow> js_state) \<Rightarrow> unit js_op" where
  "save_or_restore restore s = (case js_save s of (Inl e, s') \<Rightarrow> (Inl e, restore s') | r \<Rightarrow> r)"

section \<open>The board\<close>

record board_update =
  bu_summary :: "string option"
  bu_linked :: "string list option"
  bu_slots :: "board_slot list option"
  bu_governance :: "(string \<times> string) list option"

definition js_get_board :: "pylib \<Rightarrow> memory_board js_op" where
  "js_get_board lib = js_bind (ensure_loaded lib) (\<lambda>_ s. (Inr (js_board s), s))"

definition swap_board :: "memory_board \<Rightarrow> memory_board js_op" where
  "swap_board board s =
     (let previous = js_board s
      in js_bind (save_or_restore (js_board_update (\<lambda>_. previous))) (\<lambda>_ s. (Inr (js_board s), s)) (s\<lparr>js_board := board\<rparr>))"

definition js_set_board :: "pylib \<Rightarrow> memory_board \<Rightarrow> memory_board js_op" where
  "js_set_board lib board = js_bind (ensure_loaded lib) (\<lambda>_. swap_board board)"

definition js_patch_board :: "pylib \<Rightarrow> board_update \<Rightarrow> memory_board js_op" where
  "js_patch_board lib u =
     js_bind (ensure_loaded lib) (\<lambda>_ s.
       let current = js_board s
       in swap_board (current\<lparr>mb_summary := pick (bu_summary u) (mb_summary current), mb_linked := pick (bu_linked u) (mb_linked current),
            mb_slots := pick (bu_slots u) (mb_slots current), mb_governance := pick (bu_governance u) (mb_governance current)\<rparr>) s)"

section \<open>Evidence Objects\<close>

text \<open>An error of a read (a line that is not an object, say) is an error of the operation.\<close>

definition js_get_evidence :: "pylib \<Rightarrow> string \<Rightarrow> js_state \<Rightarrow> ev_exc + evidence_object option" where
  "js_get_evidence lib oid s = res_bind (read_evidence lib (js_evidence s)) (\<lambda>d. Inr (map_of d oid))"

definition js_all_evidence :: "pylib \<Rightarrow> js_state \<Rightarrow> ev_exc + evidence_object list" where
  "js_all_evidence lib s = res_bind (read_evidence lib (js_evidence s)) (\<lambda>d. Inr (map snd d))"

text \<open>Write, flush and \<open>fsync\<close>: an error leaves a part of the line, or all of it.\<close>

definition append_evidence :: "bytes \<Rightarrow> unit js_op" where
  "append_evidence line s =
     (let s' = s\<lparr>js_appends := tl (js_appends s)\<rparr>
      in case js_appends s of
           Some k # _ \<Rightarrow> (Inl File_error, s'\<lparr>js_evidence := js_evidence s @ take k line\<rparr>)
         | _ \<Rightarrow> (Inr (), s'\<lparr>js_evidence := js_evidence s @ line\<rparr>))"

definition js_put_evidence :: "pylib \<Rightarrow> int \<Rightarrow> evidence_create \<Rightarrow> (evidence_object \<times> bool) js_op" where
  "js_put_evidence lib now req s =
     (case build_object lib req of
        Inl e \<Rightarrow> (Inl (Evidence_exc e), s)
      | Inr (oid, data) \<Rightarrow>
          (case js_get_evidence lib oid s of
             Inl e \<Rightarrow> (Inl (Evidence_exc e), s)
           | Inr (Some existing) \<Rightarrow> (Inr (existing, False), s)
           | Inr None \<Rightarrow>
               let x = new_object req oid data now
               in js_bind (append_evidence (evidence_line lib x)) (\<lambda>_ s. (Inr (x, True), s)) s))"

definition js_resolve :: "pylib \<Rightarrow> js_state \<Rightarrow> resolver" where
  "js_resolve lib s r =
     res_bind (js_get_evidence lib r s) (\<lambda>found.
       case found of
         None \<Rightarrow> Inr None
       | Some x \<Rightarrow>
           res_bind (verify_stored lib x) (\<lambda>problems.
             if problems \<noteq> [] then
               Inl (EvidenceError ''evidence_object_invalid'' ''the stored evidence object is damaged''
                 [ref_reason ''evidence_object_hash_mismatch'' r (List.hd problems)] 422)
             else Inr (Some \<lparr>ei_id = eo_id x, ei_schema = eo_schema x\<rparr>)))"

section \<open>Writing records\<close>

definition js_new_record :: "pylib \<Rightarrow> string \<Rightarrow> string \<Rightarrow> int \<Rightarrow> memory_create \<Rightarrow> mem_row" where
  "js_new_record lib t rid now data = (new_row lib t rid now data)\<lparr>r_supersedes := mc_supersedes data\<rparr>"

definition js_target_missing :: "string option \<Rightarrow> js_state \<Rightarrow> bool" where
  "js_target_missing target s \<longleftrightarrow> (case given target of None \<Rightarrow> False | Some m \<Rightarrow> map_of (js_memories s) m = None)"

definition js_create :: "pylib \<Rightarrow> soft_rules \<Rightarrow> clause_env \<Rightarrow> string \<Rightarrow> int \<Rightarrow> string \<Rightarrow> memory_create \<Rightarrow> mem_row js_op" where
  "js_create lib rules env t now rid data =
     js_bind (ensure_loaded lib) (\<lambda>_ s.
       let resolve = js_resolve lib s
       in case check_links (mc_evidence data) resolve of
            Inl e \<Rightarrow> (Inl (Evidence_exc e), s)
          | Inr _ \<Rightarrow>
              (case gate_create lib rules env data (Some resolve) of
                 Inl e \<Rightarrow> (Inl e, s)
               | Inr _ \<Rightarrow>
                   if js_target_missing (mc_supersedes data) s then (Inl (supersedes_missing (text_of (mc_supersedes data))), s)
                   else let r = js_new_record lib t rid now data
                        in js_bind (save_or_restore (js_memories_update (AList.delete rid))) (\<lambda>_ s. (Inr r, s))
                             (s\<lparr>js_memories := AList.update rid r (js_memories s)\<rparr>)))"

definition js_merge :: "pylib \<Rightarrow> mem_row \<Rightarrow> memory_update \<Rightarrow> int \<Rightarrow> mem_row" where
  "js_merge lib old u now =
     (merge_update lib old u now)\<lparr>r_supersedes := (case mu_supersedes u of None \<Rightarrow> r_supersedes old | Some s \<Rightarrow> Some s),
        r_version := r_version old + 1\<rparr>"

definition js_update :: "pylib \<Rightarrow> soft_rules \<Rightarrow> clause_env \<Rightarrow> int \<Rightarrow> string \<Rightarrow> memory_update \<Rightarrow> mem_row option js_op" where
  "js_update lib rules env now m u =
     js_bind (ensure_loaded lib) (\<lambda>_ s.
       case map_of (js_memories s) m of
         None \<Rightarrow> (Inr None, s)
       | Some old \<Rightarrow>
           if mu_expected_version u \<noteq> None \<and> mu_expected_version u \<noteq> Some (r_version old) then
             (Inl (version_conflict (the (mu_expected_version u)) (r_version old)), s)
           else let resolve = js_resolve lib s
           in case (case mu_evidence u of None \<Rightarrow> Inr () | Some links \<Rightarrow> check_links links resolve) of
                Inl e \<Rightarrow> (Inl (Evidence_exc e), s)
              | Inr _ \<Rightarrow>
                  (case gate_update lib rules env old u (Some resolve) of
                     Inl e \<Rightarrow> (Inl e, s)
                   | Inr _ \<Rightarrow>
                       if js_target_missing (mu_supersedes u) s then (Inl (supersedes_missing (text_of (mu_supersedes u))), s)
                       else let r = js_merge lib old u now
                            in js_bind (save_or_restore (js_memories_update (AList.update m old))) (\<lambda>_ s. (Inr (Some r), s))
                                 (s\<lparr>js_memories := AList.update m r (js_memories s)\<rparr>)))"

definition js_delete :: "pylib \<Rightarrow> string \<Rightarrow> bool js_op" where
  "js_delete lib m =
     js_bind (ensure_loaded lib) (\<lambda>_ s.
       case map_of (js_memories s) m of
         None \<Rightarrow> (Inr False, s)
       | Some removed \<Rightarrow>
           js_bind (save_or_restore (js_memories_update (AList.update m removed))) (\<lambda>_ s. (Inr True, s))
             (s\<lparr>js_memories := AList.delete m (js_memories s)\<rparr>))"

section \<open>Reading records\<close>

text \<open>Python's \<open>xs[:n]\<close>.\<close>

definition slice_to :: "int \<Rightarrow> 'a list \<Rightarrow> 'a list" where
  "slice_to n xs = take (if n \<ge> 0 then nat n else length xs - nat (- n)) xs"

definition js_get :: "pylib \<Rightarrow> string \<Rightarrow> mem_row option js_op" where
  "js_get lib m = js_bind (ensure_loaded lib) (\<lambda>_ s. (Inr (map_of (js_memories s) m), s))"

definition js_list_memories :: "pylib \<Rightarrow> (int \<Rightarrow> string) \<Rightarrow> string \<Rightarrow> list_filter \<Rightarrow> mem_row list js_op" where
  "js_list_memories lib isot t f =
     js_bind (ensure_loaded lib) (\<lambda>_ s.
       let rows = filter (list_where lib t f) (map snd (js_memories s));
           found = (case given (lf_query f) of None \<Rightarrow> rows | Some asked \<Rightarrow> filter (\<lambda>m. memory_matches_query lib m (py_lower lib asked)) rows)
       in (Inr (slice_to (lf_limit f) (rev (sort_key (\<lambda>r. isot (r_created r)) (sort_key r_id found)))), s))"

definition js_conflicts :: "pylib \<Rightarrow> (int \<Rightarrow> string) \<Rightarrow> string option \<Rightarrow> conflict_set list js_op" where
  "js_conflicts lib isot subject =
     js_bind (ensure_loaded lib) (\<lambda>_ s. (Inr (detect_conflicts lib isot (map snd (js_memories s)) subject), s))"

definition key_less :: "int \<times> string \<Rightarrow> int \<times> string \<Rightarrow> bool" where
  "key_less a b \<longleftrightarrow> fst a < fst b \<or> (fst a = fst b \<and> snd a < snd b)"

text \<open>The newest record that names each superseded one.\<close>

definition successors :: "mem_row list \<Rightarrow> (string \<times> int \<times> string) list" where
  "successors rs =
     foldl (\<lambda>d m. case given (r_supersedes m) of
         None \<Rightarrow> d
       | Some old \<Rightarrow>
           let key = (r_created m, r_id m)
           in case map_of d old of
                None \<Rightarrow> AList.update old key d
              | Some best \<Rightarrow> if key_less best key then AList.update old key d else d) [] rs"

definition js_keep :: "(string \<times> int \<times> string) list \<Rightarrow> (int \<times> string) option \<Rightarrow> latest_params \<Rightarrow> string list \<Rightarrow> mem_row \<Rightarrow> bool" where
  "js_keep succ after p toks m \<longleftrightarrow>
     equals_if (lp_type p) (Some (r_type m)) \<and> (lp_twin p \<or> r_source m \<noteq> TWIN_AGENT) \<and> (lp_archived p \<or> r_status m \<noteq> ''archived'') \<and>
     (lp_superseded p \<or> map_of succ (r_id m) = None) \<and>
     (case after of None \<Rightarrow> True | Some a \<Rightarrow> key_less (r_created m, r_id m) a) \<and>
     set toks \<subseteq> set (record_tokens (r_subject m) (r_content m) (r_tags m))"

definition js_latest_rows ::
  "mem_row list \<Rightarrow> int \<Rightarrow> (int \<times> string) option \<Rightarrow> latest_params \<Rightarrow> string list \<Rightarrow> (mem_row \<times> string option) list" where
  "js_latest_rows rs limit after p toks =
     (let succ = successors rs
      in take (nat (max 0 limit)) (map (\<lambda>m. (m, map_option snd (map_of succ (r_id m))))
           (newest_first (filter (js_keep succ after p toks) rs))))"

definition js_list_latest ::
  "pylib \<Rightarrow> int \<Rightarrow> (int \<times> string) option \<Rightarrow> latest_params \<Rightarrow> string list \<Rightarrow> (mem_row \<times> string option) list js_op" where
  "js_list_latest lib limit after p toks =
     js_bind (ensure_loaded lib) (\<lambda>_ s. (Inr (js_latest_rows (map snd (js_memories s)) limit after p toks), s))"

end
