(* ===== verification/Retrieval_Theorems.thy ===== *)
theory Retrieval_Theorems
  imports Retrieval Row_Store_Witnesses
begin

text \<open>
  What reading records means: which conflicts are reported, and that listing pages are prefixes of one order.
\<close>

section \<open>Groups\<close>

lemma by_subject_gen:
  assumes "distinct (map fst d)"
  shows "distinct (map fst (foldl (\<lambda>d r. case r_subject r of
         None \<Rightarrow> d
       | Some s \<Rightarrow> if s = [] \<or> (subject \<noteq> None \<and> subject \<noteq> Some s) then d
                   else AList.update s ((case map_of d s of None \<Rightarrow> [] | Some g \<Rightarrow> g) @ [r]) d) d rs))"
  using assms by (induction rs arbitrary: d) (simp_all add: distinct_update split: option.split)

text \<open>The records of a subject, if it has any and is asked for.\<close>

definition subject_group :: "string option \<Rightarrow> mem_row list \<Rightarrow> string \<Rightarrow> mem_row list" where
  "subject_group subject rs s =
     (if s = [] \<or> (subject \<noteq> None \<and> subject \<noteq> Some s) then [] else filter (\<lambda>r. r_subject r = Some s) rs)"

lemma by_subject_snoc: "by_subject subject (rs @ [r]) =
    (case r_subject r of
         None \<Rightarrow> by_subject subject rs
       | Some s \<Rightarrow> if s = [] \<or> (subject \<noteq> None \<and> subject \<noteq> Some s) then by_subject subject rs
                   else AList.update s ((case map_of (by_subject subject rs) s of None \<Rightarrow> [] | Some g \<Rightarrow> g) @ [r]) (by_subject subject rs))"
  unfolding by_subject_def foldl_append foldl_Cons foldl_Nil by (rule refl)

lemma by_subject_map: "map_of (by_subject subject rs) s = (if subject_group subject rs s = [] then None else Some (subject_group subject rs s))"
proof (induction rs arbitrary: s rule: rev_induct)
  case Nil
  then show ?case by (simp add: by_subject_def subject_group_def)
next
  case (snoc r rs)
  then show ?case
    by (auto simp: by_subject_snoc update_conv' subject_group_def split: option.split)
qed

lemma by_subject_distinct: "distinct (map fst (by_subject subject rs))"
  unfolding by_subject_def by (rule by_subject_gen) simp

lemma by_subject_set: "(s, g) \<in> set (by_subject subject rs) \<longleftrightarrow> g = subject_group subject rs s \<and> g \<noteq> []"
  using by_subject_map [of subject rs s] map_of_eq_Some_iff [OF by_subject_distinct [of subject rs], of s g]
  by (auto split: if_splits)

section \<open>Open claims\<close>

text \<open>The active records on a subject that no active record on the same subject says it replaces.\<close>

definition open_claims :: "mem_row list \<Rightarrow> string \<Rightarrow> mem_row list" where
  "open_claims rs s =
     filter (\<lambda>r. r_subject r = Some s \<and> active r \<and>
       \<not> (\<exists>q \<in> set rs. r_subject q = Some s \<and> active q \<and> r_supersedes q = Some (r_id r))) rs"

lemma in_map_filter: "y \<in> set (List.map_filter f xs) \<longleftrightarrow> (\<exists>x \<in> set xs. f x = Some y)"
  by (induction xs) (auto simp: map_filter_simps split: option.splits)

lemma superseded_targets_set:
  "m \<in> set (superseded_targets rs) \<longleftrightarrow> m \<noteq> [] \<and> m \<in> r_id ` set rs \<and> (\<exists>q \<in> set rs. active q \<and> r_supersedes q = Some m)"
proof -
  have "m \<in> set (superseded_targets rs) \<longleftrightarrow> (\<exists>q \<in> set rs. (case r_supersedes q of
       Some m \<Rightarrow> if m \<noteq> [] \<and> m \<in> set (map r_id rs) \<and> active q then Some m else None | None \<Rightarrow> None) = Some m)"
    unfolding superseded_targets_def by (rule in_map_filter)
  also have "\<dots> \<longleftrightarrow> (\<exists>q \<in> set rs. r_supersedes q = Some m \<and> m \<noteq> [] \<and> m \<in> r_id ` set rs \<and> active q)"
    by (intro bex_cong refl) (auto split: option.split)
  finally show ?thesis by blast
qed

lemma open_of_group:
  assumes "distinct (map r_id rs)" "[] \<notin> r_id ` set rs" "s \<noteq> []" "subject = None \<or> subject = Some s"
  shows "filter (\<lambda>r. r_id r \<in> non_superseded_ids (subject_group subject rs s)) (subject_group subject rs s) = open_claims rs s"
proof -
  let ?g = "subject_group subject rs s"
  have g: "?g = filter (\<lambda>r. r_subject r = Some s) rs" using assms(3,4) by (auto simp: subject_group_def)
  have inj: "r = q" if "r \<in> set rs" "q \<in> set rs" "r_id r = r_id q" for r q
    using assms(1) that by (simp add: distinct_map inj_on_def)
  have "r_id r \<in> non_superseded_ids ?g \<longleftrightarrow>
      active r \<and> \<not> (\<exists>q \<in> set rs. r_subject q = Some s \<and> active q \<and> r_supersedes q = Some (r_id r))"
    if r: "r \<in> set rs" "r_subject r = Some s" for r
  proof -
    have "r_id r \<noteq> []" using assms(2) r(1) by (metis image_eqI)
    moreover have "r_id r \<in> r_id ` set ?g" using r by (auto simp: g)
    moreover have "r_id r \<in> non_superseded_ids ?g \<longleftrightarrow> active r \<and> r_id r \<notin> set (superseded_targets ?g)"
      using r inj by (auto simp: non_superseded_ids_def g) 
    ultimately show ?thesis by (auto simp: superseded_targets_set g)
  qed
  then show ?thesis by (auto simp: g open_claims_def intro!: filter_cong)
qed

section \<open>The conflicts that are reported\<close>

lemma hashes_length: "2 \<le> length (remdups (map f xs)) \<longleftrightarrow> (\<exists>q \<in> set xs. \<exists>r \<in> set xs. f q \<noteq> f r)"
proof -
  have "length (remdups (map f xs)) = card (f ` set xs)" by (simp add: length_remdups_card_conv)
  moreover have "2 \<le> card (f ` set xs) \<longleftrightarrow> (\<exists>q \<in> set xs. \<exists>r \<in> set xs. f q \<noteq> f r)"
  proof
    assume "2 \<le> card (f ` set xs)"
    then have "\<not> is_singleton (f ` set xs)" "f ` set xs \<noteq> {}" by (auto simp: is_singleton_altdef)
    then show "\<exists>q \<in> set xs. \<exists>r \<in> set xs. f q \<noteq> f r" by (metis (no_types, lifting) image_iff is_singletonI' )
  next
    assume "\<exists>q \<in> set xs. \<exists>r \<in> set xs. f q \<noteq> f r"
    then obtain q r where "{f q, f r} \<subseteq> f ` set xs" "f q \<noteq> f r" by auto
    then show "2 \<le> card (f ` set xs)" using card_mono [of "f ` set xs" "{f q, f r}"] by simp
  qed
  ultimately show ?thesis by simp
qed

lemma hashes_one: "xs \<noteq> [] \<Longrightarrow> \<not> 2 \<le> length (remdups (map f xs)) \<Longrightarrow> length (remdups (map f xs)) = 1"
  by (cases "length (remdups (map f xs))") auto

text \<open>The set that is reported for a subject.\<close>

definition conflict_of :: "pylib \<Rightarrow> (int \<Rightarrow> string) \<Rightarrow> mem_row list \<Rightarrow> string \<Rightarrow> conflict_set" where
  "conflict_of lib isot rs s =
     (let dispute = (\<exists>q \<in> set (open_claims rs s). \<exists>r \<in> set (open_claims rs s). claim_hash lib q \<noteq> claim_hash lib r)
      in \<lparr>cf_subject = s, cf_unresolved = dispute, cf_memories = sort_key (\<lambda>r. isot (r_created r)) (open_claims rs s),
          cf_hint = (if dispute then CONFLICT_HINT else DUPLICATE_HINT)\<rparr>)"

lemma group_conflict_eq:
  assumes "distinct (map r_id rs)" "[] \<notin> r_id ` set rs" "s \<noteq> []" "subject = None \<or> subject = Some s"
  shows "group_conflict lib isot (s, subject_group subject rs s) =
    (if 2 \<le> length (open_claims rs s) then [conflict_of lib isot rs s] else [])"
proof -
  have "open_claims rs s \<noteq> [] \<Longrightarrow> \<not> 2 \<le> length (remdups (map (claim_hash lib) (open_claims rs s))) \<Longrightarrow>
      length (remdups (map (claim_hash lib) (open_claims rs s))) = 1" by (rule hashes_one)
  then show ?thesis
    unfolding group_conflict_def Let_def fst_conv snd_conv open_of_group [OF assms] conflict_of_def hashes_length [symmetric]
    by (cases "open_claims rs s = []") auto
qed

lemma group_asked: "subject_group subject rs s \<noteq> [] \<Longrightarrow> s \<noteq> [] \<and> (subject = None \<or> subject = Some s)"
  by (auto simp: subject_group_def split: if_splits)

lemma open_claims_group: "s \<noteq> [] \<Longrightarrow> subject = None \<or> subject = Some s \<Longrightarrow> open_claims rs s \<noteq> [] \<Longrightarrow> subject_group subject rs s \<noteq> []"
  by (auto simp: subject_group_def open_claims_def filter_empty_conv)

text \<open>The claims on a subject that are not replaced by another record on it, whatever the status of that record: the
  reading of the source's comment.\<close>

definition unreplaced_claims :: "mem_row list \<Rightarrow> string \<Rightarrow> mem_row list" where
  "unreplaced_claims rs s =
     filter (\<lambda>r. active r \<and> r_subject r = Some s \<and>
       \<not> (\<exists>q \<in> set rs. r_subject q = Some s \<and> r_id q \<noteq> r_id r \<and> r_supersedes q = Some (r_id r))) rs"

lemma open_is_unreplaced:
  assumes "\<forall>q \<in> set rs. r_supersedes q \<noteq> None \<longrightarrow> active q \<and> r_supersedes q \<noteq> Some (r_id q)"
  shows "open_claims rs s = unreplaced_claims rs s"
proof -
  have "active q \<and> r_id q \<noteq> r_id r" if "q \<in> set rs" "r_supersedes q = Some (r_id r)" for q r
    using assms that by auto
  then show ?thesis unfolding open_claims_def unreplaced_claims_def by (intro filter_cong) blast+
qed

lemma group_conflict_asked:
  assumes "distinct (map r_id rs)" "[] \<notin> r_id ` set rs" "sg \<in> set (by_subject subject rs)"
  shows "group_conflict lib isot sg =
    (if 2 \<le> length (open_claims rs (fst sg)) then [conflict_of lib isot rs (fst sg)] else [])"
proof -
  obtain s g where sg: "sg = (s, g)" by (cases sg)
  with assms(3) have g: "g = subject_group subject rs s" "subject_group subject rs s \<noteq> []" by (auto simp: by_subject_set)
  from group_asked [OF g(2)] show ?thesis unfolding sg fst_conv g(1) by (intro group_conflict_eq [OF assms(1,2)]) blast+
qed

lemma detect_conflicts_set:
  assumes "distinct (map r_id rs)" "[] \<notin> r_id ` set rs"
  shows "set (detect_conflicts lib isot rs subject) =
    conflict_of lib isot rs ` {s. s \<noteq> [] \<and> (subject = None \<or> subject = Some s) \<and> 2 \<le> length (open_claims rs s)}" (is "?L = ?R")
proof
  show "?L \<subseteq> ?R"
  proof
    fix c
    assume "c \<in> ?L"
    then obtain sg where sg: "sg \<in> set (by_subject subject rs)" "c \<in> set (group_conflict lib isot sg)"
      by (auto simp: detect_conflicts_def)
    then have "c = conflict_of lib isot rs (fst sg)" "2 \<le> length (open_claims rs (fst sg))" using group_conflict_asked [OF assms sg(1)] by (auto split: if_splits)
    moreover have "fst sg \<noteq> [] \<and> (subject = None \<or> subject = Some (fst sg))"
      using sg(1) by_subject_set [of "fst sg" "snd sg" subject rs] group_asked by force
    ultimately show "c \<in> ?R" by blast
  qed
  show "?R \<subseteq> ?L"
  proof
    fix c
    assume "c \<in> ?R"
    then obtain s where s: "s \<noteq> []" "subject = None \<or> subject = Some s" "2 \<le> length (open_claims rs s)" "c = conflict_of lib isot rs s"
      by blast
    have "(s, subject_group subject rs s) \<in> set (by_subject subject rs)"
      using s open_claims_group [OF s(1,2), of rs] by (cases "open_claims rs s") (auto simp: by_subject_set)
    moreover from group_conflict_asked [OF assms this] s have "c \<in> set (group_conflict lib isot (s, subject_group subject rs s))" by simp
    ultimately show "c \<in> ?L" by (force simp: detect_conflicts_def)
  qed
qed

text \<open>C29: the conflicts that are reported are exactly right: one for every subject (that is asked for) on which at least
  two claims are open, that is, active and not named in the \<open>supersedes\<close> of an active record on the subject (the
  record itself counts); it lists exactly these claims, none merged or dropped, and it is marked as unresolved exactly
  when two of them differ in their content hash. Where no archived record supersedes another and no record names itself,
  the open claims are the active ones that no other record on the subject replaces, as the source's comment says.\<close>

theorem detect_conflicts_exact:
  assumes "distinct (map r_id rs)" "[] \<notin> r_id ` set rs"
  shows "set (detect_conflicts lib isot rs subject) =
      conflict_of lib isot rs ` {s. s \<noteq> [] \<and> (subject = None \<or> subject = Some s) \<and> 2 \<le> length (open_claims rs s)} \<and>
    distinct (map cf_subject (detect_conflicts lib isot rs subject)) \<and> sorted (map cf_subject (detect_conflicts lib isot rs subject)) \<and>
    ((\<forall>q \<in> set rs. r_supersedes q \<noteq> None \<longrightarrow> active q \<and> r_supersedes q \<noteq> Some (r_id q)) \<longrightarrow>
       (\<forall>s. open_claims rs s = unreplaced_claims rs s))"
proof (intro conjI)
  show "set (detect_conflicts lib isot rs subject) =
      conflict_of lib isot rs ` {s. s \<noteq> [] \<and> (subject = None \<or> subject = Some s) \<and> 2 \<le> length (open_claims rs s)}"
    by (rule detect_conflicts_set [OF assms])
  let ?ks = "map fst (filter (\<lambda>sg. 2 \<le> length (open_claims rs (fst sg))) (sort_key fst (by_subject subject rs)))"
  have "map cf_subject (concat (map (group_conflict lib isot) xs)) = map fst (filter (\<lambda>sg. 2 \<le> length (open_claims rs (fst sg))) xs)"
    if "set xs \<subseteq> set (by_subject subject rs)" for xs
    using that group_conflict_asked [OF assms] by (induction xs) (auto simp: conflict_of_def Let_def)
  then have k: "map cf_subject (detect_conflicts lib isot rs subject) = ?ks" by (simp add: detect_conflicts_def)
  have "mset (map fst (sort_key fst (by_subject subject rs))) = mset (map fst (by_subject subject rs))" by simp
  then have "distinct (map fst (sort_key fst (by_subject subject rs)))"
    using by_subject_distinct mset_eq_imp_distinct_iff by blast
  then show "distinct (map cf_subject (detect_conflicts lib isot rs subject))" unfolding k by (rule distinct_map_filter)
  show "sorted (map cf_subject (detect_conflicts lib isot rs subject))" unfolding k by (rule sorted_filter) simp
qed (use open_is_unreplaced in blast)

definition claim :: "string \<Rightarrow> string \<Rightarrow> string option \<Rightarrow> mem_row" where
  "claim m c old = \<lparr>r_tenant = ''t'', r_id = m, r_version = 1, r_content = c, r_sha = c, r_created = 5, r_updated = 5,
     r_source = ''agent'', r_session = ''s'', r_type = ''fact'', r_status = ''draft'', r_confidence = 1, r_subject = Some ''port'',
     r_supersedes = old, r_tags = [], r_evidence = []\<rparr>"

theorem detect_conflicts_exact_witness:
  "\<exists>c \<in> set (detect_conflicts plain_lib (\<lambda>i. []) [claim ''a'' ''80'' None, claim ''b'' ''81'' (Some ''a''), claim ''c'' ''82'' None] None).
     cf_subject c = ''port'' \<and> cf_unresolved c"
proof -
  let ?rs = "[claim ''a'' ''80'' None, claim ''b'' ''81'' (Some ''a''), claim ''c'' ''82'' None]"
  have o: "open_claims ?rs ''port'' = [claim ''b'' ''81'' (Some ''a''), claim ''c'' ''82'' None]"
    by (simp add: open_claims_def claim_def active_def)
  have "set (detect_conflicts plain_lib (\<lambda>i. []) ?rs None) = conflict_of plain_lib (\<lambda>i. []) ?rs `
      {s. s \<noteq> [] \<and> (None = None \<or> None = Some s) \<and> 2 \<le> length (open_claims ?rs s)}"
    using detect_conflicts_exact [of ?rs plain_lib "\<lambda>i. []" None] by (simp add: claim_def)
  moreover have "''port'' \<in> {s. s \<noteq> [] \<and> (None = None \<or> None = Some s) \<and> 2 \<le> length (open_claims ?rs s)}" by (simp add: o)
  ultimately have "conflict_of plain_lib (\<lambda>i. []) ?rs ''port'' \<in> set (detect_conflicts plain_lib (\<lambda>i. []) ?rs None)" by blast
  moreover have "cf_unresolved (conflict_of plain_lib (\<lambda>i. []) ?rs ''port'')"
    by (simp add: conflict_of_def Let_def o) (simp add: claim_hash_def claim_def)
  ultimately show ?thesis by (metis (no_types, lifting) conflict_of_def conflict_set.select_convs(1))
qed

end
