(* ===== verification/Latest_Theorems.thy ===== *)
theory Latest_Theorems
  imports Latest Call_Log_Text Retrieval_Theorems
begin

text \<open>
  The cursors come back and are bound to their tenant and filters; following them reads every matching record exactly
  once, newest first; the ranked search gives the best records.
\<close>

section \<open>The order of the pages\<close>

definition newer :: "mem_row \<Rightarrow> mem_row \<Rightarrow> bool" where
  "newer a b \<longleftrightarrow> r_created b < r_created a \<or> (r_created b = r_created a \<and> r_id b < r_id a)"

lemma insort_key_lex:
  fixes f :: "'a \<Rightarrow> 'b :: linorder" and g :: "'a \<Rightarrow> 'c :: linorder"
  assumes "sorted_wrt (\<lambda>a b. f a < f b \<or> (f a = f b \<and> g a \<le> g b)) zs" "\<forall>z \<in> set zs. g y \<le> g z"
  shows "sorted_wrt (\<lambda>a b. f a < f b \<or> (f a = f b \<and> g a \<le> g b)) (insort_key f y zs)"
  using assms by (induction zs) (auto simp: set_insort_key)

lemma sort_key_lex:
  "sorted (map g ys) \<Longrightarrow> sorted_wrt (\<lambda>a b. f a < f b \<or> (f a = f b \<and> g a \<le> g b)) (sort_key f ys)"
  for f :: "'a \<Rightarrow> 'b :: linorder" and g :: "'a \<Rightarrow> 'c :: linorder"
proof (induction ys)
  case (Cons y ys)
  then have "sorted_wrt (\<lambda>a b. f a < f b \<or> (f a = f b \<and> g a \<le> g b)) (insort_key f y (sort_key f ys))"
    by (intro insort_key_lex) auto
  then show ?case by (simp add: sort_key_def)
qed simp

lemma newest_first_mset [simp]: "mset (newest_first rs) = mset rs"
  by (simp add: newest_first_def)

lemma newest_first_set [simp]: "set (newest_first rs) = set rs"
  by (simp add: newest_first_def)

lemma newest_first_filter: "newest_first (filter P rs) = filter P (newest_first rs)"
  by (simp add: newest_first_def filter_sort [symmetric] rev_filter)

lemma newest_first_ids: "distinct (map r_id (newest_first rs)) \<longleftrightarrow> distinct (map r_id rs)"
  by (metis newest_first_mset mset_map mset_eq_imp_distinct_iff)

lemma newest_first_sorted:
  assumes "distinct (map r_id rs)"
  shows "sorted_wrt newer (newest_first rs)"
proof -
  let ?xs = "sort_key r_created (sort_key r_id rs)"
  have l: "sorted_wrt (\<lambda>a b. r_created a < r_created b \<or> (r_created a = r_created b \<and> r_id a \<le> r_id b)) ?xs"
    by (rule sort_key_lex) simp
  have "distinct (map r_id ?xs)" using newest_first_ids [of rs] assms by (simp add: newest_first_def rev_map [symmetric])
  then have "sorted_wrt (\<lambda>a b. r_id a \<noteq> r_id b) ?xs" by (simp add: distinct_conv_nth sorted_wrt_iff_nth_less)
  with l have "sorted_wrt (\<lambda>a b. newer b a) ?xs"
    unfolding sorted_wrt_iff_nth_less newer_def by (metis order_le_less)
  then show ?thesis by (simp add: newest_first_def sorted_wrt_rev)
qed

lemma newer_asym: "newer a b \<Longrightarrow> \<not> newer b a"
  unfolding newer_def by (metis order_less_asym order_less_irrefl)

lemma filter_after:
  "sorted_wrt newer (pre @ x # post) \<Longrightarrow> filter (before_cursor (Some (r_created x, r_id x))) (pre @ x # post) = post"
proof -
  assume s: "sorted_wrt newer (pre @ x # post)"
  have b: "before_cursor (Some (r_created x, r_id x)) y \<longleftrightarrow> newer x y" for y by (auto simp: before_cursor_def newer_def)
  have "filter (newer x) pre = []" using s newer_asym by (auto simp: filter_empty_conv sorted_wrt_append)
  moreover have "filter (newer x) post = post" using s by (auto simp: sorted_wrt_append intro: filter_True)
  moreover have "\<not> newer x x" by (simp add: newer_def)
  ultimately show ?thesis by (simp add: b cong: filter_cong)
qed

section \<open>Base64\<close>

lemma b64_char_pad: "n < 64 \<Longrightarrow> b64_char n \<noteq> CHR ''=''"
  using b64_val_char [of n] b64_char_not_pad by auto

lemma replicate_two: "replicate 2 x = [x, x]"
  by (simp add: numeral_2_eq_2)

lemma b64_shape:
  "\<exists>core. b64encode bs = core @ replicate ((4 - length core mod 4) mod 4) (CHR ''='') \<and> (\<forall>c \<in> set core. b64_val c \<noteq> None)"
proof (induction bs rule: b64encode.induct)
  case 1
  show ?case by (intro exI [where x = "[]"]) simp
next
  case (2 x)
  show ?case
    using sextets [OF of_char_less_256 [of x], of 0 0]
    by (intro exI [where x = "[b64_char (of_char x div 4), b64_char (of_char x mod 4 * 16)]"])
      (simp add: Let_def b64_val_char numeral_2_eq_2 [symmetric] replicate_two)
next
  case (3 x y)
  show ?case
    using sextets [OF of_char_less_256 [of x] of_char_less_256 [of y], of 0]
    by (intro exI [where x = "[b64_char (of_char x div 4), b64_char (of_char x mod 4 * 16 + of_char y div 16), b64_char (of_char y mod 16 * 4)]"])
      (simp add: Let_def b64_val_char)
next
  case (4 x y z r)
  then obtain core where c: "b64encode r = core @ replicate ((4 - length core mod 4) mod 4) (CHR ''='')"
    "\<forall>c \<in> set core. b64_val c \<noteq> None" by blast
  let ?g = "[b64_char (of_char x div 4), b64_char (of_char x mod 4 * 16 + of_char y div 16),
      b64_char (of_char y mod 16 * 4 + of_char z div 64), b64_char (of_char z mod 64)]"
  have g: "b64encode (x # y # z # r) = ?g @ b64encode r" "\<forall>c \<in> set ?g. b64_val c \<noteq> None"
    using sextets [OF of_char_less_256 [of x] of_char_less_256 [of y] of_char_less_256 [of z]]
    by (simp_all add: Let_def b64_val_char)
  have l: "length (?g @ core) mod 4 = length core mod 4" by simp
  have "b64encode (x # y # z # r) = (?g @ core) @ replicate ((4 - length (?g @ core) mod 4) mod 4) (CHR ''='')"
    unfolding l g(1) c(1) by (simp only: append.assoc)
  moreover have "\<forall>c \<in> set (?g @ core). b64_val c \<noteq> None" using g(2) c(2) unfolding set_append by blast
  ultimately show ?case by (intro exI [where x = "?g @ core"] conjI)
qed

lemma url_std: "b64_val c \<noteq> None \<Longrightarrow> std_char (url_char c) = c"
  by (auto simp: b64_val_def std_char_def url_char_def Let_def)

lemma url_char_ok:
  assumes "b64_val c \<noteq> None"
  shows "url_char c \<noteq> CHR ''=''" "url_char c \<noteq> CHR ''.''" "(of_char (url_char c) :: nat) < 128"
  using assms by (auto simp: b64_val_def url_char_def Let_def split: if_splits)

lemma b64_url_core:
  obtains core where "b64encode bs = core @ replicate ((4 - length core mod 4) mod 4) (CHR ''='')"
    "\<forall>c \<in> set core. b64_val c \<noteq> None" "b64_url bs = map url_char core"
proof -
  obtain core where c: "b64encode bs = core @ replicate ((4 - length core mod 4) mod 4) (CHR ''='')"
    "\<forall>c \<in> set core. b64_val c \<noteq> None" using b64_shape by blast
  have e: "url_char (CHR ''='') = CHR ''=''" by (simp add: url_char_def)
  have "dropWhile (\<lambda>c. c = CHR ''='') (replicate n (CHR ''='') @ rev (map url_char core)) = rev (map url_char core)" for n
    using c(2) url_char_ok(1) by (induction n) (auto simp: dropWhile_eq_self_iff hd_rev last_map)
  then have "b64_url bs = map url_char core" by (simp add: b64_url_def c(1) e rev_map)
  with c that show thesis by blast
qed

lemma b64_url_chars: "c \<in> set (b64_url bs) \<Longrightarrow> c \<noteq> CHR ''.'' \<and> (of_char c :: nat) < 128"
  by (rule b64_url_core [of bs]) (auto simp: url_char_ok)

lemma a2b_encode: "a2b 0 0 0 (b64encode bs) = Some bs"
proof (induction bs rule: b64encode.induct)
  case (2 x)
  show ?case using sextets [OF of_char_less_256 [of x], of 0 0] by (simp add: Let_def b64_val_char b64_char_not_pad b64_char_pad)
next
  case (3 x y)
  show ?case using sextets [OF of_char_less_256 [of x] of_char_less_256 [of y], of 0]
    by (simp add: Let_def b64_val_char b64_char_not_pad b64_char_pad)
next
  case (4 x y z r)
  show ?case using 4 sextets [OF of_char_less_256 [of x] of_char_less_256 [of y] of_char_less_256 [of z]]
    by (simp add: Let_def b64_val_char b64_char_pad)
qed simp

lemma unb64_url: "unb64 (b64_url bs) = Some bs"
proof (rule b64_url_core [of bs])
  fix core
  assume c: "b64encode bs = core @ replicate ((4 - length core mod 4) mod 4) (CHR ''='')"
    "\<forall>c \<in> set core. b64_val c \<noteq> None" "b64_url bs = map url_char core"
  have "map std_char (map url_char core) = core" using c(2) by (simp add: url_std map_idI)
  moreover have "ascii_only (b64_url bs)" using b64_url_chars by (simp add: ascii_only_def list_all_iff)
  moreover have "std_char (CHR ''='') = CHR ''=''" by (simp add: std_char_def)
  ultimately show ?thesis
    by (simp add: unb64_def c(3) c(1) [symmetric] a2b_encode del: map_map)
qed

section \<open>Cursors\<close>

text \<open>Printable ASCII.\<close>

definition plain :: "string \<Rightarrow> bool" where
  "plain s \<longleftrightarrow> list_all (\<lambda>c. (of_char c :: nat) < 127) s"

lemma json_ascii_plain: "plain s \<Longrightarrow> json_ascii s = json_string s"
proof -
  assume "plain s"
  then have "concat (map ascii_escape (code_points s)) = concat (map json_char s)"
    by (induction s) (simp_all add: plain_def ascii_escape_def)
  then show ?thesis by (simp add: json_ascii_def json_string_def)
qed

lemma plain_hex: "list_all is_hex s \<Longrightarrow> plain s"
  by (fastforce simp: plain_def list_all_iff is_hex_def Let_def)

lemma scope_plain: "plain (scope_hash t p)"
proof -
  have "list_all is_hex (sha256_hex s)" for s using hex64_sha256_hex [of s] by (simp only: hex64_def)
  then have "list_all is_hex (scope_hash t p)" unfolding scope_hash_def list_all_iff by (meson in_set_takeD)
  then show ?thesis by (rule plain_hex)
qed

definition cursor_object :: "ts_lib \<Rightarrow> string \<Rightarrow> latest_params \<Rightarrow> int \<Rightarrow> string \<Rightarrow> dict" where
  "cursor_object lib t p created rid =
     [(''c'', JStr (tl_text lib created)), (''i'', JStr rid), (''s'', JStr (scope_hash t p))]"

definition cursor_body :: "ts_lib \<Rightarrow> string \<Rightarrow> latest_params \<Rightarrow> int \<Rightarrow> string \<Rightarrow> string" where
  "cursor_body lib t p created rid = b64_url (dumps (JObj (cursor_object lib t p created rid)))"

lemma encode_cursor_plain:
  assumes "plain (tl_text lib created)" "plain rid"
  shows "encode_cursor lib key t p created rid =
    cursor_body lib t p created rid @ ''.'' @ b64_url (hmac_sha256 key (cursor_body lib t p created rid))"
proof -
  have "dumps (JObj (cursor_object lib t p created rid)) =
      [CHR ''{'', CHR 0x22, CHR ''c'', CHR 0x22, CHR '':''] @ json_string (tl_text lib created)
        @ [CHR '','', CHR 0x22, CHR ''i'', CHR 0x22, CHR '':''] @ json_string rid
        @ [CHR '','', CHR 0x22, CHR ''s'', CHR 0x22, CHR '':''] @ json_string (scope_hash t p) @ [CHR ''}'']"
    by (simp add: cursor_object_def json_member_def json_string_def json_char_def)
  then show ?thesis
    by (simp add: encode_cursor_def cursor_body_def json_ascii_plain assms scope_plain Let_def del: dumps.simps)
qed

lemma decode_parts:
  assumes "CHR ''.'' \<notin> set body"
  shows "decode_cursor lib key t p (body @ ''.'' @ b64_url mac) =
    (if ascii_only body \<and> mac = hmac_sha256 key body
     then (case unb64 body of None \<Rightarrow> Inl cursor_invalid
           | Some data \<Rightarrow> (case cursor_data lib t p data of None \<Rightarrow> Inl cursor_invalid | Some a \<Rightarrow> Inr a))
     else Inl cursor_invalid)"
proof -
  have "CHR ''.'' \<notin> set (b64_url mac)" using b64_url_chars by blast
  then have "split_on (CHR ''.'') (body @ ''.'' @ b64_url mac) = [body, b64_url mac]"
    using split_on_append [OF assms, of "b64_url mac"] by (simp add: split_on_id)
  then show ?thesis by (simp add: decode_cursor_def unb64_url)
qed

lemma cursor_data_object:
  "cursor_data lib t p (dumps (JObj (cursor_object lib t' p' created rid))) =
    (if scope_hash t' p' \<noteq> scope_hash t p \<or> rid = [] then None
     else map_option (\<lambda>i. (i, rid)) (parse_utc lib (tl_text lib created)))"
proof -
  have "loads JFloat (dumps (JObj (cursor_object lib t' p' created rid))) = Some (JObj (cursor_object lib t' p' created rid))"
    using loads_dumps [of "JObj (cursor_object lib t' p' created rid)" JFloat] by (simp add: cursor_object_def)
  then show ?thesis by (simp add: cursor_data_def cursor_object_def obj_get_def del: dumps.simps)
qed

lemma cursor_decoded:
  assumes "plain (tl_text lib created)" "plain rid"
  shows "decode_cursor lib key t p (encode_cursor lib key t' p' created rid) =
    (if scope_hash t' p' \<noteq> scope_hash t p \<or> rid = [] then Inl cursor_invalid
     else case parse_utc lib (tl_text lib created) of None \<Rightarrow> Inl cursor_invalid | Some i \<Rightarrow> Inr (i, rid))"
proof -
  have "CHR ''.'' \<notin> set (cursor_body lib t' p' created rid)" "ascii_only (cursor_body lib t' p' created rid)"
    using b64_url_chars by (auto simp: cursor_body_def ascii_only_def list_all_iff)
  then show ?thesis
    unfolding encode_cursor_plain [OF assms] decode_parts [OF \<open>CHR ''.'' \<notin> set (cursor_body lib t' p' created rid)\<close>]
    by (simp add: cursor_body_def unb64_url cursor_data_object del: dumps.simps split: option.split)
qed

definition scope_text :: "string \<Rightarrow> latest_params \<Rightarrow> string" where
  "scope_text t p = dumps (JList [JStr t, jopt (lp_type p), JBool (lp_superseded p), JBool (lp_archived p), JBool (lp_twin p)])"

lemma scope_text_inj:
  assumes "scope_text t p = scope_text t' p'"
  shows "t = t' \<and> lp_type p = lp_type p' \<and> lp_superseded p = lp_superseded p' \<and> lp_archived p = lp_archived p' \<and> lp_twin p = lp_twin p'"
proof -
  let ?v = "\<lambda>t p. JList [JStr t, jopt (lp_type p), JBool (lp_superseded p), JBool (lp_archived p), JBool (lp_twin p)]"
  have "float_free (?v t p)" "float_free (?v t' p')" by (simp_all add: jopt_def split: option.split)
  with assms have "jnorm (?v t p) = jnorm (?v t' p')" unfolding scope_text_def by (simp only: dumps_inj)
  then show ?thesis by (auto simp: jopt_def split: option.splits)
qed

text \<open>A page cursor is bound to what it was issued for: a cursor that is accepted for a tenant and filters was issued for
  exactly this tenant and these filters, and it carries the position it was issued with; provided the truncated hashes of
  the two scopes do not collide.\<close>

lemma cursor_bound:
  assumes "plain (tl_text lib created)" "plain rid"
    and "decode_cursor lib key t p (encode_cursor lib key t' p' created rid) = Inr (i, m)"
    and "inj_on (\<lambda>s. take 24 (sha256_hex s)) {scope_text t p, scope_text t' p'}"
  shows "t' = t \<and> lp_type p' = lp_type p \<and> lp_superseded p' = lp_superseded p \<and> lp_archived p' = lp_archived p \<and>
    lp_twin p' = lp_twin p \<and> m = rid \<and> parse_utc lib (tl_text lib created) = Some i"
proof -
  have d: "scope_hash t' p' = scope_hash t p" "m = rid" "parse_utc lib (tl_text lib created) = Some i"
    using assms(3) unfolding cursor_decoded [OF assms(1,2)] by (auto split: if_splits option.splits)
  then have "take 24 (sha256_hex (scope_text t' p')) = take 24 (sha256_hex (scope_text t p))" by (simp only: scope_hash_def scope_text_def)
  then have "scope_text t' p' = scope_text t p" using assms(4) by (auto dest: inj_onD)
  from scope_text_inj [OF this] d show ?thesis by blast
qed

section \<open>Following the cursors\<close>

definition matching :: "ledger_db \<Rightarrow> string \<Rightarrow> latest_params \<Rightarrow> string list \<Rightarrow> mem_row list" where
  "matching db t p toks = newest_first (filter (latest_where db t p toks) (memories db))"

definition with_successor :: "ledger_db \<Rightarrow> mem_row \<Rightarrow> mem_row \<times> string option" where
  "with_successor db r = (r, superseded_by db r)"

definition position :: "mem_row list \<Rightarrow> (int \<times> string) option" where
  "position pre = (if pre = [] then None else Some (r_created (last pre), r_id (last pre)))"

lemma tenant_ids: "distinct (map row_key rows) \<Longrightarrow> distinct (map r_id (filter (\<lambda>r. r_tenant r = t \<and> P r) rows))"
  by (induction rows) (auto simp: row_key_def image_iff)

lemma matching_tenant: "filter (latest_where db t p toks) rows = filter (\<lambda>r. r_tenant r = t \<and> latest_where db t p toks r) rows"
  by (rule filter_cong) (auto simp: latest_where_def)

lemma matching_sorted: "distinct (map row_key (memories db)) \<Longrightarrow> sorted_wrt newer (matching db t p toks)"
  unfolding matching_def matching_tenant by (intro newest_first_sorted tenant_ids)

lemma matching_ids: "distinct (map row_key (memories db)) \<Longrightarrow> distinct (map r_id (matching db t p toks))"
  unfolding matching_def newest_first_ids matching_tenant by (rule tenant_ids)

lemma latest_where_cursor [simp]: "latest_where db t (p\<lparr>lp_cursor := c\<rparr>) toks = latest_where db t p toks"
  by (rule ext) (simp add: latest_where_def)

lemma scope_hash_cursor [simp]: "scope_hash t (p\<lparr>lp_cursor := c\<rparr>) = scope_hash t p"
  by (simp add: scope_hash_def)

lemma list_latest_position:
  assumes "distinct (map row_key (memories db))" "matching db t p toks = pre @ post"
  shows "list_latest db t most (position pre) (p\<lparr>lp_cursor := c\<rparr>) toks = take (nat (max 0 most)) (map (with_successor db) post)"
proof -
  have "newest_first (filter (\<lambda>r. latest_where db t p toks r \<and> before_cursor (position pre) r) (memories db)) =
      filter (before_cursor (position pre)) (matching db t p toks)"
    by (simp add: matching_def newest_first_filter [symmetric] conj_commute)
  also have "\<dots> = post"
  proof (cases pre rule: rev_cases)
    case Nil
    then show ?thesis using assms(2) by (simp add: position_def before_cursor_def)
  next
    case (snoc xs x)
    then show ?thesis
      using matching_sorted [OF assms(1), of t p toks] assms(2) filter_after [of xs x post] by (simp add: position_def)
  qed
  finally show ?thesis by (simp add: list_latest_def with_successor_def [abs_def])
qed

text \<open>Read a page, then follow its cursor, up to \<open>n\<close> pages.\<close>

fun latest_walk ::
  "ts_lib \<Rightarrow> (latest_exc + bytes) \<Rightarrow> ledger_db \<Rightarrow> string \<Rightarrow> bool \<Rightarrow> nat \<Rightarrow> latest_params \<Rightarrow> latest_exc + shaped list" where
  "latest_walk lib key_of db t operator 0 p = Inr []"
| "latest_walk lib key_of db t operator (Suc n) p =
     res_bind (latest_memories lib key_of db (Some t) p operator) (\<lambda>pg.
       case la_next pg of
         None \<Rightarrow> Inr (la_records pg)
       | Some c \<Rightarrow> res_bind (latest_walk lib key_of db t operator n (p\<lparr>lp_cursor := Some c\<rparr>)) (\<lambda>rest. Inr (la_records pg @ rest)))"

text \<open>What the rows of a tenant must be for their cursors to come back: a time that is read back and a printable id.\<close>

definition cursor_rows :: "ts_lib \<Rightarrow> ledger_db \<Rightarrow> string \<Rightarrow> bool" where
  "cursor_rows lib db t \<longleftrightarrow> (\<forall>r \<in> set (memories db). r_tenant r = t \<longrightarrow>
     plain (tl_text lib (r_created r)) \<and> parse_utc lib (tl_text lib (r_created r)) = Some (r_created r) \<and> plain (r_id r) \<and> r_id r \<noteq> [])"

definition cursor_at :: "ts_lib \<Rightarrow> bytes \<Rightarrow> string \<Rightarrow> latest_params \<Rightarrow> mem_row list \<Rightarrow> string option" where
  "cursor_at lib key t p pre =
     (if pre = [] then None else Some (encode_cursor lib key t p (r_created (last pre)) (r_id (last pre))))"

lemma cursor_read:
  assumes "cursor_rows lib db t" "set pre \<subseteq> set (memories db)" "\<forall>r \<in> set pre. r_tenant r = t"
  shows "(case given (cursor_at lib key t p pre) of None \<Rightarrow> Inr None
      | Some c \<Rightarrow> res_bind (decode_cursor lib key t p c) (\<lambda>a. Inr (Some a))) = Inr (position pre)"
proof (cases "pre = []")
  case False
  then have "last pre \<in> set (memories db)" "r_tenant (last pre) = t" using assms(2,3) by auto
  then have r: "plain (tl_text lib (r_created (last pre)))" "parse_utc lib (tl_text lib (r_created (last pre))) = Some (r_created (last pre))"
    "plain (r_id (last pre))" "r_id (last pre) \<noteq> []" using assms(1) by (auto simp: cursor_rows_def)
  have "encode_cursor lib key t p (r_created (last pre)) (r_id (last pre)) \<noteq> []" by (simp add: encode_cursor_def Let_def)
  with False cursor_decoded [OF r(1,3), of key t p t p] r(2,4) show ?thesis by (simp add: cursor_at_def given_def position_def)
qed (simp add: cursor_at_def given_def position_def)

lemma encode_cursor_params [simp]: "encode_cursor lib key t (p\<lparr>lp_cursor := c\<rparr>) = encode_cursor lib key t p"
  by (intro ext) (simp add: encode_cursor_def)

lemma cursor_data_params [simp]: "cursor_data lib t (p\<lparr>lp_cursor := c\<rparr>) = cursor_data lib t p"
  unfolding cursor_data_def scope_hash_cursor by (rule refl)

lemma decode_cursor_params [simp]: "decode_cursor lib key t (p\<lparr>lp_cursor := c\<rparr>) = decode_cursor lib key t p"
  unfolding decode_cursor_def cursor_data_params by (rule refl)

lemma walk_from:
  assumes rows: "distinct (map row_key (memories db))" "cursor_rows lib db t" "t \<noteq> []"
    and limit: "parse_limit (lp_limit p) = Inr l" "1 \<le> l"
  shows "matching db t p [] = pre @ post \<Longrightarrow> length post < n \<Longrightarrow>
    latest_walk lib (Inr key) db t operator n (p\<lparr>lp_cursor := cursor_at lib key t p pre\<rparr>) =
      Inr (map (\<lambda>r. shape_of lib (with_successor db r)) post)"
proof (induction n arbitrary: pre post)
  case (Suc n)
  let ?L = "nat l" and ?f = "with_successor db"
  have "set (matching db t p []) \<subseteq> set (memories db)" "\<forall>r \<in> set (matching db t p []). r_tenant r = t"
    by (auto simp: matching_def latest_where_def)
  with Suc.prems(1) have pre: "set pre \<subseteq> set (memories db)" "\<forall>r \<in> set pre. r_tenant r = t" by auto
  have L: "0 < ?L" using limit(2) by simp
  have n1: "nat (max 0 (l + 1)) = Suc ?L" using limit(2) by simp
  let ?pg = "take ?L (map ?f post)" and ?more = "?L < length post"
  have tk: "take ?L (take (Suc ?L) (map ?f post)) = ?pg" "(?L < length (take (Suc ?L) (map ?f post))) = ?more" by simp_all
  have "latest_memories lib (Inr key) db (Some t) (p\<lparr>lp_cursor := cursor_at lib key t p pre\<rparr>) operator = Inr
      \<lparr>la_records = map (shape_of lib) ?pg,
       la_next = (if ?more \<and> ?pg \<noteq> [] then Some (encode_cursor lib key t p (r_created (fst (last ?pg))) (r_id (fst (last ?pg)))) else None),
       la_tenant = t, la_head = ledger_head db t operator, la_digest = result_digest (map digest_row (map (shape_of lib) ?pg))\<rparr>"
  proof -
    let ?q = "p\<lparr>lp_cursor := cursor_at lib key t p pre\<rparr>"
    have g: "given (Some t) = Some t" using rows(3) by (simp add: given_def)
    have c: "lp_limit ?q = lp_limit p" "lp_cursor ?q = cursor_at lib key t p pre" by simp_all
    show ?thesis
      unfolding latest_memories_def g option.case c limit(1) res_bind_simps Let_def decode_cursor_params cursor_read [OF rows(2) pre]
        list_latest_position [OF rows(1) Suc.prems(1)] n1 tk encode_cursor_params
      by (rule refl)
  qed
  moreover have "latest_walk lib (Inr key) db t operator n (p\<lparr>lp_cursor := cursor_at lib key t p (pre @ take ?L post)\<rparr>) =
      Inr (map (\<lambda>r. shape_of lib (?f r)) (drop ?L post))" if ?more
    using Suc.prems that L by (intro Suc.IH) simp_all
  moreover have "last ?pg = ?f (last (take ?L post))" if ?more
  proof -
    have "take ?L post \<noteq> []" using that L by auto
    then show ?thesis by (simp add: take_map last_map del: take_eq_Nil)
  qed
  moreover have "?pg \<noteq> [] \<longleftrightarrow> post \<noteq> []" using L by simp
  moreover have "map (\<lambda>r. shape_of lib (?f r)) (take ?L post) @ map (\<lambda>r. shape_of lib (?f r)) (drop ?L post) =
      map (\<lambda>r. shape_of lib (?f r)) post" by (metis append_take_drop_id map_append)
  ultimately show ?case
    using L by (cases ?more) (auto simp: cursor_at_def with_successor_def take_map comp_def)
qed simp

text \<open>C31: following the cursors from the first page reads every matching record exactly once, newest first, with ties by id, and then
  ends, for every page size from 1 to 50: no record is missed or repeated at a page boundary.\<close>

theorem latest_pages:
  assumes "distinct (map row_key (memories db))" "cursor_rows lib db t" "t \<noteq> []" "parse_limit (lp_limit p) = Inr l" "lp_cursor p = None"
  shows "latest_walk lib (Inr key) db t operator (Suc (length (matching db t p []))) p =
      Inr (map (\<lambda>r. shape_of lib (with_successor db r)) (matching db t p [])) \<and>
    set (matching db t p []) = {r \<in> set (memories db). latest_where db t p [] r} \<and> distinct (map r_id (matching db t p [])) \<and>
    sorted_wrt newer (matching db t p [])"
proof -
  have "1 \<le> l" using assms(4) by (auto simp: parse_limit_def split: json.splits if_splits)
  from walk_from [OF assms(1-4) this, of "[]" "matching db t p []" "Suc (length (matching db t p []))" key operator]
  have "latest_walk lib (Inr key) db t operator (Suc (length (matching db t p []))) (p\<lparr>lp_cursor := None\<rparr>) =
      Inr (map (\<lambda>r. shape_of lib (with_successor db r)) (matching db t p []))" by (simp add: cursor_at_def)
  moreover have "p\<lparr>lp_cursor := None\<rparr> = p" using assms(5) by simp
  moreover have "distinct (map r_id (matching db t p []))" by (rule matching_ids [OF assms(1)])
  moreover have "set (matching db t p []) = {r \<in> set (memories db). latest_where db t p [] r}" by (simp add: matching_def)
  ultimately show ?thesis using matching_sorted [OF assms(1)] by metis
qed

section \<open>The best records\<close>

lemma first_seen_set: "set (first_seen ts) = set ts"
proof -
  have "set (foldl (\<lambda>seen t. if t \<in> set seen then seen else seen @ [t]) a ts) = set a \<union> set ts" for a
    by (induction ts arbitrary: a) auto
  then show ?thesis by (simp add: first_seen_def)
qed

lemma query_tokens_nonempty: "query_tokens v = Inr q \<Longrightarrow> [] \<notin> set q"
  by (auto simp: query_tokens_def Let_def first_seen_set tokens_def split: json.splits if_splits)

lemma top_k:
  assumes "rs = take k (sort_key (\<lambda>x. - (f x :: int)) xs)"
  shows "length rs = min k (length xs)" "set rs \<subseteq> set xs" "r \<in> set rs \<Longrightarrow> x \<in> set xs \<Longrightarrow> x \<notin> set rs \<Longrightarrow> f x \<le> f r"
    "sorted_wrt (\<lambda>a b. f b \<le> f a) rs"
proof -
  let ?ys = "sort_key (\<lambda>x. - f x) xs"
  show "length rs = min k (length xs)" using assms by (simp add: min.commute)
  show "set rs \<subseteq> set xs" using assms by (metis set_sort set_take_subset)
  have s: "sorted_wrt (\<lambda>a b. f b \<le> f a) ?ys" using sorted_sort_key [of "\<lambda>x. - f x" xs] by (simp add: sorted_map)
  then show "sorted_wrt (\<lambda>a b. f b \<le> f a) rs" using assms by (simp add: sorted_wrt_take)
  show "f x \<le> f r" if "r \<in> set rs" "x \<in> set xs" "x \<notin> set rs"
  proof -
    have "x \<in> set (drop k ?ys)" using that(2,3) assms by (metis Un_iff append_take_drop_id set_append set_sort)
    with that(1) s show ?thesis using assms by (metis append_take_drop_id sorted_wrt_append)
  qed
qed

text \<open>C32: the ranked search is sound and complete up to its limit: when the number of candidates is within the cap, the results are
  different records of the tenant that match the filters and contain every word of the query, best score first; there are as many as asked
  for, or all; and no matching record that is left out has a higher score than one that is returned.\<close>

theorem search_best:
  assumes "search_ledger lib db (Some t) qv p operator = Inr pg" "\<not> sp_capped pg" "distinct (map row_key (memories db))"
    and "parse_limit (lp_limit p) = Inr l" "cand = {r \<in> set (memories db). latest_where db t p (sp_tokens pg) r}"
  shows "\<exists>rs. map (\<lambda>s. sh_id (fst s)) (sp_records pg) = map r_id rs \<and> distinct rs \<and> set rs \<subseteq> cand \<and> length rs = min (nat l) (card cand) \<and>
    map snd (sp_records pg) = map (\<lambda>r. score r (sp_tokens pg) (tokens (case qv of JStr s \<Rightarrow> s | _ \<Rightarrow> []))) rs \<and>
    sorted_wrt (\<lambda>a b. b \<le> a) (map snd (sp_records pg)) \<and>
    (\<forall>r \<in> set rs. set (sp_tokens pg) \<subseteq> set (record_tokens (r_subject r) (r_content r) (r_tags r))) \<and>
    (\<forall>r \<in> set rs. \<forall>x \<in> cand - set rs. score x (sp_tokens pg) (tokens (case qv of JStr s \<Rightarrow> s | _ \<Rightarrow> []))
       \<le> score r (sp_tokens pg) (tokens (case qv of JStr s \<Rightarrow> s | _ \<Rightarrow> [])))"
proof -
  let ?ph = "tokens (case qv of JStr s \<Rightarrow> s | _ \<Rightarrow> [])"
  have t: "given (Some t) = Some t" using assms(1) by (auto simp: search_ledger_def given_def split: if_splits)
  obtain q where q: "query_tokens qv = Inr q" using assms(1,4) t by (auto simp: search_ledger_def res_bind_Inr_iff)
  let ?M = "matching db t p q" and ?f = "\<lambda>r. score r q ?ph"
  have "list_latest db t (int MAX_CANDIDATES + 1) (position []) (p\<lparr>lp_cursor := lp_cursor p\<rparr>) q =
      take (nat (max 0 (int MAX_CANDIDATES + 1))) (map (with_successor db) ?M)"
    by (rule list_latest_position [OF assms(3)]) simp
  then have c: "list_latest db t (int MAX_CANDIDATES + 1) None p q = take (Suc MAX_CANDIDATES) (map (with_successor db) ?M)"
    by (simp add: position_def nat_add_distrib)
  have pg: "sp_tokens pg = q" "sp_capped pg \<longleftrightarrow> length ?M > MAX_CANDIDATES"
    "sp_records pg = map (\<lambda>rs. (shape_of lib rs, score (fst rs) q ?ph)) (take (nat l) (sort_key (\<lambda>rs. - score (fst rs) q ?ph)
       (take MAX_CANDIDATES (take (Suc MAX_CANDIDATES) (map (with_successor db) ?M)))))"
    using assms(1) unfolding search_ledger_def t option.case assms(4) q res_bind_simps Let_def c by auto
  have "take MAX_CANDIDATES (take (Suc MAX_CANDIDATES) (map (with_successor db) ?M)) = map (with_successor db) ?M"
    using assms(2) pg(2) by simp
  then have r: "sp_records pg = map (\<lambda>r. (shape_of lib (with_successor db r), ?f r)) (take (nat l) (sort_key (\<lambda>r. - ?f r) ?M))"
    unfolding pg(3) by (simp add: sort_key_map take_map comp_def with_successor_def)
  define rs where "rs = take (nat l) (sort_key (\<lambda>r. - ?f r) ?M)"
  note T = top_k [OF rs_def]
  have cand: "set ?M = cand" unfolding assms(5) pg(1) by (simp add: matching_def)
  have d: "distinct ?M" using matching_ids [OF assms(3)] by (simp add: distinct_map)
  have "distinct rs" using d by (simp add: rs_def)
  moreover have "length rs = min (nat l) (card cand)" using T(1) distinct_card [OF d] cand by simp
  moreover have "set q \<subseteq> set (record_tokens (r_subject r) (r_content r) (r_tags r))" if "r \<in> set rs" for r
  proof -
    have "set q \<subseteq> set (jarvis_search_tokens (r_subject r) (r_content r) (r_tags r))"
      using that T(2) cand unfolding assms(5) pg(1) by (auto simp: latest_where_def)
    moreover have "[] \<notin> set q" using query_tokens_nonempty [OF q] .
    ultimately show ?thesis by (auto simp: sql_tokens [symmetric])
  qed
  moreover have "sorted_wrt (\<lambda>a b. b \<le> a) (map ?f rs)" using T(4) by (simp add: sorted_wrt_map)
  ultimately show ?thesis
    using T(2,3) cand unfolding pg(1) r rs_def [symmetric]
    by (intro exI [where x = rs]) (auto simp: comp_def shape_of_def with_successor_def)
qed

section \<open>Concrete instances\<close>

definition sample_ts :: ts_lib where
  "sample_ts = \<lparr>tl_text = str_int, tl_fromiso = parse_int\<rparr>"

definition claims_db :: ledger_db where
  "claims_db = empty_db\<lparr>memories := [claim ''a'' ''80'' None, claim ''b'' ''81'' (Some ''a''), claim ''c'' ''82'' None]\<rparr>"

definition one_a_page :: latest_params where
  "one_a_page = \<lparr>lp_limit = JInt 1, lp_cursor = None, lp_superseded = True, lp_archived = False, lp_twin = False, lp_type = None\<rparr>"

lemma claims_keys: "distinct (map row_key (memories claims_db))"
  by (simp add: claims_db_def row_key_def claim_def)

lemma one_limit: "parse_limit (lp_limit one_a_page) = Inr 1"
  by (simp add: parse_limit_def one_a_page_def)

theorem latest_pages_witness:
  "latest_walk sample_ts (Inr []) claims_db ''t'' False (Suc (length (matching claims_db ''t'' one_a_page []))) one_a_page =
     Inr (map (\<lambda>r. shape_of sample_ts (with_successor claims_db r)) (matching claims_db ''t'' one_a_page [])) \<and>
   set (matching claims_db ''t'' one_a_page []) = set (memories claims_db)"
proof -
  have "plain (str_int 5)" "parse_utc sample_ts (str_int 5) = Some 5" "plain ''a''" "plain ''b''" "plain ''c''" by code_simp+
  then have "cursor_rows sample_ts claims_db ''t''" by (simp add: cursor_rows_def claims_db_def claim_def sample_ts_def)
  moreover have "lp_cursor one_a_page = None" by (simp add: one_a_page_def)
  ultimately have w: "latest_walk sample_ts (Inr []) claims_db ''t'' False (Suc (length (matching claims_db ''t'' one_a_page []))) one_a_page =
      Inr (map (\<lambda>r. shape_of sample_ts (with_successor claims_db r)) (matching claims_db ''t'' one_a_page [])) \<and>
    set (matching claims_db ''t'' one_a_page []) = {r \<in> set (memories claims_db). latest_where claims_db ''t'' one_a_page [] r}"
    using latest_pages [OF claims_keys _ _ one_limit, of sample_ts "''t''" "[]" False] by simp
  have "latest_where claims_db ''t'' one_a_page [] r" if "r \<in> set (memories claims_db)" for r
    using that by (auto simp: claims_db_def latest_where_def one_a_page_def claim_def equals_if_def given_def TWIN_AGENT_def)
  with w show ?thesis by blast
qed

theorem search_best_witness:
  "\<exists>pg. search_ledger sample_ts claims_db (Some ''t'') (JStr ''82 port'') one_a_page False = Inr pg \<and> (\<exists>rs. map (\<lambda>s. sh_id (fst s)) (sp_records pg) = map r_id rs \<and> distinct rs \<and> set rs \<subseteq> {r \<in> set (memories claims_db). latest_where claims_db ''t'' one_a_page (sp_tokens pg) r} \<and> length rs = min (nat 1) (card {r \<in> set (memories claims_db). latest_where claims_db ''t'' one_a_page (sp_tokens pg) r}) \<and>
    map snd (sp_records pg) = map (\<lambda>r. score r (sp_tokens pg) (tokens (case JStr ''82 port'' of JStr s \<Rightarrow> s | _ \<Rightarrow> []))) rs \<and>
    sorted_wrt (\<lambda>a b. b \<le> a) (map snd (sp_records pg)) \<and>
    (\<forall>r \<in> set rs. set (sp_tokens pg) \<subseteq> set (record_tokens (r_subject r) (r_content r) (r_tags r))) \<and>
    (\<forall>r \<in> set rs. \<forall>x \<in> {r \<in> set (memories claims_db). latest_where claims_db ''t'' one_a_page (sp_tokens pg) r} - set rs. score x (sp_tokens pg) (tokens (case JStr ''82 port'' of JStr s \<Rightarrow> s | _ \<Rightarrow> []))
       \<le> score r (sp_tokens pg) (tokens (case JStr ''82 port'' of JStr s \<Rightarrow> s | _ \<Rightarrow> []))))"
proof -
  have q: "query_tokens (JStr ''82 port'') = Inr [''82'', ''port'']" by code_simp
  have g: "given (Some ''t'') = Some ''t''" by (simp add: given_def)
  obtain pg where pg: "search_ledger sample_ts claims_db (Some ''t'') (JStr ''82 port'') one_a_page False = Inr pg"
    unfolding search_ledger_def g option.case one_limit q res_bind_simps Let_def by blast
  have "\<not> 5000 < length (list_latest claims_db ''t'' n None one_a_page toks)" for n toks
  proof -
    have "length (newest_first (filter P (memories claims_db))) \<le> length (memories claims_db)" for P
      by (metis length_filter_le newest_first_mset size_mset)
    moreover have "length (memories claims_db) = 3" by (simp add: claims_db_def)
    ultimately have "length (list_latest claims_db ''t'' n None one_a_page toks) \<le> 3" by (simp add: list_latest_def min.coboundedI1)
    then show ?thesis by simp
  qed
  then have "\<not> sp_capped pg"
    using pg unfolding search_ledger_def g option.case one_limit q res_bind_simps Let_def MAX_CANDIDATES_def by auto
  from search_best [OF pg this claims_keys one_limit refl] pg show ?thesis by (intro exI [where x = pg] conjI)
qed

end
