(* ===== verification/File_Store_Theorems.thy ===== *)
theory File_Store_Theorems
  imports File_Store Latest_Theorems Call_Log_Inv
begin

text \<open>
  The JSON store reads like the row store, never drops a record on loading, and its memory never leads its file.
\<close>

section \<open>Both backends give the same pages\<close>

lemma newest_first_cong:
  assumes "distinct (map r_id xs)" "distinct (map r_id ys)" "set xs = set ys"
  shows "newest_first xs = newest_first ys"
proof -
  have "mset xs = mset ys" using assms by (intro distinct_same_set_mset) (simp_all add: distinct_map)
  moreover have "inj_on r_id (set xs)" using assms(1) by (simp add: distinct_map)
  ultimately show ?thesis unfolding newest_first_def by (metis sort_key_inj_perm)
qed

definition key_of :: "mem_row \<Rightarrow> int \<times> string" where
  "key_of r = (r_created r, r_id r)"

lemma key_less_newer: "key_less (key_of b) (key_of a) \<longleftrightarrow> newer a b"
  by (auto simp: key_less_def key_of_def newer_def)

lemma key_less_trans: "key_less a b \<Longrightarrow> key_less b c \<Longrightarrow> key_less a c"
  unfolding key_less_def by (metis order_less_trans)

lemma key_less_total: "\<not> key_less a b \<Longrightarrow> a = b \<or> key_less b a"
  by (cases a, cases b) (auto simp: key_less_def)

text \<open>What the entry of a superseded id says.\<close>

definition best_successor :: "mem_row list \<Rightarrow> string \<Rightarrow> (int \<times> string) option \<Rightarrow> bool" where
  "best_successor rs x k \<longleftrightarrow>
     (case k of
        None \<Rightarrow> \<forall>s \<in> set rs. r_supersedes s \<noteq> Some x
      | Some k \<Rightarrow> (\<exists>s \<in> set rs. r_supersedes s = Some x \<and> k = key_of s) \<and>
                  (\<forall>s \<in> set rs. r_supersedes s = Some x \<longrightarrow> \<not> key_less k (key_of s)))"

lemma successors_snoc: "successors (rs @ [m]) =
    (case given (r_supersedes m) of
         None \<Rightarrow> successors rs
       | Some old \<Rightarrow>
           let key = (r_created m, r_id m)
           in case map_of (successors rs) old of
                None \<Rightarrow> AList.update old key (successors rs)
              | Some best \<Rightarrow> if key_less best key then AList.update old key (successors rs) else successors rs)"
  unfolding successors_def foldl_append foldl_Cons foldl_Nil by (rule refl)

lemma best_successor_snoc:
  assumes "best_successor rs x k"
  shows "best_successor (rs @ [m]) x
    (if r_supersedes m \<noteq> Some x then k
     else case k of None \<Rightarrow> Some (key_of m) | Some b \<Rightarrow> if key_less b (key_of m) then Some (key_of m) else k)"
proof (cases k)
  case None
  with assms show ?thesis by (auto simp: best_successor_def key_less_def)
next
  case (Some b)
  with assms have b: "\<exists>s \<in> set rs. r_supersedes s = Some x \<and> b = key_of s"
    "\<forall>s \<in> set rs. r_supersedes s = Some x \<longrightarrow> \<not> key_less b (key_of s)" by (simp_all add: best_successor_def)
  have irr: "\<not> key_less c c" for c by (simp add: key_less_def)
  have "\<not> key_less (key_of m) (key_of s)" if "key_less b (key_of m)" "s \<in> set rs" "r_supersedes s = Some x" for s
    using b(2) that key_less_trans by blast
  with b irr show ?thesis unfolding Some by (auto simp: best_successor_def)
qed

lemma successors_best: "x \<noteq> [] \<Longrightarrow> best_successor rs x (map_of (successors rs) x)"
proof (induction rs rule: rev_induct)
  case Nil
  then show ?case by (simp add: successors_def best_successor_def)
next
  case (snoc m rs)
  have "map_of (successors (rs @ [m])) x = (if r_supersedes m \<noteq> Some x then map_of (successors rs) x
     else case map_of (successors rs) x of None \<Rightarrow> Some (key_of m) | Some b \<Rightarrow> if key_less b (key_of m) then Some (key_of m) else Some b)"
    using snoc.prems by (auto simp: successors_snoc given_def Let_def key_of_def update_conv' split: option.splits)
  with best_successor_snoc [OF snoc.IH [OF snoc.prems], of m] show ?case
    by (cases "map_of (successors rs) x") auto
qed

lemma superseded_by_best:
  assumes "distinct (map row_key (memories db))" "set rs = {r \<in> set (memories db). r_tenant r = t}" "r_tenant m = t" "r_id m \<noteq> []"
  shows "superseded_by db m = map_option snd (map_of (successors rs) (r_id m))"
proof -
  let ?S = "filter (\<lambda>s. r_tenant s = t \<and> r_supersedes s = Some (r_id m)) (memories db)"
  have S: "set ?S = {s \<in> set rs. r_supersedes s = Some (r_id m)}" using assms(2) by auto
  have s: "sorted_wrt newer (newest_first ?S)" by (intro newest_first_sorted tenant_ids assms(1))
  have best: "best_successor rs (r_id m) (map_of (successors rs) (r_id m))" using assms(4) by (rule successors_best)
  show ?thesis
  proof (cases "newest_first ?S")
    case Nil
    then have "set ?S = {}" by (metis newest_first_set list.set(1))
    then have "map_of (successors rs) (r_id m) = None" using best S by (auto simp: best_successor_def split: option.splits)
    with Nil show ?thesis by (simp add: superseded_by_def assms(3))
  next
    case (Cons h r)
    have h: "h \<in> set ?S" using Cons newest_first_set [of ?S] by (metis list.set_intros(1))
    then have "h \<in> set rs" "r_supersedes h = Some (r_id m)" using S by auto
    then obtain k where k: "map_of (successors rs) (r_id m) = Some k" using best by (auto simp: best_successor_def split: option.splits)
    then obtain s' where s': "s' \<in> set rs" "r_supersedes s' = Some (r_id m)" "k = key_of s'" "\<not> key_less k (key_of h)"
      using best \<open>h \<in> set rs\<close> \<open>r_supersedes h = Some (r_id m)\<close> by (auto simp: best_successor_def)
    then have "s' \<in> set (newest_first ?S)" using S by simp
    then have "s' = h \<or> newer h s'" using s Cons by auto
    then have "k = key_of h" using s'(3,4) by (auto simp: key_less_newer)
    with Cons k show ?thesis by (simp add: superseded_by_def assms(3) key_of_def)
  qed
qed

lemma words_agree:
  assumes "[] \<notin> set toks"
  shows "set toks \<subseteq> set (record_tokens s c tg) \<longleftrightarrow> set toks \<subseteq> set (jarvis_search_tokens s c tg)"
  using assms unfolding sql_tokens [symmetric] by auto

lemma kept_agree:
  assumes "set rs = {r \<in> set (memories db). r_tenant r = t}" "r \<in> set rs" "[] \<notin> r_id ` set rs" "[] \<notin> set toks"
  shows "js_keep (successors rs) after p toks r \<longleftrightarrow> latest_where db t p toks r \<and> before_cursor after r"
proof -
  have t: "r_tenant r = t" using assms(1,2) by simp
  have "r_id r \<noteq> []" using assms(2,3) by (metis image_eqI)
  from successors_best [OF this, of rs]
  have "map_of (successors rs) (r_id r) = None \<longleftrightarrow> \<not> list_ex (\<lambda>s. r_tenant s = t \<and> r_supersedes s = Some (r_id r)) (memories db)"
    using assms(1) by (auto simp: best_successor_def list_ex_iff split: option.splits)
  moreover have "(case after of None \<Rightarrow> True | Some a \<Rightarrow> key_less (r_created r, r_id r) a) \<longleftrightarrow> before_cursor after r"
    by (auto simp: before_cursor_def key_less_def split: option.splits)
  ultimately show ?thesis
    using t words_agree [OF assms(4)] by (auto simp: js_keep_def latest_where_def)
qed

text \<open>C35: both backends serve the same pages: when the file holds the records the table holds for the tenant, in whatever
  order, the in-memory selection of the JSON store and the SQL query of the row store give the same records in the same
  order with the same successors, for every filter, cursor, limit and set of words.\<close>

theorem backends_agree:
  assumes "distinct (map row_key (memories db))" "distinct (map r_id rs)" "set rs = {r \<in> set (memories db). r_tenant r = t}"
    and "[] \<notin> r_id ` set rs" "[] \<notin> set toks"
  shows "js_latest_rows rs limit after p toks = list_latest db t limit after p toks"
proof -
  let ?P = "\<lambda>r. latest_where db t p toks r \<and> before_cursor after r"
  have "filter ?P (memories db) = filter (\<lambda>r. r_tenant r = t \<and> ?P r) (memories db)"
    by (rule filter_cong) (auto simp: latest_where_def)
  moreover have "set (filter (js_keep (successors rs) after p toks) rs) = set (filter (\<lambda>r. r_tenant r = t \<and> ?P r) (memories db))"
    using kept_agree [OF assms(3) _ assms(4,5)] assms(3) by auto
  ultimately have "newest_first (filter (js_keep (successors rs) after p toks) rs) = newest_first (filter ?P (memories db))"
    using newest_first_cong [OF distinct_map_filter [OF assms(2)] tenant_ids [OF assms(1)]] by simp
  moreover have "map (\<lambda>m. (m, map_option snd (map_of (successors rs) (r_id m)))) (newest_first (filter ?P (memories db))) =
      map (\<lambda>r. (r, superseded_by db r)) (newest_first (filter ?P (memories db)))"
  proof (rule map_cong [OF refl])
    fix m
    assume "m \<in> set (newest_first (filter ?P (memories db)))"
    then have "m \<in> set (memories db)" "r_tenant m = t" by (auto simp: latest_where_def)
    moreover from this have "r_id m \<noteq> []" using assms(3,4) by (metis (mono_tags, lifting) image_eqI mem_Collect_eq)
    ultimately show "(m, map_option snd (map_of (successors rs) (r_id m))) = (m, superseded_by db m)"
      using superseded_by_best [OF assms(1,3)] by simp
  qed
  ultimately show ?thesis unfolding js_latest_rows_def list_latest_def Let_def by (simp only:)
qed


section \<open>What is in the file\<close>

definition own_key :: "string \<times> mem_row \<Rightarrow> bool" where
  "own_key kr \<longleftrightarrow> fst kr = r_id (snd kr) \<and> fst kr \<noteq> [] \<and> r_sha (snd kr) \<noteq> []"

definition keyed_records :: "(string \<times> mem_row) list \<Rightarrow> bool" where
  "keyed_records mem \<longleftrightarrow> distinct (map fst mem) \<and> (\<forall>kr \<in> set mem. own_key kr)"

definition own_id :: "raw_item \<Rightarrow> bool" where
  "own_id item \<longleftrightarrow> (case item of Raw_record rid _ (Inr r) \<Rightarrow> r_id r = rid | _ \<Rightarrow> True)"

definition own_ids :: "ledger_file \<Rightarrow> bool" where
  "own_ids f \<longleftrightarrow>
     (case f of Document raw \<Rightarrow>
        (case ld_memories raw of
           Items items \<Rightarrow> list_all own_id items
         | _ \<Rightarrow> True)
      | _ \<Rightarrow> True)"

text \<open>Loading the file would give the board and the records, and would not have to save them.\<close>

definition on_disk :: "pylib \<Rightarrow> js_state \<Rightarrow> bool" where
  "on_disk lib s \<longleftrightarrow>
     (case js_file s of
        No_file \<Rightarrow> js_memories s = [] \<and> js_board s = default_board
      | Document raw \<Rightarrow> \<exists>mem. parse_ledger_document lib raw = Inr (js_board s, mem, False) \<and> keyed_records mem \<and> set mem = set (js_memories s)
      | _ \<Rightarrow> False)"

definition js_ok :: "pylib \<Rightarrow> js_state \<Rightarrow> bool" where
  "js_ok lib s \<longleftrightarrow> own_ids (js_file s) \<and>
     (if js_loaded s then keyed_records (js_memories s) \<and> on_disk lib s
      else js_file s = No_file \<longrightarrow> js_memories s = [] \<and> js_board s = default_board)"

lemma ensured: "r_id (ensure_content_hash lib r) = r_id r" "r_sha (ensure_content_hash lib r) \<noteq> []"
    "r_sha r \<noteq> [] \<Longrightarrow> ensure_content_hash lib r = r" "content_sha256 lib c \<noteq> []"
proof -
  show c: "content_sha256 lib c \<noteq> []" for c unfolding content_sha256_def by (metis length_sha256_hex list.size(3) zero_neq_numeral)
  show "r_sha (ensure_content_hash lib r) \<noteq> []" using c by (simp add: ensure_content_hash_def)
qed (simp_all add: ensure_content_hash_def)

lemma keyed_update: "keyed_records mem \<Longrightarrow> r_id r \<noteq> [] \<Longrightarrow> r_sha r \<noteq> [] \<Longrightarrow> keyed_records (AList.update (r_id r) r mem)"
  unfolding keyed_records_def by (auto simp: distinct_update own_key_def dest: update_members)

lemma keyed_delete: "keyed_records mem \<Longrightarrow> keyed_records (AList.delete k mem)"
  unfolding keyed_records_def by (auto simp: distinct_delete dest: delete_members)

lemma parse_items_Cons:
  assumes "parse_items lib n (item # items) mem dirty = Inr x"
  obtains rid legacy r where "item = Raw_record rid legacy (Inr r)" "rid \<noteq> []"
    "parse_items lib (n + 1) items (AList.update (r_id r) (ensure_content_hash lib r) mem) (dirty \<or> legacy \<or> r_sha r = []) = Inr x"
proof (cases item)
  case (Raw_record rid legacy checked)
  with assms that show ?thesis by (cases checked) (simp_all add: Let_def ensured split: if_splits)
qed (use assms in simp)

lemma parse_items_keyed:
  "parse_items lib n items mem dirty = Inr (mem', d) \<Longrightarrow> keyed_records mem \<Longrightarrow>
     list_all own_id items \<Longrightarrow> keyed_records mem'"
proof (induction items arbitrary: n mem dirty)
  case (Cons item items)
  from parse_items_Cons [OF Cons.prems(1)] obtain rid legacy r where i: "item = Raw_record rid legacy (Inr r)" "rid \<noteq> []"
    "parse_items lib (n + 1) items (AList.update (r_id r) (ensure_content_hash lib r) mem) (dirty \<or> legacy \<or> r_sha r = []) = Inr (mem', d)" .
  then have "r_id r = rid" using Cons.prems(3) by (simp add: own_id_def)
  moreover have "keyed_records (AList.update (r_id r) (ensure_content_hash lib r) mem)"
    using keyed_update [of mem "ensure_content_hash lib r"] Cons.prems(2) i(2) \<open>r_id r = rid\<close> by (simp add: ensured)
  ultimately show ?case using Cons.IH [OF i(3)] Cons.prems(3) by simp
qed simp

lemma parse_dumped:
  "keyed_records (mem @ xs) \<Longrightarrow> parse_items lib n (map (dump_record \<circ> snd) xs) mem dirty = Inr (mem @ xs, dirty)"
proof (induction xs arbitrary: n mem)
  case (Cons kr xs)
  obtain k r where kr: "kr = (k, r)" by (cases kr)
  then have "own_key (k, r)" "k \<notin> set (map fst mem)" using Cons.prems by (simp_all add: keyed_records_def)
  then have k: "k = r_id r" "k \<noteq> []" "r_sha r \<noteq> []" "k \<notin> fst ` set mem" by (auto simp: own_key_def)
  then have "map_of mem k = None" by (simp add: map_of_eq_None_iff)
  then show ?case using Cons.IH [of "mem @ [kr]"] Cons.prems k unfolding kr
    by (simp add: dump_record_def ensured update_new Let_def)
qed simp

lemma dump_loads: "keyed_records (js_memories s) \<Longrightarrow> parse_ledger_document lib (dump_ledger s) = Inr (js_board s, js_memories s, False)"
  using parse_dumped [of "[]" "js_memories s" lib 0 False] by (simp add: parse_ledger_document_def dump_ledger_def)

lemma dump_own_ids: "own_ids (Document (dump_ledger s))"
  by (simp add: own_ids_def dump_ledger_def dump_record_def own_id_def list_all_length)

lemma document_keyed:
  assumes "own_ids (Document raw)" "parse_ledger_document lib raw = Inr (board, mem, d)"
  shows "keyed_records mem"
proof (cases "ld_memories raw")
  case (Items items)
  then have "parse_items lib 0 items [] False = Inr (mem, d)"
    using assms(2) by (simp add: parse_ledger_document_def split: sum.splits option.splits prod.splits)
  from parse_items_keyed [OF this] assms(1) Items show ?thesis by (simp add: own_ids_def keyed_records_def)
qed (use assms(2) in \<open>auto simp: parse_ledger_document_def keyed_records_def split: if_splits sum.splits option.splits\<close>)

section \<open>Saving and loading keep memory and file together\<close>

lemma js_save_cases:
  obtains "js_save s = (Inr (), s\<lparr>js_io := tl (js_io s), js_file := Document (dump_ledger s)\<rparr>)"
    | e where "js_save s = (Inl e, s\<lparr>js_io := tl (js_io s)\<rparr>)"
  unfolding js_save_def Let_def by (cases "case js_io s of [] \<Rightarrow> True | b # _ \<Rightarrow> b") simp_all

lemma saved_ok: "keyed_records (js_memories s) \<Longrightarrow> on_disk lib (s\<lparr>js_file := Document (dump_ledger s)\<rparr>)"
  using dump_loads [of s lib] by (auto simp: on_disk_def)

lemma on_disk_cong: "js_file s = js_file s' \<Longrightarrow> js_board s = js_board s' \<Longrightarrow> set (js_memories s) = set (js_memories s') \<Longrightarrow> on_disk lib s = on_disk lib s'"
  by (auto simp: on_disk_def split: ledger_file.splits)

lemma load_ok:
  assumes "js_ok lib s" "\<not> js_loaded s" "js_load lib s = (r, s')"
  shows "js_ok lib s' \<and> (js_loaded s' \<longleftrightarrow> r = Inr ())"
proof (cases "js_file s")
  case (Document raw)
  let ?s = "s\<lparr>js_board := default_board, js_memories := []\<rparr>"
  show ?thesis
  proof (cases "parse_ledger_document lib raw")
    case (Inl e)
    then show ?thesis using assms Document by (auto simp: js_load_def js_ok_def js_bind_def js_hydrate_def)
  next
    case (Inr p)
    obtain board mem d where p: "p = (board, mem, d)" by (cases p)
    have mem: "keyed_records mem" using document_keyed [of raw lib board mem d] Inr p assms(1) Document by (simp add: js_ok_def)
    let ?m = "s\<lparr>js_board := board, js_memories := mem\<rparr>"
    show ?thesis
    proof (cases d)
      case False
      then show ?thesis using assms Document Inr p mem by (auto simp: js_load_def js_ok_def js_bind_def js_hydrate_def on_disk_def)
    next
      case True
      show ?thesis
      proof (cases rule: js_save_cases [of ?m])
        case 1
        then show ?thesis using assms Document Inr p mem True saved_ok [of ?m lib] dump_own_ids [of ?m]
          by (auto simp: js_load_def js_ok_def js_bind_def js_hydrate_def on_disk_def dump_ledger_def)
      next
        case (2 e)
        then show ?thesis using assms Document Inr p mem True by (auto simp: js_load_def js_ok_def js_bind_def js_hydrate_def)
      qed
    qed
  qed
qed (use assms in \<open>auto simp: js_load_def js_ok_def keyed_records_def on_disk_def\<close>)

lemma ensure_loaded_ok: "js_ok lib s \<Longrightarrow> ensure_loaded lib s = (r, s') \<Longrightarrow> js_ok lib s' \<and> (js_loaded s' \<longleftrightarrow> r = Inr ())"
  using load_ok [of lib s r s'] by (auto simp: ensure_loaded_def split: if_splits)

text \<open>An operation that starts by loading does what it does on the loaded store.\<close>

lemma loaded_op:
  assumes "op = js_bind (ensure_loaded lib) f" "js_ok lib s" "op s = (r, s')"
    and "\<And>s1. js_ok lib s1 \<Longrightarrow> js_loaded s1 \<Longrightarrow> ensure_loaded lib s = (Inr (), s1) \<Longrightarrow> op s1 = (r, s') \<Longrightarrow> js_ok lib s'"
  shows "js_ok lib s'"
proof (cases "ensure_loaded lib s")
  case (Pair w s1)
  note ok = ensure_loaded_ok [OF assms(2) Pair]
  show ?thesis
  proof (cases w)
    case (Inl e)
    then show ?thesis using assms(1,3) Pair ok by (simp add: js_bind_def)
  next
    case (Inr u)
    then have "ensure_loaded lib s1 = (Inr (), s1)" using ok by (simp add: ensure_loaded_def)
    then have "op s1 = op s" using assms(1) Pair Inr by (simp add: js_bind_def)
    with ok Pair Inr assms(3) show ?thesis by (intro assms(4) [of s1]) simp_all
  qed
qed

text \<open>A change in memory is saved, or undone up to the order of the dictionary.\<close>

definition same_content :: "js_state \<Rightarrow> js_state \<Rightarrow> bool" where
  "same_content s s' \<longleftrightarrow> js_file s' = js_file s \<and> js_board s' = js_board s \<and> set (js_memories s') = set (js_memories s) \<and> js_loaded s' = js_loaded s"

definition undoes :: "(js_state \<Rightarrow> js_state) \<Rightarrow> js_state \<Rightarrow> js_state \<Rightarrow> bool" where
  "undoes restore s changed \<longleftrightarrow>
     (\<forall>io. same_content s (restore (changed\<lparr>js_io := io\<rparr>)) \<and> keyed_records (js_memories (restore (changed\<lparr>js_io := io\<rparr>))))"

lemma saved_or_undone:
  assumes "js_ok lib s" "js_loaded s" "keyed_records (js_memories changed)" "js_loaded changed" "undoes restore s changed"
    and "js_bind (save_or_restore restore) (\<lambda>_ s. (Inr (f s), s)) changed = (r, s')"
  shows "js_ok lib s' \<and> (isl r \<longrightarrow> same_content s s')"
proof (cases rule: js_save_cases [of changed])
  case 1
  then have "s' = changed\<lparr>js_io := tl (js_io changed), js_file := Document (dump_ledger changed)\<rparr>" "\<not> isl r"
    using assms(6) by (auto simp: js_bind_def save_or_restore_def)
  then show ?thesis using assms(3,4) saved_ok [OF assms(3), of lib] dump_own_ids [of changed] by (simp add: js_ok_def on_disk_def)
next
  case (2 e)
  then have s': "s' = restore (changed\<lparr>js_io := tl (js_io changed)\<rparr>)" using assms(6) by (auto simp: js_bind_def save_or_restore_def)
  then have same: "same_content s s'" "keyed_records (js_memories s')" using assms(5) by (simp_all add: undoes_def)
  moreover have "on_disk lib s'" using assms(1,2) same(1) on_disk_cong [of s s' lib] by (simp add: js_ok_def same_content_def)
  ultimately show ?thesis using assms(1,2) by (simp add: js_ok_def same_content_def)
qed

lemma keyed_set_update:
  assumes "keyed_records mem" "map_of mem m = Some old"
  shows "set (AList.update m old mem) = set mem" "set (AList.update m old (AList.update m r mem)) = set mem"
    "set (AList.update m old (AList.delete m mem)) = set mem"
proof -
  have d: "distinct (map fst mem)" using assms(1) by (simp add: keyed_records_def)
  have *: "set xs = set mem" if "distinct (map fst xs)" "map_of xs = map_of mem" for xs
    using map_of_inject_set [OF that(1) d] that(2) by simp
  show "set (AList.update m old mem) = set mem" "set (AList.update m old (AList.update m r mem)) = set mem"
    "set (AList.update m old (AList.delete m mem)) = set mem"
    using d assms(2) by (auto intro!: * simp: distinct_update distinct_delete update_conv' delete_conv' fun_upd_idem)
qed

lemma keyed_old:
  assumes "keyed_records mem" "map_of mem m = Some old"
  shows "r_id old = m" "m \<noteq> []" "r_sha old \<noteq> []"
proof -
  have "own_key (m, old)" using assms(1) map_of_SomeD [OF assms(2)] by (simp add: keyed_records_def)
  then show "r_id old = m" "m \<noteq> []" "r_sha old \<noteq> []" by (auto simp: own_key_def)
qed

lemma keyed_set: "keyed_records mem \<Longrightarrow> distinct (map fst mem') \<Longrightarrow> set mem' = set mem \<Longrightarrow> keyed_records mem'"
  by (simp add: keyed_records_def)

lemma loaded_keyed: "js_ok lib s \<Longrightarrow> js_loaded s \<Longrightarrow> keyed_records (js_memories s)"
  by (simp add: js_ok_def)

section \<open>Every operation keeps them together\<close>

lemma js_new_id: "r_id (js_new_record lib t rid now data) = rid" "r_sha (js_new_record lib t rid now data) \<noteq> []"
  by (simp_all add: js_new_record_def new_row_def ensured)

lemma js_merge_id: "r_id (js_merge lib old u now) = r_id old" "r_sha old \<noteq> [] \<Longrightarrow> r_sha (js_merge lib old u now) \<noteq> []"
  by (auto simp: js_merge_def merge_update_def ensured split: option.splits)

lemma same_content_refl: "same_content s s"
  by (simp add: same_content_def)

text \<open>The part of each writing operation that follows the load.\<close>

lemma js_create_loaded:
  assumes "js_ok lib s" "js_loaded s" "rid \<noteq> []" "map_of (js_memories s) rid = None" "js_create lib rules env t now rid data s = (r, s')"
  shows "js_ok lib s' \<and> (isl r \<longrightarrow> same_content s s')"
proof -
  let ?r = "js_new_record lib t rid now data"
  let ?c = "s\<lparr>js_memories := AList.update rid ?r (js_memories s)\<rparr>"
  note keyed = loaded_keyed [OF assms(1,2)]
  have "undoes (js_memories_update (AList.delete rid)) s ?c"
    using keyed assms(4) by (simp add: undoes_def same_content_def delete_update_same map_of_eq_None_iff)
  moreover have "keyed_records (js_memories ?c)" using keyed_update [OF keyed, of ?r] assms(3) by (simp add: js_new_id)
  ultimately have s: "js_bind (save_or_restore (js_memories_update (AList.delete rid))) (\<lambda>_ s. (Inr ?r, s)) ?c = (r, s') \<Longrightarrow> ?thesis"
    using saved_or_undone [OF assms(1,2), of ?c "js_memories_update (AList.delete rid)" "\<lambda>_. ?r" r s'] assms(2) by simp
  show ?thesis
    using assms(1,2,5) s same_content_refl
    by (auto simp: js_create_def js_bind_def [of "ensure_loaded lib"] ensure_loaded_def Let_def split: sum.splits if_splits)
qed

lemma js_update_loaded:
  assumes "js_ok lib s" "js_loaded s" "js_update lib rules env now m u s = (r, s')"
  shows "js_ok lib s' \<and> (isl r \<longrightarrow> same_content s s')"
proof (cases "map_of (js_memories s) m")
  case None
  then show ?thesis using assms same_content_refl by (simp add: js_update_def js_bind_def ensure_loaded_def)
next
  case (Some old)
  let ?r = "js_merge lib old u now"
  let ?c = "s\<lparr>js_memories := AList.update m ?r (js_memories s)\<rparr>"
  note keyed = loaded_keyed [OF assms(1,2)]
  note old = keyed_old [OF keyed Some]
  have c: "keyed_records (js_memories ?c)" using keyed_update [OF keyed, of ?r] old by (simp add: js_merge_id)
  have "distinct (map fst (AList.update m old (AList.update m ?r (js_memories s))))"
    using keyed by (simp add: distinct_update keyed_records_def)
  then have "undoes (js_memories_update (AList.update m old)) s ?c"
    using keyed_set_update(2) [OF keyed Some, of ?r] keyed_set [OF keyed] by (simp add: undoes_def same_content_def)
  with c have s: "js_bind (save_or_restore (js_memories_update (AList.update m old))) (\<lambda>_ s. (Inr (Some ?r), s)) ?c = (r, s') \<Longrightarrow> ?thesis"
    using saved_or_undone [OF assms(1,2), of ?c "js_memories_update (AList.update m old)" "\<lambda>_. Some ?r" r s'] assms(2) by simp
  show ?thesis
    using assms s same_content_refl Some
    by (auto simp: js_update_def js_bind_def [of "ensure_loaded lib"] ensure_loaded_def Let_def split: sum.splits if_splits)
qed

lemma js_delete_loaded:
  assumes "js_ok lib s" "js_loaded s" "js_delete lib m s = (r, s')"
  shows "js_ok lib s' \<and> (isl r \<longrightarrow> same_content s s')"
proof (cases "map_of (js_memories s) m")
  case None
  then show ?thesis using assms same_content_refl by (simp add: js_delete_def js_bind_def ensure_loaded_def)
next
  case (Some old)
  let ?c = "s\<lparr>js_memories := AList.delete m (js_memories s)\<rparr>"
  note keyed = loaded_keyed [OF assms(1,2)]
  have c: "keyed_records (js_memories ?c)" using keyed_delete [OF keyed] by simp
  have "distinct (map fst (AList.update m old (AList.delete m (js_memories s))))"
    using keyed by (simp add: distinct_update distinct_delete keyed_records_def)
  then have "undoes (js_memories_update (AList.update m old)) s ?c"
    using keyed_set_update(3) [OF keyed Some] keyed_set [OF keyed] by (simp add: undoes_def same_content_def)
  with c show ?thesis
    using saved_or_undone [OF assms(1,2), of ?c "js_memories_update (AList.update m old)" "\<lambda>_. True" r s'] assms Some
    by (simp add: js_delete_def js_bind_def [of "ensure_loaded lib"] ensure_loaded_def)
qed

lemma swap_board_loaded:
  assumes "js_ok lib s" "js_loaded s" "swap_board b s = (r, s')"
  shows "js_ok lib s' \<and> (isl r \<longrightarrow> same_content s s')"
proof -
  have "undoes (js_board_update (\<lambda>_. js_board s)) s (s\<lparr>js_board := b\<rparr>)"
    using loaded_keyed [OF assms(1,2)] by (simp add: undoes_def same_content_def)
  then have u: "js_bind (save_or_restore (js_board_update (\<lambda>_. js_board s))) (\<lambda>_ s. (Inr b, s)) (s\<lparr>js_board := b\<rparr>) = (q, s') \<Longrightarrow>
      js_ok lib s' \<and> (isl q \<longrightarrow> same_content s s')" for q
    using saved_or_undone [OF assms(1,2), of "s\<lparr>js_board := b\<rparr>" "js_board_update (\<lambda>_. js_board s)" "\<lambda>_. b"] loaded_keyed [OF assms(1,2)] assms(2)
    by simp
  obtain q where "js_bind (save_or_restore (js_board_update (\<lambda>_. js_board s))) (\<lambda>_ s. (Inr b, s)) (s\<lparr>js_board := b\<rparr>) = (q, s')" "isl q = isl r"
    using assms(3) by (auto simp: swap_board_def Let_def js_bind_def split: prod.splits sum.splits)
  with u show ?thesis by metis
qed

section \<open>Reachable states\<close>

definition js_start :: "ledger_file \<Rightarrow> bytes \<Rightarrow> bool list \<Rightarrow> nat option list \<Rightarrow> js_state" where
  "js_start f ev io aps =
     \<lparr>js_file = f, js_board = default_board, js_memories = [], js_loaded = False, js_evidence = ev, js_io = io, js_appends = aps\<rparr>"

definition js_fresh :: "pylib \<Rightarrow> string \<Rightarrow> js_state \<Rightarrow> bool" where
  "js_fresh lib rid s \<longleftrightarrow> rid \<noteq> [] \<and> map_of (js_memories (snd (ensure_loaded lib s))) rid = None"

text \<open>
  A process starts on a file whose records have the ids they are listed under, then runs any operations; new ids do not
  collide with those in the file. A restart keeps only the files. Each operation's saves fail or not as \<open>js_io\<close> says.
\<close>

inductive js_run :: "pylib \<Rightarrow> soft_rules \<Rightarrow> clause_env \<Rightarrow> string \<Rightarrow> js_state \<Rightarrow> bool" for lib rules env t where
  start: "own_ids f \<Longrightarrow> js_run lib rules env t (js_start f ev io aps)"
| restart: "js_run lib rules env t s \<Longrightarrow> js_run lib rules env t (js_start (js_file s) (js_evidence s) io aps)"
| read: "js_run lib rules env t s \<Longrightarrow> ensure_loaded lib s = (r, s') \<Longrightarrow> js_run lib rules env t s'"
| create: "js_run lib rules env t s \<Longrightarrow> js_fresh lib rid s \<Longrightarrow> js_create lib rules env t now rid data s = (r, s') \<Longrightarrow> js_run lib rules env t s'"
| update: "js_run lib rules env t s \<Longrightarrow> js_update lib rules env now m u s = (r, s') \<Longrightarrow> js_run lib rules env t s'"
| delete: "js_run lib rules env t s \<Longrightarrow> js_delete lib m s = (r, s') \<Longrightarrow> js_run lib rules env t s'"
| set_board: "js_run lib rules env t s \<Longrightarrow> js_set_board lib b s = (r, s') \<Longrightarrow> js_run lib rules env t s'"
| patch_board: "js_run lib rules env t s \<Longrightarrow> js_patch_board lib bu s = (r, s') \<Longrightarrow> js_run lib rules env t s'"
| put_evidence: "js_run lib rules env t s \<Longrightarrow> js_put_evidence lib now req s = (r, s') \<Longrightarrow> js_run lib rules env t s'"

lemma evidence_ok: "js_ok lib s \<Longrightarrow> js_ok lib (s\<lparr>js_appends := aps, js_evidence := ev\<rparr>)"
  using on_disk_cong [of s "s\<lparr>js_appends := aps, js_evidence := ev\<rparr>" lib] unfolding js_ok_def by (simp split del: if_split cong: if_cong)

lemma js_run_ok: "js_run lib rules env t s \<Longrightarrow> js_ok lib s"
proof (induction rule: js_run.induct)
  case (start f ev io)
  then show ?case by (simp add: js_ok_def js_start_def)
next
  case (restart s io)
  then show ?case by (simp add: js_ok_def js_start_def)
next
  case (read s r s')
  then show ?case using ensure_loaded_ok by blast
next
  case (create s rid now data r s')
  show ?case
  proof (rule loaded_op [OF js_create_def create.IH create.hyps(3)])
    fix s1
    assume s1: "js_ok lib s1" "js_loaded s1" "ensure_loaded lib s = (Inr (), s1)" "js_create lib rules env t now rid data s1 = (r, s')"
    then have "rid \<noteq> []" "map_of (js_memories s1) rid = None" using create.hyps(2) by (simp_all add: js_fresh_def)
    with js_create_loaded [OF s1(1,2) _ _ s1(4)] show "js_ok lib s'" by simp
  qed
next
  case (update s now m u r s')
  from loaded_op [OF js_update_def this(3,2)] js_update_loaded show ?case by blast
next
  case (delete s m r s')
  from loaded_op [OF js_delete_def this(3,2)] js_delete_loaded show ?case by blast
next
  case (set_board s b r s')
  from loaded_op [OF js_set_board_def this(3,2)] show ?case
    using swap_board_loaded [of lib _ b r s'] by (simp add: js_set_board_def js_bind_def ensure_loaded_def)
next
  case (patch_board s bu r s')
  from loaded_op [OF js_patch_board_def this(3,2)] show ?case
    using swap_board_loaded [of lib] by (simp add: js_patch_board_def js_bind_def ensure_loaded_def Let_def)
next
  case (put_evidence s now req r s')
  then show ?case using evidence_ok
    by (auto simp: js_put_evidence_def append_evidence_def js_bind_def Let_def split: sum.splits prod.splits option.splits list.splits)
qed

text \<open>C33: the JSON store's memory never leads its file: however the store got where it is (any board, record and
  evidence operations, saves that fail at any point, restarts), once it is loaded a process that starts anew loads the
  same board and the same records from the file, without an error and without having to write.\<close>

theorem file_store_durable:
  assumes "js_run lib rules env t s" "js_loaded s"
  shows "\<exists>s'. js_load lib (js_start (js_file s) ev io aps) = (Inr (), s') \<and> js_loaded s' \<and> js_file s' = js_file s \<and>
     js_board s' = js_board s \<and> map_of (js_memories s') = map_of (js_memories s)"
proof -
  have ok: "keyed_records (js_memories s)" "on_disk lib s" using js_run_ok [OF assms(1)] assms(2) by (simp_all add: js_ok_def)
  show ?thesis
  proof (cases "js_file s")
    case (Document raw)
    then obtain mem where mem: "parse_ledger_document lib raw = Inr (js_board s, mem, False)" "keyed_records mem" "set mem = set (js_memories s)"
      using ok(2) by (auto simp: on_disk_def)
    then have "map_of mem = map_of (js_memories s)" using ok(1) map_of_inject_set unfolding keyed_records_def by blast
    with mem(1) Document show ?thesis by (simp add: js_load_def js_start_def js_bind_def js_hydrate_def)
  qed (use ok(2) in \<open>simp_all add: on_disk_def js_load_def js_start_def\<close>)
qed

text \<open>C34: a write that raises changes nothing: whatever a create, an update, a delete or a change of the board on a loaded
  JSON store is refused for (the version, the evidence, Clause V, a missing target) or fails on (the save), the file, the
  board and every record are as before.\<close>

theorem failed_write_changes_nothing:
  assumes "js_run lib rules env t s" "js_loaded s"
    and "js_fresh lib rid s \<and> js_create lib rules env t now rid data s = (Inl e, s') \<or>
      js_update lib rules env now m u s = (Inl e, s') \<or> js_delete lib m s = (Inl e, s') \<or>
      js_set_board lib b s = (Inl e, s') \<or> js_patch_board lib bu s = (Inl e, s')"
  shows "js_file s' = js_file s \<and> js_board s' = js_board s \<and> map_of (js_memories s') = map_of (js_memories s)"
proof -
  note ok = js_run_ok [OF assms(1)]
  have "js_ok lib s' \<and> same_content s s'"
    using assms(3)
  proof (elim disjE conjE)
    assume f: "js_fresh lib rid s" and c: "js_create lib rules env t now rid data s = (Inl e, s')"
    have "rid \<noteq> []" "map_of (js_memories s) rid = None" using f assms(2) by (simp_all add: js_fresh_def ensure_loaded_def)
    from js_create_loaded [OF ok assms(2) this c] show ?thesis by simp
  next
    assume "js_update lib rules env now m u s = (Inl e, s')"
    from js_update_loaded [OF ok assms(2) this] show ?thesis by simp
  next
    assume "js_delete lib m s = (Inl e, s')"
    from js_delete_loaded [OF ok assms(2) this] show ?thesis by simp
  next
    assume "js_set_board lib b s = (Inl e, s')"
    then show ?thesis using swap_board_loaded [OF ok assms(2)] assms(2) by (simp add: js_set_board_def js_bind_def ensure_loaded_def)
  next
    assume "js_patch_board lib bu s = (Inl e, s')"
    then show ?thesis using swap_board_loaded [OF ok assms(2)] assms(2)
      by (simp add: js_patch_board_def js_bind_def ensure_loaded_def Let_def)
  qed
  then have same: "same_content s s'" and "keyed_records (js_memories s')" using assms(2) by (simp_all add: js_ok_def same_content_def)
  then have "map_of (js_memories s') = map_of (js_memories s)"
    using loaded_keyed [OF ok assms(2)] map_of_inject_set unfolding keyed_records_def same_content_def by blast
  with same show ?thesis by (simp add: same_content_def)
qed

section \<open>A concrete store\<close>

definition stored_sample :: mem_row where
  "stored_sample = js_new_record plain_lib ''t'' ''m1'' 0 sample_create"

definition sample_js :: "bool list \<Rightarrow> js_state" where
  "sample_js io = (js_start No_file [] io [])\<lparr>js_loaded := True, js_memories := [(''m1'', stored_sample)],
     js_file := Document (dump_ledger ((js_start No_file [] [] [])\<lparr>js_memories := [(''m1'', stored_sample)]\<rparr>))\<rparr>"

lemma sample_js_created: "js_create plain_lib no_rules open_env ''t'' 0 ''m1'' sample_create (js_start No_file [] (True # io) []) = (Inr stored_sample, sample_js io)"
proof -
  have c: "mc_evidence sample_create = [sample_link]" "mc_supersedes sample_create = None" by (simp_all add: sample_create_def)
  show ?thesis
    by (simp add: js_create_def js_bind_def ensure_loaded_def js_start_def js_load_def c sample_gate js_target_missing_def given_def
        save_or_restore_def js_save_def sample_js_def dump_ledger_def stored_sample_def Let_def)
qed

lemma sample_js_run: "js_run plain_lib no_rules open_env ''t'' (sample_js io)"
  by (rule js_run.create [OF js_run.start [of No_file] _ sample_js_created])
    (simp_all add: own_ids_def js_fresh_def ensure_loaded_def js_load_def js_start_def)

theorem file_store_durable_witness:
  "\<exists>s'. js_load plain_lib (js_start (js_file (sample_js [])) [] [] []) = (Inr (), s') \<and> map_of (js_memories s') ''m1'' = Some stored_sample"
proof -
  from file_store_durable [OF sample_js_run [of "[]"], of "[]" "[]" "[]"] obtain s' where
    "js_load plain_lib (js_start (js_file (sample_js [])) [] [] []) = (Inr (), s')" "map_of (js_memories s') = map_of (js_memories (sample_js []))"
    by (auto simp: sample_js_def)
  moreover have "map_of (js_memories (sample_js [])) ''m1'' = Some stored_sample" by (simp add: sample_js_def)
  ultimately show ?thesis by auto
qed

text \<open>The disk is full when the record is deleted: the record stays.\<close>

theorem failed_write_changes_nothing_witness:
  "\<exists>s' e. js_delete plain_lib ''m1'' (sample_js [False]) = (Inl e, s') \<and> map_of (js_memories s') ''m1'' = Some stored_sample"
proof -
  let ?s' = "(sample_js [])\<lparr>js_memories := [(''m1'', stored_sample)]\<rparr>"
  have d: "js_delete plain_lib ''m1'' (sample_js [False]) = (Inl (Store_unavailable ''Ledger write failed (OSError)''), ?s')"
    by (simp add: js_delete_def js_bind_def ensure_loaded_def sample_js_def js_start_def save_or_restore_def js_save_def)
  have "js_loaded (sample_js [False])" by (simp add: sample_js_def)
  with failed_write_changes_nothing [OF sample_js_run this] d have "map_of (js_memories ?s') = map_of (js_memories (sample_js [False]))" by blast
  with d show ?thesis by (auto simp: sample_js_def)
qed

definition any_latest :: latest_params where
  "any_latest = \<lparr>lp_limit = JNull, lp_cursor = None, lp_superseded = False, lp_archived = False, lp_twin = False, lp_type = None\<rparr>"

theorem backends_agree_witness:
  "js_latest_rows [new_row plain_lib ''t'' ''m1'' 0 sample_create] 10 None any_latest [] =
     list_latest (sample_ledger plain_lib plain_json) ''t'' 10 None any_latest []"
  by (rule backends_agree) (auto simp: sample_memories, auto simp: new_row_def)

end
