(* ===== verification/Evidence_Backends.thy ===== *)
theory Evidence_Backends
  imports File_Store_Theorems Row_Store_Witnesses
begin

text \<open>
  The contract of an evidence store, which both backends keep (\<^verbatim>\<open>put_evidence_object\<close> and
  \<^verbatim>\<open>get_evidence_object\<close> of \<^verbatim>\<open>app/pg_store.py\<close> and of \<^verbatim>\<open>app/store.py\<close> over
  \<^verbatim>\<open>FileEvidenceStore\<close>), and what a client may conclude from it: an object is written once. The contract speaks of
  the states a backend is meant to be in, the requests it can take, and the form in which it hands an object back.
\<close>

section \<open>The contract\<close>

locale evidence_backend =
  fixes put :: "int \<Rightarrow> evidence_create \<Rightarrow> 's \<Rightarrow> ('e + evidence_object \<times> bool) \<times> 's"
    and get :: "string \<Rightarrow> 's \<Rightarrow> 'x + evidence_object option"
    and norm :: "evidence_object \<Rightarrow> evidence_object"
    and inv :: "'s \<Rightarrow> bool"
    and ok :: "int \<Rightarrow> evidence_create \<Rightarrow> bool"
  assumes inv_put: "inv s \<Longrightarrow> ok now req \<Longrightarrow> inv (snd (put now req s))"
    and put_keeps: "inv s \<Longrightarrow> ok now req \<Longrightarrow> get oid s = Inr (Some y) \<Longrightarrow> get oid (snd (put now req s)) = Inr (Some y)"
    and get_put: "inv s \<Longrightarrow> ok now req \<Longrightarrow> put now req s = (Inr (x, c), s') \<Longrightarrow> get (eo_id x) s' = Inr (Some (norm x))"
    and put_created: "inv s \<Longrightarrow> ok now req \<Longrightarrow> put now req s = (Inr (x, c), s') \<Longrightarrow> c \<longleftrightarrow> get (eo_id x) s = Inr None"
    and put_known: "put now req s = (Inr (x, c), s') \<Longrightarrow> get (eo_id x) s2 = Inr (Some y) \<Longrightarrow> put now' req s2 = (Inr (y, False), s2)"

text \<open>Any further requests, whether they succeed or not.\<close>

primrec puts :: "(int \<Rightarrow> evidence_create \<Rightarrow> 's \<Rightarrow> 'r \<times> 's) \<Rightarrow> (int \<times> evidence_create) list \<Rightarrow> 's \<Rightarrow> 's" where
  "puts put [] s = s"
| "puts put (r # rs) s = puts put rs (snd (put (fst r) (snd r) s))"

context evidence_backend
begin

lemma inv_puts: "inv s \<Longrightarrow> \<forall>r \<in> set rs. ok (fst r) (snd r) \<Longrightarrow> inv (puts put rs s)"
  by (induction rs arbitrary: s) (simp_all add: inv_put)

lemma puts_keep:
  "inv s \<Longrightarrow> \<forall>r \<in> set rs. ok (fst r) (snd r) \<Longrightarrow> get oid s = Inr (Some y) \<Longrightarrow> get oid (puts put rs s) = Inr (Some y)"
  by (induction rs arbitrary: s) (simp_all add: inv_put put_keeps)

lemma written_once:
  assumes "inv s" "ok now req" "\<forall>r \<in> set rs. ok (fst r) (snd r)" "put now req s = (Inr (x, c), s')"
  shows "get (eo_id x) (puts put rs s') = Inr (Some (norm x)) \<and>
    put now' req (puts put rs s') = (Inr (norm x, False), puts put rs s')"
proof -
  have "inv s'" using inv_put [OF assms(1,2)] assms(4) by simp
  from puts_keep [OF this assms(3) get_put [OF assms(1,2,4)]]
  have stored: "get (eo_id x) (puts put rs s') = Inr (Some (norm x))" .
  with put_known [OF assms(4) this, of now'] show ?thesis by simp
qed

end

section \<open>The table\<close>

text \<open>A request that fails is rolled back.\<close>

definition pg_put :: "pylib \<Rightarrow> string \<Rightarrow> int \<Rightarrow> evidence_create \<Rightarrow> evidence_table \<Rightarrow>
    (store_exc + evidence_object \<times> bool) \<times> evidence_table" where
  "pg_put lib t now req tab =
     (case put_evidence_object lib t now req tab of Inl e \<Rightarrow> (Inl e, tab) | Inr (r, tab') \<Rightarrow> (Inr r, tab'))"

definition pg_get :: "string \<Rightarrow> string \<Rightarrow> evidence_table \<Rightarrow> unit + evidence_object option" where
  "pg_get t oid tab = Inr (get_evidence_object t oid tab)"

lemma pg_put_Inr: "pg_put lib t now req tab = (Inr r, tab') \<longleftrightarrow> put_evidence_object lib t now req tab = Inr (r, tab')"
  by (auto simp: pg_put_def split: sum.splits)

lemma put_row_cases:
  assumes "put_evidence_object lib t now req tab = Inr ((x, c), tab')"
  shows "build_object lib req = Inr (request_id req, request_text req)" "find_evidence t (request_id req) tab' = Some x"
    "eo_id x = request_id req" "c \<longleftrightarrow> find_evidence t (request_id req) tab = None"
    "tab' = (if c then tab @ [(t, stored_form (new_object req (request_id req) (request_text req) now))] else tab)"
    "c \<longrightarrow> x = stored_form (new_object req (request_id req) (request_text req) now)"
proof -
  note p = put_cases [OF assms]
  show "build_object lib req = Inr (request_id req, request_text req)" "find_evidence t (request_id req) tab' = Some x"
    "c \<longleftrightarrow> find_evidence t (request_id req) tab = None"
    "tab' = (if c then tab @ [(t, stored_form (new_object req (request_id req) (request_text req) now))] else tab)"
    by (rule p)+
  from find_evidence_SomeD [OF p(4)] show oid: "eo_id x = request_id req" by simp
  show "c \<longrightarrow> x = stored_form (new_object req (request_id req) (request_text req) now)"
  proof
    assume c: c
    then have "find_evidence t (request_id req) (tab @ [(t, stored_form (new_object req (request_id req) (request_text req) now))]) = Some x"
      using p(3,4) by simp
    with c p(2) show "x = stored_form (new_object req (request_id req) (request_text req) now)"
      by (simp add: find_evidence_append) (simp add: find_evidence_def stored_form_def new_object_def)
  qed
qed

lemma put_row_again:
  assumes "put_evidence_object lib t now req tab = Inr ((x, c), tab')" "find_evidence t (eo_id x) tab2 = Some y"
  shows "put_evidence_object lib t now' req tab2 = Inr ((y, False), tab2)"
proof -
  note p = put_row_cases [OF assms(1)]
  have "insert_evidence t (new_object req (request_id req) (request_text req) now) tab = Inr (c, tab')"
    using assms(1) by (auto simp: put_evidence_object_def p(1) split: sum.splits option.splits)
  then have "insert_evidence t (new_object req (request_id req) (request_text req) now') tab2 = Inr (False, tab2)"
    unfolding insert_evidence_Inr using assms(2) p(3) by (auto simp: new_object_def evidence_checks_def)
  then show ?thesis using assms(2) p(3) by (simp add: put_evidence_object_def p(1) tx_def)
qed

interpretation pg: evidence_backend "pg_put lib t" "pg_get t" "\<lambda>x. x" "\<lambda>tab. True" "\<lambda>now req. True" for lib t
proof unfold_locales
  fix now req s x c s' assume p: "pg_put lib t now req s = (Inr (x, c), s')"
  from put_row_cases [OF p [unfolded pg_put_Inr]] show "pg_get t (eo_id x) s' = Inr (Some x)" "c \<longleftrightarrow> pg_get t (eo_id x) s = Inr None"
    by (simp_all add: pg_get_def get_evidence_object_def)
  fix s2 y now' assume "pg_get t (eo_id x) s2 = Inr (Some y)"
  then show "pg_put lib t now' req s2 = (Inr (y, False), s2)"
    using put_row_again [OF p [unfolded pg_put_Inr]] by (simp add: pg_put_Inr pg_get_def get_evidence_object_def)
next
  fix s now req oid y assume g: "pg_get t oid s = Inr (Some y)"
  show "pg_get t oid (snd (pg_put lib t now req s)) = Inr (Some y)"
  proof (cases "put_evidence_object lib t now req s")
    case (Inr z)
    obtain x c s' where z: "z = ((x, c), s')" by (metis prod.exhaust)
    from put_row_cases(5) [OF Inr [unfolded z]] g show ?thesis
      by (simp add: pg_put_def Inr z pg_get_def get_evidence_object_def find_evidence_append)
  qed (simp add: pg_put_def g)
qed simp

section \<open>The file\<close>

text \<open>A request whose object the reader of the file can take.\<close>

definition plain_request :: "pylib \<Rightarrow> int \<Rightarrow> evidence_create \<Rightarrow> bool" where
  "plain_request lib now req \<longleftrightarrow> keyed (JObj (ec_payload req)) \<and> keyed_opt (ec_pointer req) \<and>
     (let x = new_object req (request_id req) (request_text req) now
      in utf8_valid (evidence_line lib x) \<and> \<not> has_break (dumps_spaced (object_json lib x)))"

lemma plain_writable:
  assumes "plain_request lib now req" "build_object lib req = Inr (oid, data)"
  shows "writable lib (new_object req oid data now)"
  using assms(1) assms(2) [unfolded build_object_Inr]
  by (auto simp: plain_request_def writable_def Let_def new_object_def request_storable_def storable_def pointer_storable_def keyed_opt_def
      simp del: keyed.simps(8) float_free_obj)

text \<open>The states that appends leave which are complete or write nothing.\<close>

definition clean_file :: "pylib \<Rightarrow> js_state \<Rightarrow> bool" where
  "clean_file lib s \<longleftrightarrow> lib_ok lib \<and> set (js_appends s) \<subseteq> {None, Some 0} \<and>
     (\<exists>objs. (\<forall>x \<in> set objs. writable lib x) \<and> js_evidence s = concat (map (evidence_line lib) objs))"

lemma index_entry: "map_of (index_of objs) oid = Some y \<Longrightarrow> eo_id y = oid \<and> normal y = y"
proof (induction objs rule: rev_induct)
  case (snoc x objs)
  then show ?case by (auto simp: map_of_index_snoc split: if_splits)
qed (simp add: index_of_def)

lemma read_lines_keys:
  "read_lines lib ls out = Inr d \<Longrightarrow> \<forall>kv \<in> set out. eo_id (snd kv) = fst kv \<Longrightarrow> \<forall>kv \<in> set d. eo_id (snd kv) = fst kv"
proof (induction lib ls out rule: read_lines.induct)
  case (2 lib line ls out)
  have "\<forall>kv \<in> set (AList.update (eo_id obj) obj out). eo_id (snd kv) = fst kv" for obj
    using "2.prems"(2) update_members [of _ "eo_id obj" obj out] by fastforce
  note keys = this
  show ?case
  proof (cases "strip line = []")
    case True
    with 2 show ?thesis by simp
  next
    case False
    then obtain v obj where "loads (py_float lib) line = Some v" "object_of_json lib v = Inr obj"
      and "read_lines lib ls (AList.update (eo_id obj) obj out) = Inr d"
      using "2.prems"(1) by (auto simp: res_bind_Inr_iff split: option.splits)
    with "2.IH"(2) [OF False] keys show ?thesis by blast
  qed
qed simp

lemma js_get_id: "js_get_evidence lib oid s = Inr (Some y) \<Longrightarrow> eo_id y = oid"
  using read_lines_keys [of lib _ "[]"] map_of_SomeD
  by (fastforce simp: js_get_evidence_def read_evidence_def res_bind_Inr_iff split: if_splits)

lemma clean_get:
  assumes "clean_file lib s"
  obtains objs where "\<forall>x \<in> set objs. writable lib x" "js_evidence s = concat (map (evidence_line lib) objs)"
    "\<And>oid. js_get_evidence lib oid s = Inr (map_of (index_of objs) oid)"
  using assms read_written unfolding clean_file_def js_get_evidence_def by (metis res_bind_simps(2))

lemma js_put_steps:
  assumes "clean_file lib s" "plain_request lib now req"
  obtains (refused) e where "js_put_evidence lib now req s = (Inl e, s)"
    | (known) y where "js_get_evidence lib (request_id req) s = Inr (Some y)" "eo_id y = request_id req" "normal y = y"
        "js_put_evidence lib now req s = (Inr (y, False), s)"
    | (failed) s' where "js_put_evidence lib now req s = (Inl File_error, s')" "clean_file lib s'"
        "\<And>oid. js_get_evidence lib oid s' = js_get_evidence lib oid s"
    | (made) x s' where "x = new_object req (request_id req) (request_text req) now" "js_get_evidence lib (eo_id x) s = Inr None"
        "js_put_evidence lib now req s = (Inr (x, True), s')" "clean_file lib s'"
        "js_get_evidence lib (eo_id x) s' = Inr (Some (normal x))"
        "\<And>oid. oid \<noteq> eo_id x \<Longrightarrow> js_get_evidence lib oid s' = js_get_evidence lib oid s"
proof -
  obtain objs where o: "\<forall>x \<in> set objs. writable lib x" "js_evidence s = concat (map (evidence_line lib) objs)"
    and g: "\<And>oid. js_get_evidence lib oid s = Inr (map_of (index_of objs) oid)" using clean_get [OF assms(1)] by blast
  have lib: "lib_ok lib" and io: "set (js_appends s) \<subseteq> {None, Some 0}" using assms(1) by (simp_all add: clean_file_def)
  show ?thesis
  proof (cases "build_object lib req")
    case (Inl e)
    then show ?thesis by (intro refused) (simp add: js_put_evidence_def)
  next
    case (Inr od)
    then have b: "build_object lib req = Inr (request_id req, request_text req)" by (cases od) (simp add: build_object_Inr)
    let ?x = "new_object req (request_id req) (request_text req) now"
    note w = plain_writable [OF assms(2) b]
    have oid: "eo_id ?x = request_id req" by (simp add: new_object_def)
    show ?thesis
    proof (cases "map_of (index_of objs) (request_id req)")
      case (Some y)
      with b g index_entry [OF Some] show ?thesis by (intro known) (simp_all add: js_put_evidence_def)
    next
      case None
      have o2: "\<forall>x \<in> set (objs @ [?x]). writable lib x" using o(1) w by simp
      define s0 where "s0 = s\<lparr>js_appends := tl (js_appends s), js_evidence := js_evidence s @ []\<rparr>"
      define s1 where "s1 = s\<lparr>js_appends := tl (js_appends s), js_evidence := js_evidence s @ evidence_line lib ?x\<rparr>"
      have tl: "set (tl (js_appends s)) \<subseteq> {None, Some 0}" using io by (cases "js_appends s") auto
      have clean0: "clean_file lib s0" using lib o tl by (auto simp: clean_file_def s0_def)
      have clean1: "clean_file lib s1"
        unfolding clean_file_def s1_def using lib o2 tl o(2) by (intro conjI exI [of _ "objs @ [?x]"]) simp_all
      have g1: "js_get_evidence lib oid s1 = Inr (map_of (index_of (objs @ [?x])) oid)" for oid
        using read_written [OF lib o2] o(2) by (simp add: js_get_evidence_def s1_def)
      consider later where "js_appends s = Some 0 # later" | "js_appends s = [] \<or> hd (js_appends s) = None"
        using io by (cases "js_appends s") auto
      then show ?thesis
      proof cases
        case 1
        then have p: "js_put_evidence lib now req s = (Inl File_error, s0)"
          using b g None by (simp add: s0_def js_put_evidence_def append_evidence_def js_bind_def Let_def)
        show ?thesis by (rule failed [OF p clean0]) (simp add: js_get_evidence_def s0_def)
      next
        case 2
        then have "js_put_evidence lib now req s = (Inr (?x, True), s1)"
          using b g None by (cases "js_appends s") (auto simp: s1_def js_put_evidence_def append_evidence_def js_bind_def Let_def)
        moreover have "js_get_evidence lib (eo_id ?x) s1 = Inr (Some (normal ?x))"
          unfolding g1 map_of_index_snoc by simp
        moreover have "js_get_evidence lib k s1 = js_get_evidence lib k s" if "k \<noteq> eo_id ?x" for k
          unfolding g1 g map_of_index_snoc using that by simp
        moreover have "js_get_evidence lib (eo_id ?x) s = Inr None" unfolding g oid None ..
        ultimately show ?thesis using clean1 by (intro made [OF refl])
      qed
    qed
  qed
qed

interpretation jsonl: evidence_backend "js_put_evidence lib" "js_get_evidence lib" normal "clean_file lib" "plain_request lib" for lib
proof unfold_locales
  fix s now req assume a: "clean_file lib s" "plain_request lib now req"
  show "clean_file lib (snd (js_put_evidence lib now req s))" using a by (cases rule: js_put_steps) (use a(1) in simp_all)
  fix oid y assume g: "js_get_evidence lib oid s = Inr (Some y)"
  show "js_get_evidence lib oid (snd (js_put_evidence lib now req s)) = Inr (Some y)"
    using a
  proof (cases rule: js_put_steps)
    case (made x s')
    with g have "oid \<noteq> eo_id x" by auto
    with made g show ?thesis by simp
  qed (use g in simp_all)
next
  fix s now req x c s' assume a: "clean_file lib s" "plain_request lib now req" "js_put_evidence lib now req s = (Inr (x, c), s')"
  show "js_get_evidence lib (eo_id x) s' = Inr (Some (normal x))"
    using a(1,2) by (cases rule: js_put_steps) (use a(3) in simp_all)
  show "c \<longleftrightarrow> js_get_evidence lib (eo_id x) s = Inr None"
    using a(1,2) by (cases rule: js_put_steps) (use a(3) in simp_all)
next
  fix now req s x c s' s2 y now'
  assume p: "js_put_evidence lib now req s = (Inr (x, c), s')" and g: "js_get_evidence lib (eo_id x) s2 = Inr (Some y)"
  show "js_put_evidence lib now' req s2 = (Inr (y, False), s2)"
  proof -
    obtain oid data where b: "build_object lib req = Inr (oid, data)"
      using p by (auto simp: js_put_evidence_def split: sum.splits)
    have "eo_id x = oid"
      using p js_get_id by (auto simp: js_put_evidence_def append_evidence_def js_bind_def b Let_def new_object_def split: sum.splits option.splits list.splits)
    with b g show ?thesis by (simp add: js_put_evidence_def)
  qed
qed

section \<open>Written once\<close>

lemma js_put_created:
  assumes "js_put_evidence lib now req s = (Inr (y, d), s')"
  shows "build_object lib req = Inr (request_id req, request_text req) \<and> eo_id y = request_id req \<and>
    (d \<longrightarrow> y = new_object req (request_id req) (request_text req) now)"
proof -
  obtain oid data where b: "build_object lib req = Inr (oid, data)"
    using assms by (auto simp: js_put_evidence_def split: sum.splits)
  then have od: "oid = request_id req" "data = request_text req" by (simp_all add: build_object_Inr)
  show ?thesis
    using assms js_get_id [of lib oid s] b
    by (auto simp: js_put_evidence_def append_evidence_def js_bind_def Let_def new_object_def od
        split: sum.splits option.splits list.splits)
qed

text \<open>C40: evidence is written once, in both backends: after a request was accepted, the object is found under its id, with
  the content that was returned (from the file with the members of its objects sorted by name), whatever is requested
  later and whichever of these requests fail; the same request returns that object, says that it was not created and
  changes nothing; an object that was created has the content of the request; and the two backends give it the same id.
  For the file this holds when every append is complete or writes nothing, and no accepted object holds one of the line
  separators U+0085, U+2028 and U+2029 (with one, every later read fails).\<close>

theorem evidence_written_once:
  assumes "lib_ok lib" "\<forall>r \<in> set (before @ (now, req) # rs). plain_request lib (fst r) (snd r)" "set aps \<subseteq> {None, Some 0}"
    and "put_evidence_object lib t now req tab = Inr ((x, c), tab')"
    and "js_put_evidence lib now req (puts (js_put_evidence lib) before (js_start f [] io aps)) = (Inr (y, d), s')"
  shows "eo_id x = request_id req \<and> eo_id y = request_id req \<and>
    (c \<longrightarrow> x = stored_form (new_object req (request_id req) (request_text req) now)) \<and>
    get_evidence_object t (eo_id x) (puts (pg_put lib t) rs tab') = Some x \<and>
    put_evidence_object lib t now' req (puts (pg_put lib t) rs tab') = Inr ((x, False), puts (pg_put lib t) rs tab') \<and>
    (d \<longrightarrow> y = new_object req (request_id req) (request_text req) now) \<and>
    js_get_evidence lib (eo_id y) (puts (js_put_evidence lib) rs s') = Inr (Some (normal y)) \<and>
    js_put_evidence lib now' req (puts (js_put_evidence lib) rs s') = (Inr (normal y, False), puts (js_put_evidence lib) rs s')"
proof -
  have "clean_file lib (js_start f [] io aps)"
    using assms(1,3) by (auto simp: clean_file_def js_start_def intro!: exI [of _ "[]"])
  then have clean: "clean_file lib (puts (js_put_evidence lib) before (js_start f [] io aps))"
    using assms(2) by (intro jsonl.inv_puts) auto
  have ok: "plain_request lib now req" "\<forall>r \<in> set rs. plain_request lib (fst r) (snd r)" using assms(2) by auto
  note row = put_row_cases [OF assms(4)] and line = js_put_created [OF assms(5)]
  have pg: "pg_get t (eo_id x) (puts (pg_put lib t) rs tab') = Inr (Some x) \<and>
      pg_put lib t now' req (puts (pg_put lib t) rs tab') = (Inr (x, False), puts (pg_put lib t) rs tab')"
    using assms(4) by (intro pg.written_once) (simp_all add: pg_put_Inr)
  from row(3,6) line pg jsonl.written_once [OF clean ok assms(5), of now'] show ?thesis
    by (simp add: pg_get_def pg_put_Inr)
qed

lemma plain_lib_ok: "lib_ok plain_lib"
proof -
  have "hd (dec_nat k) \<noteq> CHR ''-''" for k
    using dec_nat_digits [OF hd_in_set [OF dec_nat_nonempty], of k] by (auto simp: is_digit_def)
  then have "read_time (str_int n) = n" for n by (simp add: read_time_def str_int_def)
  then show ?thesis by (simp add: lib_ok_def plain_lib_def)
qed

lemma sample_plain: "plain_request plain_lib now sample_request"
proof -
  let ?x = "new_object sample_request (request_id sample_request) (request_text sample_request) now"
  have "ascii (sha256_hex s)" for s
    using hex64_sha256_hex [of s] by (fastforce simp: hex64_def ascii_def list_all_iff is_hex_def Let_def)
  then have "ascii (request_id sample_request)" by (simp add: request_id_def ID_PREFIX_def)
  moreover have "ascii (str_int now)"
    using ascii_spaced [of "JInt now"] by simp
  ultimately have "ascii_json (object_json plain_lib ?x)"
    by (simp add: object_json_def new_object_def sample_request_def sample_payload_def plain_lib_def CES_DECISION_def)
  then show ?thesis using ascii_line sample_keyed by (simp add: plain_request_def Let_def)
qed

theorem evidence_written_once_witness:
  "\<exists>x tab' y s'. put_evidence_object plain_lib ''t'' 0 sample_request [] = Inr ((x, True), tab') \<and>
     js_put_evidence plain_lib 0 sample_request (js_start No_file [] [] []) = (Inr (y, True), s') \<and> eo_id x = eo_id y \<and>
     js_get_evidence plain_lib (eo_id y) (puts (js_put_evidence plain_lib) [(1, sample_request)] s') = Inr (Some (normal y))"
proof -
  obtain x tab' where p: "put_evidence_object plain_lib ''t'' 0 sample_request [] = Inr ((x, True), tab')"
    using sample_put by blast
  have "js_get_evidence plain_lib (request_id sample_request) (js_start No_file [] [] []) = Inr None"
    using read_written [OF plain_lib_ok, of "[]"] by (simp add: js_get_evidence_def js_start_def index_of_def)
  then obtain y s' where j: "js_put_evidence plain_lib 0 sample_request (js_start No_file [] [] []) = (Inr (y, True), s')"
    by (simp add: js_put_evidence_def sample_build append_evidence_def js_bind_def js_start_def Let_def)
  then have j0: "js_put_evidence plain_lib 0 sample_request (puts (js_put_evidence plain_lib) [] (js_start No_file [] [] [])) = (Inr (y, True), s')"
    by simp
  have all: "\<forall>r \<in> set ([] @ (0, sample_request) # [(1, sample_request)]). plain_request plain_lib (fst r) (snd r)"
    using sample_plain by simp
  have "set [] \<subseteq> {None, Some (0 :: nat)}" by simp
  note once = evidence_written_once [OF plain_lib_ok all this p j0, of 2]
  from once have "eo_id x = eo_id y" by metis
  moreover from once have "js_get_evidence plain_lib (eo_id y) (puts (js_put_evidence plain_lib) [(1, sample_request)] s') = Inr (Some (normal y))"
    by blast
  ultimately show ?thesis using p j by blast
qed

text \<open>One separator in a payload is enough: the line of such an object is split, and the read that meets it raises.\<close>

definition separator_object :: evidence_object where
  "separator_object = \<lparr>eo_id = ''eo'', eo_schema = ''s'', eo_payload = [(''k'', JStr [CHR 0xE2, CHR 0x80, CHR 0xA8])],
     eo_pointer = None, eo_size = 1, eo_created = 0, eo_by = ''op''\<rparr>"

lemma separator_unreadable: "read_evidence plain_lib (evidence_line plain_lib separator_object) = Inl Value_error"
  by code_simp

end
