(* ===== verification/Tenancy.thy ===== *)
theory Tenancy
  imports Row_Store Call_Log
begin

text \<open>
  Whose ledger a request reaches (\<^verbatim>\<open>app/identity.py\<close>, \<open>get_store\<close> in \<^verbatim>\<open>app/store.py\<close>), and
  the operator's per-tenant jobs (\<^verbatim>\<open>app/tenant_jobs.py\<close>): parsing the tenant list, running an operation for
  every tenant, sealing, and the lines of the report.

  The two context variables are an \<open>identity\<close>; a context manager runs an operation on a changed identity and
  hands the caller's back. The environment is fixed while a process runs. Paths are POSIX paths.
\<close>

section \<open>Identity\<close>

definition OPERATOR_TENANT :: string where
  "OPERATOR_TENANT = ''operator''"

record principal =
  pr_subject :: string
  pr_scopes :: "string list"
  pr_issuer :: string
  pr_kind :: string
  pr_tenant :: "string option"
  pr_credential :: string
  pr_credential_id :: string

record identity =
  id_principal :: "principal option"
  id_acting :: "string option"

definition operator_principal :: principal where
  "operator_principal =
     \<lparr>pr_subject = OPERATOR_TENANT, pr_scopes = [''memory.read'', ''memory.write''], pr_issuer = ''jarvis-operator-key'',
      pr_kind = ''operator'', pr_tenant = None, pr_credential = [], pr_credential_id = []\<rparr>"

definition in_operator_job :: "identity \<Rightarrow> bool" where
  "in_operator_job i \<longleftrightarrow> id_acting i \<noteq> None"

definition is_key_tenant :: "identity \<Rightarrow> bool" where
  "is_key_tenant i \<longleftrightarrow>
     (case id_principal i of None \<Rightarrow> False | Some p \<Rightarrow> pr_kind p = ''tenant'' \<and> pr_credential p = ''api_key'')"

definition is_operator :: "identity \<Rightarrow> bool" where
  "is_operator i \<longleftrightarrow> (case id_principal i of None \<Rightarrow> False | Some p \<Rightarrow> pr_kind p = ''operator'')"

definition US :: char where
  "US = CHR 0x1F"

definition current_tenant_key :: "identity \<Rightarrow> string option" where
  "current_tenant_key i =
     (case id_acting i of
        Some acting \<Rightarrow> if acting = OPERATOR_TENANT then None else Some acting
      | None \<Rightarrow>
          (case id_principal i of
             None \<Rightarrow> None
           | Some p \<Rightarrow>
               if pr_kind p = ''operator'' then None
               else (case given (pr_tenant p) of
                       Some t \<Rightarrow> Some t
                     | None \<Rightarrow> Some (sha256_hex (pr_issuer p @ US # pr_subject p)))))"

definition request_tenant :: "environ \<Rightarrow> identity \<Rightarrow> string option" where
  "request_tenant ev i =
     (case id_acting i of
        Some acting \<Rightarrow> Some acting
      | None \<Rightarrow>
          (case current_tenant_key i of
             Some t \<Rightarrow> Some t
           | None \<Rightarrow> if is_operator i then Some OPERATOR_TENANT
                     else if multi_tenant_mode ev then None else Some OPERATOR_TENANT))"

definition normalized_subject :: "string \<Rightarrow> string option" where
  "normalized_subject v =
     (let subject = strip v
      in if subject = [] \<or> char_length subject > 512 \<or> \<not> list_all (\<lambda>c. (of_char c :: nat) > 31) subject then None
         else Some subject)"

text \<open>\<open>with acting_for(tenant)\<close> and \<open>with system_scope()\<close>.\<close>

type_synonym ('s, 'a) id_op = "identity \<Rightarrow> 's \<Rightarrow> 'a \<times> 's"

definition acting_for :: "string \<Rightarrow> ('s, 'a) id_op \<Rightarrow> ('s, 'a) id_op" where
  "acting_for tenant op i = op (i\<lparr>id_acting := Some tenant, id_principal := Some operator_principal\<rparr>)"

definition system_scope :: "('s, 'a) id_op \<Rightarrow> ('s, 'a) id_op" where
  "system_scope op i = op (i\<lparr>id_principal := Some operator_principal\<rparr>)"

section \<open>Paths\<close>

definition path_parts :: "string \<Rightarrow> string list" where
  "path_parts s = filter (\<lambda>p. p \<noteq> [] \<and> p \<noteq> ''.'') (split_on (CHR ''/'') s)"

definition path_top :: "string \<Rightarrow> string" where
  "path_top s =
     (if take 1 s \<noteq> ''/'' then [] else if take 2 s = ''//'' \<and> take 3 s \<noteq> ''///'' then ''//'' else ''/'')"

type_synonym posix_path = "string \<times> string list"

definition py_path :: "string \<Rightarrow> posix_path" where
  "py_path s = (path_top s, path_parts s)"

definition path_text :: "posix_path \<Rightarrow> string" where
  "path_text p = (if p = ([], []) then ''.'' else fst p @ join_with ''/'' (snd p))"

definition path_parent :: "posix_path \<Rightarrow> posix_path" where
  "path_parent p = (fst p, butlast (snd p))"

definition path_join :: "posix_path \<Rightarrow> string \<Rightarrow> posix_path" where
  "path_join p s = (if path_top s \<noteq> [] then py_path s else (fst p, snd p @ path_parts s))"

section \<open>The store of a request\<close>

datatype tenancy_exc = Tenant_unresolved string | Ledger_unavailable string

datatype store_config = Row_ledger string string | Blob_ledger string | File_ledger string

definition store_bootstrap_enabled :: "environ \<Rightarrow> bool" where
  "store_bootstrap_enabled ev = env_flag (ev ''JARVIS_STORE_BOOTSTRAP'')"

definition tenant_or :: "string option \<Rightarrow> string" where
  "tenant_or t = (case given t of Some x \<Rightarrow> x | None \<Rightarrow> OPERATOR_TENANT)"

text \<open>The file of the JSON store: the requested one, or the tenant's.\<close>

definition operator_file :: "environ \<Rightarrow> string option \<Rightarrow> string" where
  "operator_file ev path =
     (case given path of
        Some p \<Rightarrow> p
      | None \<Rightarrow> (case ev ''JARVIS_STORE_PATH'' of Some p \<Rightarrow> p | None \<Rightarrow> ''data/jarvis-store.json''))"

definition store_file :: "environ \<Rightarrow> string option \<Rightarrow> string option \<Rightarrow> string" where
  "store_file ev path tenant =
     (let requested = operator_file ev path
      in case given tenant of
           None \<Rightarrow> requested
         | Some t \<Rightarrow>
             let top = (case ev ''JARVIS_TENANT_STORE_DIR'' of
                   Some d \<Rightarrow> py_path d
                 | None \<Rightarrow> py_path (path_text (path_parent (py_path requested)) @ ''/tenants''))
             in path_text (path_join top (t @ ''.json'')))"

text \<open>The key of the process's table of stores, and the store made under it.\<close>

definition store_choice :: "environ \<Rightarrow> identity \<Rightarrow> string option \<Rightarrow> tenancy_exc + string \<times> store_config" where
  "store_choice ev i path =
     (let tenant = current_tenant_key i
      in if tenant = None \<and> multi_tenant_mode ev \<and> \<not> is_operator i then
           Inl (Tenant_unresolved ''no tenant could be resolved for this request'')
         else if strip (env_text ev ''JARVIS_DATABASE_URL'') \<noteq> [] then
           (let raw = env_text ev ''JARVIS_PG_STORE'';
                mode = ascii_lower (strip (if raw = [] then ''rows'' else raw));
                schema = strip (env_text ev ''JARVIS_DATABASE_SCHEMA'')
            in if mode = ''rows'' then
                 Inr (''postgres-rows:'' @ schema @ '':'' @ tenant_or tenant, Row_ledger schema (tenant_or tenant))
               else if mode = ''blob'' then Inr (''postgres:'' @ tenant_or tenant, Blob_ledger (tenant_or tenant))
               else Inl (Ledger_unavailable (''JARVIS_PG_STORE must be 'rows' or 'blob'' @ [CHR 0x27])))
         else if \<not> store_bootstrap_enabled ev then
           Inl (Ledger_unavailable (''No database is configured (JARVIS_DATABASE_URL) and the JSON file store is not enabled. ''
             @ ''Set JARVIS_STORE_BOOTSTRAP=1 to use the local JSON file store (first run or local development only).''))
         else let f = store_file ev path tenant in Inr (f, File_ledger f))"

definition get_store ::
  "environ \<Rightarrow> identity \<Rightarrow> string option \<Rightarrow> (string \<times> store_config) list
     \<Rightarrow> (tenancy_exc + store_config) \<times> (string \<times> store_config) list" where
  "get_store ev i path stores =
     (case store_choice ev i path of
        Inl e \<Rightarrow> (Inl e, stores)
      | Inr (key, config) \<Rightarrow>
          (case map_of stores key of
             Some c \<Rightarrow> (Inr c, stores)
           | None \<Rightarrow> (Inr config, AList.update key config stores)))"

section \<open>Jobs over tenants\<close>

definition parse_tenants :: "string \<Rightarrow> string list" where
  "parse_tenants text =
     (let seen = foldl (\<lambda>seen part. let t = strip part in if t \<noteq> [] \<and> t \<notin> set seen then seen @ [t] else seen) []
          (split_on (CHR '','') text)
      in sort_key (\<lambda>t. if t = OPERATOR_TENANT then 0 else (1::nat)) seen)"

text \<open>An exception of a job: the name of its class and its text.\<close>

type_synonym job_exc = "string \<times> string"

record 'r tenant_result =
  tr_tenant :: string
  tr_result :: "string + 'r"

definition job_error :: "job_exc \<Rightarrow> string" where
  "job_error e = fst e @ '': '' @ char_take 300 (snd e)"

primrec run_for_tenants ::
  "(string \<Rightarrow> ('s, job_exc + 'r) id_op) \<Rightarrow> string list \<Rightarrow> ('s, 'r tenant_result list \<times> string list) id_op" where
  "run_for_tenants op [] i s = (([], []), s)"
| "run_for_tenants op (t # ts) i s =
     (case acting_for t (op t) i s of
        (r, s') \<Rightarrow>
          (case run_for_tenants op ts i s' of
             ((results, failed), s'') \<Rightarrow>
               (case r of
                  Inr a \<Rightarrow> ((\<lparr>tr_tenant = t, tr_result = Inr a\<rparr> # results, failed), s'')
                | Inl e \<Rightarrow> ((\<lparr>tr_tenant = t, tr_result = Inl (job_error e)\<rparr> # results, t # failed), s''))))"

section \<open>Sealing every tenant\<close>

record job_state =
  jb_stores :: "(string \<times> store_config) list"
  jb_ledger :: ledger_db

record sealed =
  sl_sealed :: "(int \<times> string) list"
  sl_reason :: string
  sl_head :: block_head_view

text \<open>The defaults of \<open>seal_blocks\<close>; each block is committed by itself, so an error leaves those before it.\<close>

definition job_seal_args :: "bool \<Rightarrow> seal_args" where
  "job_seal_args force =
     \<lparr>sa_min_entries = 500, sa_max_age = 3600000000, sa_max_age_text = ''01:00:00'', sa_force = force, sa_max_entries = 10000\<rparr>"

fun seal_committed :: "nat \<Rightarrow> session \<Rightarrow> seal_args \<Rightarrow> ledger_db \<Rightarrow> ledger_db" where
  "seal_committed 0 s a db = db"
| "seal_committed (Suc n) s a db =
     (case jarvis_seal_block s ''read committed'' (s_tenant s) a db of
        Inl e \<Rightarrow> db
      | Inr (r, db') \<Rightarrow>
          (case sr_block r of
             None \<Rightarrow> db'
           | Some (h, _) \<Rightarrow> (case get_block db' (s_tenant s) h of None \<Rightarrow> db' | Some b \<Rightarrow> seal_committed n s a db')))"

text \<open>A store that becomes unavailable while a tenant is sealed (a lost connection, a refused check of the schema or of the
  legacy data): how many of the tenant's blocks were committed before, and the message.\<close>

type_synonym outages = "string \<Rightarrow> (nat \<times> string) option"

definition seal_one :: "environ \<Rightarrow> outages \<Rightarrow> int \<Rightarrow> bool \<Rightarrow> string \<Rightarrow> (job_state, job_exc + sealed) id_op" where
  "seal_one ev outage now force tenant i s =
     (case get_store ev i None (jb_stores s) of
        (Inl (Tenant_unresolved m), stores) \<Rightarrow> (Inl (''TenantUnresolvedError'', m), s\<lparr>jb_stores := stores\<rparr>)
      | (Inl (Ledger_unavailable m), stores) \<Rightarrow> (Inl (''StoreUnavailableError'', m), s\<lparr>jb_stores := stores\<rparr>)
      | (Inr (Row_ledger schema t), stores) \<Rightarrow>
          (let session = tenant_session t now; committed = (\<lambda>n. seal_committed n session (job_seal_args force) (jb_ledger s))
           in case outage t of
                Some (k, m) \<Rightarrow> (Inl (''StoreUnavailableError'', m), s\<lparr>jb_stores := stores, jb_ledger := committed (min k 20)\<rparr>)
              | None \<Rightarrow>
                  (case seal_blocks session (job_seal_args force) 20 (jb_ledger s) of
                     Inl e \<Rightarrow> (Inl (''StoreUnavailableError'', ''Ledger database error''),
                       s\<lparr>jb_stores := stores, jb_ledger := committed 20\<rparr>)
                   | Inr ((bs, reason, head), db') \<Rightarrow>
                       (Inr \<lparr>sl_sealed = map (\<lambda>b. (b_height b, b_hash b)) bs, sl_reason = reason, sl_head = head\<rparr>,
                        s\<lparr>jb_stores := stores, jb_ledger := db'\<rparr>)))
      | (Inr _, stores) \<Rightarrow>
          (Inl (''NotImplementedError'', ''Continuity Blocks require the PostgreSQL row store''), s\<lparr>jb_stores := stores\<rparr>))"

definition use_the_migrator_role :: "environ \<Rightarrow> environ" where
  "use_the_migrator_role ev =
     (let migrate = strip (env_text ev ''JARVIS_DATABASE_MIGRATE_URL'');
          ev = (if migrate \<noteq> [] \<and> strip (env_text ev ''JARVIS_DATABASE_URL'') = [] then ev(''JARVIS_DATABASE_URL'' \<mapsto> migrate) else ev)
      in if ev ''JARVIS_PG_STORE'' = None then ev(''JARVIS_PG_STORE'' \<mapsto> ''rows'') else ev)"

definition seal_job :: "environ \<Rightarrow> outages \<Rightarrow> int \<Rightarrow> bool \<Rightarrow> string list \<Rightarrow> (job_state, sealed tenant_result list \<times> string list) id_op" where
  "seal_job ev outage now force tenants = run_for_tenants (seal_one (use_the_migrator_role ev) outage now force) tenants"

section \<open>The report\<close>

definition seal_summary :: "block_head_view \<Rightarrow> string" where
  "seal_summary head =
     ''newest block: '' @ (case bh_tip head of None \<Rightarrow> ''none'' | Some b \<Rightarrow> str_int (b_height b)) @ '', sealed through seq ''
       @ str_int (bh_sealed_seq head) @ '', '' @ str_int (bh_unsealed head) @ '' entries unsealed (history at seq ''
       @ str_int (bh_history_seq head) @ '')''"

definition result_line :: "sealed tenant_result \<Rightarrow> string" where
  "result_line r =
     (let prefix = (if tr_tenant r = OPERATOR_TENANT then [] else ''tenant '' @ tr_tenant r @ '': '')
      in case tr_result r of
           Inl error \<Rightarrow> ''ERROR '' @ prefix @ ''sealing failed: '' @ error
         | Inr d \<Rightarrow>
             if sl_sealed d \<noteq> [] then
               prefix @ ''sealed '' @ dec_nat (length (sl_sealed d)) @ '' block(s) (height ''
                 @ join_with '','' (map (str_int \<circ> fst) (sl_sealed d)) @ ''); '' @ seal_summary (sl_head d)
             else prefix @ ''nothing sealed: '' @ sl_reason d @ ''; '' @ seal_summary (sl_head d))"

definition seal_lines :: "sealed tenant_result list \<times> string list \<Rightarrow> string list" where
  "seal_lines report =
     (let results = fst report; failed = snd report
      in map result_line results @
         (if failed \<noteq> [] then
            [''ERROR tenants that FAILED: '' @ join_with '', '' failed @ '' ('' @ dec_nat (length results - length failed)
               @ '' of '' @ dec_nat (length results) @ '' ok)'']
          else if length results > 1 then [''all '' @ dec_nat (length results) @ '' tenants ok''] else []))"

definition seal_exit_code :: "sealed tenant_result list \<times> string list \<Rightarrow> int" where
  "seal_exit_code report = (if snd report \<noteq> [] then 1 else 0)"

end
