(* ===== verification/Tenancy_Theorems.thy ===== *)
theory Tenancy_Theorems
  imports Tenancy Call_Log_Text Sshsig_Theorems
begin

text \<open>
  A request reaches the ledger of its own tenant and of no other; an OAuth tenant's key binds its issuer and subject;
  a sealing job serves every tenant of its list, whatever happens to the others.
\<close>

section \<open>The tenant key of an OAuth subject\<close>

lemma last_separator:
  assumes "a @ c # s = b @ c # t" "c \<notin> set s" "c \<notin> set t"
  shows "a = b \<and> s = t"
proof -
  have cut: "takeWhile (\<lambda>x. x \<noteq> c) (rev (u @ c # w)) = rev w" if "c \<notin> set w" for u w
    using that by (simp add: takeWhile_tail) (metis set_rev takeWhile_eq_all_conv)
  have "rev s = rev t" using cut [OF assms(2), of a] cut [OF assms(3), of b] assms(1) by metis
  with assms(1) show ?thesis by simp
qed

lemma normalized_no_separator: "normalized_subject v = Some s \<Longrightarrow> US \<notin> set s"
  by (auto simp: normalized_subject_def US_def Let_def list_all_iff split: if_splits)

definition oauth_user :: "identity \<Rightarrow> principal \<Rightarrow> bool" where
  "oauth_user i p \<longleftrightarrow> id_acting i = None \<and> id_principal i = Some p \<and> pr_kind p = ''tenant'' \<and> pr_tenant p = None"

text \<open>C38: an OAuth tenant's namespace binds its identity: two requests whose subjects passed the normalisation have the
  same tenant key only if issuer and subject are the same, or the two texts are a SHA-256 collision; in particular no
  choice of issuer and subject can imitate another pair through the separator between them.\<close>

theorem tenant_key_binding:
  assumes "oauth_user i p" "oauth_user j q"
    and "normalized_subject v = Some (pr_subject p)" "normalized_subject w = Some (pr_subject q)"
    and "current_tenant_key i = current_tenant_key j"
  shows "(pr_issuer p = pr_issuer q \<and> pr_subject p = pr_subject q) \<or>
    (\<exists>x y. x = pr_issuer p @ US # pr_subject p \<and> y = pr_issuer q @ US # pr_subject q \<and> x \<noteq> y \<and> sha256 x = sha256 y)"
proof -
  let ?x = "pr_issuer p @ US # pr_subject p" and ?y = "pr_issuer q @ US # pr_subject q"
  have "sha256_hex ?x = sha256_hex ?y"
    using assms(1,2,5) by (simp add: oauth_user_def current_tenant_key_def given_def)
  then have h: "sha256 ?x = sha256 ?y" by (simp add: sha256_hex_eq_iff)
  have e: "?x = ?y \<Longrightarrow> pr_issuer p = pr_issuer q \<and> pr_subject p = pr_subject q"
    using last_separator [OF _ normalized_no_separator [OF assms(3)] normalized_no_separator [OF assms(4)]] .
  show ?thesis
  proof (cases "?x = ?y")
    case True
    from e [OF this] show ?thesis by (rule disjI1)
  next
    case False
    with h show ?thesis by (intro disjI2 exI conjI) (rule refl, rule refl)
  qed
qed

definition sample_principal :: "string \<Rightarrow> principal" where
  "sample_principal s = \<lparr>pr_subject = s, pr_scopes = [''memory.read''], pr_issuer = ''https://idp'', pr_kind = ''tenant'',
     pr_tenant = None, pr_credential = [], pr_credential_id = []\<rparr>"

definition sample_identity :: "string \<Rightarrow> identity" where
  "sample_identity s = \<lparr>id_principal = Some (sample_principal s), id_acting = None\<rparr>"

lemma sample_subject: "normalized_subject ''ann'' = Some ''ann''"
  by (simp add: normalized_subject_def strip_ends graphic_def char_length_def Let_def)

theorem tenant_key_binding_witness:
  "normalized_subject ''ann'' = Some ''ann'' \<and> pr_subject (sample_principal ''ann'') = ''ann'' \<and>
   ((pr_issuer (sample_principal ''ann'') = pr_issuer (sample_principal ''ann'') \<and>
     pr_subject (sample_principal ''ann'') = pr_subject (sample_principal ''ann'')) \<or>
    (\<exists>x y. x = pr_issuer (sample_principal ''ann'') @ US # pr_subject (sample_principal ''ann'') \<and>
       y = pr_issuer (sample_principal ''ann'') @ US # pr_subject (sample_principal ''ann'') \<and> x \<noteq> y \<and> sha256 x = sha256 y))"
proof -
  have o: "oauth_user (sample_identity ''ann'') (sample_principal ''ann'')"
    by (simp add: oauth_user_def sample_identity_def sample_principal_def)
  have s: "normalized_subject ''ann'' = Some (pr_subject (sample_principal ''ann''))"
    by (simp add: sample_subject sample_principal_def)
  from tenant_key_binding [OF o o s s refl] sample_subject show ?thesis by (simp add: sample_principal_def)
qed

section \<open>The store of a request\<close>

definition stores_ok :: "environ \<Rightarrow> (string \<times> store_config) list \<Rightarrow> bool" where
  "stores_ok ev stores \<longleftrightarrow> (\<forall>kc \<in> set stores. \<exists>i path. store_choice ev i path = Inr kc)"

text \<open>The table of stores of a process: every entry was made by some earlier request.\<close>

inductive stores_reached :: "environ \<Rightarrow> (string \<times> store_config) list \<Rightarrow> bool" for ev where
  none_yet: "stores_reached ev []"
| one_more: "stores_reached ev stores \<Longrightarrow> get_store ev i path stores = (r, stores') \<Longrightarrow> stores_reached ev stores'"

lemma one_config_per_key:
  assumes "store_choice ev i path = Inr (k, c)" "store_choice ev j path' = Inr (k, c')"
  shows "c = c'"
  using assms by (auto simp: store_choice_def Let_def split: if_splits)

lemma get_store_ok:
  assumes "stores_ok ev stores" "get_store ev i path stores = (r, stores')"
  shows "stores_ok ev stores' \<and> r = map_sum id snd (store_choice ev i path)"
proof (cases "store_choice ev i path")
  case (Inl e)
  with assms show ?thesis by (simp add: get_store_def)
next
  case (Inr kc)
  obtain k c where kc: "kc = (k, c)" by (cases kc)
  show ?thesis
  proof (cases "map_of stores k")
    case None
    with assms Inr kc show ?thesis by (auto simp: get_store_def stores_ok_def dest!: update_members)
  next
    case (Some c')
    then obtain j path' where "store_choice ev j path' = Inr (k, c')"
      using assms(1) map_of_SomeD by (fastforce simp: stores_ok_def)
    with one_config_per_key [OF Inr [unfolded kc]] have "c = c'" by simp
    with assms Inr kc Some show ?thesis by (simp add: get_store_def)
  qed
qed

lemma stores_reached_ok: "stores_reached ev stores \<Longrightarrow> stores_ok ev stores"
  by (induction rule: stores_reached.induct) (auto simp: stores_ok_def [of _ "[]"] dest: get_store_ok)

lemma key_given:
  assumes "id_acting i \<noteq> Some []"
  shows "given (current_tenant_key i) = current_tenant_key i"
  using assms by (auto simp: current_tenant_key_def given_def sha256_hex_nonempty split: option.splits if_splits)

lemma choice_tenant:
  assumes "store_choice ev i path = Inr (k, c)" "id_acting i \<noteq> Some []"
  shows "request_tenant ev i = Some (tenant_or (current_tenant_key i)) \<and>
    c \<in> {Blob_ledger (tenant_or (current_tenant_key i)), File_ledger (store_file ev path (current_tenant_key i))} \<union>
      range (\<lambda>schema. Row_ledger schema (tenant_or (current_tenant_key i)))"
proof -
  have "request_tenant ev i = Some (tenant_or (current_tenant_key i))"
    using assms(1) key_given [OF assms(2)] by (auto simp: store_choice_def request_tenant_def current_tenant_key_def tenant_or_def Let_def
        split: option.splits if_splits)
  then show ?thesis using assms(1) by (auto simp: store_choice_def Let_def split: if_splits)
qed

subsection \<open>The names of the files\<close>

lemma split_on_two: "split_on c (a @ c # b) = split_on c a @ split_on c b"
proof (induction a)
  case (Cons x a)
  have "split_on c a \<noteq> []" for a by (cases a) (auto split: list.splits)
  then obtain w ws where "split_on c a = w # ws" by (meson list.exhaust)
  with Cons show ?case by simp
qed simp

lemma split_on_parts: "p \<in> set (split_on c s) \<Longrightarrow> c \<notin> set p"
proof (induction s arbitrary: p)
  case (Cons x s)
  then show ?case by (cases "split_on c s") (auto split: if_splits)
qed simp

lemma split_on_one: "c \<notin> set s \<Longrightarrow> split_on c s = [s]"
  by (induction s) auto

definition file_part :: "string \<Rightarrow> bool" where
  "file_part p \<longleftrightarrow> p \<noteq> [] \<and> p \<noteq> ''.'' \<and> CHR ''/'' \<notin> set p"

lemma path_parts_append: "path_parts (a @ CHR ''/'' # b) = path_parts a @ path_parts b"
  by (simp add: path_parts_def split_on_two)

lemma path_parts_one: "file_part p \<Longrightarrow> path_parts p = [p]"
  by (simp add: path_parts_def file_part_def split_on_one)

lemma path_parts_parts: "p \<in> set (path_parts s) \<Longrightarrow> file_part p"
  by (auto simp: path_parts_def file_part_def dest: split_on_parts)

lemma path_parts_join: "\<forall>p \<in> set ps. file_part p \<Longrightarrow> path_parts (join_with ''/'' ps) = ps"
  by (induction "''/''" ps rule: join_with.induct) (simp_all add: path_parts_one path_parts_append, simp add: path_parts_def)

lemma path_parts_slash: "path_parts (CHR ''/'' # s) = path_parts s"
  using path_parts_append [of "[]" s] by (simp add: path_parts_def)

lemma path_parts_text:
  assumes "fst p \<in> {[], ''/'', ''//''}" "\<forall>x \<in> set (snd p). file_part x"
  shows "path_parts (path_text p) = snd p"
proof (cases "p = ([], [])")
  case True
  then show ?thesis by (simp add: path_text_def path_parts_def)
next
  case False
  then show ?thesis using assms path_parts_join [of "snd p"] by (auto simp: path_text_def path_parts_slash)
qed

lemma path_top_cases: "path_top s \<in> {[], ''/'', ''//''}"
  by (simp add: path_top_def)

lemma tenant_file_parts:
  assumes "t \<noteq> []" "CHR ''/'' \<notin> set t"
  shows "path_parts (store_file ev path (Some t)) =
    (case ev ''JARVIS_TENANT_STORE_DIR'' of
       Some d \<Rightarrow> path_parts d
     | None \<Rightarrow> butlast (path_parts (operator_file ev path)) @ [''tenants'']) @ [t @ ''.json'']"
proof -
  have n: "file_part (t @ ''.json'')" "file_part ''tenants''" using assms by (auto simp: file_part_def)
  have top: "path_top (t @ ''.json'') = []" using assms by (cases t) (auto simp: path_top_def)
  have in_dir: "path_parts (path_text (path_join (py_path d) (t @ ''.json''))) = path_parts d @ [t @ ''.json'']" for d
    using path_top_cases [of d] n path_parts_parts
    by (subst path_parts_text) (auto simp: path_join_def top py_path_def path_parts_one)
  have parent: "path_parts (path_text (path_parent (py_path s))) = butlast (path_parts s)" for s
    using path_top_cases [of s] path_parts_parts
    by (subst path_parts_text) (auto simp: path_parent_def py_path_def dest: in_set_butlastD)
  show ?thesis
    using assms(1) path_parts_append [of _ "''tenants''"] path_parts_one [OF n(2)]
    by (simp add: store_file_def given_def Let_def in_dir parent split: option.split)
qed

lemma tenants_file:
  assumes "id_acting i \<noteq> Some []" "\<forall>t. current_tenant_key i = Some t \<longrightarrow> CHR ''/'' \<notin> set t"
  shows "case current_tenant_key i of
       None \<Rightarrow> tenant_or (current_tenant_key i) = OPERATOR_TENANT \<and> store_file ev path (current_tenant_key i) = operator_file ev path
     | Some t \<Rightarrow> tenant_or (current_tenant_key i) = t \<and> path_parts (store_file ev path (current_tenant_key i)) =
         (case ev ''JARVIS_TENANT_STORE_DIR'' of
            Some d \<Rightarrow> path_parts d
          | None \<Rightarrow> butlast (path_parts (operator_file ev path)) @ [''tenants'']) @ [t @ ''.json'']"
proof (cases "current_tenant_key i")
  case None
  then show ?thesis by (simp add: tenant_or_def given_def store_file_def)
next
  case (Some t)
  with key_given [OF assms(1)] have "t \<noteq> []" by (auto simp: given_def)
  with Some assms(2) tenant_file_parts show ?thesis by (simp add: tenant_or_def given_def)
qed

text \<open>C37: a request is served the ledger of its own tenant, whatever stores the process already holds: a request whose
  tenant cannot be resolved is refused, and what \<open>get_store\<close> returns, new or from the table, is the database ledger of
  exactly the request's tenant, or the requested JSON file when the request has no tenant key, or the file that is named
  after the tenant key in the directory of the tenants' files.\<close>

theorem store_is_the_tenants:
  assumes "stores_reached ev stores" "id_acting i \<noteq> Some []" "\<forall>t. current_tenant_key i = Some t \<longrightarrow> CHR ''/'' \<notin> set t"
    and "get_store ev i path stores = (r, stores')"
  shows "(request_tenant ev i = None \<longrightarrow> (\<exists>m. r = Inl (Tenant_unresolved m))) \<and>
    (\<forall>c. r = Inr c \<longrightarrow> request_tenant ev i \<noteq> None \<and>
       (case c of
          Row_ledger schema t \<Rightarrow> request_tenant ev i = Some t
        | Blob_ledger t \<Rightarrow> request_tenant ev i = Some t
        | File_ledger f \<Rightarrow>
            (case current_tenant_key i of
               None \<Rightarrow> request_tenant ev i = Some OPERATOR_TENANT \<and> f = operator_file ev path
             | Some t \<Rightarrow> request_tenant ev i = Some t \<and> path_parts f =
                 (case ev ''JARVIS_TENANT_STORE_DIR'' of
                    Some d \<Rightarrow> path_parts d
                  | None \<Rightarrow> butlast (path_parts (operator_file ev path)) @ [''tenants'']) @ [t @ ''.json''])))"
proof -
  have r: "r = map_sum id snd (store_choice ev i path)"
    using get_store_ok [OF stores_reached_ok [OF assms(1)] assms(4)] by blast
  have refused: "\<exists>m. store_choice ev i path = Inl (Tenant_unresolved m)" if "request_tenant ev i = None"
    using that by (auto simp: request_tenant_def store_choice_def split: option.splits if_splits)
  note its_file = tenants_file [OF assms(2,3), where path = path and ev = ev]
  show ?thesis
  proof (intro conjI impI allI)
    assume "request_tenant ev i = None"
    with refused r show "\<exists>m. r = Inl (Tenant_unresolved m)" by auto
  next
    fix c assume "r = Inr c"
    with r obtain k where "store_choice ev i path = Inr (k, c)"
      by (cases "store_choice ev i path") (auto simp: prod_eq_iff)
    from choice_tenant [OF this assms(2)] have req: "request_tenant ev i = Some (tenant_or (current_tenant_key i))"
      and c: "c \<in> {Blob_ledger (tenant_or (current_tenant_key i)), File_ledger (store_file ev path (current_tenant_key i))} \<union>
        range (\<lambda>schema. Row_ledger schema (tenant_or (current_tenant_key i)))" by blast+
    from req show "request_tenant ev i \<noteq> None" by simp
    from c req its_file show "case c of
          Row_ledger schema t \<Rightarrow> request_tenant ev i = Some t
        | Blob_ledger t \<Rightarrow> request_tenant ev i = Some t
        | File_ledger f \<Rightarrow>
            (case current_tenant_key i of
               None \<Rightarrow> request_tenant ev i = Some OPERATOR_TENANT \<and> f = operator_file ev path
             | Some t \<Rightarrow> request_tenant ev i = Some t \<and> path_parts f =
                 (case ev ''JARVIS_TENANT_STORE_DIR'' of
                    Some d \<Rightarrow> path_parts d
                  | None \<Rightarrow> butlast (path_parts (operator_file ev path)) @ [''tenants'']) @ [t @ ''.json''])"
      by (cases "current_tenant_key i") auto
  qed
qed

text \<open>A tenant key can name a file: it has no slash, and when the directory of the tenants' files is configured, the
  operator's own file is not the one of that name in it. (In the default directory it never is.)\<close>

definition file_key :: "environ \<Rightarrow> identity \<Rightarrow> bool" where
  "file_key ev i \<longleftrightarrow>
     (case current_tenant_key i of
        None \<Rightarrow> True
      | Some t \<Rightarrow> CHR ''/'' \<notin> set t \<and>
          (case ev ''JARVIS_TENANT_STORE_DIR'' of
             None \<Rightarrow> True
           | Some d \<Rightarrow> path_parts (operator_file ev None) \<noteq> path_parts d @ [t @ ''.json'']))"

text \<open>The store of another tenant, whether it is compared as a key or as a path.\<close>

definition stores_apart :: "store_config \<Rightarrow> store_config \<Rightarrow> bool" where
  "stores_apart c d \<longleftrightarrow>
     (case (c, d) of
        (Row_ledger s t, Row_ledger s' t') \<Rightarrow> t \<noteq> t'
      | (Blob_ledger t, Blob_ledger t') \<Rightarrow> t \<noteq> t'
      | (File_ledger f, File_ledger g) \<Rightarrow> path_parts f \<noteq> path_parts g
      | _ \<Rightarrow> True)"

lemma butlast_tenants: "xs \<noteq> butlast xs @ [a, b]"
proof
  assume "xs = butlast xs @ [a, b]"
  then have "length xs = length (butlast xs) + 2" by (metis length_append length_Cons list.size(3) numeral_2_eq_2)
  then show False by simp
qed

lemma files_apart:
  assumes "id_acting i \<noteq> Some []" "id_acting j \<noteq> Some []" "file_key ev i" "file_key ev j"
    and "tenant_or (current_tenant_key i) \<noteq> tenant_or (current_tenant_key j)"
  shows "path_parts (store_file ev None (current_tenant_key i)) \<noteq> path_parts (store_file ev None (current_tenant_key j))"
proof -
  have ne: "t \<noteq> []" if "id_acting x \<noteq> Some []" "current_tenant_key x = Some t" for x t
    using key_given [OF that(1)] that(2) by (auto simp: given_def)
  have op: "path_parts (store_file ev None None) \<noteq> path_parts (store_file ev None (Some t))"
    if "id_acting x \<noteq> Some []" "file_key ev x" "current_tenant_key x = Some t" for x t
    using that tenant_file_parts [OF ne [OF that(1,3)], of ev None] butlast_tenants [of "path_parts (operator_file ev None)" "''tenants''" "t @ ''.json''"]
    by (auto simp: file_key_def store_file_def [of ev None None] given_def split: option.splits)
  show ?thesis
  proof (cases "current_tenant_key i")
    case None
    with assms(5) obtain t where "current_tenant_key j = Some t" by (cases "current_tenant_key j") auto
    with op [OF assms(2,4)] None show ?thesis by simp
  next
    case (Some t)
    show ?thesis
    proof (cases "current_tenant_key j")
      case None
      with op [OF assms(1,3) Some] Some show ?thesis by simp
    next
      case u: (Some u)
      have "t \<noteq> u" "CHR ''/'' \<notin> set t" "CHR ''/'' \<notin> set u" using assms(3-5) Some u by (auto simp: file_key_def)
      with tenant_file_parts [OF ne [OF assms(1) Some]] tenant_file_parts [OF ne [OF assms(2) u]] Some u
      show ?thesis by simp
    qed
  qed
qed

text \<open>C36: two tenants never share a store: if two requests of one process are both served a store, and their tenants
  differ, then the stores are apart: they belong to different tenants of the database, or they are files with
  different paths, or they are of different kinds. The tenant keys must have no slash, and a configured directory of the
  tenants' files must not hold the operator's file under a tenant's name.\<close>

theorem stores_isolated:
  assumes "stores_reached ev stores" "stores_reached ev stores'"
    and "id_acting i \<noteq> Some []" "id_acting j \<noteq> Some []" "file_key ev i" "file_key ev j"
    and "fst (get_store ev i None stores) = Inr c" "fst (get_store ev j None stores') = Inr d"
    and "request_tenant ev i \<noteq> request_tenant ev j"
  shows "c \<noteq> d \<and> stores_apart c d"
proof -
  have choice: "\<exists>k. store_choice ev x None = Inr (k, e)" if st: "stores_reached ev st" and g: "fst (get_store ev x None st) = Inr e" for x st e
  proof -
    obtain st' where "get_store ev x None st = (Inr e, st')" using g by (metis prod.collapse)
    from get_store_ok [OF stores_reached_ok [OF st] this] show ?thesis
      by (cases "store_choice ev x None") auto
  qed
  obtain k l where kl: "store_choice ev i None = Inr (k, c)" "store_choice ev j None = Inr (l, d)"
    using choice assms(1,2,7,8) by metis
  note I = choice_tenant [OF kl(1) assms(3)] and J = choice_tenant [OF kl(2) assms(4)]
  have ne: "tenant_or (current_tenant_key i) \<noteq> tenant_or (current_tenant_key j)" using I J assms(9) by auto
  note files = files_apart [OF assms(3-6) ne]
  have apart: "stores_apart c d" using I J ne files by (auto simp: stores_apart_def)
  moreover have "\<not> stores_apart c c" by (cases c) (simp_all add: stores_apart_def)
  ultimately show ?thesis by auto
qed

definition rows_env :: environ where
  "rows_env = [''JARVIS_DATABASE_URL'' \<mapsto> ''postgresql://db'']"

definition acting :: "string \<Rightarrow> identity" where
  "acting t = \<lparr>id_principal = Some operator_principal, id_acting = Some t\<rparr>"

definition row_mode :: "environ \<Rightarrow> bool" where
  "row_mode ev \<longleftrightarrow> strip (env_text ev ''JARVIS_DATABASE_URL'') \<noteq> [] \<and>
     ascii_lower (strip (if env_text ev ''JARVIS_PG_STORE'' = [] then ''rows'' else env_text ev ''JARVIS_PG_STORE'')) = ''rows''"

lemma acting_key: "tenant_or (current_tenant_key (acting t)) = (if t = [] then OPERATOR_TENANT else t)"
  by (simp add: current_tenant_key_def acting_def tenant_or_def given_def)

lemma row_choice:
  assumes "row_mode ev"
  shows "store_choice ev (acting t) path =
    (let u = (if t = [] then OPERATOR_TENANT else t); schema = strip (env_text ev ''JARVIS_DATABASE_SCHEMA'')
     in Inr (''postgres-rows:'' @ schema @ '':'' @ u, Row_ledger schema u))"
proof -
  have "is_operator (acting t)" by (simp add: is_operator_def acting_def operator_principal_def)
  with assms show ?thesis unfolding store_choice_def row_mode_def Let_def acting_key by simp
qed

lemma rows_env_texts: "env_text rows_env ''JARVIS_DATABASE_URL'' = ''postgresql://db''" "env_text rows_env ''JARVIS_PG_STORE'' = []"
    "env_text rows_env ''JARVIS_DATABASE_SCHEMA'' = []"
  by (simp_all add: rows_env_def env_text_def)

lemma rows_env_mode: "row_mode rows_env" "strip (env_text rows_env ''JARVIS_DATABASE_SCHEMA'') = []"
  unfolding row_mode_def rows_env_texts by (simp_all add: strip_ends graphic_def ascii_lower_def)

lemma rows_env_stores:
  "get_store rows_env (acting ''a'') None [] = (Inr (Row_ledger [] ''a''), [(''postgres-rows::a'', Row_ledger [] ''a'')])"
  "get_store rows_env (acting ''b'') None [] = (Inr (Row_ledger [] ''b''), [(''postgres-rows::b'', Row_ledger [] ''b'')])"
  by (simp_all add: get_store_def row_choice rows_env_mode Let_def)

theorem store_is_the_tenants_witness:
  "request_tenant rows_env (acting ''a'') = Some ''a'' \<and> get_store rows_env (acting ''a'') None [] =
     (Inr (Row_ledger [] ''a''), [(''postgres-rows::a'', Row_ledger [] ''a'')])"
proof -
  have "id_acting (acting ''a'') \<noteq> Some []" by (simp add: acting_def)
  moreover have "\<forall>t. current_tenant_key (acting ''a'') = Some t \<longrightarrow> CHR ''/'' \<notin> set t"
    by (simp add: current_tenant_key_def acting_def OPERATOR_TENANT_def)
  ultimately show ?thesis
    using store_is_the_tenants [OF stores_reached.none_yet _ _ rows_env_stores(1)] rows_env_stores(1) by simp
qed

lemma acting_ne: "id_acting (acting ''a'') \<noteq> Some []" "id_acting (acting ''b'') \<noteq> Some []"
  by (simp_all add: acting_def)

lemma acting_keys: "file_key rows_env (acting ''a'')" "file_key rows_env (acting ''b'')"
    "request_tenant rows_env (acting ''a'') \<noteq> request_tenant rows_env (acting ''b'')"
  by code_simp+

theorem stores_isolated_witness:
  "Row_ledger [] ''a'' \<noteq> Row_ledger [] ''b'' \<and> fst (get_store rows_env (acting ''a'') None []) = Inr (Row_ledger [] ''a'')"
  using stores_isolated [OF stores_reached.none_yet stores_reached.none_yet acting_ne acting_keys(1,2) _ _ acting_keys(3)]
  by (simp add: rows_env_stores)

section \<open>Lists of tenants\<close>

definition add_tenant :: "string list \<Rightarrow> string \<Rightarrow> string list" where
  "add_tenant seen part = (let t = strip part in if t \<noteq> [] \<and> t \<notin> set seen then seen @ [t] else seen)"

lemma add_tenants: "distinct seen \<Longrightarrow> [] \<notin> set seen \<Longrightarrow>
    distinct (foldl add_tenant seen parts) \<and> [] \<notin> set (foldl add_tenant seen parts) \<and>
    set (foldl add_tenant seen parts) = set seen \<union> (strip ` set parts - {[]})"
proof (induction parts arbitrary: seen)
  case (Cons p ps)
  have "distinct (add_tenant seen p)" "[] \<notin> set (add_tenant seen p)" "set (add_tenant seen p) = set seen \<union> ({strip p} - {[]})"
    using Cons.prems by (auto simp: add_tenant_def Let_def)
  with Cons.IH [of "add_tenant seen p"] show ?case by auto
qed simp

lemma parse_tenants_ok:
  "distinct (parse_tenants text)" "[] \<notin> set (parse_tenants text)"
  "set (parse_tenants text) = strip ` set (split_on (CHR '','') text) - {[]}"
proof -
  have "parse_tenants text = sort_key (\<lambda>t. if t = OPERATOR_TENANT then 0 else (1::nat)) (foldl add_tenant [] (split_on (CHR '','') text))"
    by (simp add: parse_tenants_def add_tenant_def [abs_def] Let_def)
  then show "distinct (parse_tenants text)" "[] \<notin> set (parse_tenants text)"
    "set (parse_tenants text) = strip ` set (split_on (CHR '','') text) - {[]}"
    using add_tenants [of "[]" "split_on (CHR '','') text"] by simp_all
qed

section \<open>Sealing in a job\<close>

lemma seal_loop_committed: "seal_loop n s a reason acc db = Inr (x, db') \<Longrightarrow> seal_committed n s a db = db'"
  by (induction n arbitrary: reason acc db)
    (auto split: sum.splits prod.splits option.splits)

text \<open>What sealing for tenant \<open>t\<close> may do to the ledger.\<close>

definition only_sealed :: "(mem_row \<Rightarrow> string) \<Rightarrow> string \<Rightarrow> ledger_db \<Rightarrow> ledger_db \<Rightarrow> bool" where
  "only_sealed jtext t db db' \<longleftrightarrow>
     (reachable jtext db \<longrightarrow> reachable jtext db') \<and> memories db' = memories db \<and> history db' = history db \<and>
     counters db' = counters db \<and> heads db' = heads db \<and> (\<forall>u. u \<noteq> t \<longrightarrow> tenant_blocks db' u = tenant_blocks db u)"

lemma only_sealed_refl: "only_sealed jtext t db db"
  by (simp add: only_sealed_def)

lemma only_sealed_trans: "only_sealed jtext t a b \<Longrightarrow> only_sealed jtext t b c \<Longrightarrow> only_sealed jtext t a c"
  by (simp add: only_sealed_def)

lemma seal_block_only:
  assumes "jarvis_seal_block s isolation (s_tenant s) a db = Inr (r, db')"
  shows "only_sealed jtext (s_tenant s) db db'"
proof -
  note step = step_seal [OF assms]
  have "memories db' = memories db \<and> history db' = history db \<and> counters db' = counters db \<and> heads db' = heads db"
    using seal_cases [OF assms] by auto
  moreover have "tenant_blocks db' u = tenant_blocks db u" if "u \<noteq> s_tenant s" for u
    using seal_grows [OF assms] that by (auto simp: grows_def tenant_blocks_def filter_empty_conv)
  ultimately show ?thesis using reach_step [OF _ step] by (simp add: only_sealed_def)
qed

lemma seal_committed_only: "only_sealed jtext (s_tenant s) db (seal_committed n s a db)"
proof (induction n arbitrary: db)
  case 0
  show ?case by (simp add: only_sealed_refl)
next
  case (Suc n)
  show ?case
  proof (cases "jarvis_seal_block s ''read committed'' (s_tenant s) a db")
    case (Inl e)
    then show ?thesis by (simp add: only_sealed_refl)
  next
    case (Inr rd)
    obtain r db' where rd: "rd = (r, db')" by (cases rd)
    note step = seal_block_only [OF Inr [unfolded rd], of jtext]
    show ?thesis using step Inr rd Suc.IH [of db'] only_sealed_trans [OF step]
      by (auto split: option.splits)
  qed
qed

lemma seal_blocks_only:
  assumes "seal_blocks s a n db = Inr (x, db')"
  shows "only_sealed jtext (s_tenant s) db db'"
proof -
  from assms obtain y where "seal_loop (nat (max 1 n)) s a ''nothing new to seal'' [] db = Inr (y, db')"
    by (auto simp: seal_blocks_def split: sum.splits)
  then show ?thesis using seal_loop_committed seal_committed_only by metis
qed

lemma only_sealed_head:
  assumes "only_sealed jtext t db db'" "u \<noteq> t"
  shows "block_head db' u = block_head db u" "history_seq db' u = history_seq db u"
  using assms by (simp_all add: only_sealed_def block_head_def tip_block_def tenant_entries_def history_seq_def)

text \<open>One tenant of a job.\<close>

lemma seal_one_cases:
  assumes "row_mode ev" "stores_ok ev (jb_stores s)" "t \<noteq> []" "seal_one ev outage now force t (acting t) s = (r, s')"
  shows "stores_ok ev (jb_stores s') \<and> only_sealed jtext t (jb_ledger s) (jb_ledger s') \<and>
    (\<forall>bs reason head db'. outage t = None \<and>
       seal_blocks (tenant_session t now) (job_seal_args force) 20 (jb_ledger s) = Inr ((bs, reason, head), db') \<longrightarrow>
       jb_ledger s' = db' \<and> r = Inr \<lparr>sl_sealed = map (\<lambda>b. (b_height b, b_hash b)) bs, sl_reason = reason, sl_head = head\<rparr>)"
proof -
  obtain g st where g: "get_store ev (acting t) None (jb_stores s) = (g, st)" by (cases "get_store ev (acting t) None (jb_stores s)")
  note ok = get_store_ok [OF assms(2) g]
  obtain schema where "g = Inr (Row_ledger schema t)" using ok row_choice [OF assms(1), of t None] assms(3) by (auto simp: Let_def)
  note g = g [unfolded this]
  have t: "s_tenant (tenant_session t now) = t" by (simp add: tenant_session_def)
  note committed = seal_committed_only [of jtext "tenant_session t now", unfolded t]
  show ?thesis
  proof (cases "outage t")
    case (Some km)
    then show ?thesis using assms(4) g ok committed by (cases km) (auto simp: seal_one_def Let_def)
  next
    case None
    show ?thesis
    proof (cases "seal_blocks (tenant_session t now) (job_seal_args force) 20 (jb_ledger s)")
      case (Inl e)
      then show ?thesis using assms(4) g ok None committed by (auto simp: seal_one_def Let_def)
    next
      case (Inr y)
      obtain bs reason head db' where y: "y = ((bs, reason, head), db')" by (cases y) auto
      show ?thesis using assms(4) g ok None Inr y seal_blocks_only [OF Inr [unfolded y], of jtext]
        by (auto simp: seal_one_def t)
    qed
  qed
qed

lemma acting_for_acting: "acting_for t op i = op (acting t)"
  by (cases i) (simp add: acting_for_def acting_def)

lemma report_shape:
  "run_for_tenants op ts i s = ((results, failed), s') \<Longrightarrow>
     map tr_tenant results = ts \<and> failed = map tr_tenant (filter (\<lambda>r. isl (tr_result r)) results)"
proof (induction ts arbitrary: s s' results failed)
  case (Cons t ts)
  obtain r s1 where r: "acting_for t (op t) i s = (r, s1)" by (cases "acting_for t (op t) i s")
  obtain rs fs s2 where rest: "run_for_tenants op ts i s1 = ((rs, fs), s2)" by (metis prod.collapse)
  show ?case using Cons.prems r rest Cons.IH [OF rest] by (cases r) auto
qed simp

text \<open>A tenant that has history, a key the database can record, and no more unsealed than one run seals.\<close>

definition sealable :: "ledger_db \<Rightarrow> string \<Rightarrow> bool" where
  "sealable db t \<longleftrightarrow> char_length t \<in> {1..128} \<and> history_seq db t > 0 \<and> bh_unsealed (block_head db t) \<le> 200000"

lemma seal_one_complete:
  assumes "row_mode ev" "stores_ok ev (jb_stores s)" "t \<noteq> []" "seal_one ev outage now True t (acting t) s = (r, s')"
    and "reachable jtext (jb_ledger s)" "sealable (jb_ledger s) t" "outage t = None"
  shows "\<not> isl r \<and> bh_unsealed (block_head (jb_ledger s') t) = 0"
proof -
  let ?S = "tenant_session t now" and ?a = "job_seal_args True"
  have S: "s_tenant ?S = t" "s_actor ?S = t" by (simp_all add: tenant_session_def)
  have "\<exists>bs reason head db'. seal_blocks ?S ?a 20 (jb_ledger s) = Inr ((bs, reason, head), db') \<and> bh_unsealed head = 0 \<and>
      bh_sealed_seq head = history_seq (jb_ledger s) (s_tenant ?S) \<and>
      tenant_blocks db' (s_tenant ?S) = tenant_blocks (jb_ledger s) (s_tenant ?S) @ bs \<and>
      history db' = history (jb_ledger s) \<and> memories db' = memories (jb_ledger s) \<and> jarvis_verify_blocks db' (s_tenant ?S) = []"
    using assms(3,6) by (intro seal_blocks_complete [OF assms(5)]) (simp_all add: S sealable_def job_seal_args_def)
  then obtain bs reason head db' where b: "seal_blocks ?S ?a 20 (jb_ledger s) = Inr ((bs, reason, head), db')" "bh_unsealed head = 0"
    by blast
  then have "head = block_head db' t" using S by (auto simp: seal_blocks_def split: sum.splits)
  with b assms(7) seal_one_cases [OF assms(1-4)] show ?thesis by auto
qed

text \<open>What a job leaves of the ledger.\<close>

definition job_only_sealed :: "(mem_row \<Rightarrow> string) \<Rightarrow> string list \<Rightarrow> ledger_db \<Rightarrow> ledger_db \<Rightarrow> bool" where
  "job_only_sealed jtext ts db db' \<longleftrightarrow>
     (reachable jtext db \<longrightarrow> reachable jtext db') \<and> memories db' = memories db \<and> history db' = history db \<and>
     (\<forall>u. u \<notin> set ts \<longrightarrow> tenant_blocks db' u = tenant_blocks db u \<and> block_head db' u = block_head db u) \<and>
     (\<forall>u. history_seq db' u = history_seq db u)"

lemma seal_tenants:
  assumes "row_mode ev" "stores_ok ev (jb_stores s)" "distinct ts" "[] \<notin> set ts" "reachable jtext (jb_ledger s)"
    and "run_for_tenants (seal_one ev outage now True) ts i s = ((results, failed), s')"
  shows "job_only_sealed jtext ts (jb_ledger s) (jb_ledger s') \<and>
    (\<forall>t \<in> set ts. sealable (jb_ledger s) t \<and> outage t = None \<longrightarrow> t \<notin> set failed \<and> bh_unsealed (block_head (jb_ledger s') t) = 0)"
  using assms(2-6)
proof (induction ts arbitrary: s s' results failed)
  case Nil
  then show ?case by (simp add: job_only_sealed_def)
next
  case (Cons t ts)
  obtain r s1 where r: "seal_one ev outage now True t (acting t) s = (r, s1)" by (cases "seal_one ev outage now True t (acting t) s")
  obtain rs fs s2 where rest: "run_for_tenants (seal_one ev outage now True) ts i s1 = ((rs, fs), s2)" by (metis prod.collapse)
  have t: "t \<noteq> []" "t \<notin> set ts" "distinct ts" "[] \<notin> set ts" using Cons.prems(2,3) by auto
  note one = seal_one_cases [OF assms(1) Cons.prems(1) t(1) r, of jtext]
  then have only: "only_sealed jtext t (jb_ledger s) (jb_ledger s1)" by blast
  have "reachable jtext (jb_ledger s1)" using only Cons.prems(4) by (simp add: only_sealed_def)
  with Cons.IH [OF _ t(3,4) _ rest] one
  have IH: "job_only_sealed jtext ts (jb_ledger s1) (jb_ledger s2)"
    "\<And>u. u \<in> set ts \<Longrightarrow> sealable (jb_ledger s1) u \<Longrightarrow> outage u = None \<Longrightarrow> u \<notin> set fs \<and> bh_unsealed (block_head (jb_ledger s2) u) = 0" by simp_all
  have out: "s' = s2" "failed = (if isl r then t # fs else fs)"
    using Cons.prems(5) r rest by (auto simp: acting_for_acting split: sum.splits)
  have "set fs \<subseteq> set ts" using report_shape [OF rest] by auto
  then have self: "t \<notin> set fs" using t(2) by blast
  have job: "job_only_sealed jtext (t # ts) (jb_ledger s) (jb_ledger s')"
    using only IH(1) only_sealed_head [OF only] out(1)
    by (auto simp: job_only_sealed_def only_sealed_def history_seq_def)
  moreover have "u \<notin> set failed \<and> bh_unsealed (block_head (jb_ledger s') u) = 0" if u: "u \<in> set (t # ts)" "sealable (jb_ledger s) u" "outage u = None" for u
  proof (cases "u = t")
    case True
    with seal_one_complete [OF assms(1) Cons.prems(1) t(1) r Cons.prems(4)] u(2,3)
    have "\<not> isl r" "bh_unsealed (block_head (jb_ledger s1) t) = 0" by simp_all
    with True self t(2) IH(1) out show ?thesis by (simp add: job_only_sealed_def)
  next
    case False
    then have "sealable (jb_ledger s1) u" using u(2) only_sealed_head [OF only] by (simp add: sealable_def)
    with IH(2) False u(1,3) out show ?thesis by simp
  qed
  ultimately show ?case by blast
qed

text \<open>C39: one tenant cannot break the others: a forced sealing job over any list of tenants reports each tenant of the
  list once, in the parsed order, and names exactly the failed ones; it changes no record, no history and no block of a
  tenant outside the list, keeps the ledger reachable (so every verifier stays silent), and every tenant of the list that
  can be sealed and whose own store stays available is sealed completely, whatever happens to the others (their stores
  may become unavailable at any point).\<close>

theorem seal_job_complete:
  assumes "reachable jtext (jb_ledger s)" "stores_reached (use_the_migrator_role ev) (jb_stores s)" "row_mode (use_the_migrator_role ev)"
    and "seal_job ev outage now True (parse_tenants text) i s = ((results, failed), s')"
  shows "map tr_tenant results = parse_tenants text \<and> failed = map tr_tenant (filter (\<lambda>r. isl (tr_result r)) results) \<and>
    reachable jtext (jb_ledger s') \<and> memories (jb_ledger s') = memories (jb_ledger s) \<and> history (jb_ledger s') = history (jb_ledger s) \<and>
    (\<forall>u. u \<notin> set (parse_tenants text) \<longrightarrow> tenant_blocks (jb_ledger s') u = tenant_blocks (jb_ledger s) u) \<and>
    (\<forall>t \<in> set (parse_tenants text). sealable (jb_ledger s) t \<and> outage t = None \<longrightarrow> t \<notin> set failed \<and> bh_unsealed (block_head (jb_ledger s') t) = 0)"
proof -
  note run = assms(4) [unfolded seal_job_def]
  note sealed = seal_tenants [OF assms(3) stores_reached_ok [OF assms(2)] parse_tenants_ok(1,2) assms(1) run]
  from report_shape [OF run] sealed assms(1) show ?thesis by (simp add: job_only_sealed_def)
qed

lemma sample_sealable: "sealable (sample_db jtext) ''operator''"
proof -
  have h: "history_seq (sample_db jtext) ''operator'' = 1" by (simp add: history_seq_def sample_entries(2))
  then have "bh_unsealed (block_head (sample_db jtext) ''operator'') = 1"
    by (simp add: block_head_def Let_def tip_block_def tenant_blocks_def sample_entries)
  with h show ?thesis by (simp add: sealable_def char_length_def)
qed

lemma sample_tenants: "parse_tenants ''operator,'' = [''operator'']"
  by (simp add: parse_tenants_def strip_ends graphic_def)

lemma sample_role: "row_mode (use_the_migrator_role rows_env)"
proof -
  have "env_text rows_env ''JARVIS_DATABASE_MIGRATE_URL'' = []" "rows_env ''JARVIS_PG_STORE'' = None"
    by (simp_all add: rows_env_def env_text_def)
  then have "use_the_migrator_role rows_env = rows_env(''JARVIS_PG_STORE'' \<mapsto> ''rows'')"
    unfolding use_the_migrator_role_def Let_def by simp
  moreover have "env_text (rows_env(''JARVIS_PG_STORE'' \<mapsto> ''rows'')) ''JARVIS_DATABASE_URL'' = ''postgresql://db''"
    "env_text (rows_env(''JARVIS_PG_STORE'' \<mapsto> ''rows'')) ''JARVIS_PG_STORE'' = ''rows''"
    by (simp_all add: rows_env_def env_text_def)
  ultimately show ?thesis unfolding row_mode_def by (simp add: strip_ends graphic_def ascii_lower_def)
qed

theorem seal_job_complete_witness:
  "\<exists>results failed s'. seal_job rows_env (\<lambda>_. None) 10 True (parse_tenants ''operator,'') (acting ''a'')
       \<lparr>jb_stores = [], jb_ledger = sample_db (\<lambda>_. ''{}'')\<rparr> = ((results, failed), s') \<and>
     map tr_tenant results = [''operator''] \<and> failed = [] \<and> bh_unsealed (block_head (jb_ledger s') ''operator'') = 0"
proof -
  let ?s = "\<lparr>jb_stores = [], jb_ledger = sample_db (\<lambda>_. ''{}'')\<rparr>"
  obtain results failed s' where j: "seal_job rows_env (\<lambda>_. None) 10 True (parse_tenants ''operator,'') (acting ''a'') ?s = ((results, failed), s')"
    by (metis prod.collapse)
  have "reachable (\<lambda>_. ''{}'') (jb_ledger ?s)" "stores_reached (use_the_migrator_role rows_env) (jb_stores ?s)"
    by (simp_all add: sample_reachable stores_reached.none_yet)
  note all = seal_job_complete [OF this sample_role j, unfolded sample_tenants]
  then have shape: "map tr_tenant results = [''operator'']" "failed = map tr_tenant (filter (\<lambda>r. isl (tr_result r)) results)"
    by blast+
  have "sealable (jb_ledger ?s) ''operator''" "''operator'' \<in> set [''operator'']" by (simp_all add: sample_sealable)
  with all have sealed: "''operator'' \<notin> set failed" "bh_unsealed (block_head (jb_ledger s') ''operator'') = 0" by blast+
  from shape obtain r where r: "results = [r]" "tr_tenant r = ''operator''" by (cases results) auto
  have none: "failed = []" using sealed(1) unfolding shape(2) r(1) by (cases "isl (tr_result r)") (simp_all add: r(2))
  show ?thesis by (intro exI conjI, rule j, rule shape(1), rule none, rule sealed(2))
qed

end
