(* ===== verification/Spec2Isabelle.thy ===== *)
theory Spec2Isabelle
  imports Replay_Theorems Attest_Store_Theorems Receipts_Theorems Call_Log_Theorems Evidence_Backends Tenancy_Theorems
begin

text \<open>
  A verification development for the Continuity Ledger (\<^verbatim>\<open>src/app\<close>): a per-tenant memory ledger on PostgreSQL
  whose history is hash-chained and sealed in blocks, with replay, signatures, evidence objects, a write gate, a
  tool-call log, search, and a JSON file store for local use.

  \<^bold>\<open>The program and its parts.\<close> A request is bound to an identity, which selects a store (\<^verbatim>\<open>identity.py\<close>,
  \<^verbatim>\<open>store.py\<close>). The row store (\<^verbatim>\<open>pg_store.py\<close>) runs statements on tables whose triggers and functions
  (\<^verbatim>\<open>pg_schema.py\<close>) capture every change as a hash-chained history entry and seal ranges of it as blocks
  (\<^verbatim>\<open>blocks.py\<close>). Verifiers recompute all of it (\<^verbatim>\<open>pg_verify.py\<close>). A write passes the evidence checks
  (\<^verbatim>\<open>evidence.py\<close>) and the Clause V gate (\<^verbatim>\<open>clause_v.py\<close>). Replay (\<^verbatim>\<open>replay.py\<close>) rebuilds the records at
  any position and issues receipts. Blocks, receipts and checkpoints are signed with OpenSSH keys whose authority comes
  from a log of trust statements (\<^verbatim>\<open>attest.py\<close>). Reading selects, pages and ranks records (\<^verbatim>\<open>continuity.py\<close>,
  \<^verbatim>\<open>emr_latest.py\<close>, \<^verbatim>\<open>ledger_search.py\<close>). Every tool call is recorded in the call log (\<^verbatim>\<open>call_log.py\<close>).
  Jobs run over all tenants (\<^verbatim>\<open>tenant_jobs.py\<close>).

  \<^bold>\<open>Theories.\<close>

  \<^item> \<open>Ledger_Prelude\<close>: text as UTF-8 bytes, decimal and hexadecimal rendering, sums as results, association lists.
    \<open>Sha256\<close>: SHA-256 on 32-bit words. \<open>Hash_Chain\<close>: the locale \<open>hash_chain\<close>, the contract of every log here,
    interpreted on the sealed blocks (\<open>Anchors\<close>), the verified and the stored attestations and the trust statements
    (\<open>Attest_Log\<close>, \<open>Attest_Store_Theorems\<close>) and the call log (\<open>Call_Log_Inv\<close>).
  \<^item> \<open>Blocks\<close>: Merkle roots and block hashes, in Python and in SQL; the two algorithms agree and bind their input.
  \<^item> \<open>Ledger_Db\<close>: the tables as lists of rows, the triggers, and \<open>INSERT\<close>, \<open>UPDATE\<close> and \<open>DELETE\<close> with checks,
    row-level security, keys and the capture of history; its invariant \<open>db_inv\<close>. \<open>History_Verify\<close>: the history
    verifier is silent exactly on sound histories. \<open>Block_Store\<close>: sealing, the two block verifiers, the block reads.
    \<open>Ledger_Steps\<close>: the database as a step relation, its reachable states, and what holds in all of them.
    \<open>Anchors\<close>: what one block hash kept elsewhere fixes.
  \<^item> \<open>Replay\<close>, \<open>Replay_Theorems\<close>: state roots, the offline fold, the served replay, and the verifier; replaying a
    position gives the records that were live then. \<open>Receipts\<close>, \<open>Receipts_Theorems\<close>: receipts and replay events;
    an issued receipt re-derives on every later state.
  \<^item> \<open>Sshsig\<close>, \<open>Sshsig_Theorems\<close>: Base64, the SSH wire format, key lines, armoured signatures. \<open>Attest\<close>:
    attestations, trust statements and the evaluation of both logs as folds. \<open>Attest_Trust\<close>, \<open>Attest_Log\<close>: belief
    goes back to pinned roots, revocation is permanent, what counts as signed is. \<open>Attest_Store\<close>,
    \<open>Attest_Store_Theorems\<close>: the signing tables and the store operations on them.
  \<^item> \<open>Evidence\<close>, \<open>Evidence_Json\<close>, \<open>Evidence_Theorems\<close>: JSON values, canonical text, content addresses, requests and
    links. \<open>Json_Parse\<close>: \<open>json.loads\<close>, which reads back what \<open>dumps\<close> writes. \<open>Clause_V\<close>: requests, records and the
    write gate. \<open>Row_Store\<close>, \<open>Row_Store_Theorems\<close>, \<open>Row_Store_Witnesses\<close>: creating, updating and deleting records
    under interference by other sessions.
  \<^item> \<open>Retrieval\<close>, \<open>Retrieval_Theorems\<close>: filtered lists, selection reasons, conflicts. \<open>Search\<close>: tokens, phrase search
    (Knuth-Morris-Pratt) and scores. \<open>Latest\<close>, \<open>Latest_Theorems\<close>: signed cursors, newest-first pages, ranked search.
  \<^item> \<open>File_Store\<close>, \<open>File_Store_Theorems\<close>: the JSON store, with saves that may fail; memory never leads the file, and
    its pages are those of the row store. \<open>Json_Spaced\<close>, \<open>Evidence_File\<close>: \<open>json.dumps\<close> with its default separators, and
    the file of Evidence Objects as bytes: its lines, its decoding and every way a read can fail. \<open>Evidence_Backends\<close>: the
    locale \<open>evidence_backend\<close>, the contract of an evidence store (its states, its requests, the form of what it hands
    back), interpreted on the row store and on the file store.
  \<^item> \<open>Tenancy\<close>, \<open>Tenancy_Theorems\<close>: identities, the choice of the store (\<open>operator_file\<close> and \<open>store_file\<close> are the two
    file names of \<open>get_store\<close>), jobs over tenants, whose stores may become unavailable at any point (\<open>outages\<close>).
  \<^item> \<open>Call_Log\<close>: the log of one directory, from recording to verification. \<open>Call_Log_Text\<close>, \<open>Call_Log_Inv\<close>,
    \<open>Call_Log_Runs\<close>, \<open>Call_Log_Theorems\<close>: lines and files, the invariant, all runs, the properties.
\<close>

text \<open>
  \<^bold>\<open>How state and operations correspond.\<close> A table is the list of its rows, a dictionary whose order matters an
  association list, an exception the left side of a sum, a transaction one function on the state. Where the code lets
  other sessions run between two transactions, what they do is an argument (\<open>interference\<close>). The clock, random ids, the
  environment, which saves and appends succeed and how much of an entry or of an evidence line is written are arguments,
  so a theorem quantifies over them. A \<open>DELETE\<close> records its own history entry before those of the records whose
  \<open>supersedes\<close> it sets to null, as PostgreSQL fires the triggers. A step relation (\<open>db_step\<close>, \<open>store_run\<close>, \<open>sig_step\<close>, the runs of the call log, \<open>js_run\<close>) closes a
  component's operations under any order.

  \<^bold>\<open>Hashes.\<close> SHA-256 is computed, not assumed; that two different texts have the same digest is excluded only for the
  finitely many texts a theorem names, or appears in its conclusion as the alternative.

  \<^bold>\<open>Loops, bounds and fuel.\<close> The update loop runs over the five attempts of \<open>MAX_UPDATE_ATTEMPTS\<close>, record ids are tried
  three times, sealing runs \<open>max_blocks\<close> rounds, as in the source. The phrase search is a loop that need not end,
  and \<open>contains_run_iff\<close> says that it does. The fuel of \<open>loads\<close> is twice the length of the text plus two, more than its
  calls, each of which consumes a byte or descends one level. \<open>latest_walk\<close> reads as many pages as asked; one more than
  there are matching records is enough (\<open>latest_pages\<close>). The text limits of \<open>evidence.py\<close> (bytes, nodes, depth) are the
  source's.

  \<^bold>\<open>Parameters.\<close> \<open>pylib\<close>: \<open>repr\<close>, \<open>datetime.fromisoformat\<close>, \<open>str.lower\<close> beyond ASCII, the text of a
  \<open>ValueError\<close>, and what reading evidence back takes for a float, an integer field and a time. \<open>sshlib\<close>: the Ed25519 primitive of the \<open>cryptography\<close> package, and printed bytes. \<open>soft_rules\<close>: what
  the regular expressions of the soft rules find. \<open>ts_lib\<close>, \<open>isot\<close>: the text of an instant. \<open>cl_lib\<close>: the calendar and
  the floats of the call log. \<open>jtext\<close>: the text PostgreSQL renders for a row. Where a theorem needs more of them than
  that they are functions, it says so in a hypothesis, and a witness gives an instance.

  \<^bold>\<open>Not modelled.\<close> \<^verbatim>\<open>main.py\<close> and the middlewares (\<^verbatim>\<open>auth.py\<close>, \<^verbatim>\<open>oauth.py\<close>, \<^verbatim>\<open>key_auth.py\<close>,
  \<^verbatim>\<open>public_security.py\<close>, \<^verbatim>\<open>call_witness.py\<close>, \<^verbatim>\<open>refusal.py\<close>), the commands (\<^verbatim>\<open>signer.py\<close>, \<^verbatim>\<open>witness.py\<close>,
  \<^verbatim>\<open>tenant_keys.py\<close>, \<^verbatim>\<open>pg_import.py\<close>, \<^verbatim>\<open>pg_migrate.py\<close>), and the MCP servers are plumbing around HTTP, JWT,
  processes and SQL. The recall scores (\<^verbatim>\<open>emr.py\<close> and its evaluation, \<^verbatim>\<open>amul\<close>) are floating-point formulas, the
  drift watcher is a set of regular expressions, the graph is \<open>networkx\<close>, and \<^verbatim>\<open>agent-hooks\<close>, \<^verbatim>\<open>scripts\<close> and
  \<^verbatim>\<open>deploy\<close> are older copies, test drivers and shell. Of the modelled files: the schema's grants and the rest of its
  migrations, readiness checks and pools; the fallback to the \<^verbatim>\<open>ssh-keygen\<close> program; the JSONB store; what
  \<open>pydantic\<close> accepts; of the call log, file locks, reader slots, pinned descriptors, several prefixes and errors while
  deleting old files. Digits and case folding are ASCII where the source asks Unicode; invalid UTF-8 (but for the
  evidence file, which is decoded strictly), byte order marks, the recursion limit and the limit on the digits of an
  integer are not modelled. A lone surrogate in an escape is kept as the three bytes of its code point, where
  Python raises when it encodes it later; \<open>evidence_written_once\<close> asks for lines of valid UTF-8. Hours and sizes that the
  source keeps as floats are integers.
\<close>

end
